(* ===== verification/Prelude.thy ===== *)
theory Prelude
  imports Main "HOL-Library.Word" "HOL-Library.Monad_Syntax"
begin

text \<open>
  Shared vocabulary of the SysX development: the machine types of the i386 target
  (\<open>size_t\<close> and \<open>uintptr_t\<close> are 32 bits wide there), the collections of rewrite rules the
  component theories use, and the generic facts about words, lists and linear scans that several
  components need.
\<close>

unbundle bit_operations_syntax

type_synonym u8 = "8 word"
type_synonym u16 = "16 word"
type_synonym u32 = "32 word"
type_synonym u64 = "64 word"

text \<open>Byte-addressed flat memory, indexed by a 32-bit address.\<close>

type_synonym mem = "u32 \<Rightarrow> u8"

text \<open>\<open>(size_t) -1\<close>, the failure value of most allocation routines.\<close>

abbreviation size_max :: u32 where
  "size_max \<equiv> - 1"

named_theorems scan_simps \<comment> \<open>facts about the linear scans of tables\<close>
named_theorems addr_simps \<comment> \<open>facts about address arithmetic on 32-bit words\<close>

section \<open>Words\<close>

lemma unat_add_no_wrap [addr_simps]:
  fixes p :: "'a::len word"
  assumes "unat p + n < 2 ^ LENGTH('a)"
  shows "unat (p + of_nat n) = unat p + n"
  using assms by (simp add: unat_word_ariths unat_of_nat)

lemma of_nat_inj_no_wrap [addr_simps]:
  assumes "i < 2 ^ LENGTH('a::len)" and "j < 2 ^ LENGTH('a)"
  shows "(of_nat i = (of_nat j :: 'a word)) = (i = j)"
  using assms by (simp add: word_of_nat_eq_iff take_bit_nat_eq_self)

lemma offset_eq_iff [addr_simps]:
  fixes p :: "'a::len word"
  assumes "i < 2 ^ LENGTH('a)" and "j < 2 ^ LENGTH('a)"
  shows "(p + of_nat i = p + of_nat j) = (i = j)"
  using of_nat_inj_no_wrap [OF assms] by simp

lemma unat_diff_offset [addr_simps]:
  fixes p q :: "'a::len word"
  assumes "p \<le> q"
  shows "unat (q - p) = unat q - unat p"
  using assms by (simp add: unat_sub)

lemma word_less_two_power:
  fixes w :: "'a::len word"
  shows "unat w < 2 ^ LENGTH('a)"
  by (rule unsigned_less)

lemma unat_u32_less [simp]: "unat (w :: u32) < 4294967296"
  using unsigned_less [of w, where ?'a = nat] by simp

lemma unat_u8_less [simp]: "unat (b :: u8) < 256"
  using unsigned_less [of b, where ?'a = nat] by simp

lemma unat_of_nat_u32 [addr_simps]: "k < 2 ^ 32 \<Longrightarrow> unat (of_nat k :: u32) = k"
  by (simp add: unat_of_nat take_bit_nat_eq_self)

lemma offset_unat_iff: "k < 2 ^ 32 \<Longrightarrow> (a = d + of_nat k) = (unat (a - d) = k)" for a d :: u32
proof
  assume "k < 2 ^ 32" and "a = d + of_nat k"
  then show "unat (a - d) = k" by (simp add: unat_of_nat_u32)
next
  assume "unat (a - d) = k"
  then have "of_nat k = a - d" by auto
  then show "a = d + of_nat k" by simp
qed

lemma unat_size_max [simp]: "unat size_max = 4294967295"
  by (simp add: unsigned_minus_1_eq_mask mask_eq_exp_minus_1)

section \<open>Linear scans\<close>

text \<open>
  The kernel finds slots with loops of the shape
  \<^verbatim>\<open>for(i = 0; i < len; i++) if(P(tab[i])) break;\<close>
  whose result is the index of the first element that satisfies the test, or the table length.
\<close>

fun find_idx :: "('a \<Rightarrow> bool) \<Rightarrow> 'a list \<Rightarrow> nat" where
  "find_idx P [] = 0"
| "find_idx P (x # xs) = (if P x then 0 else Suc (find_idx P xs))"

lemma find_idx_le [scan_simps]: "find_idx P xs \<le> length xs"
  by (induction xs) auto

lemma find_idx_sat [scan_simps]: "find_idx P xs < length xs \<Longrightarrow> P (xs ! find_idx P xs)"
  by (induction xs) auto

lemma find_idx_before: "i < find_idx P xs \<Longrightarrow> \<not> P (xs ! i)"
proof (induction xs arbitrary: i)
  case Nil
  then show ?case by simp
next
  case (Cons x xs)
  then show ?case by (cases i) (auto split: if_splits)
qed

lemma find_idx_none_iff: "find_idx P xs = length xs \<longleftrightarrow> (\<forall>x \<in> set xs. \<not> P x)"
  by (induction xs) auto

lemma find_idx_lt_iff: "find_idx P xs < length xs \<longleftrightarrow> (\<exists>x \<in> set xs. P x)"
  using find_idx_none_iff [of P xs] find_idx_le [of P xs] by (metis le_neq_implies_less less_irrefl)

lemma find_idx_eqI:
  assumes "i < length xs" and "P (xs ! i)" and "\<And>j. j < i \<Longrightarrow> \<not> P (xs ! j)"
  shows "find_idx P xs = i"
proof (rule ccontr)
  assume neq: "find_idx P xs \<noteq> i"
  have "find_idx P xs < length xs"
    using assms(1,2) by (auto simp: find_idx_lt_iff)
  then have sat: "P (xs ! find_idx P xs)" by (rule find_idx_sat)
  from neq consider "find_idx P xs < i" | "i < find_idx P xs" by linarith
  then show False
  proof cases
    case 1
    with assms(3) sat show False by blast
  next
    case 2
    with assms(2) find_idx_before show False by blast
  qed
qed

lemma find_idx_append:
  "find_idx P (xs @ ys) =
     (if find_idx P xs < length xs then find_idx P xs else length xs + find_idx P ys)"
  by (induction xs) auto

section \<open>Lists\<close>

lemma nth_update_cases:
  "j < length xs \<Longrightarrow> xs[i := v] ! j = (if i = j then v else xs ! j)"
  by (simp add: nth_list_update)

lemma take_Suc_snoc: "n < length xs \<Longrightarrow> take (Suc n) xs = take n xs @ [xs ! n]"
  by (rule take_Suc_conv_app_nth)

text \<open>
  A byte field holds the C string \<open>s\<close> when its first bytes are \<open>s\<close> and a NUL.
\<close>

lemma take_cstr_iff:
  "0 \<notin> set s \<Longrightarrow>
   (take (Suc (length s)) xs = s @ [0]) = (takeWhile (\<lambda>c. c \<noteq> 0) xs = s \<and> 0 \<in> set xs)"
  for s :: "u8 list"
proof (induction s arbitrary: xs)
  case Nil
  then show ?case by (cases xs) auto
next
  case (Cons a s)
  then show ?case by (cases xs) auto
qed

text \<open>A fold whose step may not return.\<close>

fun fold_opt :: "('a \<Rightarrow> 's \<Rightarrow> 's option) \<Rightarrow> 'a list \<Rightarrow> 's \<Rightarrow> 's option" where
  "fold_opt f [] s = Some s"
| "fold_opt f (x # xs) s = Option.bind (f x s) (fold_opt f xs)"

lemma fold_opt_append: "fold_opt f (xs @ ys) s = Option.bind (fold_opt f xs s) (fold_opt f ys)"
proof (induction xs arbitrary: s)
  case (Cons x xs)
  then show ?case by (cases "f x s") simp_all
qed simp

section \<open>Slot tables\<close>

text \<open>
  The kernel keeps its traps, staged address spaces, open files, processes, tasks and descriptors in
  arrays in which a free slot is looked up, and which grow by a fixed number of blank slots when
  there is none. \<open>grown\<close> is the answer of \<open>krealloc\<close>. The result is the slot to use, or
  \<open>None\<close> when the array could not grow.
\<close>

definition slot_find :: "('a \<Rightarrow> bool) \<Rightarrow> nat \<Rightarrow> 'a \<Rightarrow> bool \<Rightarrow> 'a list \<Rightarrow> (nat \<times> 'a list) option" where
  "slot_find free allocsz blank grown tab =
     (let i = find_idx free tab
      in if i < length tab then Some (i, tab)
         else if grown then Some (length tab, tab @ replicate allocsz blank)
         else None)"

lemma slot_find_Some:
  assumes "slot_find free n blank grown tab = Some (i, tab')" and "0 < n"
  shows "i < length tab'" and "length tab \<le> length tab'"
    and "\<And>j. j < length tab \<Longrightarrow> tab' ! j = tab ! j"
    and "i < length tab \<Longrightarrow> free (tab ! i)"
    and "\<And>j. length tab \<le> j \<Longrightarrow> j < length tab' \<Longrightarrow> tab' ! j = blank"
  using assms find_idx_sat [of free tab]
  by (auto simp: slot_find_def Let_def nth_append split: if_splits)

lemma slot_find_None:
  "slot_find free n blank grown tab = None \<longleftrightarrow> \<not> grown \<and> (\<forall>x \<in> set tab. \<not> free x)"
  using find_idx_le [of free tab]
  by (auto simp: slot_find_def Let_def find_idx_lt_iff)

text \<open>The slots in use.\<close>

definition slots_live :: "('a \<Rightarrow> bool) \<Rightarrow> 'a list \<Rightarrow> nat set" where
  "slots_live free tab = {j. j < length tab \<and> \<not> free (tab ! j)}"

text \<open>
  The contract of such a table: the blank slot is free. What follows is that a slot handed out was
  not in use, that the slots in use keep their contents, and that exactly the new one is added.
\<close>

locale slot_table =
  fixes free :: "'a \<Rightarrow> bool" and blank :: 'a and allocsz :: nat
  assumes blank_free: "free blank" and allocsz_pos: "0 < allocsz"
begin

lemma find_not_live:
  "slot_find free allocsz blank grown tab = Some (i, tab') \<Longrightarrow> i \<notin> slots_live free tab \<and> i < length tab'"
  using slot_find_Some [of free allocsz blank grown tab i tab'] allocsz_pos
  by (auto simp: slots_live_def)

lemma find_free: "slot_find free allocsz blank grown tab = Some (i, tab') \<Longrightarrow> free (tab' ! i)"
  using find_idx_sat [of free tab] blank_free
  by (auto simp: slot_find_def Let_def nth_append allocsz_pos split: if_splits)

text \<open>A property of all slots and of the blank slot holds of all slots afterwards.\<close>

lemma find_all:
  assumes "slot_find free allocsz blank grown tab = Some (i, tab')" and "\<forall>x\<in>set tab. P x" and "P blank"
  shows "\<forall>x\<in>set tab'. P x"
  using assms by (auto simp: slot_find_def Let_def split: if_splits)

lemma find_live:
  assumes "slot_find free allocsz blank grown tab = Some (i, tab')"
  shows "slots_live free tab' = slots_live free tab"
proof -
  note tab' = slot_find_Some [OF assms allocsz_pos]
  have "free (tab' ! j)" if "length tab \<le> j" "j < length tab'" for j
    using tab'(5) [OF that] blank_free by simp
  then show ?thesis
    using tab'(2,3) unfolding slots_live_def by (auto simp: not_le [symmetric] intro: less_le_trans) metis
qed

lemma store_live:
  assumes "slot_find free allocsz blank grown tab = Some (i, tab')" and "\<not> free x"
  shows "slots_live free (tab'[i := x]) = insert i (slots_live free tab)"
proof -
  have "i < length tab'" using find_not_live [OF assms(1)] by simp
  then show ?thesis
    unfolding find_live [OF assms(1), symmetric] using assms(2)
    by (auto simp: slots_live_def nth_list_update)
qed

lemma store_keeps:
  assumes "slot_find free allocsz blank grown tab = Some (i, tab')" and "j \<in> slots_live free tab"
  shows "tab'[i := x] ! j = tab ! j"
proof -
  have "i \<noteq> j" using find_not_live [OF assms(1)] assms(2) by auto
  then show ?thesis
    using slot_find_Some(3) [OF assms(1) allocsz_pos, of j] assms(2) by (simp add: slots_live_def)
qed

lemma find_None_full:
  "slot_find free allocsz blank grown tab = None \<Longrightarrow> slots_live free tab = {..<length tab} \<and> \<not> grown"
  by (auto simp: slot_find_None slots_live_def)

end

end
