(* ===== verification/KString.thy ===== *)
theory KString
  imports Prelude
begin

text \<open>
  \<^verbatim>\<open>lib/string.c\<close>: the portable (weak) implementations of the block and string routines, over
  the flat byte memory. Loops with a counter are recursions on the number of iterations; the two
  loops that run until a NUL byte (\<open>strlen\<close>, \<open>strcmp\<close>) are partial functions whose value
  \<open>None\<close> is a loop that never finds one. \<open>char\<close> is signed on the target, so
  \<open>strcmp\<close> and \<open>strncmp\<close> subtract signed bytes while \<open>memcmp\<close> subtracts unsigned ones.
\<close>

section \<open>Block operations\<close>

text \<open>The ascending copy loop: iteration \<open>k\<close> copies byte \<open>k\<close>.\<close>

primrec copy_up :: "nat \<Rightarrow> u32 \<Rightarrow> u32 \<Rightarrow> mem \<Rightarrow> mem" where
  "copy_up 0 d s m = m"
| "copy_up (Suc k) d s m =
     (let m' = copy_up k d s m in m'(d + of_nat k := m' (s + of_nat k)))"

text \<open>The descending copy loop: the first iteration copies the last byte.\<close>

primrec copy_down :: "nat \<Rightarrow> u32 \<Rightarrow> u32 \<Rightarrow> mem \<Rightarrow> mem" where
  "copy_down 0 d s m = m"
| "copy_down (Suc k) d s m = copy_down k d s (m(d + of_nat k := m (s + of_nat k)))"

definition memcpy :: "mem \<Rightarrow> u32 \<Rightarrow> u32 \<Rightarrow> u32 \<Rightarrow> mem" where
  "memcpy m dest src n = (if dest = src then m else copy_up (unat n) dest src m)"

text \<open>
  The backward loop of \<open>memmove\<close> counts with \<open>int i = n - 1\<close>: it runs \<open>i + 1\<close> times when
  \<open>i\<close>, read as a signed number, is not negative, and not at all otherwise.
\<close>

definition memmove :: "mem \<Rightarrow> u32 \<Rightarrow> u32 \<Rightarrow> u32 \<Rightarrow> mem" where
  "memmove m dest src n =
     (if dest = src then m
      else if dest < src then copy_up (unat n) dest src m
      else copy_down (nat (sint (n - 1) + 1)) dest src m)"

primrec memset_loop :: "nat \<Rightarrow> u32 \<Rightarrow> u8 \<Rightarrow> mem \<Rightarrow> mem" where
  "memset_loop 0 p c m = m"
| "memset_loop (Suc k) p c m = (memset_loop k p c m)(p + of_nat k := c)"

definition memset :: "mem \<Rightarrow> u32 \<Rightarrow> u32 \<Rightarrow> u32 \<Rightarrow> mem" where
  "memset m str c n = memset_loop (unat n) str (ucast c) m"

text \<open>Little-endian stores of 16, 32 and 64 bits, and loads.\<close>

definition store16 :: "mem \<Rightarrow> u32 \<Rightarrow> u16 \<Rightarrow> mem" where
  "store16 m a v = m(a := ucast v, a + 1 := ucast (drop_bit 8 v))"

definition store32 :: "mem \<Rightarrow> u32 \<Rightarrow> u32 \<Rightarrow> mem" where
  "store32 m a v = m(a := ucast v, a + 1 := ucast (drop_bit 8 v),
     a + 2 := ucast (drop_bit 16 v), a + 3 := ucast (drop_bit 24 v))"

definition load16 :: "mem \<Rightarrow> u32 \<Rightarrow> u32" where
  "load16 m p = ucast (m p) OR push_bit 8 (ucast (m (p + 1)))"

definition load32 :: "mem \<Rightarrow> u32 \<Rightarrow> u32" where
  "load32 m p = ucast (m p) OR push_bit 8 (ucast (m (p + 1))) OR push_bit 16 (ucast (m (p + 2))) OR push_bit 24 (ucast (m (p + 3)))"

definition store64 :: "mem \<Rightarrow> u32 \<Rightarrow> u64 \<Rightarrow> mem" where
  "store64 m a v = store32 (store32 m a (ucast v)) (a + 4) (ucast (drop_bit 32 v))"

text \<open>
  The wide fill loops store a wide unit at \<open>str + i\<close> and advance \<open>i\<close> by one, so successive
  stores overlap.
\<close>

primrec memset16_loop :: "nat \<Rightarrow> u32 \<Rightarrow> u16 \<Rightarrow> mem \<Rightarrow> mem" where
  "memset16_loop 0 p c m = m"
| "memset16_loop (Suc k) p c m = store16 (memset16_loop k p c m) (p + of_nat k) c"

primrec memset32_loop :: "nat \<Rightarrow> u32 \<Rightarrow> u32 \<Rightarrow> mem \<Rightarrow> mem" where
  "memset32_loop 0 p c m = m"
| "memset32_loop (Suc k) p c m = store32 (memset32_loop k p c m) (p + of_nat k) c"

primrec memset64_loop :: "nat \<Rightarrow> u32 \<Rightarrow> u64 \<Rightarrow> mem \<Rightarrow> mem" where
  "memset64_loop 0 p c m = m"
| "memset64_loop (Suc k) p c m = store64 (memset64_loop k p c m) (p + of_nat k) c"

definition memset16 :: "mem \<Rightarrow> u32 \<Rightarrow> u16 \<Rightarrow> u32 \<Rightarrow> mem" where
  "memset16 m str c n = memset16_loop (unat n) str c m"

definition memset32 :: "mem \<Rightarrow> u32 \<Rightarrow> u32 \<Rightarrow> u32 \<Rightarrow> mem" where
  "memset32 m str c n = memset32_loop (unat n) str c m"

definition memset64 :: "mem \<Rightarrow> u32 \<Rightarrow> u64 \<Rightarrow> u32 \<Rightarrow> mem" where
  "memset64 m str c n = memset64_loop (unat n) str c m"

section \<open>Comparisons and strings\<close>

primrec memcmp_loop :: "nat \<Rightarrow> mem \<Rightarrow> u32 \<Rightarrow> u32 \<Rightarrow> int" where
  "memcmp_loop 0 m p q = 0"
| "memcmp_loop (Suc k) m p q =
     (let ret = uint (m p) - uint (m q)
      in if ret \<noteq> 0 then ret else memcmp_loop k m (p + 1) (q + 1))"

definition memcmp :: "mem \<Rightarrow> u32 \<Rightarrow> u32 \<Rightarrow> u32 \<Rightarrow> int" where
  "memcmp m ptr1 ptr2 n = memcmp_loop (unat n) m ptr1 ptr2"

partial_function (option) strcmp_from :: "mem \<Rightarrow> u32 \<Rightarrow> u32 \<Rightarrow> int option" where
  "strcmp_from m p q =
     (let ret = sint (m p) - sint (m q)
      in if m p = 0 \<or> m q = 0 then Some ret
         else if ret \<noteq> 0 then Some ret
         else strcmp_from m (p + 1) (q + 1))"

definition strcmp :: "mem \<Rightarrow> u32 \<Rightarrow> u32 \<Rightarrow> int option" where
  "strcmp m str1 str2 = (if str1 = str2 then Some 0 else strcmp_from m str1 str2)"

primrec strncmp_loop :: "nat \<Rightarrow> mem \<Rightarrow> u32 \<Rightarrow> u32 \<Rightarrow> int" where
  "strncmp_loop 0 m p q = 0"
| "strncmp_loop (Suc k) m p q =
     (let ret = sint (m p) - sint (m q)
      in if m p = 0 \<or> m q = 0 then ret
         else if ret \<noteq> 0 then ret
         else strncmp_loop k m (p + 1) (q + 1))"

definition strncmp :: "mem \<Rightarrow> u32 \<Rightarrow> u32 \<Rightarrow> u32 \<Rightarrow> int" where
  "strncmp m str1 str2 n = (if str1 = str2 then 0 else strncmp_loop (unat n) m str1 str2)"

partial_function (option) strlen_from :: "mem \<Rightarrow> u32 \<Rightarrow> u32 \<Rightarrow> u32 option" where
  "strlen_from m p ret = (if m (p + ret) = 0 then Some ret else strlen_from m p (ret + 1))"

definition strlen :: "mem \<Rightarrow> u32 \<Rightarrow> u32 option" where
  "strlen m str = strlen_from m str 0"

definition strcpy :: "mem \<Rightarrow> u32 \<Rightarrow> u32 \<Rightarrow> mem option" where
  "strcpy m dest src = do { len \<leftarrow> strlen m src; Some (memmove m dest src (len + 1)) }"

definition strncpy :: "mem \<Rightarrow> u32 \<Rightarrow> u32 \<Rightarrow> u32 \<Rightarrow> mem option" where
  "strncpy m dest src n =
     do { srclen \<leftarrow> strlen m src;
          Some (memmove m dest src (if srclen < n then srclen + 1 else n)) }"

section \<open>Block copies\<close>

text \<open>
  What a block copy promises: byte \<open>i\<close> of the destination is byte \<open>i\<close> of the source as it was
  before the call, for all \<open>i < n\<close>, and nothing else changes. The regions may overlap.
\<close>

definition blk_copy :: "u32 \<Rightarrow> u32 \<Rightarrow> nat \<Rightarrow> mem \<Rightarrow> mem" where
  "blk_copy d s n m = (\<lambda>a. if unat (a - d) < n then m (s + (a - d)) else m a)"

lemma copy_up_blk:
  "n \<le> 2 ^ 32 \<Longrightarrow> unat (s - d) + n \<le> 2 ^ 32 \<Longrightarrow> copy_up n d s m = blk_copy d s n m"
proof (induction n)
  case 0
  then show ?case by (simp add: blk_copy_def)
next
  case (Suc k)
  have IH: "copy_up k d s m = blk_copy d s k m" using Suc by simp
  have "unat ((s - d) + of_nat k) = unat (s - d) + k"
    using Suc.prems by (intro unat_add_no_wrap) simp
  then have src: "\<not> unat (s + of_nat k - d) < k" by (simp add: algebra_simps)
  show ?case
  proof (rule ext)
    fix a
    show "copy_up (Suc k) d s m a = blk_copy d s (Suc k) m a"
      using Suc.prems src
      by (auto simp: IH blk_copy_def Let_def offset_unat_iff less_Suc_eq)
  qed
qed

lemma copy_down_blk:
  "n \<le> 2 ^ 32 \<Longrightarrow> unat (d - s) + n \<le> 2 ^ 32 \<Longrightarrow> d \<noteq> s \<Longrightarrow>
     copy_down n d s m = blk_copy d s n m"
proof (induction n arbitrary: m)
  case 0
  then show ?case by (simp add: blk_copy_def)
next
  case (Suc k)
  let ?m = "m(d + of_nat k := m (s + of_nat k))"
  have IH: "copy_down k d s ?m = blk_copy d s k ?m" using Suc by simp
  have off: "unat ((d - s) + of_nat k) = unat (d - s) + k"
    using Suc.prems by (intro unat_add_no_wrap) simp
  show ?case
  proof (rule ext)
    fix a
    have "s + (a - d) \<noteq> d + of_nat k" if "unat (a - d) < k"
    proof
      assume "s + (a - d) = d + of_nat k"
      then have "a - d = (d - s) + of_nat k" by (simp add: algebra_simps)
      with off that show False by simp
    qed
    then show "copy_down (Suc k) d s m a = blk_copy d s (Suc k) m a"
      using Suc.prems by (auto simp: IH blk_copy_def offset_unat_iff less_Suc_eq)
  qed
qed

lemma blk_copy_self [simp]: "blk_copy d d n m = m"
  by (auto simp: blk_copy_def)

lemma unat_gap_le:
  fixes d s :: u32
  assumes "d < s" and "unat s + n \<le> 2 ^ 32"
  shows "unat (s - d) + n \<le> 2 ^ 32"
  using assms unat_diff_offset [OF less_imp_le [OF assms(1)]] by (simp add: word_less_nat_alt)

text \<open>\<open>int i = n - 1\<close> is exact as long as \<open>n\<close> is at most \<open>2 ^ 31\<close>.\<close>

lemma sint_pred_count:
  fixes n :: u32
  assumes "unat n \<le> 2 ^ 31"
  shows "nat (sint (n - 1) + 1) = unat n"
proof (cases "n = 0")
  case True
  then show ?thesis by simp
next
  case False
  define k where "k = unat n - 1"
  from False have "unat (n - 1) = k" and n: "unat n = Suc k"
    by (simp_all add: unat_minus_one k_def unat_gt_0)
  then have eq: "uint (n - 1) = int k" by (metis uint_nat)
  from assms n have "k < 2 ^ 31" by simp
  then have "sint (n - 1) = int k"
    unfolding sint_uint eq by (simp add: signed_take_bit_int_eq_self)
  then show ?thesis using n by simp
qed

lemma memmove_blk:
  assumes "unat n \<le> 2 ^ 31"
    and "unat dest + unat n \<le> 2 ^ 32" and "unat src + unat n \<le> 2 ^ 32"
  shows "memmove m dest src n = blk_copy dest src (unat n) m"
proof -
  consider "dest = src" | "dest < src" | "src < dest" by fastforce
  then show ?thesis
  proof cases
    case 1
    then show ?thesis by (simp add: memmove_def)
  next
    case 2
    with unat_gap_le [OF 2 assms(3)] assms(1) show ?thesis
      by (simp add: memmove_def copy_up_blk)
  next
    case 3
    then have "\<not> dest < src" and "dest \<noteq> src" by auto
    with unat_gap_le [OF 3 assms(2)] assms(1) show ?thesis
      by (simp add: memmove_def sint_pred_count copy_down_blk)
  qed
qed

section \<open>NUL-terminated strings in memory\<close>

text \<open>\<open>cstr_at m p s\<close>: the string \<open>s\<close> is stored at \<open>p\<close>, with its terminating NUL.\<close>

primrec cstr_at :: "mem \<Rightarrow> u32 \<Rightarrow> u8 list \<Rightarrow> bool" where
  "cstr_at m p [] = (m p = 0)"
| "cstr_at m p (c # cs) = (c \<noteq> 0 \<and> m p = c \<and> cstr_at m (p + 1) cs)"

lemma cstr_at_unique: "cstr_at m p s \<Longrightarrow> cstr_at m p t \<Longrightarrow> s = t"
proof (induction s arbitrary: p t)
  case Nil
  then show ?case by (cases t) auto
next
  case (Cons c cs)
  then show ?case by (cases t) auto
qed

lemma strlen_from_cstr:
  "cstr_at m (p + i) s \<Longrightarrow> strlen_from m p i = Some (i + of_nat (length s))"
proof (induction s arbitrary: i)
  case Nil
  then show ?case by (simp add: strlen_from.simps)
next
  case (Cons c cs)
  from Cons.prems have "cstr_at m (p + (i + 1)) cs" by (simp add: add.assoc)
  from Cons.IH [OF this] Cons.prems show ?case
    by (simp add: strlen_from.simps [of m p i] algebra_simps)
qed

lemma strlen_cstr: "cstr_at m p s \<Longrightarrow> strlen m p = Some (of_nat (length s))"
  using strlen_from_cstr [of m p 0 s] by (simp add: strlen_def)

text \<open>The comparison of two strings as byte lists, and what its sign means.\<close>

fun scmp :: "u8 list \<Rightarrow> u8 list \<Rightarrow> int" where
  "scmp [] [] = 0"
| "scmp [] (d # ds) = - sint d"
| "scmp (c # cs) [] = sint c"
| "scmp (c # cs) (d # ds) = (if c = d then scmp cs ds else sint c - sint d)"

lemma sint_eq_iff_eq [simp]: "(sint a = sint b) = (a = b)" for a b :: "'a::len word"
  by (metis signed_word_eqI)

lemma sint_eq_0_iff [simp]: "(sint a = 0) = (a = 0)" for a :: "'a::len word"
  using sint_eq_iff_eq [of a 0] by (simp del: sint_eq_iff_eq)

lemma scmp_eq_0_iff: "0 \<notin> set s \<Longrightarrow> 0 \<notin> set t \<Longrightarrow> scmp s t = 0 \<longleftrightarrow> s = t"
  by (induction s t rule: scmp.induct) auto

lemma strcmp_from_cstr:
  "cstr_at m p s \<Longrightarrow> cstr_at m q t \<Longrightarrow> strcmp_from m p q = Some (scmp s t)"
proof (induction s t arbitrary: p q rule: scmp.induct)
  case (4 c cs d ds)
  then show ?case by (cases "c = d") (auto simp: strcmp_from.simps [of m p q] Let_def)
qed (auto simp: strcmp_from.simps Let_def)

lemma cstr_at_nonzero: "cstr_at m p s \<Longrightarrow> 0 \<notin> set s"
  by (induction s arbitrary: p) auto

text \<open>The bounded comparison looks at the first \<open>n\<close> bytes only.\<close>

lemma strncmp_loop_cstr:
  "cstr_at m p s \<Longrightarrow> cstr_at m q t \<Longrightarrow> strncmp_loop n m p q = scmp (take n s) (take n t)"
proof (induction n arbitrary: p q s t)
  case 0
  then show ?case by simp
next
  case (Suc n)
  then show ?case by (cases s; cases t) (auto simp: Let_def)
qed

lemma strncmp_eq_0_iff:
  assumes "cstr_at m p s" and "cstr_at m q t"
  shows "strncmp m p q n = 0 \<longleftrightarrow> take (unat n) s = take (unat n) t"
proof (cases "p = q")
  case True
  with assms have "s = t" by (auto dest: cstr_at_unique)
  with True show ?thesis by (simp add: strncmp_def)
next
  case False
  have "0 \<notin> set (take (unat n) s)" and "0 \<notin> set (take (unat n) t)"
    using assms [THEN cstr_at_nonzero] by (auto dest: in_set_takeD)
  with False assms show ?thesis
    by (simp add: strncmp_def strncmp_loop_cstr scmp_eq_0_iff)
qed

lemma memcmp_loop_eq_0_iff:
  "n \<le> 2 ^ 32 \<Longrightarrow> memcmp_loop n m p q = 0 \<longleftrightarrow> (\<forall>i < n. m (p + of_nat i) = m (q + of_nat i))"
proof (induction n arbitrary: p q)
  case 0
  then show ?case by simp
next
  case (Suc n)
  have split: "(\<forall>i < Suc n. Q i) \<longleftrightarrow> Q 0 \<and> (\<forall>i < n. Q (Suc i))" for Q
    using less_Suc_eq_0_disj by auto
  show ?case using Suc.prems Suc.IH [of "p + 1" "q + 1"]
    by (auto simp: Let_def split word_eq_iff_unsigned [symmetric] add.assoc)
qed

lemma cstr_at_iff:
  "cstr_at m p s \<longleftrightarrow>
     (\<forall>i < length s. m (p + of_nat i) = s ! i) \<and> 0 \<notin> set s \<and> m (p + of_nat (length s)) = 0"
proof (induction s arbitrary: p)
  case Nil
  then show ?case by simp
next
  case (Cons c cs)
  have split: "(\<forall>i < Suc n. Q i) \<longleftrightarrow> Q 0 \<and> (\<forall>i < n. Q (Suc i))" for Q and n :: nat
    using less_Suc_eq_0_disj by auto
  show ?case by (auto simp: Cons split add.assoc)
qed

lemma cstr_at_blk_copy:
  assumes "cstr_at m src s" and "length s < n" and "n \<le> 2 ^ 32"
  shows "cstr_at (blk_copy dest src n m) dest s"
proof -
  have "blk_copy dest src n m (dest + of_nat i) = m (src + of_nat i)" if "i \<le> length s" for i
    using that assms by (simp add: blk_copy_def unat_of_nat_u32)
  with assms(1) show ?thesis by (simp add: cstr_at_iff)
qed

lemma memset_loop_eq:
  "n \<le> 2 ^ 32 \<Longrightarrow> memset_loop n p c m = (\<lambda>a. if unat (a - p) < n then c else m a)"
proof (induction n)
  case 0
  then show ?case by simp
next
  case (Suc n)
  then have "memset_loop n p c m = (\<lambda>a. if unat (a - p) < n then c else m a)" by simp
  then show ?case using Suc.prems by (auto simp: fun_eq_iff offset_unat_iff less_Suc_eq)
qed

text \<open>The 16-bit fill loop never leaves the first \<open>n + 1\<close> bytes.\<close>

lemma memset16_loop_frame:
  "n < 2 ^ 32 \<Longrightarrow> n < unat (a - p) \<Longrightarrow> memset16_loop n p c m a = m a"
proof (induction n)
  case 0
  then show ?case by simp
next
  case (Suc n)
  have "a \<noteq> p + of_nat n" and "a \<noteq> p + of_nat (Suc n)"
    using Suc.prems offset_unat_iff [of n a p] offset_unat_iff [of "Suc n" a p] by auto
  with Suc show ?case by (simp add: store16_def algebra_simps)
qed

section \<open>Properties\<close>

text \<open>
  C1: \<open>memmove\<close> copies exactly the \<open>n\<close> source bytes, as they were before the call, to the
  destination, and changes nothing else, also when the two regions overlap in either direction
  (regions that do not wrap around the address space, at most 2 GiB).
\<close>

theorem memmove_moves:
  assumes "unat n \<le> 2 ^ 31"
    and "unat dest + unat n \<le> 2 ^ 32" and "unat src + unat n \<le> 2 ^ 32"
  shows "(\<forall>i < unat n. memmove m dest src n (dest + of_nat i) = m (src + of_nat i)) \<and>
         (\<forall>a. unat n \<le> unat (a - dest) \<longrightarrow> memmove m dest src n a = m a)"
  using assms by (auto simp: memmove_blk blk_copy_def unat_of_nat_u32)

definition abc_mem :: mem where
  "abc_mem = (\<lambda>_. 0)(16 := 97, 17 := 98, 18 := 99)"

theorem memmove_moves_witness:
  "memmove abc_mem 17 16 3 (17 + of_nat 2) = 99 \<and> memmove abc_mem 17 16 3 16 = 97"
proof -
  have "(\<forall>i < unat (3::u32). memmove abc_mem 17 16 3 (17 + of_nat i) = abc_mem (16 + of_nat i)) \<and>
        (\<forall>a. unat (3::u32) \<le> unat (a - 17) \<longrightarrow> memmove abc_mem 17 16 3 a = abc_mem a)"
    by (rule memmove_moves) simp_all
  note moved = this
  have "memmove abc_mem 17 16 3 (17 + of_nat 2) = abc_mem (16 + of_nat 2)"
    using moved [THEN conjunct1, rule_format, of 2] by simp
  moreover have "memmove abc_mem 17 16 3 16 = abc_mem 16"
    using moved [THEN conjunct2, rule_format, of 16] by simp
  ultimately show ?thesis by (simp add: abc_mem_def)
qed

text \<open>
  on two NUL-terminated strings \<open>strcmp\<close> returns (its loop stops), its value is the
  difference of the first two characters that differ (a missing character counting as NUL), and
  it is 0 exactly when the strings are equal.
\<close>

lemma strcmp_correct:
  assumes "cstr_at m p s" and "cstr_at m q t"
  shows "strcmp m p q = Some (scmp s t) \<and> (scmp s t = 0 \<longleftrightarrow> s = t)"
proof -
  have zero: "scmp s t = 0 \<longleftrightarrow> s = t"
    using assms by (simp add: scmp_eq_0_iff cstr_at_nonzero)
  show ?thesis
  proof (cases "p = q")
    case True
    with assms have "s = t" by (auto dest: cstr_at_unique)
    with True zero show ?thesis by (simp add: strcmp_def)
  next
    case False
    with assms zero show ?thesis by (simp add: strcmp_def strcmp_from_cstr)
  qed
qed

lemma strcmp_correct_witness:
  "strcmp abc_mem 16 17 = Some (-1)"
proof -
  have "cstr_at abc_mem 16 [97, 98, 99]" and "cstr_at abc_mem 17 [98, 99]"
    by (simp_all add: abc_mem_def)
  from strcmp_correct [OF this] show ?thesis by simp
qed

text \<open>
  \<open>strcpy\<close> of a string leaves a copy of it at the destination, even when destination and
  source overlap, as long as neither region wraps around the end of memory.
\<close>

lemma strcpy_copies:
  assumes "cstr_at m src s" and "length s < 2 ^ 31"
    and "unat dest + length s < 2 ^ 32" and "unat src + length s < 2 ^ 32"
  shows "\<exists>m'. strcpy m dest src = Some m' \<and> cstr_at m' dest s"
proof -
  let ?n = "of_nat (length s) + 1 :: u32"
  have "unat (of_nat (Suc (length s)) :: u32) = Suc (length s)"
    using assms(2) by (intro unat_of_nat_u32) simp
  then have n: "unat ?n = Suc (length s)" by (simp add: add.commute)
  with assms have "memmove m dest src ?n = blk_copy dest src (Suc (length s)) m"
    by (subst memmove_blk) simp_all
  moreover have "cstr_at (blk_copy dest src (Suc (length s)) m) dest s"
    using assms(1,2) by (intro cstr_at_blk_copy) simp_all
  ultimately show ?thesis using assms(1) by (simp add: strcpy_def strlen_cstr)
qed

lemma strcpy_copies_witness:
  "\<exists>m'. strcpy abc_mem 17 16 = Some m' \<and> cstr_at m' 17 [97, 98, 99]"
  by (rule strcpy_copies) (simp_all add: abc_mem_def)

text \<open>
  The portable \<open>memset16\<close> does not do what its contract says (fill \<open>n\<close> 16-bit units): its
  loop advances the destination by one byte per unit, so every byte past the first \<open>n + 1\<close> keeps
  its old value, although the contract covers \<open>2 * n\<close> bytes.
\<close>

lemma memset16_fills_half:
  assumes "unat n < unat (a - str)"
  shows "memset16 m str c n a = m a"
  using assms by (simp add: memset16_def memset16_loop_frame)

lemma memset16_fills_half_witness:
  "memset16 (\<lambda>_. 0) 0 0xABCD 4 7 = 0"
  by (rule memset16_fills_half) simp

end
