(* ===== verification/Helpers.thy ===== *)
theory Helpers
  imports Prelude
begin

text \<open>
  The helpers of \<^verbatim>\<open>helpers/\<close>: the column-name codec of \<^verbatim>\<open>basecol.c\<close>, the path
  splitter of \<^verbatim>\<open>path.c\<close> and the spin lock of \<^verbatim>\<open>mutex.c\<close> with the interleavings of the tasks
  that use it.
\<close>

section \<open>Column names: helpers/basecol.c\<close>

text \<open>
  The encoder writes the digits least significant first and then reverses the buffer in place.
  \<open>basecol_digits\<close> is the first loop; the letter base is \<open>'A'\<close> or \<open>'a'\<close>.
\<close>

function basecol_digits :: "u8 \<Rightarrow> nat \<Rightarrow> u8 list" where
  "basecol_digits base n =
     (let c = of_nat (n mod 26) + base; n' = n div 26
      in if n' = 0 then [c] else c # basecol_digits base (n' - 1))"
  by pat_completeness auto
termination
  by (relation "measure snd") auto

declare basecol_digits.simps [simp del]

text \<open>The second loop: swap positions \<open>i\<close> and \<open>off - 1 - i\<close> for \<open>i < off / 2\<close>.\<close>

primrec basecol_swaps :: "nat \<Rightarrow> u8 list \<Rightarrow> u8 list" where
  "basecol_swaps 0 buf = buf"
| "basecol_swaps (Suc i) buf =
     (let b = basecol_swaps i buf; t = b ! i; off = length b
      in (b[i := b ! (off - 1 - i)])[off - 1 - i := t])"

text \<open>
  The number of bytes written and the buffer with its terminating NUL. \<open>n\<close> is a \<open>size_t\<close>; the
  loop only divides and decrements it, so no step wraps.
\<close>

definition basecol_encode :: "u32 \<Rightarrow> bool \<Rightarrow> nat \<times> u8 list" where
  "basecol_encode n upper =
     (let buf = basecol_digits (if upper then 65 else 97) (unat n); off = length buf
      in (off, basecol_swaps (off div 2) buf @ [0]))"

text \<open>
  The decoder scans letters, with \<open>first\<close> standing for the test \<open>if(n)\<close> on the position, and
  stops at the first other byte (the end of the list is the NUL). It returns the number and the
  rest of the string, which is what \<open>*endptr\<close> receives.
\<close>

fun basecol_decode_loop :: "bool \<Rightarrow> u32 \<Rightarrow> u8 list \<Rightarrow> u32 \<times> u8 list" where
  "basecol_decode_loop first ret [] = (ret, [])"
| "basecol_decode_loop first ret (c # cs) =
     (if 65 \<le> c \<and> c \<le> 90
        then basecol_decode_loop False ((if first then ret else (ret + 1) * 26) + ucast (c - 65)) cs
      else if 97 \<le> c \<and> c \<le> 122
        then basecol_decode_loop False ((if first then ret else (ret + 1) * 26) + ucast (c - 97)) cs
      else (ret, c # cs))"

definition basecol_decode :: "u8 list \<Rightarrow> u32 \<times> u8 list" where
  "basecol_decode str = basecol_decode_loop True 0 str"

text \<open>In-place reversal: after \<open>i\<close> swaps the first and last \<open>i\<close> positions are exchanged.\<close>

lemma basecol_swaps_length [simp]: "length (basecol_swaps i buf) = length buf"
  by (induction i) (auto simp: Let_def)

lemma basecol_swaps_nth:
  assumes "2 * i \<le> length buf" and "j < length buf"
  shows "basecol_swaps i buf ! j =
    (if j < i \<or> length buf - 1 - j < i then buf ! (length buf - 1 - j) else buf ! j)"
  using assms
proof (induction i arbitrary: j)
  case 0
  then show ?case by simp
next
  case (Suc i)
  have IH: "basecol_swaps i buf ! k =
      (if k < i \<or> length buf - 1 - k < i then buf ! (length buf - 1 - k) else buf ! k)"
    if "k < length buf" for k
    using Suc.IH [of k] Suc.prems that by simp
  have ends: "basecol_swaps i buf ! i = buf ! i"
    "basecol_swaps i buf ! (length buf - 1 - i) = buf ! (length buf - 1 - i)"
    using Suc.prems IH [of i] IH [of "length buf - 1 - i"] by auto
  consider "j = i" | "j = length buf - 1 - i" | "j \<noteq> i" "j \<noteq> length buf - 1 - i" by blast
  then show ?case
  proof cases
    case 1
    with Suc.prems ends show ?thesis by (auto simp: Let_def nth_list_update)
  next
    case 2
    with Suc.prems ends show ?thesis by (auto simp: Let_def nth_list_update)
  next
    case 3
    then have "(j < Suc i \<or> length buf - 1 - j < Suc i) = (j < i \<or> length buf - 1 - j < i)"
      using Suc.prems by linarith
    with 3 Suc.prems IH [of j] show ?thesis by (simp add: Let_def nth_list_update)
  qed
qed

lemma basecol_swaps_rev: "basecol_swaps (length buf div 2) buf = rev buf"
proof (rule nth_equalityI)
  fix i
  assume "i < length (basecol_swaps (length buf div 2) buf)"
  then have i: "i < length buf" by simp
  show "basecol_swaps (length buf div 2) buf ! i = rev buf ! i"
  proof (cases "i < length buf div 2 \<or> length buf - 1 - i < length buf div 2")
    case True
    with i show ?thesis by (simp add: basecol_swaps_nth rev_nth)
  next
    case False
    then have "length buf - Suc i = i" using i by linarith
    with False i show ?thesis by (simp add: basecol_swaps_nth rev_nth)
  qed
qed simp

lemma basecol_encode_rev:
  "basecol_encode n upper =
     (length (basecol_digits (if upper then 65 else 97) (unat n)),
      rev (basecol_digits (if upper then 65 else 97) (unat n)) @ [0])"
  by (simp add: basecol_encode_def Let_def basecol_swaps_rev)

text \<open>The decoder's accumulator after reading the digits of \<open>n\<close>, most significant first.\<close>

lemma basecol_letter:
  assumes "base = 65 \<or> base = 97" and "d < 26"
  shows "basecol_decode_loop first ret ((of_nat d + base) # cs) =
    basecol_decode_loop False ((if first then ret else (ret + 1) * 26) + of_nat d) cs"
proof -
  have d: "unat (of_nat d :: u8) = d" using assms(2) by (simp add: unat_of_nat take_bit_nat_eq_self)
  have uc: "ucast (of_nat d :: u8) = (of_nat d :: u32)"
    using assms(2) by (simp add: unsigned_of_nat take_bit_nat_eq_self)
  have "unat (of_nat d + base) = d + unat base"
    using assms d by (auto simp: unat_word_ariths)
  with assms d uc show ?thesis
    by (auto simp: word_le_nat_alt)
qed

lemma basecol_roundtrip_loop:
  assumes "base = 65 \<or> base = 97"
  shows "basecol_decode_loop True 0 (rev (basecol_digits base n) @ cs) =
    basecol_decode_loop False (of_nat n) cs"
  using assms
proof (induction base n arbitrary: cs rule: basecol_digits.induct)
  case (1 base n)
  show ?case
  proof (cases "n div 26 = 0")
    case True
    then have "n < 26" by simp
    with True basecol_letter [OF "1.prems" this, where first = True and ret = 0 and cs = cs] show ?thesis
      by (simp add: basecol_digits.simps [of base n] del: basecol_decode_loop.simps)
  next
    case False
    have "of_nat (n div 26 - 1) + 1 = (of_nat (n div 26) :: u32)"
      using False by (metis Suc_pred' add.commute of_nat_Suc bot_nat_0.not_eq_extremum)
    moreover have "(of_nat (n div 26 * 26 + n mod 26) :: u32) = of_nat n"
      by (simp only: div_mult_mod_eq)
    ultimately have num: "(of_nat (n div 26 - 1) + 1) * 26 + of_nat (n mod 26) = (of_nat n :: u32)"
      by (simp only: of_nat_add of_nat_mult of_nat_numeral)
    let ?c = "of_nat (n mod 26) + base"
    have "rev (basecol_digits base n) @ cs = rev (basecol_digits base (n div 26 - 1)) @ ?c # cs"
      using False by (simp add: basecol_digits.simps [of base n])
    then have "basecol_decode_loop True 0 (rev (basecol_digits base n) @ cs) =
        basecol_decode_loop False (of_nat (n div 26 - 1)) (?c # cs)"
      by (simp only: "1.IH" [OF refl refl False "1.prems", of "?c # cs"])
    also have "\<dots> = basecol_decode_loop False
        ((of_nat (n div 26 - 1) + 1) * 26 + of_nat (n mod 26)) cs"
      using basecol_letter [OF "1.prems", of "n mod 26" False "of_nat (n div 26 - 1)" cs]
      by (simp only: if_False mod_less_divisor zero_less_numeral)
    finally show ?thesis by (simp only: num)
  qed
qed

lemma basecol_digits_length: "0 < length (basecol_digits base n)"
  by (subst basecol_digits.simps) (simp add: Let_def)

section \<open>Path elements: helpers/path.c\<close>

text \<open>
  A path is the list of bytes before its NUL; 47 is \<open>'/'\<close>. The result is the pointer to the next
  element (the remaining bytes) and the length of the element that was skipped.
\<close>

fun path_elem_len :: "u8 list \<Rightarrow> nat" where
  "path_elem_len [] = 0"
| "path_elem_len (c # cs) = (if c = 47 then 0 else Suc (path_elem_len cs))"

definition path_traverse :: "u8 list \<Rightarrow> u8 list \<times> nat" where
  "path_traverse path =
     (let l = path_elem_len path; rest = drop l path
      in (if rest \<noteq> [] then tl rest else rest, l))"

lemma path_elem_len_le [simp]: "path_elem_len p \<le> length p"
  by (induction p) auto

lemma path_elem_no_slash: "47 \<notin> set (take (path_elem_len p) p)"
  by (induction p) auto

lemma path_elem_stop: "path_elem_len p < length p \<Longrightarrow> p ! path_elem_len p = 47"
  by (induction p) auto

lemma path_traverse_shorter: "path \<noteq> [] \<Longrightarrow> length (fst (path_traverse path)) < length path"
  by (cases path) (auto simp: path_traverse_def Let_def)

lemma path_elem_len_append: "47 \<notin> set e \<Longrightarrow> path_elem_len (e @ 47 # rest) = length e"
  by (induction e) auto

lemma path_elem_len_all: "47 \<notin> set e \<Longrightarrow> path_elem_len e = length e"
  by (induction e) auto

lemma path_traverse_elem: "47 \<notin> set e \<Longrightarrow> path_traverse (e @ 47 # rest) = (rest, length e)"
  by (simp add: path_traverse_def path_elem_len_append)

lemma path_traverse_last: "47 \<notin> set e \<Longrightarrow> path_traverse e = ([], length e)"
  by (simp add: path_traverse_def path_elem_len_all)

text \<open>A path as its elements between slashes; empty elements and dots mean the same directory.\<close>

fun split_slash :: "u8 list \<Rightarrow> u8 list list" where
  "split_slash [] = [[]]"
| "split_slash (c # cs) =
     (if c = 47 then [] # split_slash cs
      else (case split_slash cs of [] \<Rightarrow> [[c]] | e # es \<Rightarrow> (c # e) # es))"

definition path_elems :: "u8 list \<Rightarrow> u8 list list" where
  "path_elems path = filter (\<lambda>e. e \<noteq> [] \<and> e \<noteq> [46]) (split_slash path)"

lemma split_slash_first:
  "split_slash p = take (path_elem_len p) p #
     (if path_elem_len p < length p then split_slash (drop (Suc (path_elem_len p)) p) else [])"
proof (induction p)
  case (Cons c cs)
  then show ?case by (cases "c = 47") auto
qed simp

lemma split_slash_step:
  assumes "path_traverse p = (rest, len)" and "p \<noteq> []"
  shows "path_elems p = (if len = 0 \<or> (len = 1 \<and> p ! 0 = 46) then [] else [take len p]) @ path_elems rest"
proof -
  have len: "len = path_elem_len p" and rest: "rest = drop (Suc len) p"
    using assms(1) by (auto simp: path_traverse_def Let_def drop_Suc tl_drop split: if_splits)
  have one: "take len p = [46] \<longleftrightarrow> len = 1 \<and> p ! 0 = 46"
    using assms(2) len path_elem_len_le [of p] by (cases p) (auto simp: take_Cons')
  have zero: "take len p = [] \<longleftrightarrow> len = 0" using assms(2) by simp
  let ?K = "\<lambda>e. e \<noteq> [] \<and> e \<noteq> [46 :: u8]"
  have split: "split_slash p = take len p # (if len < length p then split_slash rest else [])"
    using split_slash_first [of p] by (simp only: len rest)
  have tail: "filter ?K (if len < length p then split_slash rest else []) = path_elems rest"
    using rest by (auto simp: path_elems_def)
  have "path_elems p = (if ?K (take len p) then [take len p] else []) @ path_elems rest"
    by (simp only: path_elems_def [of p] split filter.simps tail split: if_split) simp
  then show ?thesis using one zero by (simp only: de_Morgan_disj [symmetric]) auto
qed

section \<open>Mutexes: helpers/mutex.c\<close>

text \<open>
  A mutex is one atomic flag. \<open>mutex_acquire\<close> spins on test-and-set, yielding to other tasks while
  the flag was already set; \<open>mutex_release\<close> clears the flag, \<open>mutex_test\<close> reads it. In a
  sequence of calls by one task, an acquire of a flag that is set never returns (nobody else is
  there to clear it), which is the value \<open>None\<close>.
\<close>

type_synonym mutex = bool

definition mutex_test_and_set :: "mutex \<Rightarrow> bool \<times> mutex" where
  "mutex_test_and_set locked = (locked, True)"

definition mutex_acquire :: "mutex \<Rightarrow> mutex option" where
  "mutex_acquire locked =
     (let (was, locked') = mutex_test_and_set locked in if was then None else Some locked')"

definition mutex_release :: "mutex \<Rightarrow> mutex" where
  "mutex_release locked = False"

definition mutex_test :: "mutex \<Rightarrow> bool" where
  "mutex_test locked = locked"

lemma mutex_acquire_simps [simp]:
  "mutex_acquire False = Some True" "mutex_acquire True = None"
  by (simp_all add: mutex_acquire_def mutex_test_and_set_def)

lemma mutex_release_test [simp]: "\<not> mutex_test (mutex_release l)"
  by (simp add: mutex_test_def mutex_release_def)

text \<open>
  Tasks that use one mutex, interleaved: a task is outside, spinning in \<open>mutex_acquire\<close>, or inside
  the section it guards. A step is one atomic action of one task; the spinning task repeats its
  test-and-set until it returns false.
\<close>

datatype mutex_pc = Outside | Spinning | Inside

record mutex_sys =
  ms_flag :: mutex
  ms_pc :: "nat \<Rightarrow> mutex_pc"

inductive mutex_step :: "mutex_sys \<Rightarrow> mutex_sys \<Rightarrow> bool" where
  call: "ms_pc s t = Outside \<Longrightarrow> mutex_step s (s\<lparr>ms_pc := (ms_pc s)(t := Spinning)\<rparr>)"
| spin: "ms_pc s t = Spinning \<Longrightarrow> mutex_test_and_set (ms_flag s) = (True, f) \<Longrightarrow>
    mutex_step s (s\<lparr>ms_flag := f\<rparr>)"
| take: "ms_pc s t = Spinning \<Longrightarrow> mutex_test_and_set (ms_flag s) = (False, f) \<Longrightarrow>
    mutex_step s (s\<lparr>ms_flag := f, ms_pc := (ms_pc s)(t := Inside)\<rparr>)"
| release: "ms_pc s t = Inside \<Longrightarrow>
    mutex_step s (s\<lparr>ms_flag := mutex_release (ms_flag s), ms_pc := (ms_pc s)(t := Outside)\<rparr>)"

inductive_cases mutex_stepE: "mutex_step s s'"

definition mutex_init :: mutex_sys where
  "mutex_init = \<lparr>ms_flag = False, ms_pc = (\<lambda>_. Outside)\<rparr>"

inductive mutex_reachable :: "mutex_sys \<Rightarrow> bool" where
  start: "mutex_reachable mutex_init"
| step: "mutex_reachable s \<Longrightarrow> mutex_step s s' \<Longrightarrow> mutex_reachable s'"

text \<open>The flag is set exactly while one task is inside.\<close>

definition mutex_inv :: "mutex_sys \<Rightarrow> bool" where
  "mutex_inv s \<longleftrightarrow>
     (if ms_flag s then \<exists>t. \<forall>u. ms_pc s u = Inside \<longleftrightarrow> u = t else \<forall>u. ms_pc s u \<noteq> Inside)"

lemma mutex_step_inv:
  assumes "mutex_step s s'" and inv: "mutex_inv s"
  shows "mutex_inv s'"
  using assms(1)
proof (rule mutex_stepE)
  fix t
  assume s': "s' = s\<lparr>ms_pc := (ms_pc s)(t := Spinning)\<rparr>" and "ms_pc s t = Outside"
  then have "ms_pc s' u = Inside \<longleftrightarrow> ms_pc s u = Inside" for u by simp
  with s' inv show ?thesis by (simp add: mutex_inv_def)
next
  fix t f
  assume "s' = s\<lparr>ms_flag := f\<rparr>" and "mutex_test_and_set (ms_flag s) = (True, f)"
  with inv show ?thesis by (simp add: mutex_inv_def mutex_test_and_set_def)
next
  fix t f
  assume "s' = s\<lparr>ms_flag := f, ms_pc := (ms_pc s)(t := Inside)\<rparr>"
    and "mutex_test_and_set (ms_flag s) = (False, f)"
  with inv show ?thesis by (auto simp: mutex_inv_def mutex_test_and_set_def)
next
  fix t
  assume s': "s' = s\<lparr>ms_flag := mutex_release (ms_flag s), ms_pc := (ms_pc s)(t := Outside)\<rparr>"
    and "ms_pc s t = Inside"
  with inv have "ms_pc s u = Inside \<Longrightarrow> u = t" for u
    by (auto simp: mutex_inv_def split: if_splits)
  with s' show ?thesis by (auto simp: mutex_inv_def mutex_release_def)
qed

lemma mutex_reachable_inv: "mutex_reachable s \<Longrightarrow> mutex_inv s"
proof (induction rule: mutex_reachable.induct)
  case start
  show ?case by (simp add: mutex_init_def mutex_inv_def)
next
  case (step s s')
  then show ?case by (blast intro: mutex_step_inv)
qed

section \<open>Properties\<close>

text \<open>
  decoding an encoded column name gives the number back, for every \<open>size_t\<close>, in both cases,
  and the decoder stops at the NUL the encoder wrote.
\<close>

lemma basecol_roundtrip:
  "basecol_decode (snd (basecol_encode n upper)) = (n, [0])"
  by (simp add: basecol_decode_def basecol_encode_rev basecol_roundtrip_loop)

text \<open>
  C2: in every interleaving of any number of tasks that acquire and release a mutex, at most one
  task is inside the guarded section, and the flag reads as locked exactly then.
\<close>

theorem mutex_mutual_exclusion:
  assumes "mutex_reachable s"
  shows "(ms_pc s t = Inside \<and> ms_pc s u = Inside \<longrightarrow> t = u) \<and>
    (mutex_test (ms_flag s) \<longleftrightarrow> (\<exists>v. ms_pc s v = Inside))"
  using mutex_reachable_inv [OF assms]
  by (auto simp: mutex_inv_def mutex_test_def split: if_splits)

theorem mutex_mutual_exclusion_witness:
  "mutex_test True \<longleftrightarrow> (\<exists>v. ((\<lambda>_. Outside)(3 := Inside)) (v :: nat) = Inside)"
proof -
  let ?s = "\<lparr>ms_flag = False, ms_pc = (\<lambda>_. Outside)(3 := Spinning)\<rparr>"
  let ?t = "\<lparr>ms_flag = True, ms_pc = (\<lambda>_. Outside)(3 := Inside)\<rparr>"
  have "mutex_step mutex_init ?s"
    using mutex_step.call [of mutex_init 3] by (simp add: mutex_init_def)
  moreover have "mutex_step ?s ?t"
    using mutex_step.take [of ?s 3 True] by (simp add: mutex_test_and_set_def)
  ultimately have "mutex_reachable ?t"
    by (blast intro: mutex_reachable.intros)
  from mutex_mutual_exclusion [OF this, of 3 3] show ?thesis by simp
qed

end
