(* ===== verification/KStdlib.thy ===== *)
theory KStdlib
  imports Prelude "HOL-Library.Signed_Division"
begin

text \<open>
  \<^verbatim>\<open>lib/stdlib.c\<close>: the number parsers \<open>strtoull\<close>, \<open>strtoll\<close>, \<open>strtoul\<close>, \<open>strtol\<close> and the
  pseudorandom generator. A string argument is the list of its bytes before the NUL, so the test
  \<open>*str\<close> for the end is the empty list and \<open>*endptr\<close> is the list that is left. An early return on
  overflow does not write \<open>*endptr\<close>; the second component is then \<open>None\<close>. The allocation wrappers
  of the file call the heap and are not modelled here.
\<close>

section \<open>Number parsing\<close>

abbreviation uint64_max :: u64 where
  "uint64_max \<equiv> - 1"

definition is_ws :: "u8 \<Rightarrow> bool" where
  "is_ws c \<longleftrightarrow> c = 9 \<or> c = 10 \<or> c = 11 \<or> c = 12 \<or> c = 13 \<or> c = 32"

fun skip_ws :: "u8 list \<Rightarrow> u8 list" where
  "skip_ws [] = []"
| "skip_ws (c # cs) = (if is_ws c then skip_ws cs else c # cs)"

text \<open>The sign test at the head of the string: 43 is \<open>'+'\<close>, 45 is \<open>'-'\<close>.\<close>

fun skip_sign :: "u8 list \<Rightarrow> u8 list" where
  "skip_sign [] = []"
| "skip_sign (c # cs) = (if c = 43 \<or> c = 45 then cs else c # cs)"

text \<open>Automatic base detection, only when the caller passed base 0.\<close>

fun strto_base :: "int \<Rightarrow> u8 list \<Rightarrow> int \<times> u8 list" where
  "strto_base base str =
     (if base \<noteq> 0 then (base, str)
      else case str of
        [] \<Rightarrow> (10, str)
      | c # cs \<Rightarrow>
          if c = 48
          then (case cs of
                  [] \<Rightarrow> (8, cs)
                | x # xs \<Rightarrow> if x = 120 \<or> x = 88 then (16, xs) else (8, cs))
          else (10, str))"

text \<open>The value of one character: letters are folded to upper case first.\<close>

definition strto_digit :: "u8 \<Rightarrow> nat option" where
  "strto_digit c0 =
     (let c = (if 97 \<le> c0 \<and> c0 \<le> 122 then c0 - 32 else c0)
      in if 48 \<le> c \<and> c \<le> 57 then Some (unat (c - 48))
         else if 65 \<le> c \<and> c \<le> 90 then Some (unat (c - 65) + 10)
         else None)"

fun strtoull_loop :: "int \<Rightarrow> u64 \<Rightarrow> u8 list \<Rightarrow> u64 \<times> u8 list option" where
  "strtoull_loop base result [] = (result, Some [])"
| "strtoull_loop base result (c # cs) =
     (case strto_digit c of
        None \<Rightarrow> (result, Some (c # cs))
      | Some d \<Rightarrow>
          if base \<le> int d then (result, Some (c # cs))
          else if uint64_max div word_of_int base < result then (uint64_max, None)
          else let r = result * word_of_int base
               in if uint64_max - of_nat d < r then (uint64_max, None)
                  else strtoull_loop base (r + of_nat d) cs)"

definition strtoull :: "u8 list \<Rightarrow> int \<Rightarrow> u64 \<times> u8 list option" where
  "strtoull str base0 =
     (let (base, s) = strto_base base0 (skip_sign str)
      in strtoull_loop base 0 (skip_ws s))"

text \<open>
  The signed parser accumulates an \<open>int64_t\<close>; its range checks come before every operation, so
  the mathematical integer is the machine value. Division truncates towards zero.
\<close>

abbreviation int64_max :: int where "int64_max \<equiv> 2 ^ 63 - 1"
abbreviation int64_min :: int where "int64_min \<equiv> - (2 ^ 63)"

fun strtoll_loop :: "bool \<Rightarrow> int \<Rightarrow> int \<Rightarrow> u8 list \<Rightarrow> int \<times> u8 list option" where
  "strtoll_loop sign base result [] = (result, Some [])"
| "strtoll_loop sign base result (c # cs) =
     (case strto_digit c of
        None \<Rightarrow> (result, Some (c # cs))
      | Some d \<Rightarrow>
          if base \<le> int d then (result, Some (c # cs))
          else if \<not> sign then
            if int64_max sdiv base < result then (int64_max, None)
            else let r = result * base
                 in if int64_max - int d < r then (int64_max, None)
                    else strtoll_loop sign base (r + int d) cs
          else
            if result < int64_min sdiv base then (int64_min, None)
            else let r = result * base
                 in if r < int64_min + int d then (int64_max, None)
                    else strtoll_loop sign base (r - int d) cs)"

definition strtoll :: "u8 list \<Rightarrow> int \<Rightarrow> int \<times> u8 list option" where
  "strtoll str0 base0 =
     (let str = skip_ws str0;
          sign = (case str of [] \<Rightarrow> False | c # _ \<Rightarrow> c = 45);
          (base, s) = strto_base base0 (skip_sign str)
      in strtoll_loop sign base 0 s)"

definition strtoul :: "u8 list \<Rightarrow> int \<Rightarrow> u32 \<times> u8 list option" where
  "strtoul str base =
     (let (result, e) = strtoull str base
      in if 0xFFFFFFFF < result then (size_max, e) else (ucast result, e))"

text \<open>\<open>strtol\<close> stores the unsigned result of \<open>strtoull\<close> in an \<open>int64_t\<close> before it clamps it.\<close>

definition strtol :: "u8 list \<Rightarrow> int \<Rightarrow> int \<times> u8 list option" where
  "strtol str base =
     (let (u, e) = strtoull str base; result = sint u
      in if 2 ^ 31 - 1 < result then (2 ^ 31 - 1, e)
         else if result < - (2 ^ 31) then (- (2 ^ 31), e)
         else (result, e))"

section \<open>Pseudorandom numbers\<close>

abbreviation rand_lcg_a :: u32 where "rand_lcg_a \<equiv> 1103515245"
abbreviation rand_lcg_c :: u32 where "rand_lcg_c \<equiv> 12345"

text \<open>The seed array \<open>rand_seed[RAND_SEEDCNT]\<close> is a list of five words.\<close>

fun srand_loop :: "u32 \<Rightarrow> u32 list \<Rightarrow> u32 list" where
  "srand_loop seed [] = []"
| "srand_loop seed (r # rs) =
     (let seed' = seed * rand_lcg_a + rand_lcg_c in (r + seed') # srand_loop seed' rs)"

definition srand :: "u32 list \<Rightarrow> u32 \<Rightarrow> u32 list" where
  "srand rand_seed seed = srand_loop seed rand_seed"

definition rand :: "u32 list \<Rightarrow> int \<times> u32 list" where
  "rand rand_seed =
     (let ret = sum_list rand_seed * rand_lcg_a + rand_lcg_c
      in (sint ret smod 32767, tl rand_seed @ [ret]))"

section \<open>Values of digit strings\<close>

text \<open>The number a digit string denotes in base \<open>b\<close>, from the digits already read.\<close>

fun digits_val :: "nat \<Rightarrow> nat \<Rightarrow> u8 list \<Rightarrow> nat" where
  "digits_val b acc [] = acc"
| "digits_val b acc (c # cs) = digits_val b (acc * b + the (strto_digit c)) cs"

definition is_digit :: "nat \<Rightarrow> u8 \<Rightarrow> bool" where
  "is_digit b c \<longleftrightarrow> (case strto_digit c of None \<Rightarrow> False | Some d \<Rightarrow> d < b)"

lemma strto_digit_less:
  assumes "strto_digit c = Some d"
  shows "d < 36"
proof -
  define c' where "c' = (if 97 \<le> c \<and> c \<le> 122 then c - 32 else c)"
  have digit: "unat (c' - 48) < 36" if "48 \<le> c'" "c' \<le> 57"
    using that by (simp add: unat_sub word_le_nat_alt)
  have letter: "unat (c' - 65) + 10 < 36" if "65 \<le> c'" "c' \<le> 90"
    using that by (simp add: unat_sub word_le_nat_alt)
  have "(if 48 \<le> c' \<and> c' \<le> 57 then Some (unat (c' - 48))
      else if 65 \<le> c' \<and> c' \<le> 90 then Some (unat (c' - 65) + 10) else None) = Some d"
    using assms by (simp only: strto_digit_def Let_def c'_def [symmetric])
  with digit letter show ?thesis by (auto split: if_splits)
qed

lemma digits_val_ge: "0 < b \<Longrightarrow> acc \<le> digits_val b acc ds"
proof (induction ds arbitrary: acc)
  case Nil
  then show ?case by simp
next
  case (Cons c cs)
  have "acc \<le> acc * b + the (strto_digit c)" using Cons.prems
    by (cases b) (auto simp: algebra_simps)
  also have "\<dots> \<le> digits_val b (acc * b + the (strto_digit c)) cs"
    using Cons by blast
  finally show ?case by simp
qed

text \<open>The two range checks of the loop, read as natural numbers.\<close>

lemma strtoull_check_mul:
  fixes r :: u64
  assumes "2 \<le> b" and "b \<le> 36"
  shows "(uint64_max div of_nat b < r) = (2 ^ 64 \<le> unat r * b)"
proof -
  have b: "unat (of_nat b :: u64) = b"
    using assms(2) by (simp add: unat_of_nat take_bit_nat_eq_self)
  have "(uint64_max div of_nat b < r) = ((2 ^ 64 - 1) div b < unat r)"
    by (simp add: word_less_nat_alt unat_div b unsigned_minus_1_eq_mask mask_eq_exp_minus_1)
  also have "\<dots> = (2 ^ 64 - 1 < unat r * b)"
    using assms(1) by (simp add: div_less_iff_less_mult)
  finally show ?thesis by auto
qed

lemma strtoull_check_add:
  fixes r :: u64
  assumes "d < 36"
  shows "(uint64_max - of_nat d < r) = (2 ^ 64 \<le> unat r + d)"
proof -
  have d: "unat (of_nat d :: u64) = d"
    using assms by (simp add: unat_of_nat take_bit_nat_eq_self)
  have "unat (uint64_max - of_nat d) = 2 ^ 64 - 1 - d"
    using assms by (subst unat_sub)
      (simp_all add: word_le_nat_alt d unsigned_minus_1_eq_mask mask_eq_exp_minus_1)
  then show ?thesis using assms by (auto simp: word_less_nat_alt)
qed

lemma strtoull_loop_digits:
  assumes "\<forall>c \<in> set ds. is_digit b c" and "2 \<le> b" and "b \<le> 36"
    and "rest = [] \<or> \<not> is_digit b (hd rest)"
  shows "strtoull_loop (int b) r (ds @ rest) =
    (if digits_val b (unat r) ds < 2 ^ 64 then (of_nat (digits_val b (unat r) ds), Some rest)
     else (uint64_max, None))"
  using assms(1)
proof (induction ds arbitrary: r)
  case Nil
  have "unat r < 2 ^ 64" using unsigned_less [of r, where ?'a = nat] by simp
  moreover have "strtoull_loop (int b) r rest = (r, Some rest)"
    using assms(4) by (cases rest) (auto simp: is_digit_def split: option.splits)
  ultimately show ?case by simp
next
  case (Cons c cs)
  then obtain d where d: "strto_digit c = Some d" "d < b"
    by (auto simp: is_digit_def split: option.splits)
  let ?v = "unat r * b + d"
  have le: "?v \<le> digits_val b ?v cs" using assms(2) by (intro digits_val_ge) simp
  have d36: "d < 36" using d(2) assms(3) by simp
  show ?case
  proof (cases "2 ^ 64 \<le> ?v")
    case True
    have big: "strtoull_loop (int b) r (c # cs @ rest) = (uint64_max, None)"
    proof (cases "2 ^ 64 \<le> unat r * b")
      case True
      then show ?thesis using d by (simp add: strtoull_check_mul [OF assms(2,3)])
    next
      case False
      then have "unat (r * of_nat b) = unat r * b"
        using assms(3) by (simp add: unat_word_ariths unat_of_nat take_bit_nat_eq_self)
      with False True d show ?thesis
        by (simp add: strtoull_check_mul [OF assms(2,3)] strtoull_check_add [OF d36] Let_def)
    qed
    with True le d show ?thesis by simp
  next
    case False
    then have m: "unat (r * of_nat b) = unat r * b"
      using assms(3) by (simp add: unat_word_ariths unat_of_nat take_bit_nat_eq_self)
    then have v: "unat (r * of_nat b + of_nat d) = ?v"
      using False d36 by (simp add: unat_word_ariths(1) unat_of_nat take_bit_nat_eq_self)
    have "strtoull_loop (int b) r (c # cs @ rest) =
        strtoull_loop (int b) (r * of_nat b + of_nat d) (cs @ rest)"
      using False d m
      by (simp add: strtoull_check_mul [OF assms(2,3)] strtoull_check_add [OF d36] Let_def)
    with Cons.IH [of "r * of_nat b + of_nat d"] Cons.prems d v show ?thesis by simp
  qed
qed

lemma srand_loop_length [simp]: "length (srand_loop seed rs) = length rs"
  by (induction rs arbitrary: seed) (auto simp: Let_def)

lemma smod_bound: "0 < n \<Longrightarrow> \<bar>(a :: int) smod n\<bar> < n"
  by (simp add: signed_modulo_int_def abs_mult)

section \<open>Properties\<close>

text \<open>
  C3: on a string of base-\<open>b\<close> digits (2 to 36) followed by anything that is not one,
  \<open>strtoull\<close> with that explicit base returns the number the digits denote and a pointer to the
  first other character when the number fits in 64 bits, and \<open>UINT64_MAX\<close>, leaving \<open>*endptr\<close>
  alone, exactly when it does not.
\<close>

theorem strtoull_value:
  assumes "\<forall>c \<in> set ds. is_digit b c" and "2 \<le> b" and "b \<le> 36" and "ds \<noteq> []"
    and "rest = [] \<or> \<not> is_digit b (hd rest)"
  shows "strtoull (ds @ rest) (int b) =
    (if digits_val b 0 ds < 2 ^ 64 then (of_nat (digits_val b 0 ds), Some rest)
     else (uint64_max, None))"
proof -
  obtain c cs where ds: "ds = c # cs" using assms(4) by (cases ds) auto
  then have "is_digit b c" using assms(1) by simp
  then obtain d where d: "strto_digit c = Some d" by (auto simp: is_digit_def split: option.splits)
  then have "c \<noteq> 43 \<and> c \<noteq> 45 \<and> \<not> is_ws c"
    by (auto simp: strto_digit_def is_ws_def)
  then have "strtoull (ds @ rest) (int b) = strtoull_loop (int b) 0 (ds @ rest)"
    using assms(2) by (simp add: strtoull_def ds)
  with strtoull_loop_digits [OF assms(1-3,5), of 0] show ?thesis by simp
qed

theorem strtoull_value_witness:
  "strtoull ([55, 66] @ [32]) (int 16) = (123, Some [32])"
proof -
  have "\<forall>c \<in> set [55, 66]. is_digit 16 c" and "\<not> is_digit 16 32"
    by code_simp+
  moreover have "digits_val 16 0 [55, 66] = 123" by code_simp
  ultimately show ?thesis using strtoull_value [of "[55, 66]" 16 "[32]"] by simp
qed

text \<open>
  \<open>strtol\<close> loses the sign: it goes through the unsigned parser, which skips a leading minus,
  so a negative number of digits parses to the same value as without its sign.
\<close>

lemma strtol_ignores_sign:
  assumes "s = [] \<or> hd s \<noteq> 43 \<and> hd s \<noteq> 45"
  shows "strtol (45 # s) base = strtol s base"
proof -
  have "skip_sign s = s" using assms by (cases s) auto
  then show ?thesis by (simp add: strtol_def strtoull_def)
qed

lemma strtol_ignores_sign_witness:
  "strtol [45, 53] 10 = (5, Some [])"
proof -
  have "strtol [45, 53] 10 = strtol [53] 10"
    by (rule strtol_ignores_sign) simp
  also have "\<dots> = (5, Some [])" by code_simp
  finally show ?thesis .
qed

text \<open>
  \<open>rand\<close> returns a value strictly between \<open>-RAND_MAX\<close> and \<open>RAND_MAX\<close> and keeps the size of
  the seed array, for every seed array; the value is negative for some seeds, because the remainder
  of a negative \<open>int\<close> is negative.
\<close>

lemma rand_range:
  "(\<forall>seeds. \<bar>fst (rand seeds)\<bar> < 32767 \<and>
      (seeds \<noteq> [] \<longrightarrow> length (snd (rand seeds)) = length seeds)) \<and>
   fst (rand (srand [0, 0, 0, 0, 0] 3)) < 0"
proof -
  have "\<bar>fst (rand seeds)\<bar> < 32767" for seeds
    by (simp add: rand_def Let_def smod_bound)
  moreover have "length (snd (rand seeds)) = length seeds" if "seeds \<noteq> []" for seeds
    using that by (simp add: rand_def Let_def)
  moreover have "fst (rand (srand [0, 0, 0, 0, 0] 3)) < 0"
    by code_simp
  ultimately show ?thesis by blast
qed

end
