(* ===== verification/Cmdline.thy ===== *)
theory Cmdline
  imports KString
begin

text \<open>
  \<^verbatim>\<open>kernel/cmdline.c\<close>: the kernel command line is copied to a buffer and cut into tokens in
  place, by overwriting the separator after a token with NUL; \<open>kernel_argv\<close> holds pointers into
  the buffer, here offsets. The searches compare tokens with \<open>strcmp\<close> and \<open>strncmp\<close>, which
  by \<^theory_text>\<open>strcmp_correct\<close> and \<^theory_text>\<open>strncmp_eq_0_iff\<close> is equality of the strings and of their
  prefixes. The allocations of the buffer and of the pointer array are taken to succeed.
\<close>

record cmdline =
  kernel_cmdline :: "u8 list"
  kernel_argv :: "nat list"

text \<open>The string at an offset of the buffer: the bytes up to the next NUL.\<close>

definition str_at :: "u8 list \<Rightarrow> nat \<Rightarrow> u8 list" where
  "str_at buf off = takeWhile (\<lambda>c. c \<noteq> 0) (drop off buf)"

text \<open>
  The tokenizer loop over \<open>end\<close>. A token of at most one byte is skipped (32 is the space).
\<close>

function cmdline_loop ::
  "nat \<Rightarrow> nat \<Rightarrow> nat \<Rightarrow> u8 list \<Rightarrow> nat list \<Rightarrow> u8 list \<times> nat list" where
  "cmdline_loop len start end buf argv =
     (if end \<le> len \<and> start < len then
        if buf ! end = 32 \<or> buf ! end = 0 then
          if end - start \<le> 1 then cmdline_loop len (end + 1) (end + 1) buf argv
          else cmdline_loop len (end + 1) (end + 1) (buf[end := 0]) (argv @ [start])
        else cmdline_loop len start (end + 1) buf argv
      else (buf, argv))"
  by pat_completeness auto
termination
  by (relation "measure (\<lambda>(len, start, end, buf, argv). Suc len - end)") auto

declare cmdline_loop.simps [simp del]

definition cmdline_init :: "u8 list \<Rightarrow> cmdline \<Rightarrow> cmdline" where
  "cmdline_init str k =
     (if length str = 0 then k
      else let (buf, argv) = cmdline_loop (length str) 0 1 (str @ [0]) (kernel_argv k)
           in \<lparr>kernel_cmdline = buf, kernel_argv = argv\<rparr>)"

definition argv_strings :: "cmdline \<Rightarrow> u8 list list" where
  "argv_strings k = map (str_at (kernel_cmdline k)) (kernel_argv k)"

definition cmdline_find_flag :: "cmdline \<Rightarrow> u8 list \<Rightarrow> bool" where
  "cmdline_find_flag k key =
     (find_idx (\<lambda>a. a = key) (argv_strings k) < length (argv_strings k))"

text \<open>\<open>key=value\<close>: 61 is the equals sign; the result is the value.\<close>

definition cmdline_find_kvp :: "cmdline \<Rightarrow> u8 list \<Rightarrow> u8 list option" where
  "cmdline_find_kvp k key =
     (let args = argv_strings k; len = length key;
          i = find_idx (\<lambda>a. take len a = key \<and> len < length a \<and> a ! len = 61) args
      in if i < length args then Some (drop (len + 1) (args ! i)) else None)"

section \<open>What the tokenizer computes\<close>

text \<open>
  Splitting at spaces; the first byte of the line is part of the first token whatever it is,
  because the scan for separators starts at the second byte.
\<close>

fun split_sp :: "u8 list \<Rightarrow> u8 list \<Rightarrow> u8 list list" where
  "split_sp tok [] = [tok]"
| "split_sp tok (c # cs) = (if c = 32 then tok # split_sp [] cs else split_sp (tok @ [c]) cs)"

definition cmdline_tokens :: "u8 list \<Rightarrow> u8 list list" where
  "cmdline_tokens str =
     (case str of [] \<Rightarrow> [] | c # cs \<Rightarrow> filter (\<lambda>w. 2 \<le> length w) (split_sp [c] cs))"

text \<open>
  A token already recorded ends before \<open>start\<close>, so a later write at \<open>end\<close>, at or after
  \<open>start\<close>, does not touch it.
\<close>

definition closed_before :: "u8 list \<Rightarrow> nat \<Rightarrow> nat \<Rightarrow> bool" where
  "closed_before buf start off \<longleftrightarrow> off + length (str_at buf off) < start"

lemma takeWhile_update:
  "length (takeWhile P xs) < j \<Longrightarrow> takeWhile P (xs[j := v]) = takeWhile P xs"
proof (induction xs arbitrary: j)
  case Nil
  then show ?case by simp
next
  case (Cons x xs)
  then show ?case by (cases j) auto
qed

lemma str_at_update:
  "closed_before buf start off \<Longrightarrow> start \<le> e \<Longrightarrow> str_at (buf[e := v]) off = str_at buf off"
  by (simp add: closed_before_def str_at_def drop_update_swap takeWhile_update)

lemma str_at_token:
  assumes "off + k < length buf" and "buf ! (off + k) = 0" and "0 \<notin> set (take k (drop off buf))"
  shows "str_at buf off = take k (drop off buf)"
proof -
  have "drop off buf = take k (drop off buf) @ 0 # drop (Suc (off + k)) buf"
    using assms(1,2) by (metis Cons_nth_drop_Suc add.commute append_take_drop_id drop_drop)
  then have "str_at buf off = takeWhile (\<lambda>c. c \<noteq> 0) (take k (drop off buf) @ 0 # drop (Suc (off + k)) buf)"
    by (simp add: str_at_def)
  also have "\<dots> = take k (drop off buf)"
    using assms(3) by (subst takeWhile_append2) auto
  finally show ?thesis .
qed

lemma take_snoc_drop:
  assumes "start \<le> e" and "e < length xs"
  shows "take (Suc e - start) (drop start xs) = take (e - start) (drop start xs) @ [xs ! e]"
proof -
  have "Suc e - start = Suc (e - start)" using assms by simp
  then show ?thesis using assms by (simp add: take_Suc_conv_app_nth)
qed

text \<open>
  The loop invariant: from \<open>start\<close> on the buffer is still the line with its NUL, and all
  recorded tokens are closed before \<open>start\<close>.
\<close>

definition cmdline_inv :: "u8 list \<Rightarrow> nat \<Rightarrow> nat \<Rightarrow> u8 list \<Rightarrow> nat list \<Rightarrow> bool" where
  "cmdline_inv str start e buf argv \<longleftrightarrow>
     (\<forall>j. start \<le> j \<and> j \<le> length str \<longrightarrow> buf ! j = (str @ [0]) ! j) \<and>
     length buf = Suc (length str) \<and> start \<le> e \<and>
     (\<forall>off \<in> set argv. closed_before buf start off)"

lemma cmdline_inv_skip:
  "cmdline_inv str start e buf argv \<Longrightarrow> cmdline_inv str (e + 1) (e + 1) buf argv"
  by (fastforce simp: cmdline_inv_def closed_before_def)

lemma cmdline_inv_token:
  assumes "cmdline_inv str start e buf argv" and "e \<le> length str" and "0 \<notin> set str"
  shows "str_at (buf[e := 0]) start = take (e - start) (drop start str)"
proof -
  have se: "start \<le> e" and len: "length buf = Suc (length str)"
    using assms(1) by (auto simp: cmdline_inv_def)
  have tok: "take (e - start) (drop start (buf[e := 0])) = take (e - start) (drop start str)"
  proof (rule nth_equalityI)
    fix i
    assume i: "i < length (take (e - start) (drop start (buf[e := 0])))"
    then have "start + i < length str" and "start + i \<noteq> e" using assms(2) by auto
    with i show "take (e - start) (drop start (buf[e := 0])) ! i = take (e - start) (drop start str) ! i"
      using assms len by (simp add: cmdline_inv_def nth_append)
  qed (use assms len in simp)
  have "0 \<notin> set (take (e - start) (drop start str))"
    using assms(3) by (meson in_set_takeD in_set_dropD)
  with tok se len assms(2) show ?thesis
    by (subst str_at_token [where k = "e - start"]) auto
qed

lemma cmdline_inv_record:
  assumes "cmdline_inv str start e buf argv" and "e \<le> length str" and "0 \<notin> set str"
  shows "cmdline_inv str (e + 1) (e + 1) (buf[e := 0]) (argv @ [start])"
    and "map (str_at (buf[e := 0])) argv = map (str_at buf) argv"
proof -
  have se: "start \<le> e" using assms(1) by (simp add: cmdline_inv_def)
  have old: "str_at (buf[e := 0]) off = str_at buf off" "closed_before (buf[e := 0]) (e + 1) off"
    if "off \<in> set argv" for off
  proof -
    have cb: "closed_before buf start off"
      using assms(1) that by (simp add: cmdline_inv_def)
    then show eq: "str_at (buf[e := 0]) off = str_at buf off"
      using se by (rule str_at_update)
    with cb se show "closed_before (buf[e := 0]) (e + 1) off"
      by (simp add: closed_before_def)
  qed
  then show "map (str_at (buf[e := 0])) argv = map (str_at buf) argv" by simp
  have "closed_before (buf[e := 0]) (e + 1) start"
    using assms se cmdline_inv_token [OF assms] by (simp add: closed_before_def)
  with old assms(1,2) show "cmdline_inv str (e + 1) (e + 1) (buf[e := 0]) (argv @ [start])"
    by (auto simp: cmdline_inv_def)
qed

text \<open>What is left of the line after a separator at \<open>e\<close>.\<close>

lemma split_sp_at:
  assumes "e \<le> length str" and "e < length str \<Longrightarrow> str ! e = 32"
  shows "filter (\<lambda>w. 2 \<le> length w) (split_sp tok (drop e str)) =
    filter (\<lambda>w. 2 \<le> length w) [tok] @
      (if e + 1 < length str
       then filter (\<lambda>w. 2 \<le> length w) (split_sp [] (drop (e + 1) str)) else [])"
proof (cases "e < length str")
  case True
  then have "drop e str = 32 # drop (e + 1) str"
    using assms(2) by (simp add: Cons_nth_drop_Suc [symmetric])
  then show ?thesis by simp
next
  case False
  then show ?thesis by simp
qed

lemma cmdline_loop_tokens:
  assumes "0 \<notin> set str"
  shows "cmdline_inv str start e buf argv \<Longrightarrow> start < length str \<longrightarrow> e \<le> length str \<Longrightarrow>
    cmdline_loop (length str) start e buf argv = (buf', argv') \<Longrightarrow>
    map (str_at buf') argv' = map (str_at buf) argv @
      (if start < length str
       then filter (\<lambda>w. 2 \<le> length w) (split_sp (take (e - start) (drop start str)) (drop e str))
       else [])"
proof (induction "length str" start e buf argv arbitrary: buf' argv' rule: cmdline_loop.induct)
  case (1 start e buf argv)
  note inv = "1.prems"(1) and unfold = cmdline_loop.simps [of "length str" start e buf argv]
  show ?case
  proof (cases "start < length str")
    case False
    with "1.prems" show ?thesis by (simp add: cmdline_loop.simps)
  next
    case lt: True
    then have e: "e \<le> length str" and se: "start \<le> e"
      using "1.prems" by (auto simp: cmdline_inv_def)
    let ?tok = "take (e - start) (drop start str)"
    have be: "buf ! e = (str @ [0]) ! e"
      using inv se e by (simp add: cmdline_inv_def)
    have tok_len: "length ?tok = e - start" using e se lt by simp
    have "str ! e \<noteq> 0" if "e < length str" using assms that nth_mem by metis
    then have zero_iff: "buf ! e = 0 \<longleftrightarrow> e = length str"
      using be e by (cases "e = length str") (auto simp: nth_append)
    show ?thesis
    proof (cases "buf ! e = 32 \<or> buf ! e = 0")
      case sep: True
      have split: "filter (\<lambda>w. 2 \<le> length w) (split_sp ?tok (drop e str)) =
          filter (\<lambda>w. 2 \<le> length w) [?tok] @ (if e + 1 < length str
            then filter (\<lambda>w. 2 \<le> length w) (split_sp [] (drop (e + 1) str)) else [])"
        using e sep zero_iff be by (intro split_sp_at) (auto simp: nth_append)
      show ?thesis
      proof (cases "e - start \<le> 1")
        case True
        have "cmdline_loop (length str) (e + 1) (e + 1) buf argv = (buf', argv')"
          using True sep e lt "1.prems"(3) unfold by simp
        with "1.hyps"(1) [OF conjI [OF e lt] sep True cmdline_inv_skip [OF inv]]
        show ?thesis using True lt split tok_len by simp
      next
        case False
        have "cmdline_loop (length str) (e + 1) (e + 1) (buf[e := 0]) (argv @ [start]) = (buf', argv')"
          using False sep e lt "1.prems"(3) unfold by simp
        with "1.hyps"(2) [OF conjI [OF e lt] sep False cmdline_inv_record(1) [OF inv e assms]]
          cmdline_inv_record(2) [OF inv e assms] cmdline_inv_token [OF inv e assms]
        show ?thesis using False lt split tok_len by simp
      qed
    next
      case False
      then have elt: "e < length str" using zero_iff e by (cases "e = length str") auto
      then have c: "buf ! e = str ! e" using be by (simp add: nth_append)
      have step: "split_sp ?tok (drop e str) =
          split_sp (take (Suc e - start) (drop start str)) (drop (Suc e) str)"
        using False c elt take_snoc_drop [OF se elt]
        by (simp add: Cons_nth_drop_Suc [symmetric])
      have "cmdline_loop (length str) start (e + 1) buf argv = (buf', argv')"
        using False e lt "1.prems"(3) unfold by simp
      moreover have "cmdline_inv str start (e + 1) buf argv"
        using inv by (simp add: cmdline_inv_def)
      ultimately show ?thesis
        using "1.hyps"(3) [OF conjI [OF e lt] False] elt lt step by simp
    qed
  qed
qed

section \<open>Properties\<close>

text \<open>
  C4: after \<open>cmdline_init\<close> on a fresh state, \<open>kernel_argv\<close> points to exactly the
  space-separated words of the line that have at least two characters, in order; the first
  character of the line always belongs to the first word. In particular every one-character
  argument is dropped.
\<close>

theorem cmdline_init_tokens:
  assumes "0 \<notin> set str" and "kernel_argv k = []"
  shows "argv_strings (cmdline_init str k) = cmdline_tokens str"
proof (cases str)
  case Nil
  with assms show ?thesis by (simp add: cmdline_init_def argv_strings_def cmdline_tokens_def)
next
  case (Cons c cs)
  obtain buf' argv' where loop: "cmdline_loop (length str) 0 1 (str @ [0]) [] = (buf', argv')"
    by fastforce
  have "cmdline_inv str 0 1 (str @ [0]) []" by (simp add: cmdline_inv_def)
  from cmdline_loop_tokens [OF assms(1) this _ loop] Cons
  have "map (str_at buf') argv' = cmdline_tokens str" by (simp add: cmdline_tokens_def)
  with loop Cons assms(2) show ?thesis by (simp add: cmdline_init_def argv_strings_def)
qed

text \<open>The line is \<^verbatim>\<open>a bc  d=1\<close>.\<close>

theorem cmdline_init_tokens_witness:
  "argv_strings (cmdline_init [97, 32, 98, 99, 32, 32, 100, 61, 49] \<lparr>kernel_cmdline = [], kernel_argv = []\<rparr>) =
     [[98, 99], [100, 61, 49]]"
  by (subst cmdline_init_tokens) (simp_all add: cmdline_tokens_def)

text \<open>
  \<open>cmdline_find_kvp\<close> returns the value of the first \<open>key=value\<close> token: if it returns \<open>v\<close>,
  some token is exactly \<open>key=v\<close> and no earlier token starts with \<open>key=\<close>; if it returns NULL, no
  token starts with \<open>key=\<close>.
\<close>

lemma cmdline_find_kvp_first:
  "case cmdline_find_kvp k key of
     Some v \<Rightarrow> \<exists>i < length (argv_strings k). argv_strings k ! i = key @ [61] @ v \<and>
       (\<forall>j < i. \<nexists>w. argv_strings k ! j = key @ [61] @ w)
   | None \<Rightarrow> \<nexists>w. key @ [61] @ w \<in> set (argv_strings k)"
proof -
  let ?P = "\<lambda>a. take (length key) a = key \<and> length key < length a \<and> a ! length key = 61"
  let ?args = "argv_strings k"
  have match: "?P a \<longleftrightarrow> (\<exists>w. a = key @ [61] @ w)" for a
  proof
    assume P: "?P a"
    then have "a = take (length key) a @ a ! length key # drop (Suc (length key)) a"
      by (metis id_take_nth_drop)
    with P show "\<exists>w. a = key @ [61] @ w" by auto
  qed auto
  define i where "i = find_idx ?P ?args"
  have kvp: "cmdline_find_kvp k key =
      (if i < length ?args then Some (drop (length key + 1) (?args ! i)) else None)"
    by (simp add: cmdline_find_kvp_def Let_def i_def)
  show ?thesis
  proof (cases "i < length ?args")
    case True
    have "?P (?args ! i)" using True find_idx_sat [of ?P ?args] unfolding i_def by blast
    then obtain w where w: "?args ! i = key @ [61] @ w" using match by blast
    have before: "\<nexists>w. ?args ! j = key @ [61] @ w" if "j < i" for j
      using that find_idx_before [of j ?P ?args] match unfolding i_def by blast
    have "cmdline_find_kvp k key = Some w" using True w by (simp add: kvp)
    with True w before show ?thesis by auto
  next
    case False
    then have "\<not> ?P a" if "a \<in> set ?args" for a
      using that find_idx_lt_iff [of ?P ?args] unfolding i_def by blast
    then have "\<nexists>w. key @ [61] @ w \<in> set ?args" using match by blast
    with False show ?thesis by (simp add: kvp)
  qed
qed

text \<open>The line is \<^verbatim>\<open>abc a=1 a=2\<close>, the key \<^verbatim>\<open>a\<close>.\<close>

lemma cmdline_find_kvp_first_witness:
  "\<exists>k i. cmdline_find_kvp k [97] = Some [49] \<and> i < length (argv_strings k) \<and>
     (\<forall>j < i. \<nexists>w. argv_strings k ! j = [97] @ [61] @ w)"
proof -
  let ?k = "cmdline_init [97, 98, 99, 32, 97, 61, 49, 32, 97, 61, 50] \<lparr>kernel_cmdline = [], kernel_argv = []\<rparr>"
  have "cmdline_find_kvp ?k [97] = Some [49]" by code_simp
  with cmdline_find_kvp_first [of "[97]" ?k] show ?thesis by auto
qed

end
