(* ===== verification/Syms.thy ===== *)
theory Syms
  imports Prelude
begin

text \<open>
  \<^verbatim>\<open>exec/syms.c\<close>: symbol tables of the kernel and its modules. The array \<open>syms\<close> of
  \<open>max_count\<close> entries is a list, \<open>count\<close> says how many are in use; an entry's name is the whole
  \<open>char[48]\<close> field, with whatever bytes follow the NUL. A pointer to an entry is its index. The
  answer of \<open>krealloc\<close> is an argument: \<open>None\<close> if it fails, otherwise the contents of the
  entries it added.
\<close>

record sym_entry =
  sym_name :: "u8 list"
  sym_addr :: u32

record sym_table =
  syms :: "sym_entry list"
  sym_count :: nat

abbreviation sym_max_count :: "sym_table \<Rightarrow> nat" where
  "sym_max_count tab \<equiv> length (syms tab)"

text \<open>
  \<open>SYM_NAME_MAXLEN\<close> is 47, \<open>SYM_ALLOC_MIN\<close> is 4. \<open>kcalloc\<close> zeroes the new entries; the two
  flags are its answers for the structure and for the array.
\<close>

definition zero_entry :: sym_entry where
  "zero_entry = \<lparr>sym_name = replicate 48 0, sym_addr = 0\<rparr>"

definition sym_new_table :: "bool \<Rightarrow> bool \<Rightarrow> nat \<Rightarrow> sym_table option" where
  "sym_new_table got_table got_syms initial_count =
     (let n = (if initial_count < 4 then 4 else initial_count)
      in if got_table
         then Some \<lparr>syms = (if got_syms then replicate n zero_entry else []), sym_count = 0\<rparr>
         else None)"

text \<open>
  \<open>memcmp\<close> of \<open>name_len + 1\<close> bytes of the field and of the argument with its NUL; \<open>name_len\<close> is
  cut to 47.
\<close>

definition sym_matches :: "u8 list \<Rightarrow> sym_entry \<Rightarrow> bool" where
  "sym_matches nm e =
     (let name_len = (if 47 < length nm then 47 else length nm)
      in take (name_len + 1) (sym_name e) = take (name_len + 1) (nm @ [0]))"

definition sym_resolve :: "sym_table \<Rightarrow> u8 list \<Rightarrow> nat option" where
  "sym_resolve tab nm =
     (let used = take (sym_count tab) (syms tab); i = find_idx (sym_matches nm) used
      in if i < length used then Some i else None)"

text \<open>
  \<open>strncpy(entry->name, name, 47); entry->name[47] = 0\<close>. The \<open>strncpy\<close> of \<^verbatim>\<open>lib/string.c\<close> does
  not pad: the bytes of the field after the copied NUL stay.
\<close>

definition sym_put_name :: "u8 list \<Rightarrow> u8 list \<Rightarrow> u8 list" where
  "sym_put_name nm old =
     (let n = (if length nm < 47 then length nm + 1 else 47)
      in (take n (nm @ [0]) @ drop n old)[47 := 0])"

definition sym_put :: "sym_table \<Rightarrow> nat \<Rightarrow> u8 list \<Rightarrow> u32 \<Rightarrow> sym_table" where
  "sym_put tab i nm a =
     tab\<lparr>syms := (syms tab)[i := \<lparr>sym_name = sym_put_name nm (sym_name (syms tab ! i)), sym_addr = a\<rparr>]\<rparr>"

definition sym_add_entry ::
  "sym_entry list option \<Rightarrow> sym_table \<Rightarrow> u8 list \<Rightarrow> u32 \<Rightarrow> sym_table \<times> nat option" where
  "sym_add_entry grow tab nm a =
     (case sym_resolve tab nm of
        Some i \<Rightarrow> (sym_put tab i nm a, Some i)
      | None \<Rightarrow>
          (let new_entry = \<lambda>tab. (sym_put (tab\<lparr>sym_count := sym_count tab + 1\<rparr>) (sym_count tab) nm a,
                                   Some (sym_count tab))
           in if sym_count tab = sym_max_count tab then
                (case grow of
                   None \<Rightarrow> (tab, None)
                 | Some extra \<Rightarrow> new_entry (tab\<lparr>syms := syms tab @ extra\<rparr>))
              else new_entry tab))"

text \<open>
  The scan of \<open>sym_addr2sym\<close>: the accumulator is \<open>(result->sym, result->delta)\<close>. The scan stops
  at the first entry above the address.
\<close>

fun sym_addr2sym_loop ::
  "u32 \<Rightarrow> nat \<Rightarrow> (nat \<times> u32) option \<Rightarrow> sym_entry list \<Rightarrow> (nat \<times> u32) option" where
  "sym_addr2sym_loop a i res [] = res"
| "sym_addr2sym_loop a i res (e # es) =
     (if a < sym_addr e then res
      else let (s, d) = (case res of None \<Rightarrow> (i, a - sym_addr e) | Some r \<Rightarrow> r)
           in sym_addr2sym_loop a (i + 1)
                (Some (if a - sym_addr e < d then (i, a - sym_addr e) else (s, d))) es)"

definition sym_addr2sym :: "bool \<Rightarrow> sym_table \<Rightarrow> u32 \<Rightarrow> (nat \<times> u32) option" where
  "sym_addr2sym got_mem tab a =
     (if got_mem then sym_addr2sym_loop a 0 None (take (sym_count tab) (syms tab)) else None)"

text \<open>The C string in an entry's name field.\<close>

definition sym_str :: "sym_entry \<Rightarrow> u8 list" where
  "sym_str e = takeWhile (\<lambda>c. c \<noteq> 0) (sym_name e)"

text \<open>\<open>grow i\<close> is the answer of the heap during the \<open>i\<close>-th call of \<open>sym_add_entry\<close>.\<close>

definition sym_merge ::
  "(nat \<Rightarrow> sym_entry list option) \<Rightarrow> sym_table \<Rightarrow> sym_table \<Rightarrow> sym_table" where
  "sym_merge grow dest src =
     fold (\<lambda>i dest. fst (sym_add_entry (grow i) dest (sym_str (syms src ! i)) (sym_addr (syms src ! i))))
       [0..<sym_count src] dest"

section \<open>The interface of a name table\<close>

text \<open>
  What a table of named values promises: an insertion is seen by the lookups that follow it. The
  insertion may depend on an answer of the environment, here of type \<open>'g\<close>.
\<close>

locale name_table =
  fixes lookup :: "'t \<Rightarrow> 'n \<Rightarrow> 'v option"
    and insert :: "'g \<Rightarrow> 't \<Rightarrow> 'n \<Rightarrow> 'v \<Rightarrow> 't"
    and inv :: "'t \<Rightarrow> bool"
    and ok_name :: "'n \<Rightarrow> bool"
    and ok_env :: "'g \<Rightarrow> bool"
  assumes insert_inv: "inv t \<Longrightarrow> ok_env g \<Longrightarrow> ok_name n \<Longrightarrow> inv (insert g t n v)"
    and lookup_insert: "inv t \<Longrightarrow> ok_env g \<Longrightarrow> ok_name n \<Longrightarrow> ok_name m \<Longrightarrow>
      lookup (insert g t n v) m = (if m = n then Some v else lookup t m)"
begin

definition insert_all :: "('g \<times> 'n \<times> 'v) list \<Rightarrow> 't \<Rightarrow> 't" where
  "insert_all = fold (\<lambda>(g, n, v) t. insert g t n v)"

lemma insert_all_inv:
  "inv t \<Longrightarrow> \<forall>(g, n, v) \<in> set xs. ok_env g \<and> ok_name n \<Longrightarrow> inv (insert_all xs t)"
  by (induction xs arbitrary: t) (auto simp: insert_all_def insert_inv)

lemma lookup_insert_all:
  "inv t \<Longrightarrow> \<forall>(g, n, v) \<in> set xs. ok_env g \<and> ok_name n \<Longrightarrow> ok_name m \<Longrightarrow>
   lookup (insert_all xs t) m =
     (case map_of (rev (map snd xs)) m of Some v \<Rightarrow> Some v | None \<Rightarrow> lookup t m)"
proof (induction xs arbitrary: t)
  case Nil
  then show ?case by (simp add: insert_all_def)
next
  case (Cons x xs)
  obtain g n v where x: "x = (g, n, v)" by (cases x)
  have "lookup (insert_all xs (insert g t n v)) m =
      (case map_of (rev (map snd xs)) m of Some v \<Rightarrow> Some v | None \<Rightarrow> lookup (insert g t n v) m)"
    using Cons x by (intro Cons.IH) (auto intro: insert_inv)
  then show ?case
    using Cons.prems x
    by (auto simp: insert_all_def lookup_insert map_add_def split: option.splits)
qed

end

section \<open>Well-formed tables\<close>

definition sym_entry_ok :: "sym_entry \<Rightarrow> bool" where
  "sym_entry_ok e \<longleftrightarrow> length (sym_name e) = 48 \<and> sym_name e ! 47 = 0"

definition sym_wf :: "sym_table \<Rightarrow> bool" where
  "sym_wf tab \<longleftrightarrow> sym_count tab \<le> sym_max_count tab \<and>
     (\<forall>e \<in> set (syms tab). length (sym_name e) = 48) \<and>
     (\<forall>e \<in> set (take (sym_count tab) (syms tab)). sym_entry_ok e) \<and>
     distinct (map sym_str (take (sym_count tab) (syms tab)))"

text \<open>A name that fits an entry, and an answer of \<open>krealloc\<close> of the requested size.\<close>

definition sym_name_ok :: "u8 list \<Rightarrow> bool" where
  "sym_name_ok nm \<longleftrightarrow> length nm \<le> 47 \<and> 0 \<notin> set nm"

definition sym_extra_ok :: "sym_entry list \<Rightarrow> bool" where
  "sym_extra_ok extra \<longleftrightarrow> length extra = 4 \<and> (\<forall>e \<in> set extra. length (sym_name e) = 48)"

definition sym_lookup :: "sym_table \<Rightarrow> u8 list \<Rightarrow> u32 option" where
  "sym_lookup tab nm = map_option (\<lambda>i. sym_addr (syms tab ! i)) (sym_resolve tab nm)"

lemma sym_entry_ok_nul: "sym_entry_ok e \<Longrightarrow> 0 \<in> set (sym_name e)"
  using nth_mem [of 47 "sym_name e"] by (simp add: sym_entry_ok_def)

lemma sym_matches_iff:
  "sym_name_ok nm \<Longrightarrow> sym_entry_ok e \<Longrightarrow> sym_matches nm e \<longleftrightarrow> sym_str e = nm"
  using take_cstr_iff [of nm "sym_name e"] sym_entry_ok_nul [of e]
  by (auto simp: sym_matches_def sym_name_ok_def sym_str_def)

lemma sym_put_name_ok:
  assumes "length old = 48"
  shows "length (sym_put_name nm old) = 48" and "sym_put_name nm old ! 47 = 0"
  using assms by (auto simp: sym_put_name_def)

lemma sym_put_name_str:
  assumes "length old = 48" and "sym_name_ok nm"
  shows "sym_str \<lparr>sym_name = sym_put_name nm old, sym_addr = a\<rparr> = nm"
proof -
  have "take (Suc (length nm)) (sym_put_name nm old) = nm @ [0]"
  proof (cases "length nm < 47")
    case True
    then show ?thesis using assms by (simp add: sym_put_name_def)
  next
    case False
    then have "length nm = 47" using assms by (simp add: sym_name_ok_def)
    moreover have "length (drop 47 old) = Suc 0" using assms(1) by simp
    then obtain c where "drop 47 old = [c]" by (metis length_0_conv length_Suc_conv)
    ultimately show ?thesis by (simp add: sym_put_name_def list_update_append)
  qed
  then show ?thesis
    using take_cstr_iff [of nm] assms(2) by (auto simp: sym_str_def sym_name_ok_def)
qed

lemma sym_resolve_None_iff:
  "sym_resolve tab nm = None \<longleftrightarrow> (\<forall>e \<in> set (take (sym_count tab) (syms tab)). \<not> sym_matches nm e)"
  by (auto simp: sym_resolve_def Let_def find_idx_lt_iff)

lemma sym_resolve_Some_iff:
  assumes "sym_wf tab" and "sym_name_ok nm"
  shows "sym_resolve tab nm = Some i \<longleftrightarrow> i < sym_count tab \<and> sym_str (syms tab ! i) = nm"
proof -
  let ?used = "take (sym_count tab) (syms tab)"
  have len: "length ?used = sym_count tab" using assms(1) by (simp add: sym_wf_def)
  have match: "sym_matches nm (?used ! j) \<longleftrightarrow> sym_str (syms tab ! j) = nm" if "j < sym_count tab" for j
  proof -
    have "sym_entry_ok (?used ! j)"
      using assms(1) that len unfolding sym_wf_def by (metis nth_mem)
    then show ?thesis using assms(2) that by (simp add: sym_matches_iff)
  qed
  have uniq: "j = i" if "j < sym_count tab" "i < sym_count tab" "sym_str (syms tab ! j) = sym_str (syms tab ! i)" for j
  proof -
    have "distinct (map sym_str ?used)" using assms(1) by (simp add: sym_wf_def)
    then show ?thesis
      using that len nth_eq_iff_index_eq [of "map sym_str ?used" j i] by simp
  qed
  let ?k = "find_idx (sym_matches nm) ?used"
  show ?thesis
  proof (cases "?k < length ?used")
    case True
    then have "sym_matches nm (?used ! ?k)" by (rule find_idx_sat)
    with True len match have "sym_str (syms tab ! ?k) = nm" by simp
    with True len uniq show ?thesis by (auto simp: sym_resolve_def Let_def)
  next
    case False
    then have "\<not> sym_matches nm (?used ! j)" if "j < sym_count tab" for j
      using that len find_idx_lt_iff [of "sym_matches nm" ?used] by (metis nth_mem)
    with False match show ?thesis by (auto simp: sym_resolve_def Let_def)
  qed
qed

lemma sym_wf_nth:
  assumes "sym_wf tab" and "i < sym_count tab"
  shows "sym_entry_ok (syms tab ! i)"
proof -
  have "take (sym_count tab) (syms tab) ! i \<in> set (take (sym_count tab) (syms tab))"
    using assms by (intro nth_mem) (simp add: sym_wf_def)
  then show ?thesis using assms by (simp add: sym_wf_def)
qed

section \<open>Insertion\<close>

text \<open>An entry is written over the one with its name, or appended to the used ones.\<close>

lemma sym_wf_put:
  assumes "sym_wf tab" and "sym_name_ok nm" and "i < sym_count tab"
    and "\<And>j. j < sym_count tab \<Longrightarrow> sym_str (syms tab ! j) = nm \<Longrightarrow> j = i"
  shows "sym_wf (sym_put tab i nm a)"
proof -
  let ?e = "\<lparr>sym_name = sym_put_name nm (sym_name (syms tab ! i)), sym_addr = a\<rparr>"
  have i: "i < sym_max_count tab" using assms(1,3) by (simp add: sym_wf_def)
  then have old: "length (sym_name (syms tab ! i)) = 48"
    using assms(1) by (simp add: sym_wf_def)
  note new = sym_put_name_ok [OF old, of nm] sym_put_name_str [OF old assms(2), of a]
  have str: "sym_str ((syms tab)[i := ?e] ! j) = (if j = i then nm else sym_str (syms tab ! j))" for j
    using i new(3) by (simp add: nth_list_update)
  have dist: "sym_str (syms tab ! j) \<noteq> sym_str (syms tab ! k)"
    if "j < sym_count tab" "k < sym_count tab" "j \<noteq> k" for j k
    using assms(1) that by (simp add: sym_wf_def distinct_conv_nth)
  have "distinct (map sym_str (take (sym_count tab) ((syms tab)[i := ?e])))"
    using assms(1,4) dist by (auto simp: sym_wf_def distinct_conv_nth str)
  moreover have "\<forall>e \<in> set ((syms tab)[i := ?e]). length (sym_name e) = 48"
    using assms(1) new(1) by (auto simp: sym_wf_def dest!: set_update_subset_insert [THEN subsetD])
  moreover have "\<forall>e \<in> set ((take (sym_count tab) (syms tab))[i := ?e]). sym_entry_ok e"
    using assms(1) new(1,2) by (auto simp: sym_wf_def sym_entry_ok_def dest!: set_update_subset_insert [THEN subsetD])
  ultimately show ?thesis
    using assms(1) by (simp add: sym_wf_def sym_put_def take_update_swap)
qed

lemma sym_wf_grow:
  assumes "sym_wf tab" and "\<forall>e \<in> set extra. length (sym_name e) = 48"
  shows "sym_wf (tab\<lparr>syms := syms tab @ extra\<rparr>)"
  using assms by (auto simp: sym_wf_def)

lemma sym_wf_append:
  assumes "sym_wf tab" and "sym_name_ok nm" and "sym_count tab < sym_max_count tab"
    and "\<And>j. j < sym_count tab \<Longrightarrow> sym_str (syms tab ! j) \<noteq> nm"
  shows "sym_wf (sym_put (tab\<lparr>sym_count := sym_count tab + 1\<rparr>) (sym_count tab) nm a)"
proof -
  let ?e = "\<lparr>sym_name = sym_put_name nm (sym_name (syms tab ! sym_count tab)), sym_addr = a\<rparr>"
  have old: "length (sym_name (syms tab ! sym_count tab)) = 48"
    using assms(1,3) by (simp add: sym_wf_def)
  note new = sym_put_name_ok [OF old, of nm] sym_put_name_str [OF old assms(2), of a]
  have used: "take (Suc (sym_count tab)) ((syms tab)[sym_count tab := ?e]) =
      take (sym_count tab) (syms tab) @ [?e]"
    using assms(3) by (simp add: take_Suc_snoc)
  have "nm \<notin> sym_str ` set (take (sym_count tab) (syms tab))"
  proof
    assume "nm \<in> sym_str ` set (take (sym_count tab) (syms tab))"
    then obtain j where "j < sym_count tab" and "sym_str (syms tab ! j) = nm"
      by (auto simp: in_set_conv_nth)
    with assms(4) show False by blast
  qed
  with assms(1) new(3) have "distinct (map sym_str (take (sym_count tab) (syms tab) @ [?e]))"
    by (simp add: sym_wf_def)
  moreover have "\<forall>e \<in> set ((syms tab)[sym_count tab := ?e]). length (sym_name e) = 48"
    using assms(1) new(1) by (auto simp: sym_wf_def dest!: set_update_subset_insert [THEN subsetD])
  moreover have "\<forall>e \<in> set (take (sym_count tab) (syms tab) @ [?e]). sym_entry_ok e"
    using assms(1) new(1,2) by (auto simp: sym_wf_def sym_entry_ok_def)
  ultimately show ?thesis
    using assms(3) by (simp add: sym_wf_def sym_put_def used)
qed

lemma sym_lookup_Some:
  assumes "sym_wf tab" and "sym_name_ok nm"
  shows "sym_lookup tab nm = Some v \<longleftrightarrow>
    (\<exists>i < sym_count tab. sym_str (syms tab ! i) = nm \<and> sym_addr (syms tab ! i) = v)"
  using sym_resolve_Some_iff [OF assms] by (auto simp: sym_lookup_def)

lemma sym_str_unique:
  assumes "sym_wf tab" and "i < sym_count tab" and "j < sym_count tab"
    and "sym_str (syms tab ! i) = sym_str (syms tab ! j)"
  shows "i = j"
proof -
  have "distinct (map sym_str (take (sym_count tab) (syms tab)))" "sym_count tab \<le> sym_max_count tab"
    using assms(1) by (simp_all add: sym_wf_def)
  with assms(2-4) nth_eq_iff_index_eq [of "map sym_str (take (sym_count tab) (syms tab))" i j]
  show ?thesis by simp
qed

text \<open>The two ways through \<open>sym_add_entry\<close> when the heap can grow the array.\<close>

lemma sym_add_entry_cases:
  assumes "sym_wf tab" and "sym_name_ok nm" and "sym_extra_ok extra"
  obtains (overwrite) i where "i < sym_count tab" and "sym_str (syms tab ! i) = nm"
      and "sym_add_entry (Some extra) tab nm a = (sym_put tab i nm a, Some i)"
  | (append) tab' where "sym_wf tab'" and "sym_count tab' = sym_count tab"
      and "sym_count tab' < sym_max_count tab'" and "\<And>i. i < sym_count tab \<Longrightarrow> syms tab' ! i = syms tab ! i"
      and "\<And>j. j < sym_count tab' \<Longrightarrow> sym_str (syms tab' ! j) \<noteq> nm"
      and "sym_add_entry (Some extra) tab nm a =
        (sym_put (tab'\<lparr>sym_count := sym_count tab' + 1\<rparr>) (sym_count tab') nm a, Some (sym_count tab'))"
proof (cases "sym_resolve tab nm")
  case (Some i)
  then show thesis
    using assms sym_resolve_Some_iff [of tab nm i] by (intro overwrite [of i]) (auto simp: sym_add_entry_def)
next
  case None
  define tab' where "tab' = (if sym_count tab = sym_max_count tab then tab\<lparr>syms := syms tab @ extra\<rparr> else tab)"
  have free: "sym_str (syms tab ! j) \<noteq> nm" if "j < sym_count tab" for j
    using that None sym_resolve_Some_iff [OF assms(1,2), of j] by auto
  have le: "sym_count tab \<le> sym_max_count tab" using assms(1) by (simp add: sym_wf_def)
  show thesis
  proof (rule append [of tab'])
    show "sym_wf tab'"
      using assms sym_wf_grow [of tab extra] by (simp add: tab'_def sym_extra_ok_def)
    show "sym_count tab' < sym_max_count tab'"
      using assms(3) le by (auto simp: tab'_def sym_extra_ok_def)
    show "sym_add_entry (Some extra) tab nm a =
        (sym_put (tab'\<lparr>sym_count := sym_count tab' + 1\<rparr>) (sym_count tab') nm a, Some (sym_count tab'))"
      using None by (simp add: sym_add_entry_def tab'_def)
    show nth: "syms tab' ! i = syms tab ! i" if "i < sym_count tab" for i
      using that le by (simp add: tab'_def nth_append)
    show count: "sym_count tab' = sym_count tab" by (simp add: tab'_def)
    show "sym_str (syms tab' ! j) \<noteq> nm" if "j < sym_count tab'" for j
      using that free [of j] by (simp only: nth count not_False_eq_True)
  qed
qed

lemma sym_add_entry_wf:
  assumes "sym_wf tab" and "sym_name_ok nm" and "sym_extra_ok extra"
  shows "sym_wf (fst (sym_add_entry (Some extra) tab nm a))"
  using assms
proof (cases rule: sym_add_entry_cases [where a = a])
  case (overwrite i)
  have "sym_wf (sym_put tab i nm a)"
  proof (rule sym_wf_put [OF assms(1,2) overwrite(1)])
    show "j = i" if "j < sym_count tab" "sym_str (syms tab ! j) = nm" for j
      using sym_str_unique [OF assms(1) that(1) overwrite(1)] that(2) overwrite(2) by metis
  qed
  with overwrite(3) show ?thesis by (simp only: fst_conv)
next
  case (append tab')
  show ?thesis
    unfolding append(6) fst_conv by (rule sym_wf_append [OF append(1) assms(2) append(3,5)])
qed

lemma ex_updated_entry:
  "i < n \<Longrightarrow> (\<exists>j < n. (if j = i then x else S j) = m \<and> (if j = i then y else A j) = v) \<longleftrightarrow>
     (x = m \<and> y = v) \<or> (\<exists>j < n. j \<noteq> i \<and> S j = m \<and> A j = v)"
  by (rule iffI) (auto split: if_splits)

lemma sym_add_entry_lookup:
  assumes wf: "sym_wf tab" and nm: "sym_name_ok nm" and extra: "sym_extra_ok extra"
    and m: "sym_name_ok m"
  shows "sym_lookup (fst (sym_add_entry (Some extra) tab nm a)) m =
    (if m = nm then Some a else sym_lookup tab m)"
proof -
  let ?new = "fst (sym_add_entry (Some extra) tab nm a)"
  note some' = sym_lookup_Some [OF sym_add_entry_wf [OF wf nm extra, of a] m]
  note some = sym_lookup_Some [OF wf m]
  have str: "sym_str \<lparr>sym_name = sym_put_name nm (sym_name (syms t ! i)), sym_addr = a\<rparr> = nm"
    if "sym_wf t" "i < sym_max_count t" for t i
    using that nm by (simp add: sym_wf_def sym_put_name_str)
  have "sym_lookup ?new m = Some v \<longleftrightarrow> (if m = nm then Some a else sym_lookup tab m) = Some v" for v
    using wf nm extra
  proof (cases rule: sym_add_entry_cases [where a = a])
    case (overwrite i)
    have i: "i < sym_max_count tab" using overwrite(1) wf by (simp add: sym_wf_def)
    have uniq: "j = i" if "j < sym_count tab" "sym_str (syms tab ! j) = nm" for j
      using sym_str_unique [OF wf that(1) overwrite(1)] that(2) overwrite(2) by metis
    have new: "sym_count ?new = sym_count tab"
        "sym_str (syms ?new ! j) = (if j = i then nm else sym_str (syms tab ! j))"
        "sym_addr (syms ?new ! j) = (if j = i then a else sym_addr (syms tab ! j))" for j
      unfolding overwrite(3) fst_conv using i str [OF wf i] by (simp_all add: sym_put_def nth_list_update)
    have lhs: "sym_lookup ?new m = Some v \<longleftrightarrow>
        (\<exists>j < sym_count tab. (if j = i then nm else sym_str (syms tab ! j)) = m \<and>
           (if j = i then a else sym_addr (syms tab ! j)) = v)"
      by (simp only: some' new)
    have "(\<exists>j < sym_count tab. j \<noteq> i \<and> sym_str (syms tab ! j) = m \<and> sym_addr (syms tab ! j) = v) \<longleftrightarrow>
        m \<noteq> nm \<and> sym_lookup tab m = Some v"
      using some uniq overwrite(2) by metis
    then show ?thesis
      unfolding lhs ex_updated_entry [OF overwrite(1)] by auto
  next
    case (append tab')
    define e where "e = \<lparr>sym_name = sym_put_name nm (sym_name (syms tab' ! sym_count tab)), sym_addr = a\<rparr>"
    have list: "syms ?new = (syms tab')[sym_count tab := e]" and count: "sym_count ?new = Suc (sym_count tab)"
      unfolding append(6) fst_conv by (simp_all add: sym_put_def e_def append(2))
    have same: "syms ?new ! j = syms tab ! j" if "j < sym_count tab" for j
      using that append(4) by (simp add: list)
    have last: "syms ?new ! sym_count tab = e" "sym_str e = nm" "sym_addr e = a"
      using append(2,3) str [OF append(1) append(3)] by (simp_all add: list e_def)
    have fresh: "\<not> (\<exists>j < sym_count tab. sym_str (syms tab ! j) = nm \<and> sym_addr (syms tab ! j) = v)"
      using append(2,4,5) by metis
    have old: "(\<exists>j < sym_count tab. sym_str (syms ?new ! j) = m \<and> sym_addr (syms ?new ! j) = v) \<longleftrightarrow>
        sym_lookup tab m = Some v"
      unfolding some by (rule ex_cong1, rule conj_cong) (simp_all only: same)
    have "sym_lookup ?new m = Some v \<longleftrightarrow> (nm = m \<and> a = v) \<or> sym_lookup tab m = Some v"
      unfolding some' count Ex_less_Suc last old by (rule refl)
    moreover have "\<not> sym_lookup tab nm = Some v"
      using fresh sym_lookup_Some [OF wf nm, of v] by simp
    ultimately show ?thesis by auto
  qed
  then show ?thesis by (metis not_Some_eq)
qed

interpretation ksyms: name_table sym_lookup "\<lambda>g t n v. fst (sym_add_entry (Some g) t n v)"
  sym_wf sym_name_ok sym_extra_ok
  by unfold_locales (simp_all add: sym_add_entry_wf sym_add_entry_lookup)

section \<open>Address resolution\<close>

text \<open>
  Invariant of the scan: the accumulator is an entry seen so far whose address is the largest of
  those seen.
\<close>

lemma sym_addr2sym_loop_best:
  assumes "\<forall>j < length seen. sym_addr (seen ! j) \<le> a"
    and "case res of None \<Rightarrow> seen = []
         | Some (s, d) \<Rightarrow> s < length seen \<and> d = a - sym_addr (seen ! s) \<and>
             (\<forall>j < length seen. sym_addr (seen ! j) \<le> sym_addr (seen ! s))"
  shows "case sym_addr2sym_loop a (length seen) res es of
      None \<Rightarrow> seen @ takeWhile (\<lambda>e. sym_addr e \<le> a) es = []
    | Some (s, d) \<Rightarrow>
        let all = seen @ takeWhile (\<lambda>e. sym_addr e \<le> a) es
        in s < length all \<and> d = a - sym_addr (all ! s) \<and> (\<forall>e \<in> set all. sym_addr e \<le> sym_addr (all ! s))"
  using assms
proof (induction es arbitrary: seen res)
  case Nil
  then show ?case by (auto simp: Let_def in_set_conv_nth split: option.splits)
next
  case (Cons e es)
  show ?case
  proof (cases "a < sym_addr e")
    case True
    with Cons.prems show ?thesis by (auto simp: Let_def in_set_conv_nth split: option.splits)
  next
    case False
    then have le: "sym_addr e \<le> a" by simp
    obtain s d where sd: "(case res of None \<Rightarrow> (length seen, a - sym_addr e) | Some r \<Rightarrow> r) = (s, d)"
      by fastforce
    let ?res = "Some (if a - sym_addr e < d then (length seen, a - sym_addr e) else (s, d))"
    have sub: "a - sym_addr e < a - b \<longleftrightarrow> b < sym_addr e" if "b \<le> a" for b
      using that le by (simp add: word_less_nat_alt word_le_nat_alt unat_sub) linarith
    have step: "sym_addr2sym_loop a (length seen) res (e # es) =
        sym_addr2sym_loop a (length (seen @ [e])) ?res es"
      using False sd by simp
    have "case sym_addr2sym_loop a (length (seen @ [e])) ?res es of
        None \<Rightarrow> (seen @ [e]) @ takeWhile (\<lambda>e. sym_addr e \<le> a) es = []
      | Some (s, d) \<Rightarrow>
          let all = (seen @ [e]) @ takeWhile (\<lambda>e. sym_addr e \<le> a) es
          in s < length all \<and> d = a - sym_addr (all ! s) \<and> (\<forall>e \<in> set all. sym_addr e \<le> sym_addr (all ! s))"
    proof (rule Cons.IH)
      show "\<forall>j < length (seen @ [e]). sym_addr ((seen @ [e]) ! j) \<le> a"
        using Cons.prems(1) le by (simp add: nth_append less_Suc_eq)
      show "case ?res of None \<Rightarrow> seen @ [e] = []
          | Some (s, d) \<Rightarrow> s < length (seen @ [e]) \<and> d = a - sym_addr ((seen @ [e]) ! s) \<and>
              (\<forall>j < length (seen @ [e]). sym_addr ((seen @ [e]) ! j) \<le> sym_addr ((seen @ [e]) ! s))"
      proof (cases res)
        case None
        with Cons.prems sd show ?thesis by simp
      next
        case (Some r)
        with Cons.prems sd have r: "s < length seen" "d = a - sym_addr (seen ! s)"
            "\<forall>j < length seen. sym_addr (seen ! j) \<le> sym_addr (seen ! s)"
          by simp_all
        moreover have "sym_addr (seen ! s) \<le> a" using Cons.prems(1) r(1) by simp
        ultimately show ?thesis
          using sub [of "sym_addr (seen ! s)"] by (force simp: nth_append less_Suc_eq)
      qed
    qed
    moreover have "seen @ takeWhile (\<lambda>e. sym_addr e \<le> a) (e # es) =
        (seen @ [e]) @ takeWhile (\<lambda>e. sym_addr e \<le> a) es"
      using le by simp
    ultimately show ?thesis unfolding step by (simp only:)
  qed
qed

section \<open>Merging\<close>

lemma sym_merge_insert_all:
  assumes "\<forall>i < sym_count src. grow i = Some (extra i)"
  shows "sym_merge grow dest src =
    ksyms.insert_all
      (map (\<lambda>i. (extra i, sym_str (syms src ! i), sym_addr (syms src ! i))) [0..<sym_count src]) dest"
  unfolding sym_merge_def ksyms.insert_all_def fold_map comp_def prod.case
  by (rule fold_cong) (use assms in auto)

text \<open>The entries in use as an association list; a well-formed table is one without repetitions.\<close>

definition sym_assoc :: "sym_table \<Rightarrow> (u8 list \<times> u32) list" where
  "sym_assoc tab = map (\<lambda>i. (sym_str (syms tab ! i), sym_addr (syms tab ! i))) [0..<sym_count tab]"

lemma sym_assoc_keys: "sym_wf tab \<Longrightarrow> map fst (sym_assoc tab) = map sym_str (take (sym_count tab) (syms tab))"
  by (rule nth_equalityI) (auto simp: sym_assoc_def sym_wf_def)

lemma sym_lookup_assoc:
  assumes "sym_wf tab" and "sym_name_ok nm"
  shows "map_of (rev (sym_assoc tab)) nm = sym_lookup tab nm"
proof -
  have "distinct (map fst (rev (sym_assoc tab)))"
    using assms(1) by (simp add: rev_map [symmetric] sym_assoc_keys) (simp add: sym_wf_def)
  then have "map_of (rev (sym_assoc tab)) nm = Some v \<longleftrightarrow> sym_lookup tab nm = Some v" for v
    unfolding sym_lookup_Some [OF assms]
    by (subst map_of_eq_Some_iff) (auto simp: sym_assoc_def)
  then show ?thesis by (metis not_Some_eq)
qed

lemma sym_str_name_ok: "sym_entry_ok e \<Longrightarrow> sym_name_ok (sym_str e)"
proof -
  assume ok: "sym_entry_ok e"
  have "length (sym_str e) < 48"
  proof (rule ccontr)
    assume "\<not> length (sym_str e) < 48"
    then have "takeWhile (\<lambda>c. c \<noteq> 0) (sym_name e) = sym_name e"
      using ok length_takeWhile_le [of "\<lambda>c. c \<noteq> 0" "sym_name e"]
      by (metis append_eq_conv_conj linorder_not_less nle_le sym_entry_ok_def sym_str_def
          take_all takeWhile_dropWhile_id)
    with sym_entry_ok_nul [OF ok] show False by (metis set_takeWhileD)
  qed
  then show ?thesis by (auto simp: sym_name_ok_def sym_str_def dest: set_takeWhileD)
qed

section \<open>Properties\<close>

text \<open>
  C5: after \<open>sym_merge(dest, src)\<close> of two well-formed tables, with a heap that can grow \<open>dest\<close>,
  \<open>dest\<close> is well-formed and a name resolves to its address in \<open>src\<close> if \<open>src\<close> has it, and to
  what it resolved to in \<open>dest\<close> before otherwise.
\<close>

theorem sym_merge_lookup:
  assumes "sym_wf dest" and "sym_wf src" and "sym_name_ok nm"
    and "\<forall>i < sym_count src. grow i = Some (extra i) \<and> sym_extra_ok (extra i)"
  shows "sym_wf (sym_merge grow dest src) \<and>
    sym_lookup (sym_merge grow dest src) nm =
      (case sym_lookup src nm of Some v \<Rightarrow> Some v | None \<Rightarrow> sym_lookup dest nm)"
proof -
  let ?xs = "map (\<lambda>i. (extra i, sym_str (syms src ! i), sym_addr (syms src ! i))) [0..<sym_count src]"
  have ok: "\<forall>(g, n, v) \<in> set ?xs. sym_extra_ok g \<and> sym_name_ok n"
    using assms(2,4) sym_wf_nth [of src] by (simp add: sym_str_name_ok)
  have "map snd ?xs = sym_assoc src" by (simp add: sym_assoc_def)
  moreover have "sym_merge grow dest src = ksyms.insert_all ?xs dest"
    using assms(4) by (intro sym_merge_insert_all) simp
  ultimately show ?thesis
    using ksyms.insert_all_inv [OF assms(1) ok] ksyms.lookup_insert_all [OF assms(1) ok assms(3)]
    by (simp add: sym_lookup_assoc assms(2,3))
qed

text \<open>
  A table with \<^verbatim>\<open>ab\<close> at 16, merged with one that has \<^verbatim>\<open>ab\<close> at 32 and \<^verbatim>\<open>c\<close> at 48.
\<close>

definition sym_example :: "(u8 list \<times> u32) list \<Rightarrow> sym_table" where
  "sym_example xs = fold (\<lambda>(n, a) t. fst (sym_add_entry (Some (replicate 4 zero_entry)) t n a)) xs
     (the (sym_new_table True True 0))"

theorem sym_merge_lookup_witness:
  "\<exists>tab. sym_lookup tab [97, 98] = Some 32 \<and> sym_lookup tab [99] = Some 48 \<and> sym_wf tab"
proof -
  let ?dest = "sym_example [([97, 98], 16)]"
  let ?src = "sym_example [([97, 98], 32), ([99], 48)]"
  have wf: "sym_wf ?dest" "sym_wf ?src" by code_simp+
  have ok: "sym_name_ok [97, 98]" "sym_name_ok [99]" by (simp_all add: sym_name_ok_def)
  have grow: "\<forall>i < sym_count ?src. Some (replicate 4 zero_entry) = Some (replicate 4 zero_entry) \<and>
      sym_extra_ok (replicate 4 zero_entry)"
    by (simp add: sym_extra_ok_def zero_entry_def)
  have "sym_lookup ?src [97, 98] = Some 32" "sym_lookup ?src [99] = Some 48" by code_simp+
  with sym_merge_lookup [OF wf ok(1) grow] sym_merge_lookup [OF wf ok(2) grow] show ?thesis
    by (intro exI [of _ "sym_merge (\<lambda>i. Some (replicate 4 zero_entry)) ?dest ?src"]) simp
qed

text \<open>
  \<open>sym_addr2sym\<close> returns, with its distance, the nearest symbol at or below the address among
  the symbols before the first one above it, and NULL exactly when there is none. (This is the
  nearest symbol of the table when the addresses ascend, which \<open>sym_add_entry\<close> does not enforce.)
\<close>

lemma sym_addr2sym_nearest:
  "case sym_addr2sym True tab a of
     None \<Rightarrow> takeWhile (\<lambda>e. sym_addr e \<le> a) (take (sym_count tab) (syms tab)) = []
   | Some (s, d) \<Rightarrow>
       let below = takeWhile (\<lambda>e. sym_addr e \<le> a) (take (sym_count tab) (syms tab))
       in s < length below \<and> d = a - sym_addr (below ! s) \<and>
          filter (\<lambda>e. sym_addr (below ! s) < sym_addr e) below = []"
  using sym_addr2sym_loop_best [of "[]" a None "take (sym_count tab) (syms tab)"]
  by (auto simp: sym_addr2sym_def Let_def filter_empty_conv not_less split: option.splits)

text \<open>
  a name longer than 47 characters is stored cut, but never found again under its own name: the
  lookup compares 48 bytes, and the last one is NUL in every entry. Each \<open>sym_add_entry\<close> of such
  a name appends a new entry.
\<close>

lemma sym_resolve_long_name:
  assumes "sym_wf tab" and "47 < length nm" and "0 \<notin> set nm" and "sym_count tab < sym_max_count tab"
  shows "sym_resolve tab nm = None \<and>
    sym_count (fst (sym_add_entry grow tab nm a)) = sym_count tab + 1 \<and>
    sym_resolve (fst (sym_add_entry grow tab nm a)) nm = None"
proof -
  have no_match: "\<not> sym_matches nm e" if "sym_entry_ok e" for e
  proof
    assume "sym_matches nm e"
    then have "take 48 (sym_name e) ! 47 = take 48 (nm @ [0]) ! 47"
      using assms(2) by (simp add: sym_matches_def)
    then have "nm ! 47 = 0"
      using that assms(2) by (simp add: sym_entry_ok_def nth_append)
    with assms(2,3) show False by (metis nth_mem)
  qed
  have none: "sym_resolve tab nm = None"
    using assms(1) no_match by (simp add: sym_resolve_None_iff sym_wf_def)
  let ?e = "\<lparr>sym_name = sym_put_name nm (sym_name (syms tab ! sym_count tab)), sym_addr = a\<rparr>"
  have add: "fst (sym_add_entry grow tab nm a) =
      tab\<lparr>sym_count := Suc (sym_count tab), syms := (syms tab)[sym_count tab := ?e]\<rparr>"
    using none assms(4) by (simp add: sym_add_entry_def sym_put_def)
  have "sym_entry_ok ?e"
    using assms(1,4) by (simp add: sym_entry_ok_def sym_put_name_ok sym_wf_def)
  with no_match none assms(1,4) add show ?thesis
    by (auto simp: sym_resolve_None_iff sym_wf_def take_Suc_snoc)
qed

lemma sym_resolve_long_name_witness:
  "sym_resolve (fst (sym_add_entry None (the (sym_new_table True True 4)) (replicate 50 65) 1))
     (replicate 50 65) = None"
  using sym_resolve_long_name [of "the (sym_new_table True True 4)" "replicate 50 65" None 1]
  by (simp add: sym_new_table_def sym_wf_def zero_entry_def)

end
