(* ===== verification/Vfs.thy ===== *)
theory Vfs
  imports Helpers
begin

text \<open>
  \<^verbatim>\<open>fs/vfs.c\<close>: the virtual file system layer. Nodes are numbered; \<open>None\<close> is the NULL pointer. A
  node's \<open>hook\<close> names a table of optional handlers, looked up with the argument \<open>ops\<close>; the handlers
  may change the whole state, of which file systems add fields of their own. Results of type option
  are \<open>None\<close> when the call does not return: a NULL hook is dereferenced, a name overflows its
  buffer, or a chain of symbolic links has a cycle.
\<close>

datatype vlink = Link_null | Link_node nat | Link_ptr u32

record 'h vnode =
  vn_name :: "u8 list"
  vn_flags :: u8
  vn_uid :: u32
  vn_gid :: u32
  vn_inode :: u64
  vn_length :: u64
  vn_hook :: "'h option"
  vn_link :: vlink
  vn_mtime :: u64

record dirent =
  d_name :: "u8 list"
  d_ino :: u64

record 'h vfs =
  vn :: "nat \<Rightarrow> 'h vnode"
  vfs_root :: "nat option"
  vfs_dirent_buf :: "dirent list"
  vfs_dirent_idx :: nat

type_synonym ('h, 'z, 'a) vop = "('h, 'z) vfs_scheme \<Rightarrow> ('a \<times> ('h, 'z) vfs_scheme) option"

record ('h, 'z) vhook =
  h_read :: "(nat \<Rightarrow> u64 \<Rightarrow> u64 \<Rightarrow> ('h, 'z, u64 \<times> u8 list) vop) option"
  h_write :: "(nat \<Rightarrow> u64 \<Rightarrow> u64 \<Rightarrow> u8 list \<Rightarrow> ('h, 'z, u64) vop) option"
  h_open :: "(nat \<Rightarrow> bool \<Rightarrow> bool \<Rightarrow> ('h, 'z, bool) vop) option"
  h_close :: "(nat \<Rightarrow> ('h, 'z, unit) vop) option"
  h_readdir :: "(nat \<Rightarrow> u64 \<Rightarrow> ('h, 'z, nat option) vop) option"
  h_finddir :: "(nat \<Rightarrow> u8 list \<Rightarrow> ('h, 'z, nat option) vop) option"
  h_create :: "(nat \<Rightarrow> u8 list \<Rightarrow> u16 \<Rightarrow> ('h, 'z, nat option) vop) option"
  h_mkdir :: "(nat \<Rightarrow> u8 list \<Rightarrow> u16 \<Rightarrow> ('h, 'z, nat option) vop) option"
  h_remove :: "(nat \<Rightarrow> ('h, 'z, bool) vop) option"
  h_ioctl :: "(nat \<Rightarrow> u32 \<Rightarrow> u8 list \<Rightarrow> ('h, 'z, unit) vop) option"

abbreviation VFS_FILE :: u8 where "VFS_FILE \<equiv> 1"
abbreviation VFS_DIRECTORY :: u8 where "VFS_DIRECTORY \<equiv> 2"
abbreviation VFS_CHARDEV :: u8 where "VFS_CHARDEV \<equiv> 3"
abbreviation VFS_BLOCKDEV :: u8 where "VFS_BLOCKDEV \<equiv> 7"
abbreviation VFS_PIPE :: u8 where "VFS_PIPE \<equiv> 15"
abbreviation VFS_MOUNTPOINT :: u8 where "VFS_MOUNTPOINT \<equiv> 18"
abbreviation VFS_SYMLINK :: u8 where "VFS_SYMLINK \<equiv> 32"

definition is_symlink :: "'h vnode \<Rightarrow> bool" where
  "is_symlink x \<longleftrightarrow> vn_flags x AND VFS_SYMLINK \<noteq> 0"

definition is_file :: "u8 \<Rightarrow> bool" where
  "is_file f \<longleftrightarrow> f AND VFS_FILE \<noteq> 0"

definition is_dir :: "u8 \<Rightarrow> bool" where
  "is_dir f \<longleftrightarrow> f = VFS_DIRECTORY \<or> f = VFS_MOUNTPOINT"

text \<open>
  Following links stops at a node that is not a link or is a link to itself. A raw pointer in the
  link of a symbolic link is not a node: \<open>None\<close>.
\<close>

partial_function (option) vfs_traverse_symlink :: "(nat \<Rightarrow> 'h vnode) \<Rightarrow> nat option \<Rightarrow> nat option option" where
  "vfs_traverse_symlink nodes node =
     (case node of
        None \<Rightarrow> Some None
      | Some n \<Rightarrow>
          if is_symlink (nodes n) then
            case vn_link (nodes n) of
              Link_null \<Rightarrow> vfs_traverse_symlink nodes None
            | Link_node t \<Rightarrow> if t = n then Some (Some n) else vfs_traverse_symlink nodes (Some t)
            | Link_ptr _ \<Rightarrow> None
          else Some (Some n))"

text \<open>
  The shape of all handlers calls: follow links, check the type, look up the handler; without a node,
  type or handler the default is returned.
\<close>

definition vfs_call ::
  "('h \<Rightarrow> ('h, 'z) vhook) \<Rightarrow> nat option \<Rightarrow> (u8 \<Rightarrow> bool) \<Rightarrow> (('h, 'z) vhook \<Rightarrow> (nat \<Rightarrow> ('h, 'z, 'a) vop) option) \<Rightarrow>
     'a \<Rightarrow> ('h, 'z, 'a) vop" where
  "vfs_call ops node type_ok sel deflt st =
     do { node \<leftarrow> vfs_traverse_symlink (vn st) node;
          case node of
            None \<Rightarrow> Some (deflt, st)
          | Some n \<Rightarrow>
              if type_ok (vn_flags (vn st n)) then
                do { h \<leftarrow> vn_hook (vn st n);
                     case sel (ops h) of None \<Rightarrow> Some (deflt, st) | Some f \<Rightarrow> f n st }
              else Some (deflt, st) }"

definition vfs_read :: "('h \<Rightarrow> ('h, 'z) vhook) \<Rightarrow> nat option \<Rightarrow> u64 \<Rightarrow> u64 \<Rightarrow> ('h, 'z, u64 \<times> u8 list) vop" where
  "vfs_read ops node offset len =
     vfs_call ops node is_file (\<lambda>h. map_option (\<lambda>f n. f n offset len) (h_read h)) (0, [])"

definition vfs_write :: "('h \<Rightarrow> ('h, 'z) vhook) \<Rightarrow> nat option \<Rightarrow> u64 \<Rightarrow> u64 \<Rightarrow> u8 list \<Rightarrow> ('h, 'z, u64) vop" where
  "vfs_write ops node offset len buffer =
     vfs_call ops node is_file (\<lambda>h. map_option (\<lambda>f n. f n offset len buffer) (h_write h)) 0"

definition vfs_open :: "('h \<Rightarrow> ('h, 'z) vhook) \<Rightarrow> nat option \<Rightarrow> bool \<Rightarrow> bool \<Rightarrow> ('h, 'z, bool) vop" where
  "vfs_open ops node r w =
     vfs_call ops node (\<lambda>_. True) (\<lambda>h. map_option (\<lambda>f n. f n r w) (h_open h)) True"

definition vfs_close :: "('h \<Rightarrow> ('h, 'z) vhook) \<Rightarrow> nat option \<Rightarrow> ('h, 'z, unit) vop" where
  "vfs_close ops node = vfs_call ops node (\<lambda>_. True) h_close ()"

definition vfs_readdir :: "('h \<Rightarrow> ('h, 'z) vhook) \<Rightarrow> nat option \<Rightarrow> u64 \<Rightarrow> ('h, 'z, nat option) vop" where
  "vfs_readdir ops node idx =
     vfs_call ops node is_dir (\<lambda>h. map_option (\<lambda>f n. f n idx) (h_readdir h)) None"

definition vfs_finddir :: "('h \<Rightarrow> ('h, 'z) vhook) \<Rightarrow> nat option \<Rightarrow> u8 list \<Rightarrow> ('h, 'z, nat option) vop" where
  "vfs_finddir ops node nm =
     vfs_call ops node is_dir (\<lambda>h. map_option (\<lambda>f n. f n nm) (h_finddir h)) None"

definition vfs_create :: "('h \<Rightarrow> ('h, 'z) vhook) \<Rightarrow> nat option \<Rightarrow> u8 list \<Rightarrow> u16 \<Rightarrow> ('h, 'z, nat option) vop" where
  "vfs_create ops node nm msk =
     vfs_call ops node is_dir (\<lambda>h. map_option (\<lambda>f n. f n nm msk) (h_create h)) None"

definition vfs_mkdir :: "('h \<Rightarrow> ('h, 'z) vhook) \<Rightarrow> nat option \<Rightarrow> u8 list \<Rightarrow> u16 \<Rightarrow> ('h, 'z, nat option) vop" where
  "vfs_mkdir ops node nm msk =
     vfs_call ops node is_dir (\<lambda>h. map_option (\<lambda>f n. f n nm msk) (h_mkdir h)) None"

definition vfs_remove :: "('h \<Rightarrow> ('h, 'z) vhook) \<Rightarrow> nat option \<Rightarrow> ('h, 'z, bool) vop" where
  "vfs_remove ops node = vfs_call ops node (\<lambda>_. True) h_remove False"

definition vfs_ioctl :: "('h \<Rightarrow> ('h, 'z) vhook) \<Rightarrow> nat option \<Rightarrow> u32 \<Rightarrow> u8 list \<Rightarrow> ('h, 'z, unit) vop" where
  "vfs_ioctl ops node request buf =
     vfs_call ops node (\<lambda>_. True) (\<lambda>h. map_option (\<lambda>f n. f n request buf) (h_ioctl h)) ()"

text \<open>The ring of directory entries handed out by the file systems: \<open>VFS_DIRENT_SIZE\<close> is 1024.\<close>

definition vfs_alloc_dirent :: "('h, 'z) vfs_scheme \<Rightarrow> nat \<times> ('h, 'z) vfs_scheme" where
  "vfs_alloc_dirent st =
     (let i = vfs_dirent_idx st; j = i + 1
      in (i, st\<lparr>vfs_dirent_idx := (if j = 1024 then 0 else j),
                vfs_dirent_buf := (vfs_dirent_buf st)[i := \<lparr>d_name = [], d_ino = 0\<rparr>]\<rparr>))"

text \<open>
  The loop of \<open>vfs_traverse_path\<close>. The element is copied to a buffer of 256 bytes; one that does not
  fit with its NUL is written past the end: \<open>None\<close>. 46 is the dot.
\<close>

function vfs_path_loop ::
  "('h \<Rightarrow> ('h, 'z) vhook) \<Rightarrow> nat option \<Rightarrow> u8 list \<Rightarrow> ('h, 'z, nat option) vop" where
  "vfs_path_loop ops node path st =
     (if node \<noteq> None \<and> path \<noteq> [] then
        (case path_traverse path of (rest, len) \<Rightarrow>
           if len = 0 \<or> (len = 1 \<and> path ! 0 = 46) then vfs_path_loop ops node rest st
           else if 256 \<le> len then None
           else
             (case vfs_finddir ops node (take len path) st of
                None \<Rightarrow> None
              | Some (node, st) \<Rightarrow> vfs_path_loop ops node rest st))
      else Some (node, st))"
  by pat_completeness auto
termination
  by (relation "measure (\<lambda>(ops, node, path, st). length path)")
     (auto, (metis fst_conv path_traverse_shorter)+)

declare vfs_path_loop.simps [simp del]

definition vfs_traverse_path ::
  "('h \<Rightarrow> ('h, 'z) vhook) \<Rightarrow> bool \<Rightarrow> nat option \<Rightarrow> u8 list option \<Rightarrow> ('h, 'z, nat option) vop" where
  "vfs_traverse_path ops got_mem start_node path st =
     (case path of
        None \<Rightarrow> Some (None, st)
      | Some p \<Rightarrow>
          if start_node = None \<and> (p = [] \<or> p ! 0 \<noteq> 47) then Some (None, st)
          else
            let node = (if start_node = None then vfs_root st else start_node)
            in if got_mem then vfs_path_loop ops node p st else Some (None, st))"

section \<open>Symbolic links\<close>

text \<open>Link chains that end: every link of the chain leads to a node of smaller rank.\<close>

definition links_ranked :: "(nat \<Rightarrow> 'h vnode) \<Rightarrow> (nat \<Rightarrow> nat) \<Rightarrow> bool" where
  "links_ranked nodes rank \<longleftrightarrow>
     (\<forall>n. is_symlink (nodes n) \<longrightarrow>
        (case vn_link (nodes n) of
           Link_null \<Rightarrow> True
         | Link_node t \<Rightarrow> t \<noteq> n \<longrightarrow> rank t < rank n
         | Link_ptr _ \<Rightarrow> False))"

lemma vfs_traverse_symlink_node:
  "\<not> is_symlink (nodes n) \<Longrightarrow> vfs_traverse_symlink nodes (Some n) = Some (Some n)"
  by (subst vfs_traverse_symlink.simps) simp

lemma vfs_traverse_symlink_None [simp]: "vfs_traverse_symlink nodes None = Some None"
  by (subst vfs_traverse_symlink.simps) simp

text \<open>Two links to each other are followed forever.\<close>

lemma vfs_traverse_symlink_cycle:
  assumes "is_symlink (nodes a)" "vn_link (nodes a) = Link_node b"
    and "is_symlink (nodes b)" "vn_link (nodes b) = Link_node a" and "a \<noteq> b"
  shows "vfs_traverse_symlink nodes (Some a) = None"
proof -
  have "nd = nodes \<longrightarrow> node \<noteq> Some a \<and> node \<noteq> Some b" if "vfs_traverse_symlink nd node = Some r"
    for nd and node r
    using that
  proof (rule vfs_traverse_symlink.raw_induct [rotated])
    fix trav nd node r
    assume IH: "\<And>nd node r. trav nd node = Some r \<Longrightarrow> nd = nodes \<longrightarrow> node \<noteq> Some a \<and> node \<noteq> Some b"
      and step: "(case node of None \<Rightarrow> Some None
        | Some n \<Rightarrow>
            if is_symlink (nd n) then
              case vn_link (nd n) of
                Link_null \<Rightarrow> trav nd None
              | Link_node t \<Rightarrow> if t = n then Some (Some n) else trav nd (Some t)
              | Link_ptr _ \<Rightarrow> None
            else Some (Some n)) = Some r"
    show "nd = nodes \<longrightarrow> node \<noteq> Some a \<and> node \<noteq> Some b"
    proof (intro impI conjI notI)
      assume "nd = nodes" "node = Some a"
      with assms step have "trav nodes (Some b) = Some r" by simp
      from IH [OF this] show False by simp
    next
      assume "nd = nodes" "node = Some b"
      with assms step have "trav nodes (Some a) = Some r" by simp
      from IH [OF this] show False by simp
    qed
  qed
  then show ?thesis by (cases "vfs_traverse_symlink nodes (Some a)") auto
qed

lemma vfs_traverse_symlink_ranked:
  assumes "links_ranked nodes rank"
  shows "\<exists>r. vfs_traverse_symlink nodes (Some n) = Some r \<and>
    (case r of None \<Rightarrow> True | Some m \<Rightarrow> is_symlink (nodes m) \<longrightarrow> vn_link (nodes m) = Link_node m)"
proof (induction "rank n" arbitrary: n rule: less_induct)
  case less
  show ?case
  proof (cases "is_symlink (nodes n)")
    case False
    then show ?thesis by (simp add: vfs_traverse_symlink_node)
  next
    case True
    show ?thesis
    proof (cases "vn_link (nodes n)")
      case Link_null
      have "vfs_traverse_symlink nodes (Some n) = Some None"
        by (subst vfs_traverse_symlink.simps) (simp add: True Link_null)
      then show ?thesis by simp
    next
      case (Link_node t)
      show ?thesis
      proof (cases "t = n")
        case True
        have "vfs_traverse_symlink nodes (Some n) = Some (Some n)"
          by (subst vfs_traverse_symlink.simps) (simp add: True Link_node \<open>is_symlink (nodes n)\<close>)
        with True Link_node show ?thesis by simp
      next
        case False
        then have "rank t < rank n"
          using assms True Link_node by (auto simp: links_ranked_def dest!: spec [of _ n])
        moreover have "vfs_traverse_symlink nodes (Some n) = vfs_traverse_symlink nodes (Some t)"
          by (subst vfs_traverse_symlink.simps) (simp add: True Link_node False)
        ultimately show ?thesis using less [of t] by simp
      qed
    next
      case (Link_ptr p)
      then have False using assms True by (auto simp: links_ranked_def dest!: spec [of _ n])
      then show ?thesis ..
    qed
  qed
qed

section \<open>Paths\<close>

text \<open>Walking down element by element with \<open>vfs_finddir\<close>; a missing element ends the walk.\<close>

fun walk_elems :: "('h \<Rightarrow> ('h, 'z) vhook) \<Rightarrow> nat option \<Rightarrow> u8 list list \<Rightarrow> ('h, 'z, nat option) vop" where
  "walk_elems ops node [] st = Some (node, st)"
| "walk_elems ops None (e # es) st = Some (None, st)"
| "walk_elems ops (Some n) (e # es) st =
     Option.bind (vfs_finddir ops (Some n) e st) (\<lambda>(node, st). walk_elems ops node es st)"

lemma walk_elems_None [simp]: "walk_elems ops None es st = Some (None, st)"
  by (cases es) auto

lemma vfs_path_loop_walk:
  "\<forall>e \<in> set (path_elems path). length e < 256 \<Longrightarrow>
   vfs_path_loop ops node path st = walk_elems ops node (path_elems path) st"
proof (induction ops node path st rule: vfs_path_loop.induct)
  case (1 ops node path st)
  obtain rest len where pt: "path_traverse path = (rest, len)" by fastforce
  show ?case
  proof (cases "node \<noteq> None \<and> path \<noteq> []")
    case False
    then have "node = None \<or> path_elems path = []" by (auto simp: path_elems_def)
    with False show ?thesis by (subst vfs_path_loop.simps) (auto split: if_splits)
  next
    case True
    then obtain n where n: "node = Some n" by auto
    note elems = split_slash_step [OF pt conjunct2 [OF True]]
    show ?thesis
    proof (cases "len = 0 \<or> (len = 1 \<and> path ! 0 = 46)")
      case skip: True
      then have "vfs_path_loop ops node rest st = walk_elems ops node (path_elems rest) st"
        using "1.IH"(1) [OF True pt [symmetric] skip] "1.prems" elems by simp
      with skip True elems pt show ?thesis by (subst vfs_path_loop.simps) simp
    next
      case elem: False
      then have es: "path_elems path = take len path # path_elems rest" using elems by simp
      have "length (take len path) = len"
        using pt by (auto simp: path_traverse_def Let_def)
      then have len: "\<not> 256 \<le> len" using "1.prems" es by simp
      have step: "vfs_path_loop ops node path st =
          (case vfs_finddir ops node (take len path) st of
             None \<Rightarrow> None | Some (node, st) \<Rightarrow> vfs_path_loop ops node rest st)"
        unfolding vfs_path_loop.simps [of ops node path st] if_P [OF True] pt prod.case
          if_not_P [OF elem] if_not_P [OF len] by (rule refl)
      show ?thesis
      proof (cases "vfs_finddir ops node (take len path) st")
        case None
        then show ?thesis using step es n by simp
      next
        case (Some r)
        obtain node' st' where r: "r = (node', st')" by fastforce
        have "vfs_path_loop ops node' rest st' = walk_elems ops node' (path_elems rest) st'"
          using "1.IH"(2) [OF True pt [symmetric] elem len Some r [symmetric]] "1.prems" es by simp
        then show ?thesis using step es n Some r by simp
      qed
    qed
  qed
qed

section \<open>Properties\<close>

text \<open>
  C10: \<open>vfs_traverse_path\<close> of an absolute path walks from the root through the non-empty elements
  other than \<^verbatim>\<open>.\<close>, in order, one \<open>vfs_finddir\<close> each, and stops at the first element that is not
  found; no element may be longer than 255 bytes.
\<close>

theorem vfs_traverse_path_walks:
  assumes "\<forall>e \<in> set (path_elems p). length e < 256" and "p \<noteq> []" and "p ! 0 = 47"
  shows "vfs_traverse_path ops True None (Some p) st = walk_elems ops (vfs_root st) (path_elems p) st"
  using assms by (simp add: vfs_traverse_path_def vfs_path_loop_walk)

text \<open>The path \<^verbatim>\<open>//a/./a\<close> in a tree where every directory has one entry \<^verbatim>\<open>a\<close>.\<close>

theorem vfs_traverse_path_walks_witness:
  "\<exists>(ops :: unit \<Rightarrow> (unit, unit) vhook) st.
     map_option fst (vfs_traverse_path ops True None (Some [47, 47, 97, 47, 46, 47, 97]) st) = Some (Some 2)"
proof -
  let ?hook = "\<lparr>h_read = None, h_write = None, h_open = None, h_close = None, h_readdir = None,
    h_finddir = Some (\<lambda>n nm st. Some (if nm = [97] then Some (n + 1) else None, st)),
    h_create = None, h_mkdir = None, h_remove = None, h_ioctl = None\<rparr> :: (unit, unit) vhook"
  let ?ops = "\<lambda>_ :: unit. ?hook"
  let ?dir = "\<lparr>vn_name = [], vn_flags = VFS_DIRECTORY, vn_uid = 0, vn_gid = 0, vn_inode = 0, vn_length = 0, vn_hook = Some (), vn_link = Link_null, vn_mtime = 0\<rparr>"
  let ?st = "\<lparr>vn = (\<lambda>_. ?dir), vfs_root = Some 0, vfs_dirent_buf = [], vfs_dirent_idx = 0\<rparr>"
  have "path_elems [47, 47, 97, 47, 46, 47, 97] = [[97], [97]]" by (simp add: path_elems_def)
  moreover have find: "vfs_finddir ?ops (Some n) [97] ?st = Some (Some (n + 1), ?st)" for n
    by (simp add: vfs_finddir_def vfs_call_def vfs_traverse_symlink_node is_symlink_def is_dir_def)
  ultimately have "map_option fst (vfs_traverse_path ?ops True None (Some [47, 47, 97, 47, 46, 47, 97]) ?st) = Some (Some 2)"
    by (subst vfs_traverse_path_walks) simp_all
  then show ?thesis by blast
qed

text \<open>
  C11: when the symbolic links are ranked so that every link leads to a node of smaller rank or to
  itself, following links returns, with NULL or a node that is not a link or links to itself.
\<close>

theorem vfs_traverse_symlink_returns:
  assumes "links_ranked nodes rank"
  shows "\<exists>r. vfs_traverse_symlink nodes node = Some r \<and>
    (case r of None \<Rightarrow> True | Some m \<Rightarrow> \<not> is_symlink (nodes m) \<or> vn_link (nodes m) = Link_node m)"
proof (cases node)
  case (Some n)
  obtain r where "vfs_traverse_symlink nodes (Some n) = Some r"
    "case r of None \<Rightarrow> True | Some m \<Rightarrow> is_symlink (nodes m) \<longrightarrow> vn_link (nodes m) = Link_node m"
    using vfs_traverse_symlink_ranked [OF assms] by blast
  with Some show ?thesis by (intro exI [of _ r]) (auto split: option.splits)
qed simp

text \<open>Node 1 links to node 0, a file; all others link to themselves.\<close>

theorem vfs_traverse_symlink_returns_witness:
  "\<exists>nodes :: nat \<Rightarrow> unit vnode. \<exists>r. is_symlink (nodes 1) \<and> vfs_traverse_symlink nodes (Some 1) = Some r"
proof -
  let ?node = "\<lambda>f l. \<lparr>vn_name = [], vn_flags = f, vn_uid = 0, vn_gid = 0, vn_inode = 0, vn_length = 0, vn_hook = None :: unit option, vn_link = l, vn_mtime = 0\<rparr>"
  let ?nodes = "\<lambda>n. if n = 0 then ?node VFS_FILE Link_null else if n = 1 then ?node VFS_SYMLINK (Link_node 0)
    else ?node VFS_SYMLINK (Link_node n)"
  have "links_ranked ?nodes (\<lambda>n. n)" by (simp add: links_ranked_def is_symlink_def)
  from vfs_traverse_symlink_returns [OF this, of "Some 1"] show ?thesis
    by (intro exI [of _ ?nodes]) (auto simp: is_symlink_def)
qed

end
