(* ===== verification/Memfs.thy ===== *)
theory Memfs
  imports Vfs
begin

text \<open>
  \<^verbatim>\<open>fs/memfs.c\<close>: a block of memory as a file. The node's \<open>link.ptr\<close> is the address of the block; the
  state of the file systems adds the byte-addressed memory. Offsets and sizes are 64-bit words; the
  address arithmetic and the count given to \<open>memcpy\<close> use their lower 32 bits. The caller's buffer
  is a list of bytes.
\<close>

record 'h fs = "'h vfs" +
  fs_mem :: mem

definition get_bytes :: "mem \<Rightarrow> u32 \<Rightarrow> nat \<Rightarrow> u8 list" where
  "get_bytes m p n = map (\<lambda>i. m (p + of_nat i)) [0..<n]"

definition put_bytes :: "u32 \<Rightarrow> u8 list \<Rightarrow> mem \<Rightarrow> mem" where
  "put_bytes p bs m = (\<lambda>a. if unat (a - p) < length bs then bs ! unat (a - p) else m a)"

definition link_addr :: "vlink \<Rightarrow> u32 option" where
  "link_addr l = (case l of Link_null \<Rightarrow> Some 0 | Link_ptr p \<Rightarrow> Some p | Link_node _ \<Rightarrow> None)"

text \<open>The bounds check shared by both directions: \<open>None\<close> is the early \<open>return 0\<close>.\<close>

definition memfs_clip :: "u64 \<Rightarrow> u64 \<Rightarrow> u64 \<Rightarrow> u64 option" where
  "memfs_clip len offset sz =
     (if len < offset + sz then if len \<le> offset then None else Some (len - offset) else Some sz)"

definition memfs_vfs_read ::
  "nat \<Rightarrow> u64 \<Rightarrow> u64 \<Rightarrow> ('h, 'z) fs_scheme \<Rightarrow> ((u64 \<times> u8 list) \<times> ('h, 'z) fs_scheme) option" where
  "memfs_vfs_read n offset sz st =
     (case memfs_clip (vn_length (vn st n)) offset sz of
        None \<Rightarrow> Some ((0, []), st)
      | Some sz \<Rightarrow>
          do { p \<leftarrow> link_addr (vn_link (vn st n));
               Some ((sz, get_bytes (fs_mem st) (p + ucast offset) (unat (ucast sz :: u32))), st) })"

definition memfs_vfs_write ::
  "nat \<Rightarrow> u64 \<Rightarrow> u64 \<Rightarrow> u8 list \<Rightarrow> ('h, 'z) fs_scheme \<Rightarrow> (u64 \<times> ('h, 'z) fs_scheme) option" where
  "memfs_vfs_write n offset sz buffer st =
     (case memfs_clip (vn_length (vn st n)) offset sz of
        None \<Rightarrow> Some (0, st)
      | Some sz \<Rightarrow>
          do { p \<leftarrow> link_addr (vn_link (vn st n));
               Some (sz, st\<lparr>fs_mem := put_bytes (p + ucast offset) (take (unat (ucast sz :: u32)) buffer) (fs_mem st)\<rparr>) })"

text \<open>The two handler tables.\<close>

definition memfs_hook_ro :: "('h, 'z fs_ext) vhook" where
  "memfs_hook_ro = \<lparr>h_read = Some memfs_vfs_read, h_write = None, h_open = None, h_close = None,
     h_readdir = None, h_finddir = None, h_create = None, h_mkdir = None, h_remove = None, h_ioctl = None\<rparr>"

definition memfs_hook_rw :: "('h, 'z fs_ext) vhook" where
  "memfs_hook_rw = \<lparr>h_read = Some memfs_vfs_read, h_write = Some memfs_vfs_write, h_open = None, h_close = None,
     h_readdir = None, h_finddir = None, h_create = None, h_mkdir = None, h_remove = None, h_ioctl = None\<rparr>"

text \<open>
  Mounting into an existing file node, or into a new one: \<open>fresh\<close> is the node \<open>kcalloc\<close> returned
  and \<open>nm\<close> its name, which \<open>ksprintf\<close> forms from the address. \<open>ro\<close> and \<open>rw_hook\<close> are the two
  handler tables.
\<close>

definition memfs_mount ::
  "nat \<Rightarrow> u8 list \<Rightarrow> 'h \<Rightarrow> 'h \<Rightarrow> nat option \<Rightarrow> u32 \<Rightarrow> u32 \<Rightarrow> bool \<Rightarrow> ('h, 'z) fs_scheme \<Rightarrow>
     nat option \<times> ('h, 'z) fs_scheme" where
  "memfs_mount fresh nm ro_hook rw_hook node p sz rw st =
     (let (target, st) =
        (case node of
           None \<Rightarrow> (Some fresh, st\<lparr>vn := (vn st)(fresh :=
               \<lparr>vn_name = nm, vn_flags = VFS_FILE, vn_uid = 0, vn_gid = 0, vn_inode = 0, vn_length = 0, vn_hook = None, vn_link = Link_null, vn_mtime = 0\<rparr>)\<rparr>)
         | Some n \<Rightarrow> (if vn_flags (vn st n) \<noteq> VFS_FILE then None else Some n, st))
      in case target of
           None \<Rightarrow> (None, st)
         | Some n \<Rightarrow>
             (Some n, st\<lparr>vn := (vn st)(n := (vn st n)\<lparr>vn_length := ucast sz, vn_link := Link_ptr p,
                vn_hook := Some (if rw then rw_hook else ro_hook)\<rparr>)\<rparr>))"

section \<open>Bytes in memory\<close>

lemma length_get_bytes [simp]: "length (get_bytes m p n) = n"
  by (simp add: get_bytes_def)

lemma nth_get_bytes [simp]: "i < n \<Longrightarrow> get_bytes m p n ! i = m (p + of_nat i)"
  by (simp add: get_bytes_def)

lemma get_put_bytes: "length bs \<le> 2 ^ 32 \<Longrightarrow> get_bytes (put_bytes p bs m) p (length bs) = bs"
  by (rule nth_equalityI) (auto simp: put_bytes_def unat_of_nat_u32)

lemma memfs_clip_bounds:
  assumes "memfs_clip len offset sz = Some n" and "unat offset + unat sz < 2 ^ 64"
  shows "unat offset + unat n \<le> unat len" and "n \<le> sz"
proof -
  have sum: "unat (offset + sz) = unat offset + unat sz"
    using assms(2) by (simp add: unat_word_ariths)
  show "unat offset + unat n \<le> unat len"
    using assms(1) sum
    by (auto simp: memfs_clip_def word_less_nat_alt word_le_nat_alt unat_sub not_less not_le split: if_splits)
  show "n \<le> sz"
    using assms(1) sum
    by (auto simp: memfs_clip_def word_less_nat_alt word_le_nat_alt unat_sub split: if_splits)
qed

section \<open>Properties\<close>

text \<open>
  a read of a memory file whose end does not wrap around \<open>2 ^ 64\<close> returns the bytes of the
  block at the offset, as many as were asked for but never beyond the length of the file, and
  changes nothing. (When \<open>offset + size\<close> wraps, the bound is not applied: lemma
  \<open>memfs_clip_wraps\<close>.)
\<close>

lemma memfs_read_within:
  assumes "unat offset + unat sz < 2 ^ 64" and "vn_link (vn st n) = Link_ptr p" and "vn_length (vn st n) < 2 ^ 32"
  shows "memfs_vfs_read n offset sz st =
    (let k = min (unat sz) (unat (vn_length (vn st n)) - unat offset)
     in Some ((of_nat k, get_bytes (fs_mem st) (p + ucast offset) k), st))"
proof -
  let ?len = "vn_length (vn st n)"
  have sum: "unat (offset + sz) = unat offset + unat sz"
    using assms(1) by (simp add: unat_word_ariths)
  have len: "unat ?len < 2 ^ 32" using assms(3) by (simp add: word_less_nat_alt)
  have cast: "unat (ucast w :: u32) = unat w" if "unat w < 2 ^ 32" for w :: u64
    using that by (simp add: unsigned_ucast_eq take_bit_nat_eq_self)
  show ?thesis
  proof (cases "?len < offset + sz")
    case False
    then have le: "unat offset + unat sz \<le> unat ?len" by (simp add: word_less_nat_alt sum)
    then have "min (unat sz) (unat ?len - unat offset) = unat sz" by simp
    then show ?thesis
      using False assms(2) len le
      by (simp add: memfs_vfs_read_def memfs_clip_def link_addr_def cast Let_def)
  next
    case True
    then have gt: "unat ?len < unat offset + unat sz" by (simp add: word_less_nat_alt sum)
    show ?thesis
    proof (cases "?len \<le> offset")
      case zero: True
      then show ?thesis
        using True by (simp add: memfs_vfs_read_def memfs_clip_def Let_def word_le_nat_alt get_bytes_def)
    next
      case False
      then have diff: "unat (?len - offset) = unat ?len - unat offset"
        by (intro unat_sub) simp
      with gt have k: "min (unat sz) (unat ?len - unat offset) = unat (?len - offset)" by simp
      have "unat (?len - offset) < 2 ^ 32" using diff len by simp
      from cast [OF this] show ?thesis
        unfolding k using True False assms(2)
        by (simp add: memfs_vfs_read_def memfs_clip_def link_addr_def Let_def)
    qed
  qed
qed

definition memfs_example :: "unit fs" where
  "memfs_example = \<lparr>vn = (\<lambda>_. \<lparr>vn_name = [], vn_flags = VFS_FILE, vn_uid = 0, vn_gid = 0, vn_inode = 0, vn_length = 4, vn_hook = None,
       vn_link = Link_ptr 0x1000, vn_mtime = 0\<rparr>), vfs_root = None, vfs_dirent_buf = [], vfs_dirent_idx = 0,
     fs_mem = (\<lambda>a. ucast a)\<rparr>"

lemma memfs_read_within_witness:
  "memfs_vfs_read 0 3 10 memfs_example = Some ((1, [3]), memfs_example)"
  using memfs_read_within [of 3 10 memfs_example 0 "0x1000"]
  by (simp add: memfs_example_def get_bytes_def)

text \<open>
  A read whose end wraps around passes the bounds check whatever the length: the bytes come from
  outside of the block.
\<close>

lemma memfs_clip_wraps:
  "memfs_clip 4 (- 16) 17 = Some 17"
  by (simp add: memfs_clip_def)

text \<open>
  C12: what was written to a memory file within its bounds is read back from the same offset.
\<close>

theorem memfs_write_read:
  assumes "unat offset + length bs \<le> unat (vn_length (vn st n))" and "vn_length (vn st n) < 2 ^ 32"
    and "vn_link (vn st n) = Link_ptr p"
  shows "case memfs_vfs_write n offset (of_nat (length bs)) bs st of
      None \<Rightarrow> False
    | Some (k, st') \<Rightarrow> k = of_nat (length bs) \<and>
        memfs_vfs_read n offset (of_nat (length bs)) st' = Some ((of_nat (length bs), bs), st')"
proof -
  let ?len = "vn_length (vn st n)" and ?sz = "of_nat (length bs) :: u64"
  have len: "unat ?len < 2 ^ 32" using assms(2) by (simp add: word_less_nat_alt)
  have sz: "unat ?sz = length bs"
    using assms(1) len by (simp add: unat_of_nat take_bit_nat_eq_self)
  then have sum: "unat (offset + ?sz) = unat offset + length bs"
    using assms(1) len by (simp add: unat_word_ariths)
  then have clip: "memfs_clip ?len offset ?sz = Some ?sz"
    using assms(1) by (simp add: memfs_clip_def word_less_nat_alt)
  have cast: "unat (ucast ?sz :: u32) = length bs"
    using sz assms(1) len by (simp add: unsigned_ucast_eq take_bit_nat_eq_self)
  show ?thesis
    using clip cast assms(1,3) len get_put_bytes [of bs "p + ucast offset" "fs_mem st"]
    by (simp add: memfs_vfs_write_def memfs_vfs_read_def link_addr_def)
qed

theorem memfs_write_read_witness:
  "\<exists>st'. memfs_vfs_write 0 1 2 [7, 8] memfs_example = Some (2, st') \<and>
     memfs_vfs_read 0 1 2 st' = Some ((2, [7, 8]), st')"
  using memfs_write_read [of 1 "[7, 8]" memfs_example 0 "0x1000"]
  by (simp add: memfs_example_def split: option.splits prod.splits)

end
