(* ===== verification/Devfs.thy ===== *)
theory Devfs
  imports Memfs KString KStdlib
begin

text \<open>
  \<^verbatim>\<open>fs/devfs.c\<close> and \<^verbatim>\<open>fs/devfs_std.c\<close>: the devices of a device file system are a list of nodes
  linked through \<open>link.ptr\<close>, starting at the root. Handler functions are named by \<open>dev_fn\<close>; a hook
  structure is a number, \<open>dev_hooks\<close> gives its contents, and hook 0 is \<open>devfs_hook_root\<close>. The
  results of the allocator are arguments (\<open>None\<close> for NULL), and so are names made with a format
  string. Loops over the list are partial functions: \<open>None\<close> for a cyclic list or a link that is
  not a node.
\<close>

datatype dev_fn =
  Console_read | Console_write | Null_write | Zero_read | Random_read | Random_write | Other_fn nat

record dev_fns =
  f_read :: "dev_fn option"
  f_write :: "dev_fn option"
  f_open :: "dev_fn option"
  f_close :: "dev_fn option"
  f_ioctl :: "dev_fn option"

record devfs = "nat fs" +
  dev_hooks :: "nat \<Rightarrow> dev_fns"

abbreviation devfs_hook_root :: nat where "devfs_hook_root \<equiv> 0"

definition vfs_is_valid :: "nat option \<Rightarrow> devfs \<Rightarrow> bool" where
  "vfs_is_valid root st \<longleftrightarrow> (case root of None \<Rightarrow> False | Some r \<Rightarrow> vn_hook (vn st r) = Some devfs_hook_root)"

definition link_target :: "vlink \<Rightarrow> nat option option" where
  "link_target l = (case l of Link_null \<Rightarrow> Some None | Link_node n \<Rightarrow> Some (Some n) | Link_ptr _ \<Rightarrow> None)"

text \<open>\<open>for(i = 0; i < idx && node; i++) node = node->link.ptr\<close>\<close>

fun devfs_nth :: "(nat \<Rightarrow> nat vnode) \<Rightarrow> nat \<Rightarrow> nat option \<Rightarrow> nat option option" where
  "devfs_nth nodes 0 node = Some node"
| "devfs_nth nodes (Suc i) node =
     (case node of
        None \<Rightarrow> Some None
      | Some n \<Rightarrow> Option.bind (link_target (vn_link (nodes n))) (devfs_nth nodes i))"

definition devfs_vfs_readdir :: "nat \<Rightarrow> u64 \<Rightarrow> devfs \<Rightarrow> (nat option \<times> devfs) option" where
  "devfs_vfs_readdir node idx st =
     do { first \<leftarrow> link_target (vn_link (vn st node));
          r \<leftarrow> devfs_nth (vn st) (unat idx) first;
          case r of
            None \<Rightarrow> Some (None, st)
          | Some n \<Rightarrow>
              let (i, st) = vfs_alloc_dirent st
              in Some (Some i, st\<lparr>vfs_dirent_buf :=
                   (vfs_dirent_buf st)[i := \<lparr>d_name = vn_name (vn st n), d_ino = vn_inode (vn st n)\<rparr>]\<rparr>) }"

partial_function (option) devfs_find_loop :: "(nat \<Rightarrow> nat vnode) \<Rightarrow> u8 list \<Rightarrow> nat option \<Rightarrow> nat option option" where
  "devfs_find_loop nodes nm node =
     (case node of
        None \<Rightarrow> Some None
      | Some n \<Rightarrow>
          if vn_name (nodes n) = nm then Some (Some n)
          else Option.bind (link_target (vn_link (nodes n))) (devfs_find_loop nodes nm))"

definition devfs_vfs_finddir :: "nat \<Rightarrow> u8 list \<Rightarrow> devfs \<Rightarrow> (nat option \<times> devfs) option" where
  "devfs_vfs_finddir node nm st =
     do { first \<leftarrow> link_target (vn_link (vn st node));
          r \<leftarrow> devfs_find_loop (vn st) nm first;
          Some (r, st) }"

text \<open>\<open>fresh\<close> is the answer of \<open>kcalloc\<close> when the caller passes no root.\<close>

definition blank_node :: "nat vnode" where
  "blank_node = \<lparr>vn_name = [], vn_flags = 0, vn_uid = 0, vn_gid = 0, vn_inode = 0, vn_length = 0, vn_hook = None, vn_link = Link_null, vn_mtime = 0\<rparr>"

definition devfs_mount :: "nat option \<Rightarrow> u8 list \<Rightarrow> nat option \<Rightarrow> devfs \<Rightarrow> nat option \<times> devfs" where
  "devfs_mount fresh nm root st =
     (let (root, st) =
        (case root of
           None \<Rightarrow> (case fresh of
               None \<Rightarrow> (None, st)
             | Some r \<Rightarrow> (Some r, st\<lparr>vn := (vn st)(r := blank_node\<lparr>vn_name := nm\<rparr>)\<rparr>))
         | Some r \<Rightarrow> (if vn_flags (vn st r) \<noteq> VFS_DIRECTORY \<and> vn_flags (vn st r) \<noteq> VFS_MOUNTPOINT
                      then None else Some r, st))
      in case root of
           None \<Rightarrow> (None, st)
         | Some r \<Rightarrow>
             (Some r, st\<lparr>vn := (vn st)(r := (vn st r)\<lparr>vn_flags := VFS_MOUNTPOINT, vn_link := Link_null,
                vn_hook := Some devfs_hook_root\<rparr>)\<rparr>))"

text \<open>The loop that looks for the last device and for a hook with the same functions on the way.\<close>

partial_function (option) devfs_last_loop ::
  "devfs \<Rightarrow> dev_fns \<Rightarrow> nat option \<Rightarrow> nat \<Rightarrow> (nat \<times> nat option) option" where
  "devfs_last_loop st fns hook cur =
     (let hook = (case hook of
                    Some h \<Rightarrow> Some h
                  | None \<Rightarrow> (case vn_hook (vn st cur) of
                      None \<Rightarrow> None
                    | Some h \<Rightarrow> if dev_hooks st h = fns then Some h else None))
      in Option.bind (link_target (vn_link (vn st cur))) (\<lambda>next.
           case next of Some n \<Rightarrow> devfs_last_loop st fns hook n | None \<Rightarrow> Some (cur, hook)))"

definition devfs_create ::
  "nat option \<Rightarrow> nat option \<Rightarrow> nat option \<Rightarrow> dev_fns \<Rightarrow> bool \<Rightarrow> u64 \<Rightarrow> u8 list \<Rightarrow> devfs \<Rightarrow> (nat option \<times> devfs) option" where
  "devfs_create fresh fresh_hook root fns block sz nm st =
     (if \<not> vfs_is_valid root st then Some (None, st)
      else
        do { first \<leftarrow> link_target (vn_link (vn st (the root)));
             (last_node, hook) \<leftarrow> (case first of
                 None \<Rightarrow> Some (None, None)
               | Some n \<Rightarrow> map_option (\<lambda>(l, h). (Some l, h)) (devfs_last_loop st fns None n));
             case fresh of
               None \<Rightarrow> Some (None, st)
             | Some node \<Rightarrow>
                 (case (case hook of Some h \<Rightarrow> Some (h, st)
                        | None \<Rightarrow> map_option (\<lambda>h. (h, st\<lparr>dev_hooks := (dev_hooks st)(h := fns)\<rparr>)) fresh_hook) of
                    None \<Rightarrow> Some (None, st)
                  | Some (h, st) \<Rightarrow>
                      let v = blank_node\<lparr>vn_name := nm, vn_flags := (if block then VFS_BLOCKDEV else VFS_CHARDEV),
                                vn_length := sz, vn_hook := Some h\<rparr>;
                          v = (case last_node of None \<Rightarrow> v | Some l \<Rightarrow> v\<lparr>vn_inode := vn_inode (vn st l) + 1\<rparr>);
                          st = st\<lparr>vn := (vn st)(node := v)\<rparr>;
                          before = (case last_node of None \<Rightarrow> the root | Some l \<Rightarrow> l)
                      in Some (Some node, st\<lparr>vn := (vn st)(before := (vn st before)\<lparr>vn_link := Link_node node\<rparr>)\<rparr>)) })"

partial_function (option) devfs_before_loop :: "(nat \<Rightarrow> nat vnode) \<Rightarrow> nat \<Rightarrow> nat \<Rightarrow> nat option" where
  "devfs_before_loop nodes node root =
     Option.bind (link_target (vn_link (nodes root))) (\<lambda>next.
       case next of
         None \<Rightarrow> Some root
       | Some n \<Rightarrow> if n \<noteq> node then devfs_before_loop nodes node n else Some root)"

text \<open>The test after the loop: \<open>root->link.ptr != node\<close> unlinks, equality reports \<^verbatim>\<open>cannot find node\<close>.\<close>

definition devfs_remove :: "nat option \<Rightarrow> nat \<Rightarrow> devfs \<Rightarrow> devfs option" where
  "devfs_remove root node st =
     (if \<not> vfs_is_valid root st then Some st
      else
        do { r \<leftarrow> devfs_before_loop (vn st) node (the root);
             if vn_link (vn st r) \<noteq> Link_node node
             then Some (st\<lparr>vn := (vn st)(r := (vn st r)\<lparr>vn_link := vn_link (vn st node)\<rparr>)\<rparr>)
             else Some st })"

section \<open>Standard devices\<close>

definition devfs_null_write :: "u64 \<Rightarrow> u64" where
  "devfs_null_write sz = sz"

text \<open>\<open>memset(buffer, size, 0)\<close>\<close>

definition devfs_zero_read :: "mem \<Rightarrow> u32 \<Rightarrow> u64 \<Rightarrow> u64 \<times> mem" where
  "devfs_zero_read m buffer sz = (sz, memset m buffer (ucast sz) 0)"

text \<open>The inner loop: \<open>j\<close> starts at \<open>i\<close> and is compared with 4.\<close>

definition random_seed_at :: "u8 list \<Rightarrow> nat \<Rightarrow> u32" where
  "random_seed_at buffer i = sum_list (map (\<lambda>j. ucast (buffer ! j)) (filter (\<lambda>j. i + j < length buffer) [i..<4]))"

definition devfs_random_write :: "u32 list \<Rightarrow> u8 list \<Rightarrow> u64 \<times> u32 list" where
  "devfs_random_write seeds buffer =
     (of_nat (length buffer),
      fold (\<lambda>k seeds. srand seeds (random_seed_at buffer (4 * k))) [0..<(length buffer + 3) div 4] seeds)"

fun devfs_random_bytes :: "nat \<Rightarrow> u32 list \<Rightarrow> u8 list \<times> u32 list" where
  "devfs_random_bytes 0 seeds = ([], seeds)"
| "devfs_random_bytes (Suc n) seeds =
     (let (r, seeds) = rand seeds; (bs, seeds) = devfs_random_bytes n seeds
      in (word_of_int r # bs, seeds))"

definition devfs_random_read :: "u32 list \<Rightarrow> u64 \<Rightarrow> (u64 \<times> u8 list) \<times> u32 list" where
  "devfs_random_read seeds sz =
     (let (bs, seeds) = devfs_random_bytes (unat sz) seeds in ((sz, bs), seeds))"

text \<open>
  The console device, on the characters the terminal delivers and on those written to it.
\<close>

definition devfs_console_read :: "('t \<Rightarrow> (u8 \<times> 't) option) \<Rightarrow> u64 \<Rightarrow> 't \<Rightarrow> ((u64 \<times> u8 list) \<times> 't) option" where
  "devfs_console_read getc sz t =
     map_option (\<lambda>(bs, t). ((sz, bs), t))
       (fold (\<lambda>_ r. do { (bs, t) \<leftarrow> r; (c, t) \<leftarrow> getc t; Some (bs @ [c], t) }) [0..<unat sz] (Some ([], t)))"

definition devfs_console_write :: "(u8 \<Rightarrow> 't \<Rightarrow> 't) \<Rightarrow> u8 list \<Rightarrow> 't \<Rightarrow> u64 \<times> 't" where
  "devfs_console_write putc buffer t = (of_nat (length buffer), fold putc buffer t)"

text \<open>
  The handler tables: hook 0 is the root's, and the hooks of devices have no directory operations.
\<close>

definition devfs_ops :: "nat \<Rightarrow> (nat, \<lparr>fs_mem :: mem, dev_hooks :: nat \<Rightarrow> dev_fns\<rparr>) vhook" where
  "devfs_ops h = \<lparr>h_read = None, h_write = None, h_open = None, h_close = None,
     h_readdir = (if h = devfs_hook_root then Some devfs_vfs_readdir else None),
     h_finddir = (if h = devfs_hook_root then Some devfs_vfs_finddir else None),
     h_create = None, h_mkdir = None, h_remove = None, h_ioctl = None\<rparr>"

text \<open>
  The standard devices, each created unless a device of its name exists. \<open>alloc i\<close> holds the answers of
  the allocator for the node and the hook of device \<open>i\<close>.
\<close>

definition std_devices :: "(u8 list \<times> dev_fn option \<times> dev_fn) list" where
  "std_devices =
    [([110, 117, 108, 108], None, Null_write),
     ([122, 101, 114, 111], Some Zero_read, Null_write),
     ([99, 111, 110, 115, 111, 108, 101], Some Console_read, Console_write),
     ([114, 97, 110, 100, 111, 109], Some Random_read, Random_write),
     ([117, 114, 97, 110, 100, 111, 109], Some Random_read, Random_write)]"

fun std_init_loop ::
  "(nat \<Rightarrow> nat option \<times> nat option) \<Rightarrow> nat option \<Rightarrow> nat \<Rightarrow> (u8 list \<times> dev_fn option \<times> dev_fn) list \<Rightarrow> devfs \<Rightarrow> devfs option" where
  "std_init_loop alloc root i [] st = Some st"
| "std_init_loop alloc root i ((nm, r, w) # ds) st =
     do { (found, st) \<leftarrow> vfs_finddir devfs_ops root nm st;
          (_, st) \<leftarrow> (if found = None then
              devfs_create (fst (alloc i)) (snd (alloc i)) root
                \<lparr>f_read = r, f_write = Some w, f_open = None, f_close = None, f_ioctl = None\<rparr> False 0 nm st
            else Some (None, st));
          std_init_loop alloc root (Suc i) ds st }"

definition devfs_std_init :: "(nat \<Rightarrow> nat option \<times> nat option) \<Rightarrow> nat option \<Rightarrow> devfs \<Rightarrow> devfs option" where
  "devfs_std_init alloc root st =
     (if \<not> vfs_is_valid root st then Some st else std_init_loop alloc root 0 std_devices st)"

section \<open>The list of devices\<close>

fun dev_chain :: "(nat \<Rightarrow> nat vnode) \<Rightarrow> vlink \<Rightarrow> nat list \<Rightarrow> bool" where
  "dev_chain nodes l [] = (l = Link_null)"
| "dev_chain nodes l (n # ns) = (l = Link_node n \<and> dev_chain nodes (vn_link (nodes n)) ns)"

text \<open>A device file system at \<open>r\<close> with the devices \<open>ns\<close>.\<close>

definition devfs_devs :: "devfs \<Rightarrow> nat \<Rightarrow> nat list \<Rightarrow> bool" where
  "devfs_devs st r ns \<longleftrightarrow> vfs_is_valid (Some r) st \<and> dev_chain (vn st) (vn_link (vn st r)) ns \<and> distinct (r # ns)"

lemma link_target_simps [simp]:
  "link_target Link_null = Some None" "link_target (Link_node n) = Some (Some n)"
  by (simp_all add: link_target_def)

lemma link_target_chain: "dev_chain nodes l ns \<Longrightarrow> link_target l = Some (case ns of [] \<Rightarrow> None | n # _ \<Rightarrow> Some n)"
  by (cases ns) auto

lemma devfs_find_chain:
  "dev_chain nodes l ns \<Longrightarrow> Option.bind (link_target l) (devfs_find_loop nodes nm) =
     Some (find (\<lambda>n. vn_name (nodes n) = nm) ns)"
proof (induction ns arbitrary: l)
  case Nil
  then show ?case by (simp add: devfs_find_loop.simps)
next
  case (Cons n ns)
  then show ?case by (simp add: devfs_find_loop.simps [of nodes nm "Some n"])
qed

lemma devfs_nth_chain:
  "dev_chain nodes l ns \<Longrightarrow> Option.bind (link_target l) (devfs_nth nodes i) =
     Some (if i < length ns then Some (ns ! i) else None)"
proof (induction ns arbitrary: l i)
  case Nil
  then show ?case by (cases i) simp_all
next
  case (Cons n ns)
  then show ?case by (cases i) simp_all
qed

lemma devfs_before_chain:
  "dev_chain nodes (vn_link (nodes r)) ns \<Longrightarrow> devfs_before_loop nodes node r =
     Some (if node \<in> set ns then (r # ns) ! find_idx (\<lambda>n. n = node) ns else last (r # ns))"
proof (induction ns arbitrary: r)
  case Nil
  then show ?case by (simp add: devfs_before_loop.simps)
next
  case (Cons n ns)
  then show ?case by (subst devfs_before_loop.simps) auto
qed

lemma devfs_before_links:
  "dev_chain nodes (vn_link (nodes r)) ns \<Longrightarrow> node \<in> set ns \<Longrightarrow>
     vn_link (nodes ((r # ns) ! find_idx (\<lambda>n. n = node) ns)) = Link_node node"
proof (induction ns arbitrary: r)
  case (Cons n ns)
  then show ?case by (cases "n = node") auto
qed simp

lemma devfs_last_chain:
  "dev_chain (vn st) (vn_link (vn st n)) ns \<Longrightarrow> \<exists>h. devfs_last_loop st fns hook n = Some (last (n # ns), h)"
proof (induction ns arbitrary: n hook)
  case Nil
  then show ?case by (subst devfs_last_loop.simps) (simp add: Let_def)
next
  case (Cons m ns)
  then show ?case by (subst devfs_last_loop.simps) (simp add: Let_def)
qed

lemma dev_chain_other:
  "dev_chain nodes l ns \<Longrightarrow> m \<notin> set ns \<Longrightarrow> dev_chain (nodes(m := v)) l ns"
  by (induction ns arbitrary: l) auto

text \<open>Hooking a fresh node onto the last node of the list (or the root).\<close>

lemma dev_chain_snoc:
  "dev_chain nodes (vn_link (nodes r)) ns \<Longrightarrow> distinct (r # ns) \<Longrightarrow> f \<notin> set (r # ns) \<Longrightarrow>
   vn_link (nodes f) = Link_null \<Longrightarrow>
   dev_chain (nodes(last (r # ns) := v\<lparr>vn_link := Link_node f\<rparr>))
     (vn_link ((nodes(last (r # ns) := v\<lparr>vn_link := Link_node f\<rparr>)) r)) (ns @ [f])"
proof (induction ns arbitrary: r)
  case Nil
  then show ?case by simp
next
  case (Cons n ns)
  then show ?case by auto
qed

section \<open>Properties\<close>

lemma devfs_finddir_find:
  "devfs_devs st r ns \<Longrightarrow> devfs_vfs_finddir r nm st = Some (find (\<lambda>n. vn_name (vn st n) = nm) ns, st)"
  using devfs_find_chain [of "vn st" "vn_link (vn st r)" ns nm]
  by (auto simp: devfs_vfs_finddir_def devfs_devs_def link_target_chain split: bind_splits)

definition new_dev :: "bool \<Rightarrow> u64 \<Rightarrow> u8 list \<Rightarrow> nat \<Rightarrow> u64 \<Rightarrow> nat vnode" where
  "new_dev block sz nm h ino = \<lparr>vn_name = nm, vn_flags = (if block then VFS_BLOCKDEV else VFS_CHARDEV), vn_uid = 0, vn_gid = 0,
     vn_inode = ino, vn_length = sz, vn_hook = Some h, vn_link = Link_null, vn_mtime = 0\<rparr>"

text \<open>What \<open>devfs_create\<close> stores, once the list is known.\<close>

lemma devfs_create_run:
  assumes "devfs_devs st r ns" and "f \<notin> set (r # ns)"
  shows "\<exists>hk ino hooks. devfs_create (Some f) (Some h) (Some r) fns block sz nm st =
      Some (Some f, st\<lparr>dev_hooks := hooks, vn := ((vn st)(f := new_dev block sz nm hk ino))(last (r # ns) :=
        (((vn st)(f := new_dev block sz nm hk ino)) (last (r # ns)))\<lparr>vn_link := Link_node f\<rparr>)\<rparr>)"
proof (cases ns)
  case Nil
  then have "vn_link (vn st r) = Link_null" using assms(1) by (simp add: devfs_devs_def)
  moreover have "vfs_is_valid (Some r) st" using assms(1) by (simp add: devfs_devs_def)
  ultimately show ?thesis
    using Nil assms(2)
    by (intro exI [of _ h] exI [of _ 0] exI [of _ "(dev_hooks st)(h := fns)"])
      (simp add: devfs_create_def blank_node_def new_dev_def Let_def)
next
  case (Cons n ms)
  then have 1: "vn_link (vn st r) = Link_node n" and ms: "dev_chain (vn st) (vn_link (vn st n)) ms"
    and 2: "vfs_is_valid (Some r) st"
    using assms(1) by (simp_all add: devfs_devs_def)
  obtain hk where 3: "devfs_last_loop st fns None n = Some (last (r # ns), hk)"
    using devfs_last_chain [OF ms, of fns None] Cons by auto
  have 4: "f \<noteq> last (r # ns)" using assms(2) last_in_set [of "r # ns"] by (metis list.distinct(1))
  show ?thesis
  proof (cases hk)
    case None
    then show ?thesis using 1 2 3 4
      by (intro exI [of _ h] exI [of _ "vn_inode (vn st (last (r # ns))) + 1"] exI [of _ "(dev_hooks st)(h := fns)"])
        (simp add: devfs_create_def blank_node_def new_dev_def Let_def del: last.simps)
  next
    case (Some g)
    then show ?thesis using 1 2 3 4
      by (intro exI [of _ g] exI [of _ "vn_inode (vn st (last (r # ns))) + 1"] exI [of _ "dev_hooks st"])
        (simp add: devfs_create_def blank_node_def new_dev_def Let_def del: last.simps)
  qed
qed

lemma devfs_create_devs:
  assumes "devfs_devs st r ns" and "f \<notin> set (r # ns)"
  shows "\<exists>st'. devfs_create (Some f) (Some h) (Some r) fns block sz nm st = Some (Some f, st') \<and>
    devfs_devs st' r (ns @ [f]) \<and> map (\<lambda>n. vn_name (vn st' n)) (ns @ [f]) = map (\<lambda>n. vn_name (vn st n)) ns @ [nm] \<and>
    vn_length (vn st' f) = sz \<and> vn_flags (vn st' f) = (if block then VFS_BLOCKDEV else VFS_CHARDEV) \<and>
    vn_flags (vn st' r) = vn_flags (vn st r) \<and>
    devfs_vfs_finddir r nm' st' = Some (find (\<lambda>n. vn_name (vn st' n) = nm') (ns @ [f]), st')"
proof -
  let ?b = "last (r # ns)"
  have chain: "dev_chain (vn st) (vn_link (vn st r)) ns" and dist: "distinct (r # ns)"
    and valid: "vfs_is_valid (Some r) st"
    using assms(1) by (simp_all add: devfs_devs_def)
  obtain v hooks where run: "devfs_create (Some f) (Some h) (Some r) fns block sz nm st =
      Some (Some f, st\<lparr>dev_hooks := hooks, vn := ((vn st)(f := v))(?b := (((vn st)(f := v)) ?b)\<lparr>vn_link := Link_node f\<rparr>)\<rparr>)"
    and v: "vn_name v = nm" "vn_length v = sz" "vn_flags v = (if block then VFS_BLOCKDEV else VFS_CHARDEV)"
      "vn_link v = Link_null"
    using devfs_create_run [OF assms, of h fns block sz nm] by (auto simp: new_dev_def)
  let ?vn = "((vn st)(f := v))(?b := (((vn st)(f := v)) ?b)\<lparr>vn_link := Link_node f\<rparr>)"
  let ?st' = "st\<lparr>dev_hooks := hooks, vn := ?vn\<rparr>"
  have bf: "?b \<noteq> f" using assms(2) last_in_set [of "r # ns"] by (metis list.distinct(1))
  have "dev_chain ((vn st)(f := v)) (vn_link (((vn st)(f := v)) r)) ns"
    using chain assms(2) by (simp add: dev_chain_other)
  then have "dev_chain (vn ?st') (vn_link (vn ?st' r)) (ns @ [f])"
    using dev_chain_snoc [of "(vn st)(f := v)" r ns f] dist assms(2) v(4) by (simp del: last.simps)
  moreover have "vfs_is_valid (Some r) ?st'" using valid assms(2) by (auto simp: vfs_is_valid_def)
  ultimately have devs: "devfs_devs ?st' r (ns @ [f])" using dist assms(2) by (auto simp: devfs_devs_def)
  have "map (\<lambda>n. vn_name (?vn n)) (ns @ [f]) = map (\<lambda>n. vn_name (vn st n)) ns @ [nm]"
    using assms(2) bf v(1) by (auto simp del: last.simps)
  moreover have "vn_flags (?vn r) = vn_flags (vn st r)" using assms(2) by auto
  ultimately show ?thesis
    using run v bf devs devfs_finddir_find [OF devs] by (intro exI [of _ ?st']) (simp del: last.simps)
qed

text \<open>
  \<open>devfs_create\<close> with memory for the node and its hook appends one device to the list of the
  file system: afterwards the device directory lists the old devices, unchanged, and then the new
  one, with the name, length and type that were asked for; a lookup by name finds the first device
  of that name in this order.
\<close>

lemma devfs_create_appends:
  assumes "devfs_devs st r ns" and "f \<notin> set (r # ns)"
  shows "\<exists>st'. devfs_create (Some f) (Some h) (Some r) fns block sz nm st = Some (Some f, st') \<and>
    devfs_devs st' r (ns @ [f]) \<and> map (\<lambda>n. vn_name (vn st' n)) (ns @ [f]) = map (\<lambda>n. vn_name (vn st n)) ns @ [nm] \<and>
    vn_length (vn st' f) = sz \<and> vn_flags (vn st' f) = (if block then VFS_BLOCKDEV else VFS_CHARDEV) \<and>
    devfs_vfs_finddir r nm' st' = Some (find (\<lambda>n. vn_name (vn st' n) = nm') (ns @ [f]), st')"
  using devfs_create_devs [OF assms, of h fns block sz nm nm'] by blast

text \<open>A device file system at node 0 with the single device 1.\<close>

definition devfs_example :: devfs where
  "devfs_example = \<lparr>vn = (\<lambda>n. blank_node\<lparr>vn_name := [of_nat n], vn_hook := Some 0,
       vn_link := (if n = 0 then Link_node 1 else Link_null)\<rparr>),
     vfs_root = None, vfs_dirent_buf = [], vfs_dirent_idx = 0, fs_mem = (\<lambda>_. 0),
     dev_hooks = (\<lambda>_. \<lparr>f_read = None, f_write = None, f_open = None, f_close = None, f_ioctl = None\<rparr>)\<rparr>"

lemma devfs_example_devs: "devfs_devs devfs_example 0 [1]"
  by (simp add: devfs_devs_def devfs_example_def vfs_is_valid_def)

lemma devfs_create_appends_witness:
  "\<exists>st'. devfs_create (Some 2) (Some 5) (Some 0) \<lparr>f_read = None, f_write = Some Null_write, f_open = None, f_close = None,
      f_ioctl = None\<rparr> False 0 [110] devfs_example = Some (Some 2, st') \<and> devfs_devs st' 0 ([1] @ [2])"
  using devfs_create_appends [OF devfs_example_devs, of 2 5 "\<lparr>f_read = None, f_write = Some Null_write, f_open = None,
      f_close = None, f_ioctl = None\<rparr>" False 0 "[110]" "[]"] by auto

text \<open>
  \<open>devfs_remove\<close> of a device that is in the list changes nothing: the comparison after the
  search is inverted, so the device that was found is reported as missing and stays in the list.
\<close>

lemma devfs_remove_noop:
  assumes "devfs_devs st r ns" and "node \<in> set ns"
  shows "devfs_remove (Some r) node st = Some st \<and>
    devfs_vfs_finddir r (vn_name (vn st node)) st \<noteq> Some (None, st)"
  using assms devfs_before_chain [of "vn st" r ns node] devfs_before_links [of "vn st" r ns node]
  by (auto simp: devfs_remove_def devfs_devs_def devfs_finddir_find [OF assms(1)] find_None_iff)

lemma devfs_remove_noop_witness: "devfs_remove (Some 0) 1 devfs_example = Some devfs_example"
  using devfs_remove_noop [OF devfs_example_devs, of 1] by simp

text \<open>\<open>devfs_zero_read\<close> passes the size as the byte to fill with and 0 as the length.\<close>

lemma devfs_zero_read_nothing: "devfs_zero_read m buffer sz = (sz, m)"
  by (simp add: devfs_zero_read_def memset_def)


section \<open>The standard devices\<close>

lemma devfs_finddir_root:
  assumes "devfs_devs st r ns" and "vn_flags (vn st r) = VFS_MOUNTPOINT"
  shows "vfs_finddir devfs_ops (Some r) nm st = Some (find (\<lambda>n. vn_name (vn st n) = nm) ns, st)"
proof -
  have "vn_hook (vn st r) = Some devfs_hook_root"
    using assms(1) by (simp add: devfs_devs_def vfs_is_valid_def)
  then show ?thesis
    using assms(2) devfs_finddir_find [OF assms(1), of nm]
    by (simp add: vfs_finddir_def vfs_call_def vfs_traverse_symlink_node is_symlink_def is_dir_def devfs_ops_def)
qed

text \<open>Devices of new names are appended one after the other; those that exist are skipped.\<close>

lemma std_init_loop_new:
  assumes "devfs_devs st r ns" and "vn_flags (vn st r) = VFS_MOUNTPOINT"
    and "\<forall>j<length ds. alloc (i + j) = (Some (fs ! j), Some (hs (i + j)))" and "length fs = length ds"
    and "distinct (r # ns @ fs)" and "distinct (map (\<lambda>n. vn_name (vn st n)) ns @ map fst ds)"
  shows "\<exists>st'. std_init_loop alloc (Some r) i ds st = Some st' \<and> devfs_devs st' r (ns @ fs) \<and>
    vn_flags (vn st' r) = VFS_MOUNTPOINT \<and>
    map (\<lambda>n. vn_name (vn st' n)) (ns @ fs) = map (\<lambda>n. vn_name (vn st n)) ns @ map fst ds"
  using assms
proof (induction ds arbitrary: st ns fs i)
  case Nil
  then show ?case by simp
next
  case (Cons d ds)
  obtain nm rd w where d: "d = (nm, rd, w)" by (cases d)
  obtain f fs' where fs: "fs = f # fs'" using Cons.prems(4) by (cases fs) auto
  have find: "vfs_finddir devfs_ops (Some r) nm st = Some (None, st)"
    using devfs_finddir_root [OF Cons.prems(1,2), of nm] Cons.prems(6) d by (force simp: find_None_iff)
  let ?fns = "\<lparr>f_read = rd, f_write = Some w, f_open = None, f_close = None, f_ioctl = None\<rparr>"
  have al: "alloc i = (Some f, Some (hs i))" using spec [OF Cons.prems(3), of 0] fs by simp
  have "f \<notin> set (r # ns)" using Cons.prems(5) fs by auto
  from devfs_create_devs [OF Cons.prems(1) this, of "hs i" ?fns False 0 nm "[]"] obtain st1 where
    new: "devfs_create (Some f) (Some (hs i)) (Some r) ?fns False 0 nm st = Some (Some f, st1)" and
    devs: "devfs_devs st1 r (ns @ [f])" and
    names: "map (\<lambda>n. vn_name (vn st1 n)) (ns @ [f]) = map (\<lambda>n. vn_name (vn st n)) ns @ [nm]" and
    flags: "vn_flags (vn st1 r) = VFS_MOUNTPOINT"
    using Cons.prems(2) by auto
  have alloc': "\<forall>j<length ds. alloc (Suc i + j) = (Some (fs' ! j), Some (hs (Suc i + j)))"
    using Cons.prems(3) fs by force
  have "length fs' = length ds" "distinct (r # (ns @ [f]) @ fs')"
    using Cons.prems(4,5) fs by auto
  moreover have "distinct (map (\<lambda>n. vn_name (vn st1 n)) (ns @ [f]) @ map fst ds)"
    unfolding names using Cons.prems(6) d by simp
  note * = calculation this
  from Cons.IH [OF devs flags alloc' *] obtain st2 where
    "std_init_loop alloc (Some r) (Suc i) ds st1 = Some st2" "devfs_devs st2 r ((ns @ [f]) @ fs')"
    "vn_flags (vn st2 r) = VFS_MOUNTPOINT"
    "map (\<lambda>n. vn_name (vn st2 n)) ((ns @ [f]) @ fs') = map (\<lambda>n. vn_name (vn st1 n)) (ns @ [f]) @ map fst ds"
    by blast
  then show ?case
    using find al new names fs d by (intro exI [of _ st2]) simp
qed

lemma std_init_loop_old:
  assumes "devfs_devs st r ns" and "vn_flags (vn st r) = VFS_MOUNTPOINT"
    and "\<forall>d\<in>set ds. fst d \<in> vn_name ` vn st ` set ns"
  shows "std_init_loop alloc (Some r) i ds st = Some st"
  using assms
proof (induction ds arbitrary: i)
  case (Cons d ds)
  obtain nm rd w where d: "d = (nm, rd, w)" by (cases d)
  have "find (\<lambda>n. vn_name (vn st n) = nm) ns \<noteq> None" using Cons.prems(3) d by (auto simp: find_None_iff)
  then show ?case
    using Cons d devfs_finddir_root [OF Cons.prems(1,2), of nm] by auto
qed simp

text \<open>
  initialising the standard devices of an empty device file system, with memory for five nodes and
  their hooks, succeeds and leaves exactly the devices null, zero, console, random and urandom, in
  this order; doing it again changes nothing.
\<close>

lemma devfs_std_init_devices:
  assumes "devfs_devs st r []" and "vn_flags (vn st r) = VFS_MOUNTPOINT" and "length fs = 5" and "distinct (r # fs)"
  shows "\<exists>st'. devfs_std_init (\<lambda>i. (Some (fs ! i), Some (hs i))) (Some r) st = Some st' \<and> devfs_devs st' r fs \<and>
    map (\<lambda>n. vn_name (vn st' n)) fs = map fst std_devices \<and>
    devfs_std_init alloc (Some r) st' = Some st'"
proof -
  from std_init_loop_new [OF assms(1,2), of std_devices "\<lambda>i. (Some (fs ! i), Some (hs i))" 0 fs hs] obtain st' where
    run: "std_init_loop (\<lambda>i. (Some (fs ! i), Some (hs i))) (Some r) 0 std_devices st = Some st'" and
    devs: "devfs_devs st' r fs" and flags: "vn_flags (vn st' r) = VFS_MOUNTPOINT" and
    names: "map (\<lambda>n. vn_name (vn st' n)) fs = map fst std_devices"
    using assms(3,4) by (auto simp: std_devices_def)
  have "fst ` set std_devices = vn_name ` vn st' ` set fs"
    using arg_cong [OF names, of set] by (simp add: image_image)
  then have "std_init_loop alloc (Some r) 0 std_devices st' = Some st'"
    by (intro std_init_loop_old [OF devs flags]) blast
  moreover have "vfs_is_valid (Some r) st" "vfs_is_valid (Some r) st'"
    using assms(1) devs by (simp_all add: devfs_devs_def)
  ultimately show ?thesis using run devs names by (simp add: devfs_std_init_def)
qed

definition devfs_empty :: devfs where
  "devfs_empty = devfs_example\<lparr>vn := (\<lambda>n. blank_node\<lparr>vn_flags := VFS_MOUNTPOINT, vn_hook := Some 0\<rparr>)\<rparr>"

lemma devfs_std_init_devices_witness:
  "\<exists>st'. devfs_std_init (\<lambda>i. (Some ([1, 2, 3, 4, 5] ! i), Some 9)) (Some 0) devfs_empty = Some st' \<and> devfs_devs st' 0 [1, 2, 3, 4, 5]"
  using devfs_std_init_devices [of devfs_empty 0 "[1, 2, 3, 4, 5]" "\<lambda>_. 9"]
  by (force simp: devfs_empty_def devfs_devs_def vfs_is_valid_def blank_node_def)

end
