(* ===== verification/Tarfs.thy ===== *)
theory Tarfs
  imports Memfs KString KStdlib
begin

text \<open>
  \<^verbatim>\<open>fs/tarfs.c\<close>: a tar archive in memory as a read-only file system. The archive's nodes all point
  to one information structure (\<open>tar_infos\<close>, by address) whose hierarchy lists, in the order of the
  archive, each node with the address of its data and its parent; entry 0 is the root, and
  \<open>node_count\<close> is the length of the list. A hierarchy
  of \<open>None\<close> is the NULL left behind by a failed \<open>krealloc\<close>. The allocator's answers are the
  arguments \<open>alloc\<close> (the node for entry \<open>i\<close>) and \<open>grow\<close> (whether the table can grow at \<open>i\<close> entries);
  \<open>junk\<close> is what a fresh table entry holds as its data pointer, which is only set for files.
\<close>

record tar_entry =
  te_node :: nat
  te_data :: u32
  te_parent :: "nat option"

record tar_info =
  tar_magic :: u32
  tar_first_hdr :: u32
  tar_hierarchy :: "tar_entry list option"

record tarfs = "nat fs" +
  tar_infos :: "u32 \<Rightarrow> tar_info"

definition tar_info_of :: "tarfs \<Rightarrow> nat \<Rightarrow> tar_info option" where
  "tar_info_of st node = (case vn_link (vn st node) of Link_ptr p \<Rightarrow> Some (tar_infos st p) | _ \<Rightarrow> None)"

section \<open>Handlers\<close>

definition tar_vfs_read :: "nat \<Rightarrow> u64 \<Rightarrow> u64 \<Rightarrow> tarfs \<Rightarrow> ((u64 \<times> u8 list) \<times> tarfs) option" where
  "tar_vfs_read node offset sz st =
     do { info \<leftarrow> tar_info_of st node;
          hier \<leftarrow> tar_hierarchy info;
          let data = te_data (hier ! unat (vn_inode (vn st node)));
              len = vn_length (vn st node)
          in if data = 0 then Some ((0, []), st)
             else if len \<le> offset then Some ((0, []), st)
             else let sz = (if len < offset + sz then len - offset else sz)
                  in Some ((sz, get_bytes (fs_mem st) (data + ucast offset) (unat (ucast sz :: u32))), st) }"

text \<open>The loop of \<open>tar_vfs_readdir\<close> over the entries after the node's own.\<close>

fun tar_nth_child :: "nat \<Rightarrow> u64 \<Rightarrow> u64 \<Rightarrow> tar_entry list \<Rightarrow> tar_entry option" where
  "tar_nth_child node idx n [] = None"
| "tar_nth_child node idx n (e # es) =
     (if te_parent e = Some node then
        if n = idx then Some e else tar_nth_child node idx (n + 1) es
      else tar_nth_child node idx n es)"

definition tar_vfs_readdir :: "nat \<Rightarrow> u64 \<Rightarrow> tarfs \<Rightarrow> (nat option \<times> tarfs) option" where
  "tar_vfs_readdir node idx st =
     do { info \<leftarrow> tar_info_of st node;
          hier \<leftarrow> tar_hierarchy info;
          case tar_nth_child node idx 0 (drop (unat (ucast (vn_inode (vn st node) + 1) :: u32)) hier) of
            None \<Rightarrow> Some (None, st)
          | Some e \<Rightarrow>
              let (i, st) = vfs_alloc_dirent st;
                  d = \<lparr>d_name = vn_name (vn st (te_node e)), d_ino = vn_inode (vn st (te_node e))\<rparr>
              in Some (Some i, st\<lparr>vfs_dirent_buf := (vfs_dirent_buf st)[i := d]\<rparr>) }"

definition tar_vfs_finddir :: "nat \<Rightarrow> u8 list \<Rightarrow> tarfs \<Rightarrow> (nat option \<times> tarfs) option" where
  "tar_vfs_finddir node nm st =
     do { info \<leftarrow> tar_info_of st node;
          hier \<leftarrow> tar_hierarchy info;
          Some (map_option te_node
            (find (\<lambda>e. te_parent e = Some node \<and> vn_name (vn st (te_node e)) = nm)
              (drop (unat (ucast (vn_inode (vn st node) + 1) :: u32)) hier)), st) }"

definition tar_hooks :: "(nat, \<lparr>fs_mem :: mem, tar_infos :: u32 \<Rightarrow> tar_info\<rparr>) vhook" where
  "tar_hooks = \<lparr>h_read = Some tar_vfs_read, h_write = None, h_open = None, h_close = None,
     h_readdir = Some tar_vfs_readdir, h_finddir = Some tar_vfs_finddir, h_create = None, h_mkdir = None,
     h_remove = None, h_ioctl = None\<rparr>"

section \<open>Headers\<close>

text \<open>A C string in memory; \<open>None\<close> when there is no NUL byte at all.\<close>

definition tar_str :: "mem \<Rightarrow> u32 \<Rightarrow> u8 list option" where
  "tar_str m p = map_option (\<lambda>n. get_bytes m p (unat n)) (strlen m p)"

text \<open>The full path, built in a buffer of 256 bytes: \<open>None\<close> also when it is written past its end.\<close>

definition tar_path :: "mem \<Rightarrow> u32 \<Rightarrow> u8 list option" where
  "tar_path m hdr =
     do { prefix \<leftarrow> (if get_bytes m (hdr + 257) 6 = [117, 115, 116, 97, 114, 0] then tar_str m (hdr + 345) else Some []);
          nm \<leftarrow> tar_str m hdr;
          if 256 \<le> length prefix + length nm then None else Some (prefix @ nm) }"

definition tar_empty_header :: "mem \<Rightarrow> u32 \<Rightarrow> bool" where
  "tar_empty_header m hdr \<longleftrightarrow> m hdr = 0 \<and> m (hdr + 124) = 0"

text \<open>The type byte: NUL and \<open>'0'\<close> to \<open>'6'\<close>.\<close>

definition tar_flags :: "u8 \<Rightarrow> u8" where
  "tar_flags t =
     (if t = 0 then VFS_FILE
      else if t = 48 then VFS_FILE
      else if t = 49 then VFS_SYMLINK
      else if t = 50 then VFS_SYMLINK
      else if t = 51 then VFS_CHARDEV
      else if t = 52 then VFS_BLOCKDEV
      else if t = 53 then VFS_DIRECTORY
      else if t = 54 then VFS_PIPE
      else VFS_FILE)"

definition tar_number :: "mem \<Rightarrow> u32 \<Rightarrow> u32 option" where
  "tar_number m p = map_option (\<lambda>s. fst (strtoul s 8)) (tar_str m p)"

definition tar_length :: "mem \<Rightarrow> u32 \<Rightarrow> u64 option" where
  "tar_length m hdr = map_option (\<lambda>s. fst (strtoull s 8)) (tar_str m (hdr + 124))"

text \<open>The header after the data, which is padded to blocks of 512 bytes.\<close>

definition tar_next :: "u32 \<Rightarrow> u64 \<Rightarrow> u32" where
  "tar_next hdr len = hdr + 512 + ((ucast len + 511) div 512) * 512"

lemma path_rest_shorter: "(rest, len) = path_traverse path \<Longrightarrow> rest \<noteq> [] \<Longrightarrow> length rest < length path"
  using path_traverse_shorter [of path] by (cases path) (auto simp: path_traverse_def Let_def split: if_splits)

text \<open>
  The walk along the path: the last element names the new entry, every element before it selects the
  first earlier entry of that name below the current parent; when there is none an error is printed
  and the parent stays. \<open>earlier\<close> are the entries between the root and the new one.
\<close>

function tar_place :: "(nat \<Rightarrow> nat vnode) \<Rightarrow> tar_entry list \<Rightarrow> nat \<Rightarrow> u8 list \<Rightarrow> u8 list \<times> nat" where
  "tar_place nodes earlier parent path =
     (case path_traverse path of (rest, len) \<Rightarrow>
        if rest = [] then (take len path, parent)
        else tar_place nodes earlier
          (case find (\<lambda>e. te_parent e = Some parent \<and> vn_name (nodes (te_node e)) = take len path) earlier of
             None \<Rightarrow> parent
           | Some e \<Rightarrow> te_node e) rest)"
  by pat_completeness auto
termination
  by (relation "measure (\<lambda>(_, _, _, path). length path)") (auto, metis path_rest_shorter)

declare tar_place.simps [simp del]

text \<open>The new entry of one header, given the node that was allocated for it.\<close>

definition tar_add :: "nat \<Rightarrow> (nat \<Rightarrow> u32) \<Rightarrow> u32 \<Rightarrow> nat \<Rightarrow> u32 \<Rightarrow> tar_entry list \<Rightarrow> u8 list \<Rightarrow> nat \<Rightarrow> tarfs \<Rightarrow> (u64 \<times> tarfs) option" where
  "tar_add hook junk info root hdr hier path node st =
     do { uid \<leftarrow> tar_number (fs_mem st) (hdr + 108);
          gid \<leftarrow> tar_number (fs_mem st) (hdr + 116);
          len \<leftarrow> tar_length (fs_mem st) hdr;
          mtime \<leftarrow> tar_number (fs_mem st) (hdr + 136);
          let flags = tar_flags (fs_mem st (hdr + 156));
              data = (if flags = VFS_FILE \<and> len \<noteq> 0 then hdr + 512 else junk (length hier));
              (nm, parent) = tar_place (vn st) (tl hier) root path;
              v = (vn st node)\<lparr>vn_inode := of_nat (length hier), vn_uid := uid, vn_gid := gid, vn_length := len,
                    vn_mtime := ucast mtime, vn_hook := Some hook, vn_link := Link_ptr info, vn_flags := flags, vn_name := nm\<rparr>;
              e = \<lparr>te_node = node, te_data = data, te_parent = Some parent\<rparr>
          in Some (len, st\<lparr>vn := (vn st)(node := v),
               tar_infos := (tar_infos st)(info := (tar_infos st info)\<lparr>tar_hierarchy := Some (hier @ [e])\<rparr>)\<rparr>) }"

partial_function (option) tar_loop ::
  "nat \<Rightarrow> (nat \<Rightarrow> nat option) \<Rightarrow> (nat \<Rightarrow> bool) \<Rightarrow> (nat \<Rightarrow> u32) \<Rightarrow> u32 \<Rightarrow> nat \<Rightarrow> u32 \<Rightarrow> u32 \<Rightarrow> tarfs \<Rightarrow> tarfs option" where
  "tar_loop hook alloc grow junk info root buffer_end hdr st =
     (if hdr < buffer_end then
        if tar_empty_header (fs_mem st) hdr then tar_loop hook alloc grow junk info root buffer_end (hdr + 512) st
        else
          do { path \<leftarrow> tar_path (fs_mem st) hdr;
               hier \<leftarrow> tar_hierarchy (tar_infos st info);
               case alloc (length hier) of
                 None \<Rightarrow> Some st
               | Some node \<Rightarrow>
                   if length hier mod 4 = 0 \<and> \<not> grow (length hier) then
                     Some (st\<lparr>tar_infos := (tar_infos st)(info := (tar_infos st info)\<lparr>tar_hierarchy := None\<rparr>)\<rparr>)
                   else
                     do { (len, st) \<leftarrow> tar_add hook junk info root hdr hier path node st;
                          tar_loop hook alloc grow junk info root buffer_end (tar_next hdr len) st } }
      else Some st)"

text \<open>
  \<open>tar_init\<close>: \<open>info_mem\<close> and \<open>hier_mem\<close> are the two allocations, \<open>fresh\<close> the one of a root when the
  caller passes none. On failure everything is freed and the result is NULL.
\<close>

definition tar_init ::
  "nat \<Rightarrow> (nat \<Rightarrow> nat option) \<Rightarrow> (nat \<Rightarrow> bool) \<Rightarrow> (nat \<Rightarrow> u32) \<Rightarrow> nat option \<Rightarrow> u32 option \<Rightarrow> bool \<Rightarrow>
     u32 \<Rightarrow> u32 \<Rightarrow> nat option \<Rightarrow> tarfs \<Rightarrow> (nat option \<times> tarfs) option" where
  "tar_init hook alloc grow junk fresh info_mem hier_mem buffer sz root st =
     (let (root, st) =
        (case root of
           Some r \<Rightarrow> (Some r, st)
         | None \<Rightarrow> (fresh, case fresh of None \<Rightarrow> st
             | Some r \<Rightarrow> st\<lparr>vn := (vn st)(r := (vn st r)\<lparr>vn_name := [], vn_uid := 0, vn_gid := 0\<rparr>)\<rparr>))
      in case root of None \<Rightarrow> Some (None, st)
         | Some r \<Rightarrow>
             (case info_mem of None \<Rightarrow> Some (None, st)
              | Some info \<Rightarrow>
                  if \<not> hier_mem then Some (None, st)
                  else
                    let st = st\<lparr>tar_infos := (tar_infos st)(info :=
                               \<lparr>tar_magic = 0x52415453, tar_first_hdr = buffer,
                                tar_hierarchy = Some [\<lparr>te_node = r, te_data = 0, te_parent = None\<rparr>]\<rparr>),
                             vn := (vn st)(r := (vn st r)\<lparr>vn_flags := VFS_MOUNTPOINT, vn_inode := 0,
                               vn_hook := Some hook, vn_link := Link_ptr info\<rparr>)\<rparr>
                    in map_option (\<lambda>st. (Some r, st))
                         (tar_loop hook alloc grow junk info r (buffer + sz) buffer st)))"

section \<open>The tree\<close>

text \<open>
  A hierarchy as it should be: the root and then the nodes in the order of their allocation, each
  node knows its index and the archive, and the parent of an entry is an earlier entry.
\<close>

definition tar_tree :: "(nat \<Rightarrow> nat) \<Rightarrow> nat \<Rightarrow> u32 \<Rightarrow> nat \<Rightarrow> tar_entry list \<Rightarrow> tarfs \<Rightarrow> bool" where
  "tar_tree nodes hook info root hier st \<longleftrightarrow>
     tar_hierarchy (tar_infos st info) = Some hier \<and> hier \<noteq> [] \<and> te_parent (hier ! 0) = None \<and>
     map te_node hier = root # map nodes [1..<length hier] \<and>
     (\<forall>i<length hier. vn_inode (vn st (te_node (hier ! i))) = of_nat i \<and>
        vn_link (vn st (te_node (hier ! i))) = Link_ptr info \<and> vn_hook (vn st (te_node (hier ! i))) = Some hook) \<and>
     (\<forall>i<length hier. 0 < i \<longrightarrow> (\<exists>j<i. te_parent (hier ! i) = Some (te_node (hier ! j))))"

text \<open>The nodes the allocator hands out are distinct and none is the root.\<close>

definition fresh_nodes :: "(nat \<Rightarrow> nat) \<Rightarrow> nat \<Rightarrow> bool" where
  "fresh_nodes nodes root \<longleftrightarrow> inj nodes \<and> root \<notin> range nodes"

lemma tar_tree_nodes:
  "tar_tree nodes hook info root hier st \<Longrightarrow> i < length hier \<Longrightarrow>
     te_node (hier ! i) = (if i = 0 then root else nodes i)"
proof -
  assume t: "tar_tree nodes hook info root hier st" and i: "i < length hier"
  have "te_node (hier ! i) = map te_node hier ! i" using i by simp
  also have "\<dots> = (root # map nodes [1..<length hier]) ! i" using t by (simp add: tar_tree_def)
  finally show ?thesis using i by (cases i) auto
qed

lemma tar_tree_parent:
  "tar_tree nodes hook info root hier st \<Longrightarrow> i < length hier \<Longrightarrow> 0 < i \<Longrightarrow>
     \<exists>j<i. te_parent (hier ! i) = Some (te_node (hier ! j))"
  unfolding tar_tree_def by blast

lemma tar_tree_distinct: "tar_tree nodes hook info root hier st \<Longrightarrow> fresh_nodes nodes root \<Longrightarrow> distinct (map te_node hier)"
  by (auto simp: tar_tree_def fresh_nodes_def distinct_map intro: inj_on_subset)

lemma tar_tree_new:
  "tar_tree nodes hook info root hier st \<Longrightarrow> fresh_nodes nodes root \<Longrightarrow> nodes (length hier) \<notin> te_node ` set hier"
  by (auto simp: in_set_conv_nth fresh_nodes_def tar_tree_nodes inj_eq split: if_splits)

lemma tar_place_parent:
  assumes "parent \<in> insert root (te_node ` set earlier)"
  shows "snd (tar_place nodes earlier parent path) \<in> insert root (te_node ` set earlier)"
  using assms
proof (induction nodes earlier parent path rule: tar_place.induct)
  case (1 nodes earlier parent path)
  show ?case
  proof (cases "path_traverse path")
    case (Pair rest len)
    show ?thesis
    proof (cases "rest = []")
      case True
      then show ?thesis using Pair "1.prems" by (simp add: tar_place.simps [of _ _ _ path])
    next
      case False
      have "(case find (\<lambda>e. te_parent e = Some parent \<and> vn_name (nodes (te_node e)) = take len path) earlier of
             None \<Rightarrow> parent | Some e \<Rightarrow> te_node e) \<in> insert root (te_node ` set earlier)"
        using "1.prems" by (auto simp: find_Some_iff split: option.split)
      from "1.IH" [OF Pair [symmetric] False this] show ?thesis
        using Pair False by (simp add: tar_place.simps [of _ _ _ path])
    qed
  qed
qed

lemma nth_snoc_less: "i < length xs \<Longrightarrow> (xs @ [y]) ! i = xs ! i"
  by (simp add: nth_append)

text \<open>One header appends one entry to the tree and changes no other node.\<close>

lemma tar_add_tree:
  assumes tree: "tar_tree nodes hook info root hier st" and fresh: "fresh_nodes nodes root"
    and add: "tar_add hook junk info root hdr hier path (nodes (length hier)) st = Some (len, st')"
  shows "\<exists>e. tar_tree nodes hook info root (hier @ [e]) st' \<and> te_node e = nodes (length hier) \<and>
    tar_length (fs_mem st) hdr = Some len \<and> vn_length (vn st' (te_node e)) = len \<and>
    vn_flags (vn st' (te_node e)) = tar_flags (fs_mem st (hdr + 156)) \<and>
    (tar_flags (fs_mem st (hdr + 156)) = VFS_FILE \<and> len \<noteq> 0 \<longrightarrow> te_data e = hdr + 512) \<and>
    fs_mem st' = fs_mem st \<and> (\<forall>n. n \<noteq> nodes (length hier) \<longrightarrow> vn st' n = vn st n)"
proof -
  let ?n = "nodes (length hier)"
  have ne: "hier \<noteq> []" and h0: "te_node (hier ! 0) = root"
    using tree tar_tree_nodes [OF tree, of 0] by (auto simp: tar_tree_def)
  obtain nm parent where place: "tar_place (vn st) (tl hier) root path = (nm, parent)" by force
  have "parent \<in> insert root (te_node ` set (tl hier))"
    using tar_place_parent [of root root "tl hier" "vn st" path] place by simp
  then have "parent \<in> te_node ` set hier"
    using ne h0 by (cases hier) auto
  then obtain j where j: "j < length hier" "parent = te_node (hier ! j)" by (auto simp: in_set_conv_nth)
  let ?data = "if tar_flags (fs_mem st (hdr + 156)) = VFS_FILE \<and> len \<noteq> 0 then hdr + 512 else junk (length hier)"
  let ?e = "\<lparr>te_node = ?n, te_data = ?data, te_parent = Some parent\<rparr>"
  from add place obtain v where
    len: "tar_length (fs_mem st) hdr = Some len" and
    st': "st' = st\<lparr>vn := (vn st)(?n := v),
       tar_infos := (tar_infos st)(info := (tar_infos st info)\<lparr>tar_hierarchy := Some (hier @ [?e])\<rparr>)\<rparr>" and
    v: "vn_inode v = of_nat (length hier)" "vn_link v = Link_ptr info" "vn_hook v = Some hook"
       "vn_length v = len" "vn_flags v = tar_flags (fs_mem st (hdr + 156))"
    by (auto simp: tar_add_def Let_def split: bind_splits)
  have old: "te_node (hier ! i) \<noteq> ?n" if "i < length hier" for i
    using tar_tree_new [OF tree fresh] that by (metis image_eqI nth_mem)
  have "tar_tree nodes hook info root (hier @ [?e]) st'"
    unfolding tar_tree_def
  proof (intro conjI allI impI)
    fix i assume i: "i < length (hier @ [?e])" and "0 < i"
    show "\<exists>j<i. te_parent ((hier @ [?e]) ! i) = Some (te_node ((hier @ [?e]) ! j))"
    proof (cases "i < length hier")
      case True
      with tree \<open>0 < i\<close> obtain k where "k < i" "te_parent (hier ! i) = Some (te_node (hier ! k))"
        by (auto simp: tar_tree_def)
      then show ?thesis using True by (intro exI [of _ k]) (simp add: nth_append)
    next
      case False
      then have "i = length hier" using i by simp
      then show ?thesis using j by (intro exI [of _ j]) (simp add: nth_append)
    qed
  next
    fix i assume i: "i < length (hier @ [?e])"
    show "vn_inode (vn st' (te_node ((hier @ [?e]) ! i))) = of_nat i"
      and "vn_link (vn st' (te_node ((hier @ [?e]) ! i))) = Link_ptr info"
      and "vn_hook (vn st' (te_node ((hier @ [?e]) ! i))) = Some hook"
      using i tree v old by (cases "i < length hier"; simp add: st' tar_tree_def nth_append less_Suc_eq)+
  qed (use tree ne in \<open>simp_all add: st' tar_tree_def nth_append Suc_le_eq\<close>)
  then show ?thesis
    using v len by (intro exI [of _ ?e]) (simp add: st')
qed

section \<open>Archives\<close>

text \<open>
  The headers of an archive, with their lengths: sectors that start with a NUL are skipped, and every
  other header has readable strings, a path that fits its buffer, and a successor. The predicate
  holds of finite lists only, so an archive whose headers lead in a circle is excluded.
\<close>

inductive tar_headers :: "mem \<Rightarrow> u32 \<Rightarrow> u32 \<Rightarrow> (u32 \<times> u64) list \<Rightarrow> bool" for m buffer_end where
  "\<not> hdr < buffer_end \<Longrightarrow> tar_headers m buffer_end hdr []"
| "hdr < buffer_end \<Longrightarrow> tar_empty_header m hdr \<Longrightarrow> tar_headers m buffer_end (hdr + 512) hs \<Longrightarrow>
     tar_headers m buffer_end hdr hs"
| "hdr < buffer_end \<Longrightarrow> \<not> tar_empty_header m hdr \<Longrightarrow> tar_path m hdr \<noteq> None \<Longrightarrow>
     tar_number m (hdr + 108) \<noteq> None \<Longrightarrow> tar_number m (hdr + 116) \<noteq> None \<Longrightarrow> tar_number m (hdr + 136) \<noteq> None \<Longrightarrow>
     tar_length m hdr = Some len \<Longrightarrow> tar_headers m buffer_end (tar_next hdr len) hs \<Longrightarrow>
     tar_headers m buffer_end hdr ((hdr, len) # hs)"

inductive_cases tar_headers_NilE: "tar_headers m e hdr []"
inductive_cases tar_headers_ConsE: "tar_headers m e hdr (h # hs)"

text \<open>What an entry of the hierarchy records of its header.\<close>

definition tar_entry_of :: "tarfs \<Rightarrow> u32 \<times> u64 \<Rightarrow> tar_entry \<Rightarrow> bool" where
  "tar_entry_of st h e \<longleftrightarrow>
     (case h of (hdr, len) \<Rightarrow>
        vn_length (vn st (te_node e)) = len \<and>
        vn_flags (vn st (te_node e)) = tar_flags (fs_mem st (hdr + 156)) \<and>
        (tar_flags (fs_mem st (hdr + 156)) = VFS_FILE \<and> len \<noteq> 0 \<longrightarrow> te_data e = hdr + 512))"

lemma tar_loop_entry:
  "hdr < buffer_end \<Longrightarrow> \<not> tar_empty_header (fs_mem st) hdr \<Longrightarrow> tar_path (fs_mem st) hdr = Some path \<Longrightarrow>
   tar_hierarchy (tar_infos st info) = Some hier \<Longrightarrow>
   tar_add hook junk info root hdr hier path (nodes (length hier)) st = Some (len, st1) \<Longrightarrow>
   tar_loop hook (\<lambda>i. Some (nodes i)) (\<lambda>_. True) junk info root buffer_end hdr st =
     tar_loop hook (\<lambda>i. Some (nodes i)) (\<lambda>_. True) junk info root buffer_end (tar_next hdr len) st1"
  by (subst tar_loop.simps) simp

lemma tar_add_runs:
  assumes "tar_number (fs_mem st) (hdr + 108) \<noteq> None" "tar_number (fs_mem st) (hdr + 116) \<noteq> None"
    "tar_number (fs_mem st) (hdr + 136) \<noteq> None" "tar_length (fs_mem st) hdr = Some len"
  shows "\<exists>st1. tar_add hook junk info root hdr hier path node st = Some (len, st1)"
  using assms by (cases "tar_place (vn st) (tl hier) root path") (auto simp: tar_add_def Let_def)

lemma tar_loop_archive:
  assumes "tar_headers m buffer_end hdr hs" and "fs_mem st = m"
    and "tar_tree nodes hook info root hier st" and "fresh_nodes nodes root"
  shows "\<exists>st' es. tar_loop hook (\<lambda>i. Some (nodes i)) (\<lambda>_. True) junk info root buffer_end hdr st = Some st' \<and>
    tar_tree nodes hook info root (hier @ es) st' \<and> list_all2 (tar_entry_of st') hs es \<and> fs_mem st' = m \<and>
    (\<forall>n. n \<notin> nodes ` {length hier..} \<longrightarrow> vn st' n = vn st n)"
  using assms
proof (induction arbitrary: st hier rule: tar_headers.induct)
  case (1 hdr)
  then show ?case
    by (intro exI [of _ st] exI [of _ "[]"]) (simp add: tar_loop.simps [of hook _ _ _ _ _ _ hdr])
next
  case (2 hdr hs)
  then show ?case by (simp add: tar_loop.simps [of hook _ _ _ _ _ _ hdr])
next
  case (3 hdr len hs)
  let ?n = "nodes (length hier)"
  obtain path where path: "tar_path m hdr = Some path" using "3.hyps"(3) by auto
  have hier: "tar_hierarchy (tar_infos st info) = Some hier" using "3.prems"(2) by (simp add: tar_tree_def)
  obtain st1 where add: "tar_add hook junk info root hdr hier path ?n st = Some (len, st1)"
    using tar_add_runs "3.hyps"(4-7) "3.prems"(1) by blast
  from tar_add_tree [OF "3.prems"(2,3) add] "3.prems"(1) obtain e where
    tree: "tar_tree nodes hook info root (hier @ [e]) st1" and e: "te_node e = ?n" and
    ent: "tar_entry_of st1 (hdr, len) e" and m1: "fs_mem st1 = m" and
    same: "\<forall>n. n \<noteq> ?n \<longrightarrow> vn st1 n = vn st n"
    unfolding tar_entry_of_def by force
  from "3.IH" [OF m1 tree "3.prems"(3)] obtain st' es where
    run: "tar_loop hook (\<lambda>i. Some (nodes i)) (\<lambda>_. True) junk info root buffer_end (tar_next hdr len) st1 = Some st'" and
    tree': "tar_tree nodes hook info root ((hier @ [e]) @ es) st'" and all: "list_all2 (tar_entry_of st') hs es" and
    m': "fs_mem st' = m" and same': "\<forall>n. n \<notin> nodes ` {length (hier @ [e])..} \<longrightarrow> vn st' n = vn st1 n"
    by blast
  have "?n \<notin> nodes ` {length (hier @ [e])..}" using "3.prems"(3) by (auto simp: fresh_nodes_def inj_eq)
  then have "vn st' ?n = vn st1 ?n" using same' by blast
  then have "tar_entry_of st' (hdr, len) e" using ent m1 m' e by (simp add: tar_entry_of_def)
  moreover have "vn st' n = vn st n" if "n \<notin> nodes ` {length hier..}" for n
  proof -
    have "n \<noteq> ?n" and "n \<notin> nodes ` {length (hier @ [e])..}" using that by auto
    then show ?thesis using same same' by simp
  qed
  moreover have "tar_loop hook (\<lambda>i. Some (nodes i)) (\<lambda>_. True) junk info root buffer_end hdr st = Some st'"
    using tar_loop_entry [of hdr buffer_end st path info hier hook junk root nodes len st1] hier add run path "3.hyps"(1,2) "3.prems"(1) by simp
  ultimately show ?case
    using tree' all m' by (intro exI [of _ st'] exI [of _ "e # es"]) simp
qed

lemma tar_init_tree:
  assumes "tar_headers (fs_mem st) (buffer + sz) buffer hs" and "fresh_nodes nodes r"
  shows "\<exists>st' e es. tar_init hook (\<lambda>i. Some (nodes i)) (\<lambda>_. True) junk fresh (Some info) True buffer sz (Some r) st
      = Some (Some r, st') \<and> tar_tree nodes hook info r (e # es) st' \<and> list_all2 (tar_entry_of st') hs es \<and>
    fs_mem st' = fs_mem st"
proof -
  let ?st = "st\<lparr>tar_infos := (tar_infos st)(info := \<lparr>tar_magic = 0x52415453, tar_first_hdr = buffer,
       tar_hierarchy = Some [\<lparr>te_node = r, te_data = 0, te_parent = None\<rparr>]\<rparr>),
     vn := (vn st)(r := (vn st r)\<lparr>vn_flags := VFS_MOUNTPOINT, vn_inode := 0, vn_hook := Some hook, vn_link := Link_ptr info\<rparr>)\<rparr>"
  have "tar_tree nodes hook info r [\<lparr>te_node = r, te_data = 0, te_parent = None\<rparr>] ?st"
    by (simp add: tar_tree_def)
  from tar_loop_archive [OF assms(1) _ this assms(2), of junk] show ?thesis
    by (auto simp: tar_init_def Let_def)
qed

text \<open>The children of a node, in the order of the archive.\<close>

definition tar_children :: "tar_entry list \<Rightarrow> nat \<Rightarrow> tar_entry list" where
  "tar_children hier node = filter (\<lambda>e. te_parent e = Some node) hier"

lemma tar_nth_child_nth:
  "length es < 2 ^ 64 \<Longrightarrow> unat n + length es < 2 ^ 64 \<Longrightarrow> n \<le> idx \<Longrightarrow> tar_nth_child node idx n es =
    (let cs = tar_children es node; k = unat (idx - n) in if k < length cs then Some (cs ! k) else None)"
proof (induction es arbitrary: n)
  case Nil
  then show ?case by (simp add: tar_children_def)
next
  case (Cons e es)
  show ?case
  proof (cases "te_parent e = Some node \<and> n \<noteq> idx")
    case True
    then have lt: "n < idx" using Cons.prems(3) by (metis order.not_eq_order_implies_strict)
    have u: "unat (n + 1) = unat n + 1"
      using lt unsigned_less [of idx, where ?'a = nat] by (simp add: unat_word_ariths word_less_nat_alt)
    then have "n + 1 \<le> idx" using lt by (simp add: word_less_nat_alt word_le_nat_alt)
    moreover from this have "unat (idx - n) = Suc (unat (idx - (n + 1)))"
      using u lt Cons.prems(3) by (simp add: unat_diff_offset word_less_nat_alt)
    moreover note u
    ultimately show ?thesis using True Cons.IH [of "n + 1"] Cons.prems by (simp add: tar_children_def Let_def)
  next
    case False
    then show ?thesis using Cons.IH [of n] Cons.prems by (auto simp: tar_children_def Let_def)
  qed
qed

lemma tar_children_later:
  assumes "tar_tree nodes hook info root hier st" and "fresh_nodes nodes root" and "i < length hier"
  shows "filter (\<lambda>e. te_parent e = Some (te_node (hier ! i)) \<and> P e) (drop (Suc i) hier) =
    filter (\<lambda>e. te_parent e = Some (te_node (hier ! i)) \<and> P e) hier"
proof -
  have "te_parent (hier ! k) \<noteq> Some (te_node (hier ! i))" if le: "k \<le> i" for k
  proof (cases "k = 0")
    case True
    then show ?thesis using assms(1) by (simp add: tar_tree_def)
  next
    case False
    then have "0 < k" by simp
    then obtain j where "j < k" "te_parent (hier ! k) = Some (te_node (hier ! j))"
      using tar_tree_parent [OF assms(1), of k] le_less_trans [OF le assms(3)] by blast
    moreover have "te_node (hier ! j) \<noteq> te_node (hier ! i)" if "j < k" for j
      using nth_eq_iff_index_eq [OF tar_tree_distinct [OF assms(1,2)], of j i] that le assms(3) by simp
    ultimately show ?thesis by simp
  qed
  then have "te_parent e \<noteq> Some (te_node (hier ! i))" if "e \<in> set (take (Suc i) hier)" for e
    using that unfolding in_set_conv_nth by auto
  then have "filter (\<lambda>e. te_parent e = Some (te_node (hier ! i)) \<and> P e) (take (Suc i) hier) = []"
    unfolding filter_empty_conv by blast
  then show ?thesis
    using filter_append [of "\<lambda>e. te_parent e = Some (te_node (hier ! i)) \<and> P e" "take (Suc i) hier" "drop (Suc i) hier"]
    by simp
qed

lemma tar_read_bytes:
  assumes "tar_info_of st n = Some info" and "tar_hierarchy info = Some hier"
    and "te_data (hier ! unat (vn_inode (vn st n))) = p" and "p \<noteq> 0"
    and "unat offset + unat k < 2 ^ 64" and "vn_length (vn st n) < 2 ^ 32"
  shows "tar_vfs_read n offset k st =
    (let g = min (unat k) (unat (vn_length (vn st n)) - unat offset)
     in Some ((of_nat g, get_bytes (fs_mem st) (p + ucast offset) g), st))"
proof -
  let ?len = "vn_length (vn st n)"
  have sum: "unat (offset + k) = unat offset + unat k"
    using assms(5) by (simp add: unat_word_ariths)
  have len: "unat ?len < 2 ^ 32" using assms(6) by (simp add: word_less_nat_alt)
  have cast: "unat (ucast w :: u32) = unat w" if "unat w < 2 ^ 32" for w :: u64
    using that by (simp add: unsigned_ucast_eq take_bit_nat_eq_self)
  consider "?len \<le> offset" | "offset < ?len" "?len < offset + k" | "offset < ?len" "\<not> ?len < offset + k"
    by fastforce
  then show ?thesis
  proof cases
    case 1
    then show ?thesis using assms(1-4) by (simp add: tar_vfs_read_def Let_def get_bytes_def word_le_nat_alt)
  next
    case 2
    then have "unat (?len - offset) = unat ?len - unat offset" by (simp add: unat_diff_offset)
    moreover from 2 have "min (unat k) (unat ?len - unat offset) = unat ?len - unat offset"
      by (simp add: word_less_nat_alt sum)
    moreover have "of_nat (unat (?len - offset)) = ?len - offset" by simp
    ultimately show ?thesis
      using 2 assms(1-4) len by (auto simp: tar_vfs_read_def Let_def cast)
  next
    case 3
    then have "unat offset + unat k \<le> unat ?len" by (simp add: word_less_nat_alt sum)
    then show ?thesis
      using 3 assms(1-4) len by (auto simp: tar_vfs_read_def Let_def cast)
  qed
qed

section \<open>Properties\<close>

text \<open>
  C13: \<open>tar_init\<close> on an archive whose headers can be walked returns, with the given root: the
  hierarchy is a tree (each node knows its index, each parent precedes its children) with one entry
  for every header, in order, of the header's size and type, and a non-empty file can be read: the
  bytes returned are those behind its header, clipped to the size of the file.
\<close>

theorem tar_init_archive:
  assumes "tar_headers (fs_mem st) (buffer + sz) buffer hs" and "fresh_nodes nodes r" and "length hs < 2 ^ 32"
    and "unat offset + unat k < 2 ^ 64"
  shows "\<exists>st' e es. tar_init hook (\<lambda>i. Some (nodes i)) (\<lambda>_. True) junk fresh (Some info) True buffer sz (Some r) st
      = Some (Some r, st') \<and> tar_tree nodes hook info r (e # es) st' \<and> length es = length hs \<and>
    (\<forall>i<length hs. case hs ! i of (hdr, len) \<Rightarrow> let n = te_node (es ! i) in
       vn_length (vn st' n) = len \<and> vn_flags (vn st' n) = tar_flags (fs_mem st (hdr + 156)) \<and>
       (tar_flags (fs_mem st (hdr + 156)) = VFS_FILE \<and> hdr + 512 \<noteq> 0 \<and> 0 < len \<and> len < 2 ^ 32 \<longrightarrow>
        (let g = min (unat k) (unat len - unat offset)
         in tar_vfs_read n offset k st' = Some ((of_nat g, get_bytes (fs_mem st) (hdr + 512 + ucast offset) g), st'))))"
proof -
  from tar_init_tree [OF assms(1,2), of hook junk fresh info] obtain st' e es where
    run: "tar_init hook (\<lambda>i. Some (nodes i)) (\<lambda>_. True) junk fresh (Some info) True buffer sz (Some r) st
      = Some (Some r, st')" and tree: "tar_tree nodes hook info r (e # es) st'" and
    all: "list_all2 (tar_entry_of st') hs es" and m: "fs_mem st' = fs_mem st" by blast
  have len: "length es = length hs" using all by (simp add: list_all2_lengthD)
  have "case hs ! i of (hdr, len) \<Rightarrow> let n = te_node (es ! i) in
       vn_length (vn st' n) = len \<and> vn_flags (vn st' n) = tar_flags (fs_mem st (hdr + 156)) \<and>
       (tar_flags (fs_mem st (hdr + 156)) = VFS_FILE \<and> hdr + 512 \<noteq> 0 \<and> 0 < len \<and> len < 2 ^ 32 \<longrightarrow>
        (let g = min (unat k) (unat len - unat offset)
         in tar_vfs_read n offset k st' = Some ((of_nat g, get_bytes (fs_mem st) (hdr + 512 + ucast offset) g), st')))"
    if i: "i < length hs" for i
  proof -
    obtain hdr len where h: "hs ! i = (hdr, len)" by force
    from all i have ent: "tar_entry_of st' (hdr, len) (es ! i)" using h by (metis list_all2_nthD)
    have "\<forall>j<length (e # es). vn_inode (vn st' (te_node ((e # es) ! j))) = of_nat j \<and>
        vn_link (vn st' (te_node ((e # es) ! j))) = Link_ptr info"
      and hier: "tar_hierarchy (tar_infos st' info) = Some (e # es)"
      using tree unfolding tar_tree_def by blast+
    from spec [OF this(1), of "Suc i"] have node: "vn_inode (vn st' (te_node (es ! i))) = of_nat (Suc i)"
      "tar_info_of st' (te_node (es ! i)) = Some (tar_infos st' info)"
      using i len by (simp_all add: tar_info_of_def)
    have "unat (of_nat (Suc i) :: u64) = Suc i"
      using i assms(3) by (simp add: unat_of_nat take_bit_nat_eq_self del: of_nat_Suc)
    then have "te_data ((e # es) ! unat (vn_inode (vn st' (te_node (es ! i))))) = te_data (es ! i)"
      by (simp add: node del: of_nat_Suc)
    from tar_read_bytes [OF node(2) hier this _ assms(4)] show ?thesis
      using ent m by (auto simp: h tar_entry_of_def Let_def)
  qed
  then show ?thesis using run tree len by blast
qed

lemma find_filter: "find P (filter Q xs) = find (\<lambda>x. Q x \<and> P x) xs"
  by (induction xs) auto

lemma find_filter_hd: "find P xs = (case filter P xs of [] \<Rightarrow> None | x # _ \<Rightarrow> Some x)"
  by (induction xs) auto

text \<open>
  C14: in a hierarchy that is a tree, a directory lists its children and nothing else: entry \<open>idx\<close> of
  \<open>tar_vfs_readdir\<close> is the child with that number in the order of the archive, after the last one
  there is none, and \<open>tar_vfs_finddir\<close> returns the first child with the name. Only looking at the
  entries after the directory's own misses nothing.
\<close>

theorem tar_directory_children:
  assumes "tar_tree nodes hook info root hier st" and "fresh_nodes nodes root" and "i < length hier"
    and "length hier < 2 ^ 32" and "vfs_dirent_idx st < length (vfs_dirent_buf st)"
  shows "let node = te_node (hier ! i); cs = tar_children hier node in
    (if unat idx < length cs then
       \<exists>k st'. tar_vfs_readdir node idx st = Some (Some k, st') \<and>
         vfs_dirent_buf st' ! k = \<lparr>d_name = vn_name (vn st (te_node (cs ! unat idx))), d_ino = vn_inode (vn st (te_node (cs ! unat idx)))\<rparr>
     else tar_vfs_readdir node idx st = Some (None, st)) \<and>
    tar_vfs_finddir node nm st = Some (map_option te_node (find (\<lambda>e. vn_name (vn st (te_node e)) = nm) cs), st)"
proof -
  let ?node = "te_node (hier ! i)"
  let ?cs = "tar_children hier ?node"
  have link: "tar_info_of st ?node = Some (tar_infos st info)" and ino: "vn_inode (vn st ?node) = of_nat i"
    and hier: "tar_hierarchy (tar_infos st info) = Some hier"
    using assms(1,3) by (simp_all add: tar_tree_def tar_info_of_def)
  have "(of_nat i + 1 :: u64) = of_nat (Suc i)" by simp
  then have "(ucast (of_nat i + 1 :: u64) :: u32) = of_nat (Suc i)"
    using assms(3,4) by (simp add: unsigned_of_nat take_bit_nat_eq_self del: of_nat_Suc)
  then have suc: "unat (ucast (vn_inode (vn st ?node) + 1) :: u32) = Suc i"
    using assms(3,4) ino by (simp add: unat_of_nat_u32 del: of_nat_Suc)
  have "length (drop (Suc i) hier) < 2 ^ 64" using assms(4) by simp
  from tar_nth_child_nth [of "drop (Suc i) hier" 0 idx ?node] this
  have nth: "tar_nth_child ?node idx 0 (drop (Suc i) hier) = (if unat idx < length ?cs then Some (?cs ! unat idx) else None)"
    using tar_children_later [OF assms(1-3), of "\<lambda>_. True"] by (simp add: tar_children_def Let_def)
  have "tar_vfs_finddir ?node nm st = Some (map_option te_node (find (\<lambda>e. vn_name (vn st (te_node e)) = nm) ?cs), st)"
    using link hier suc tar_children_later [OF assms(1-3), of "\<lambda>e. vn_name (vn st (te_node e)) = nm"]
    by (simp add: tar_vfs_finddir_def tar_children_def find_filter find_filter_hd)
  moreover have "if unat idx < length ?cs then
       \<exists>k st'. tar_vfs_readdir ?node idx st = Some (Some k, st') \<and>
         vfs_dirent_buf st' ! k = \<lparr>d_name = vn_name (vn st (te_node (?cs ! unat idx))), d_ino = vn_inode (vn st (te_node (?cs ! unat idx)))\<rparr>
     else tar_vfs_readdir ?node idx st = Some (None, st)"
    using link hier suc nth assms(5) by (auto simp: tar_vfs_readdir_def vfs_alloc_dirent_def Let_def)
  ultimately show ?thesis by (simp add: Let_def)
qed


text \<open>An archive of one file \<open>a\<close> of 5 bytes, at address 4096.\<close>

definition tar_example :: tarfs where
  "tar_example = \<lparr>vn = (\<lambda>_. \<lparr>vn_name = [], vn_flags = 0, vn_uid = 0, vn_gid = 0, vn_inode = 0, vn_length = 0,
       vn_hook = None, vn_link = Link_null, vn_mtime = 0\<rparr>),
     vfs_root = None, vfs_dirent_buf = replicate 1024 \<lparr>d_name = [], d_ino = 0\<rparr>, vfs_dirent_idx = 0,
     fs_mem = (\<lambda>_. 0)(4096 := 97, 4220 := 53, 4252 := 48, 4608 := 104, 4609 := 101),
     tar_infos = (\<lambda>_. \<lparr>tar_magic = 0, tar_first_hdr = 0, tar_hierarchy = None\<rparr>)\<rparr>"

lemma tar_str_cstr: "cstr_at m p s \<Longrightarrow> length s < 2 ^ 32 \<Longrightarrow> tar_str m p = Some (get_bytes m p (length s))"
  by (simp add: tar_str_def strlen_cstr unat_of_nat_u32)

lemma tar_example_headers: "tar_headers (fs_mem tar_example) (4096 + 1024) 4096 [(4096, 5)]"
proof -
  let ?m = "fs_mem tar_example"
  have empty: "tar_str ?m p = Some []" if "?m p = 0" for p
    using tar_str_cstr [of ?m p "[]"] that by (simp add: get_bytes_def)
  have num: "tar_number ?m p = Some 0" if "?m p = 0" for p
    by (simp add: tar_number_def empty [OF that] strtoul_def strtoull_def strto_base.simps skip_sign.simps skip_ws.simps
        strtoull_loop.simps)
  have "tar_str ?m 4220 = Some [53]"
    using tar_str_cstr [of ?m 4220 "[53]"] by (simp add: tar_example_def get_bytes_def)
  then have len: "tar_length ?m 4096 = Some 5"
    by (simp add: tar_length_def strtoull_def strto_base.simps skip_sign.simps skip_ws.simps strtoull_loop.simps strto_digit_def is_ws_def)
  have "tar_str ?m 4096 = Some [97]"
    using tar_str_cstr [of ?m 4096 "[97]"] by (simp add: tar_example_def get_bytes_def)
  then have path: "tar_path ?m 4096 = Some [97]"
    by (simp add: tar_path_def get_bytes_def tar_example_def upt_rec)
  have "tar_headers ?m 5120 (tar_next 4096 5) []"
    by (rule tar_headers.intros(1)) (simp add: tar_next_def)
  moreover have "?m 4204 = 0" "?m 4212 = 0" "?m 4232 = 0" "?m 4096 \<noteq> 0" by (simp_all add: tar_example_def)
  ultimately show ?thesis
    using path len by (intro tar_headers.intros(3)) (simp_all add: num tar_empty_header_def)
qed

theorem tar_init_archive_witness:
  "\<exists>st' e f. tar_init 7 (\<lambda>i. Some (Suc i)) (\<lambda>_. True) (\<lambda>_. 0) None (Some 64) True 4096 1024 (Some 0) tar_example = Some (Some 0, st')
     \<and> tar_tree Suc 7 64 0 [e, f] st' \<and> tar_vfs_read (te_node f) 0 2 st' = Some ((2, [104, 101]), st')"
proof -
  have "get_bytes (fs_mem tar_example) 4608 2 = [104, 101]" "fs_mem tar_example 4252 = 48"
    by (simp_all add: tar_example_def get_bytes_def upt_rec)
  then show ?thesis
    using tar_init_archive [OF tar_example_headers, of Suc 0 0 2 7 "\<lambda>_. 0" None 64]
    by (fastforce simp: fresh_nodes_def tar_flags_def Let_def length_Suc_conv)
qed


text \<open>A parsed archive of one directory with one file, at address 64 of the information structures.\<close>

definition tar_example_tree :: "tar_entry list" where
  "tar_example_tree = [\<lparr>te_node = 0, te_data = 0, te_parent = None\<rparr>, \<lparr>te_node = 2, te_data = 0, te_parent = Some 0\<rparr>,
     \<lparr>te_node = 3, te_data = 512, te_parent = Some 2\<rparr>]"

definition tar_example_fs :: tarfs where
  "tar_example_fs = tar_example\<lparr>vn := (\<lambda>n. \<lparr>vn_name = [of_nat n], vn_flags = VFS_DIRECTORY, vn_uid = 0, vn_gid = 0,
       vn_inode = (if n = 0 then 0 else of_nat (n - 1)), vn_length = 0, vn_hook = Some 7, vn_link = Link_ptr 64, vn_mtime = 0\<rparr>),
     tar_infos := (\<lambda>_. \<lparr>tar_magic = 0, tar_first_hdr = 0, tar_hierarchy = Some tar_example_tree\<rparr>)\<rparr>"

theorem tar_directory_children_witness:
  "tar_vfs_finddir 2 [3] tar_example_fs = Some (Some 3, tar_example_fs)"
proof -
  have "tar_tree Suc 7 64 0 tar_example_tree tar_example_fs"
    by (force simp: tar_tree_def tar_example_fs_def tar_example_tree_def less_Suc_eq numeral_3_eq_3)
  from tar_directory_children [OF this, of 1 0 "[3]"] show ?thesis
    by (simp add: fresh_nodes_def tar_example_fs_def tar_example_def tar_example_tree_def tar_children_def Let_def)
qed

end
