(* ===== verification/Pmm.thy ===== *)
theory Pmm
  imports Helpers
begin

text \<open>
  \<^verbatim>\<open>mm/pmm.c\<close> and \<^verbatim>\<open>arch/x86/pmm.c\<close>: the physical frame allocator. The bitmap is an array of
  32-bit words in memory, here a function from the word index, because a run of frames may be
  tested past \<open>pmm_frames\<close>. Frame numbers stay far below \<open>2 ^ 32\<close>, so \<open>size_t\<close> is \<open>nat\<close>; the
  failure value \<open>(size_t) -1\<close> is \<open>None\<close>. \<open>pmm_alloc_mutex\<close> is part of the state.
\<close>

record pmm =
  pmm_bitmap :: "nat \<Rightarrow> u32"
  pmm_frames :: nat
  pmm_alloc_mutex :: mutex

definition pmm_alloc :: "pmm \<Rightarrow> nat \<Rightarrow> pmm \<times> int" where
  "pmm_alloc st frame =
     (let off = frame div 32; bt = frame mod 32
      in if pmm_bitmap st off AND push_bit bt 1 \<noteq> 0 then (st, - 1)
         else (st\<lparr>pmm_bitmap := (pmm_bitmap st)(off := pmm_bitmap st off OR push_bit bt 1)\<rparr>, 0))"

definition pmm_free :: "pmm \<Rightarrow> nat \<Rightarrow> pmm" where
  "pmm_free st frame =
     (let off = frame div 32; bt = frame mod 32
      in st\<lparr>pmm_bitmap := (pmm_bitmap st)(off := pmm_bitmap st off AND NOT (push_bit bt 1))\<rparr>)"

text \<open>The inner loop over \<open>i\<close>: the first frame of the run that is in use (\<open>fail\<close>), if any.\<close>

function pmm_run_fail :: "pmm \<Rightarrow> nat \<Rightarrow> nat \<Rightarrow> nat \<Rightarrow> nat option" where
  "pmm_run_fail st frame sz i =
     (if i < sz then
        let of2 = (frame + i) div 32 in
        if pmm_bitmap st of2 = -1 then Some (frame + i)
        else
          let bi2 = (frame + i) mod 32 in
          if pmm_bitmap st of2 AND push_bit bi2 1 \<noteq> 0 then Some (frame + i)
          else pmm_run_fail st frame sz (i + 1)
      else None)"
  by pat_completeness auto
termination by (relation "measure (\<lambda>(st, frame, sz, i). sz - i)") auto

declare pmm_run_fail.simps [simp del]

lemma pmm_run_fail_ge: "pmm_run_fail st frame sz i = Some fail \<Longrightarrow> frame + i \<le> fail"
proof (induction st frame sz i rule: pmm_run_fail.induct)
  case (1 st frame sz i)
  then show ?case
    by (fastforce simp: pmm_run_fail.simps [of st frame sz i] Let_def split: if_splits)
qed

text \<open>
  The outer loop. After a failed run \<open>frame = fail + 1\<close> is executed and control falls through to
  \<open>next: frame++\<close>, so the scan resumes at \<open>fail + 2\<close>.
\<close>

function pmm_first_free_loop :: "pmm \<Rightarrow> nat \<Rightarrow> nat \<Rightarrow> nat option" where
  "pmm_first_free_loop st sz frame =
     (if frame < pmm_frames st then
        let off = frame div 32 in
        if pmm_bitmap st off = -1 then pmm_first_free_loop st sz (frame + 1)
        else
          let bt = frame mod 32 in
          if pmm_bitmap st off AND push_bit bt 1 = 0 then
            (case pmm_run_fail st frame sz 0 of
               Some fail \<Rightarrow> pmm_first_free_loop st sz (fail + 1 + 1)
             | None \<Rightarrow> Some frame)
          else pmm_first_free_loop st sz (frame + 1)
      else None)"
  by pat_completeness auto
termination
  by (relation "measure (\<lambda>(st, sz, frame). pmm_frames st - frame)") (auto dest!: pmm_run_fail_ge)

declare pmm_first_free_loop.simps [simp del]

definition pmm_first_free :: "pmm \<Rightarrow> nat \<Rightarrow> nat option" where
  "pmm_first_free st sz = pmm_first_free_loop st sz 0"

text \<open>\<open>None\<close>: the mutex is held by another task and never released, so the call does not return.\<close>

definition pmm_alloc_free :: "pmm \<Rightarrow> nat \<Rightarrow> (pmm \<times> nat option) option" where
  "pmm_alloc_free st sz =
     do { l \<leftarrow> mutex_acquire (pmm_alloc_mutex st);
          let st = st\<lparr>pmm_alloc_mutex := l\<rparr>;
          let frame = pmm_first_free st sz;
          let st = (case frame of
              None \<Rightarrow> st
            | Some f \<Rightarrow> fold (\<lambda>i st. fst (pmm_alloc st (f + i))) [0..<sz] st);
          Some (st\<lparr>pmm_alloc_mutex := mutex_release (pmm_alloc_mutex st)\<rparr>, frame) }"

section \<open>Initialisation from the memory map: arch/x86/pmm.c\<close>

record mmap_entry =
  addr_l :: u32
  addr_h :: u32
  len_l :: u32
  len_h :: u32
  mmap_type :: u32

text \<open>
  \<open>addr_l + len_l\<close> is added in 32 bits before the shift. \<open>pre_start\<close> is the address of the symbol
  \<open>__pre_start\<close>; frames below the kernel stay reserved.
\<close>

definition pmm_init_entry :: "u32 \<Rightarrow> mmap_entry \<Rightarrow> pmm \<Rightarrow> pmm" where
  "pmm_init_entry pre_start e st =
     (if addr_h e = 0 \<and> len_h e = 0 \<and> mmap_type e = 1 then
        let frame_hi = drop_bit 12 (addr_l e + len_l e)
        in fold (\<lambda>i st. if unat (drop_bit 12 pre_start) \<le> i then pmm_free st i else st)
             [unat (drop_bit 12 (addr_l e))..<unat frame_hi] st
      else st)"

text \<open>The memory map is absent when bit 6 of \<open>mb_info->flags\<close> is clear.\<close>

definition pmm_init :: "u32 \<Rightarrow> u32 \<Rightarrow> mmap_entry list option \<Rightarrow> pmm \<Rightarrow> pmm" where
  "pmm_init pre_start kernel_end mmap st =
     (let st = (case mmap of None \<Rightarrow> st | Some es \<Rightarrow> fold (pmm_init_entry pre_start) es st)
      in fold (\<lambda>frame st. fst (pmm_alloc st frame))
           [unat (drop_bit 12 pre_start)..<unat (drop_bit 12 (kernel_end - 0xC0000000))] st)"

section \<open>Frames in use\<close>

definition pmm_used :: "pmm \<Rightarrow> nat \<Rightarrow> bool" where
  "pmm_used st f = bit (pmm_bitmap st (f div 32)) (f mod 32)"

lemma and_push_bit_eq_0: "n < 32 \<Longrightarrow> (w AND push_bit n 1 = 0) = (\<not> bit w n)" for w :: u32
  by (simp add: and_exp_eq_0_iff_not_bit)

lemma minus_one_used: "pmm_bitmap st (f div 32) = - 1 \<Longrightarrow> pmm_used st f"
  by (simp add: pmm_used_def)

lemma frame_eqI: "f div 32 = g div 32 \<Longrightarrow> f mod 32 = g mod 32 \<Longrightarrow> f = (g :: nat)"
  by (metis div_mult_mod_eq)

lemma pmm_alloc_result: "pmm_alloc st f = (fst (pmm_alloc st f), if pmm_used st f then - 1 else 0)"
  by (simp add: pmm_alloc_def Let_def and_exp_eq_0_iff_not_bit pmm_used_def)

lemma pmm_alloc_used [simp]: "pmm_used (fst (pmm_alloc st f)) g \<longleftrightarrow> g = f \<or> pmm_used st g"
  by (auto simp: pmm_alloc_def Let_def and_exp_eq_0_iff_not_bit pmm_used_def bit_simps intro: frame_eqI)

lemma pmm_free_other [simp]:
  "pmm_frames (pmm_free st f) = pmm_frames st"
  "pmm_alloc_mutex (pmm_free st f) = pmm_alloc_mutex st"
  by (simp_all add: pmm_free_def Let_def)

lemma pmm_free_used [simp]: "pmm_used (pmm_free st f) g \<longleftrightarrow> g \<noteq> f \<and> pmm_used st g"
  by (auto simp: pmm_free_def Let_def pmm_used_def bit_simps intro: frame_eqI)

lemma pmm_alloc_other [simp]:
  "pmm_frames (fst (pmm_alloc st f)) = pmm_frames st"
  "pmm_alloc_mutex (fst (pmm_alloc st f)) = pmm_alloc_mutex st"
  by (simp_all add: pmm_alloc_def Let_def)

lemma pmm_alloc_all_used:
  "pmm_used (fold (\<lambda>i st. fst (pmm_alloc st (f + i))) is st) g \<longleftrightarrow>
     (\<exists>i \<in> set is. g = f + i) \<or> pmm_used st g"
  by (induction "is" arbitrary: st) auto

lemma pmm_alloc_all_other [simp]:
  "pmm_frames (fold (\<lambda>i st. fst (pmm_alloc st (f + i))) is st) = pmm_frames st"
  "pmm_alloc_mutex (fold (\<lambda>i st. fst (pmm_alloc st (f + i))) is st) = pmm_alloc_mutex st"
  by (induction "is" arbitrary: st) auto

section \<open>The scan\<close>

lemma pmm_run_fail_step:
  "pmm_run_fail st frame sz i =
     (if i < sz then if pmm_used st (frame + i) then Some (frame + i) else pmm_run_fail st frame sz (i + 1)
      else None)"
  using minus_one_used [of st "frame + i"]
  by (subst pmm_run_fail.simps) (auto simp: Let_def and_exp_eq_0_iff_not_bit pmm_used_def)

lemma pmm_first_free_loop_step:
  "pmm_first_free_loop st sz frame =
     (if frame < pmm_frames st then
        if pmm_used st frame then pmm_first_free_loop st sz (frame + 1)
        else (case pmm_run_fail st frame sz 0 of
                Some fail \<Rightarrow> pmm_first_free_loop st sz (fail + 2)
              | None \<Rightarrow> Some frame)
      else None)"
  using minus_one_used [of st frame]
  by (subst pmm_first_free_loop.simps)
     (auto simp: Let_def and_exp_eq_0_iff_not_bit pmm_used_def split: option.splits)

lemma pmm_run_fail_None:
  "pmm_run_fail st frame sz i = None \<Longrightarrow> i \<le> j \<Longrightarrow> j < sz \<Longrightarrow> \<not> pmm_used st (frame + j)"
proof (induction st frame sz i rule: pmm_run_fail.induct)
  case (1 st frame sz i)
  then show ?case
    using pmm_run_fail_step [of st frame sz i] pmm_run_fail.simps [of st frame sz i]
    by (cases "j = i") (auto simp: Let_def split: if_splits)
qed

lemma pmm_run_fail_one: "\<not> pmm_used st frame \<Longrightarrow> pmm_run_fail st frame 1 0 = None"
  by (simp add: pmm_run_fail_step)

lemma pmm_first_free_loop_sound:
  "pmm_first_free_loop st sz frame = Some f \<Longrightarrow>
     frame \<le> f \<and> f < pmm_frames st \<and> (\<forall>i < sz. \<not> pmm_used st (f + i))"
proof (induction "pmm_frames st - frame" arbitrary: frame rule: less_induct)
  case less
  note step = pmm_first_free_loop_step [of st sz frame]
  have lt: "frame < pmm_frames st" using less.prems step by (simp split: if_splits)
  consider "pmm_used st frame"
    | fail where "\<not> pmm_used st frame" "pmm_run_fail st frame sz 0 = Some fail"
    | "\<not> pmm_used st frame" "pmm_run_fail st frame sz 0 = None"
    by (cases "pmm_run_fail st frame sz 0") auto
  then show ?case
  proof cases
    case 1
    then show ?thesis using less.hyps [of "frame + 1"] less.prems step lt by (auto intro: Suc_leD)
  next
    case 2
    then have "frame \<le> fail" and "pmm_first_free_loop st sz (fail + 2) = Some f"
      using less.prems step lt pmm_run_fail_ge [OF 2(2)] by auto
    moreover from \<open>frame \<le> fail\<close> lt have "pmm_frames st - (fail + 2) < pmm_frames st - frame"
      by arith
    ultimately show ?thesis using less.hyps [of "fail + 2"] by auto
  next
    case 3
    then show ?thesis using less.prems step lt pmm_run_fail_None [OF 3(2)] by auto
  qed
qed

text \<open>For a single frame no run can fail, and the scan is first fit.\<close>

lemma pmm_first_free_loop_one:
  "pmm_first_free_loop st 1 frame =
     (let i = find_idx (\<lambda>f. \<not> pmm_used st f) [frame..<pmm_frames st]
      in if frame + i < pmm_frames st then Some (frame + i) else None)"
proof (induction "pmm_frames st - frame" arbitrary: frame)
  case 0
  then show ?case by (simp add: pmm_first_free_loop_step)
next
  case (Suc n)
  then have lt: "frame < pmm_frames st" by simp
  with Suc have IH: "pmm_first_free_loop st 1 (frame + 1) =
     (let i = find_idx (\<lambda>f. \<not> pmm_used st f) [frame + 1..<pmm_frames st]
      in if frame + 1 + i < pmm_frames st then Some (frame + 1 + i) else None)"
    by (simp add: Let_def)
  have "[frame..<pmm_frames st] = frame # [frame + 1..<pmm_frames st]"
    using lt by (simp add: upt_conv_Cons)
  then show ?case
    using lt IH pmm_run_fail_one [of st frame]
    by (simp add: pmm_first_free_loop_step [of st 1 frame] Let_def del: One_nat_def)
qed

section \<open>The interface of a frame allocator\<close>

text \<open>
  What the users of single frames rely on (kernel heap, copy-on-write, page tables, program
  loader): an allocation returns a frame nobody owned, and only that frame changes hands.
\<close>

locale frame_allocator =
  fixes alloc :: "'s \<Rightarrow> ('s \<times> nat option) option"
    and free :: "'s \<Rightarrow> nat \<Rightarrow> 's"
    and used :: "'s \<Rightarrow> nat \<Rightarrow> bool"
    and ok :: "'s \<Rightarrow> bool"
  assumes alloc_returns: "ok s \<Longrightarrow> \<exists>s' r. alloc s = Some (s', r)"
    and alloc_ok: "ok s \<Longrightarrow> alloc s = Some (s', r) \<Longrightarrow> ok s'"
    and alloc_fresh: "ok s \<Longrightarrow> alloc s = Some (s', Some f) \<Longrightarrow> \<not> used s f \<and> used s' = (used s)(f := True)"
    and alloc_full: "ok s \<Longrightarrow> alloc s = Some (s', None) \<Longrightarrow> used s' = used s"
    and free_ok: "ok s \<Longrightarrow> ok (free s f)"
    and free_frame: "ok s \<Longrightarrow> used (free s f) = (used s)(f := False)"
begin

text \<open>The loop shared by the clients: frame by frame, stopping at the first failure.\<close>

fun alloc_many :: "nat \<Rightarrow> 's \<Rightarrow> ('s \<times> nat list) option" where
  "alloc_many 0 s = Some (s, [])"
| "alloc_many (Suc n) s =
     do { (s, r) \<leftarrow> alloc s;
          case r of
            None \<Rightarrow> Some (s, [])
          | Some f \<Rightarrow> do { (s, fs) \<leftarrow> alloc_many n s; Some (s, f # fs) } }"

lemma alloc_many_returns: "ok s \<Longrightarrow> \<exists>s' fs. alloc_many n s = Some (s', fs)"
proof (induction n arbitrary: s)
  case (Suc n)
  obtain s1 r where a: "alloc s = Some (s1, r)" using alloc_returns Suc.prems by blast
  with Suc alloc_ok show ?case by (cases r) (fastforce split: option.splits)+
qed simp

lemma alloc_many_fresh:
  "ok s \<Longrightarrow> alloc_many n s = Some (s', fs) \<Longrightarrow>
     ok s' \<and> distinct fs \<and> (\<forall>f \<in> set fs. \<not> used s f) \<and> used s' = (\<lambda>f. used s f \<or> f \<in> set fs)"
proof (induction n arbitrary: s fs)
  case 0
  then show ?case by simp
next
  case (Suc n)
  obtain s1 r where a: "alloc s = Some (s1, r)" using alloc_returns Suc.prems(1) by blast
  note ok1 = alloc_ok [OF Suc.prems(1) a]
  show ?case
  proof (cases r)
    case None
    with a Suc.prems ok1 alloc_full show ?thesis by auto
  next
    case (Some f)
    with a Suc.prems obtain gs where gs: "alloc_many n s1 = Some (s', gs)" "fs = f # gs"
      by (auto split: bind_splits)
    from Suc.IH [OF ok1 gs(1)] alloc_fresh [OF Suc.prems(1)] a Some gs(2) show ?thesis by (auto split: if_splits)
  qed
qed

lemma free_all_used: "ok s \<Longrightarrow> ok (fold (\<lambda>f s. free s f) fs s) \<and>
    used (fold (\<lambda>f s. free s f) fs s) = (\<lambda>f. used s f \<and> f \<notin> set fs)"
  by (induction fs arbitrary: s) (auto simp: free_ok free_frame)

lemma alloc_many_free_all:
  assumes "ok s" and "alloc_many n s = Some (s', fs)"
  shows "used (fold (\<lambda>f s. free s f) fs s') = used s"
  using alloc_many_fresh [OF assms] free_all_used [of s' fs] by auto

end

lemma pmm_alloc_free_eq:
  "\<not> pmm_alloc_mutex st \<Longrightarrow> pmm_alloc_free st sz =
     Some (case pmm_first_free (st\<lparr>pmm_alloc_mutex := True\<rparr>) sz of
         None \<Rightarrow> st
       | Some f \<Rightarrow> (fold (\<lambda>i st. fst (pmm_alloc st (f + i))) [0..<sz] (st\<lparr>pmm_alloc_mutex := True\<rparr>))
           \<lparr>pmm_alloc_mutex := False\<rparr>,
       pmm_first_free (st\<lparr>pmm_alloc_mutex := True\<rparr>) sz)"
  by (simp add: pmm_alloc_free_def mutex_release_def Let_def split: option.split)

lemma pmm_used_mutex [simp]: "pmm_used (st\<lparr>pmm_alloc_mutex := l\<rparr>) = pmm_used st"
  by (simp add: pmm_used_def fun_eq_iff)

lemma pmm_first_free_sound:
  "pmm_first_free st sz = Some f \<Longrightarrow> f < pmm_frames st \<and> (\<forall>i < sz. \<not> pmm_used st (f + i))"
  unfolding pmm_first_free_def using pmm_first_free_loop_sound by blast

lemma pmm_alloc_free_frame:
  assumes "\<not> pmm_alloc_mutex st"
  shows "case pmm_alloc_free st 1 of
      None \<Rightarrow> False
    | Some (st', None) \<Rightarrow> st' = st \<and> (\<forall>f < pmm_frames st. pmm_used st f)
    | Some (st', Some f) \<Rightarrow> \<not> pmm_alloc_mutex st' \<and> pmm_frames st' = pmm_frames st \<and>
        f < pmm_frames st \<and> \<not> pmm_used st f \<and> (\<forall>g < f. pmm_used st g) \<and>
        pmm_used st' = (pmm_used st)(f := True)"
proof -
  let ?i = "find_idx (\<lambda>f. \<not> pmm_used st f) [0..<pmm_frames st]"
  have first: "pmm_first_free (st\<lparr>pmm_alloc_mutex := True\<rparr>) 1 = (if ?i < pmm_frames st then Some ?i else None)"
    by (simp add: pmm_first_free_def pmm_first_free_loop_one Let_def del: One_nat_def)
  show ?thesis
  proof (cases "?i < pmm_frames st")
    case True
    then have sat: "\<not> pmm_used st ([0..<pmm_frames st] ! ?i)"
      using find_idx_sat [of "\<lambda>f. \<not> pmm_used st f" "[0..<pmm_frames st]"] by simp
    have before: "pmm_used st g" if "g < ?i" for g
      using that True find_idx_before [of g "\<lambda>f. \<not> pmm_used st f" "[0..<pmm_frames st]"] by simp
    have run: "pmm_alloc_free st 1 =
        Some ((fst (pmm_alloc (st\<lparr>pmm_alloc_mutex := True\<rparr>) ?i))\<lparr>pmm_alloc_mutex := False\<rparr>, Some ?i)"
      using True by (simp only: pmm_alloc_free_eq [OF assms] first) simp
    show ?thesis
      unfolding run using True sat before by (simp add: fun_eq_iff)
  next
    case False
    then have "\<forall>f < pmm_frames st. pmm_used st f"
      using find_idx_lt_iff [of "\<lambda>f. \<not> pmm_used st f" "[0..<pmm_frames st]"] by auto
    with False show ?thesis by (simp only: pmm_alloc_free_eq [OF assms] first) simp
  qed
qed

interpretation kpmm: frame_allocator "\<lambda>st. pmm_alloc_free st 1" pmm_free pmm_used "\<lambda>st. \<not> pmm_alloc_mutex st"
proof
  fix s s' :: pmm and r f
  assume ok: "\<not> pmm_alloc_mutex s"
  note frame = pmm_alloc_free_frame [OF ok]
  show "\<exists>s' r. pmm_alloc_free s 1 = Some (s', r)"
    using frame by (auto split: option.splits)
  show "\<not> pmm_alloc_mutex s'" if "pmm_alloc_free s 1 = Some (s', r)"
    using frame that ok by (auto split: option.splits)
  show "\<not> pmm_used s f \<and> pmm_used s' = (pmm_used s)(f := True)" if "pmm_alloc_free s 1 = Some (s', Some f)"
    using frame that by auto
  show "pmm_used s' = pmm_used s" if "pmm_alloc_free s 1 = Some (s', None)"
    using frame that by auto
  show "\<not> pmm_alloc_mutex (pmm_free s f)" using ok by simp
  show "pmm_used (pmm_free s f) = (pmm_used s)(f := False)" by (simp add: fun_eq_iff)
qed

section \<open>Properties\<close>

text \<open>
  C6: \<open>pmm_alloc_free(sz)\<close> with the mutex free returns and leaves it free; if it returns a frame
  \<open>f\<close>, the \<open>sz\<close> frames from \<open>f\<close> on were all free and are now exactly the newly used ones;
  if it fails, nothing has changed. (The run may extend past \<open>pmm_frames\<close>; only its first frame is
  known to be below it.)
\<close>

theorem pmm_alloc_free_run:
  assumes "\<not> pmm_alloc_mutex st"
  shows "\<exists>st' r. pmm_alloc_free st sz = Some (st', r) \<and> \<not> pmm_alloc_mutex st' \<and>
    (case r of
       None \<Rightarrow> st' = st
     | Some f \<Rightarrow> f < pmm_frames st \<and> (\<forall>i < sz. \<not> pmm_used st (f + i)) \<and>
         (\<forall>g. pmm_used st' g \<longleftrightarrow> pmm_used st g \<or> g \<in> {f..<f + sz}))"
proof -
  let ?r = "pmm_first_free (st\<lparr>pmm_alloc_mutex := True\<rparr>) sz"
  have range: "(\<exists>i \<in> {0..<sz}. g = f + i) \<longleftrightarrow> g \<in> {f..<f + sz}" for f g :: nat
    by (auto intro: bexI [of _ "g - f"])
  show ?thesis
  proof (cases ?r)
    case None
    then show ?thesis using assms by (simp add: pmm_alloc_free_eq)
  next
    case (Some f)
    then show ?thesis
      using assms pmm_first_free_sound [OF Some] range
      by (simp add: pmm_alloc_free_eq pmm_alloc_all_used disj_commute)
  qed
qed

definition pmm_example :: pmm where
  "pmm_example = \<lparr>pmm_bitmap = (\<lambda>off. if off = 0 then 2 else - 1), pmm_frames = 64, pmm_alloc_mutex = False\<rparr>"

text \<open>Only frame 1 of the first 32 is in use: a run of two starts at frame 3, although 2 is free.\<close>

theorem pmm_alloc_free_run_witness:
  "\<exists>st'. pmm_alloc_free pmm_example 2 = Some (st', Some 3) \<and>
     (\<forall>g. pmm_used st' g \<longleftrightarrow> pmm_used pmm_example g \<or> g \<in> {3..<5})"
proof -
  have "map_option snd (pmm_alloc_free pmm_example 2) = Some (Some 3)" by code_simp
  with pmm_alloc_free_run [of pmm_example 2] show ?thesis
    by (auto simp: pmm_example_def)
qed

text \<open>
  a single frame is found whenever one is free, and it is the lowest: \<open>pmm_alloc_free(1)\<close> fails
  exactly when all frames are in use.
\<close>

lemma pmm_alloc_free_single:
  assumes "\<not> pmm_alloc_mutex st"
  shows "map_option snd (pmm_alloc_free st 1) =
    Some (if \<exists>f < pmm_frames st. \<not> pmm_used st f
          then Some (LEAST f. \<not> pmm_used st f) else None)"
proof -
  obtain st' r where call: "pmm_alloc_free st 1 = Some (st', r)"
    using pmm_alloc_free_frame [OF assms] by (auto split: option.splits)
  show ?thesis
  proof (cases r)
    case None
    with call pmm_alloc_free_frame [OF assms] show ?thesis by auto
  next
    case (Some f)
    with call pmm_alloc_free_frame [OF assms]
    have f: "f < pmm_frames st" "\<not> pmm_used st f" "\<forall>g < f. pmm_used st g" by auto
    then have "(LEAST f. \<not> pmm_used st f) = f"
      by (intro Least_equality) (use not_less in blast)+
    with f call Some show ?thesis by auto
  qed
qed

lemma pmm_alloc_free_single_witness:
  "map_option snd (pmm_alloc_free pmm_example 1) = Some (Some 0)"
proof -
  have "\<not> pmm_used pmm_example 0" by (simp add: pmm_used_def pmm_example_def)
  then have "(LEAST f. \<not> pmm_used pmm_example f) = 0" by (intro Least_equality) auto
  moreover have "\<exists>f < pmm_frames pmm_example. \<not> pmm_used pmm_example f"
    using \<open>\<not> pmm_used pmm_example 0\<close> by (intro exI [of _ 0]) (simp add: pmm_example_def)
  ultimately show ?thesis
    using pmm_alloc_free_single [of pmm_example] by (simp add: pmm_example_def)
qed

text \<open>
  The scan for longer runs is not complete: it resumes two frames after the one that made a run
  fail, so with frames 0, 2 and 3 free and all others in use a run of two is not found.
\<close>

lemma pmm_first_free_misses_run:
  "let st = \<lparr>pmm_bitmap = (\<lambda>off. if off = 0 then 0xFFFFFFF2 else - 1), pmm_frames = 64, pmm_alloc_mutex = False\<rparr>
   in pmm_first_free st 2 = None \<and> \<not> pmm_used st 2 \<and> \<not> pmm_used st 3"
  by code_simp

lemma pmm_init_entry_used:
  "pmm_used (pmm_init_entry pre_start e st) f \<longleftrightarrow> pmm_used st f \<and>
     \<not> (addr_h e = 0 \<and> len_h e = 0 \<and> mmap_type e = 1 \<and> unat (drop_bit 12 pre_start) \<le> f \<and>
        f \<in> {unat (drop_bit 12 (addr_l e))..<unat (drop_bit 12 (addr_l e + len_l e))})"
proof -
  have "pmm_used (fold (\<lambda>i st. if lo \<le> i then pmm_free st i else st) is st) f \<longleftrightarrow>
      pmm_used st f \<and> \<not> (lo \<le> f \<and> f \<in> set is)" for lo "is"
    by (induction "is" arbitrary: st) auto
  then show ?thesis by (auto simp: pmm_init_entry_def Let_def)
qed

lemma pmm_init_entries_used:
  "pmm_used (fold (pmm_init_entry pre_start) es st) f \<longleftrightarrow> pmm_used st f \<and>
     (\<forall>e \<in> set es. \<not> (addr_h e = 0 \<and> len_h e = 0 \<and> mmap_type e = 1 \<and> unat (drop_bit 12 pre_start) \<le> f \<and>
        f \<in> {unat (drop_bit 12 (addr_l e))..<unat (drop_bit 12 (addr_l e + len_l e))}))"
  by (induction es arbitrary: st) (auto simp: pmm_init_entry_used)

text \<open>
  after \<open>pmm_init\<close> a frame is in use exactly if it is a frame of the kernel image, or was in use
  and is in no available region of the memory map at or above the kernel's first frame (the upper
  end of a region being computed in 32 bits).
\<close>

lemma pmm_init_used:
  "pmm_used (pmm_init pre_start kernel_end (Some es) st) f \<longleftrightarrow>
     f \<in> {unat (drop_bit 12 pre_start)..<unat (drop_bit 12 (kernel_end - 0xC0000000))} \<or>
     pmm_used st f \<and>
       filter (\<lambda>e. addr_h e = 0 \<and> len_h e = 0 \<and> mmap_type e = 1 \<and> unat (drop_bit 12 pre_start) \<le> f \<and>
         f \<in> {unat (drop_bit 12 (addr_l e))..<unat (drop_bit 12 (addr_l e + len_l e))}) es = []"
proof -
  let ?st = "fold (pmm_init_entry pre_start) es st"
  let ?kernel = "[unat (drop_bit 12 pre_start)..<unat (drop_bit 12 (kernel_end - 0xC0000000))]"
  have "pmm_init pre_start kernel_end (Some es) st = fold (\<lambda>i st. fst (pmm_alloc st (0 + i))) ?kernel ?st"
    by (simp add: pmm_init_def)
  then show ?thesis
    by (simp only: pmm_alloc_all_used pmm_init_entries_used filter_empty_conv) auto
qed

end
