(* ===== verification/Paging.thy ===== *)
theory Paging
  imports Pmm
begin

text \<open>
  \<^verbatim>\<open>arch/x86cpu/vmm.c\<close>: the i386 page directories and page tables. An address space (\<open>void* vmm\<close>)
  is the physical address of its page directory; a page table is reached through the recursive
  mapping when the address space is the current one, and through a window mapped with
  \<open>vmm_alloc_map\<close> otherwise. Either way the code reads and writes the physical frame that holds the
  table, and that is what the model does: \<open>vm_phys\<close> gives the 1024 words of every frame. Whether a
  window could be mapped is an answer taken from \<open>vm_win\<close> (all windows succeed once the list is
  empty); the window itself, placed at an unused address and removed afterwards, is not represented.
  The operands of \<open>invlpg\<close> are recorded in \<open>vm_invlpg\<close>. \<open>None\<close> is a call that does not return:
  the frame allocator's mutex is taken, or a page table pointer is NULL.
\<close>

datatype trap_type = VMM_TRAP_NONE | VMM_TRAP_COW

text \<open>A trap's \<open>info\<close> points to another entry of the table; the pointer is its index.\<close>

record trap =
  tr_type :: trap_type
  tr_vmm :: u32
  tr_vaddr :: u32
  tr_info :: nat

record vm =
  vm_phys :: "nat \<Rightarrow> nat \<Rightarrow> u32"
  vm_pmm :: pmm
  vmm_current :: u32
  vmm_kernel :: u32
  kernel_start :: u32
  vm_kproc :: "u32 option" \<comment> \<open>\<open>proc->vmm\<close> of the kernel task's process, once \<open>task_kernel\<close> is set\<close>
  vm_invlpg :: "u32 list"
  vm_win :: "bool list" \<comment> \<open>answers of the next window mappings\<close>
  vm_heap :: "bool list" \<comment> \<open>answers of the next \<open>krealloc\<close> calls\<close>
  vmm_traps :: "trap list"
  vmm_traps_mutex :: mutex
  vmm_frstage :: "u32 list"
  vmm_frstage_mutex :: mutex

abbreviation rmap_start :: u32 where "rmap_start \<equiv> 0xBFC00000"
abbreviation rmap_end :: u32 where "rmap_end \<equiv> 0xC0000000"

definition vmm_pgsz_num :: nat where
  "vmm_pgsz_num = 2"

definition vmm_pgsz :: "nat \<Rightarrow> u32" where
  "vmm_pgsz idx = (if idx = 0 then 4096 else if idx = 1 then 4194304 else 0)"

section \<open>Entries\<close>

text \<open>
  The bit fields of \<open>vmm_pde_t\<close> and \<open>vmm_pte_t\<close>: present 0, rw 1, user 2, wthru 3, ncache 4,
  accessed 5, dirty 6, pgsz 7 (directory entries), global 8, avail from 9 (three bits), the frame
  number in bits 12 to 31, for a 4M page bits 22 to 31 of the address in bits 22 to 31.
\<close>

definition put_bit :: "nat \<Rightarrow> bool \<Rightarrow> u32 \<Rightarrow> u32" where
  "put_bit n b w = (if b then set_bit n w else unset_bit n w)"

definition get_field :: "nat \<Rightarrow> nat \<Rightarrow> u32 \<Rightarrow> u32" where
  "get_field lo len w = take_bit len (drop_bit lo w)"

definition put_field :: "nat \<Rightarrow> nat \<Rightarrow> u32 \<Rightarrow> u32 \<Rightarrow> u32" where
  "put_field lo len v w = (w AND NOT (push_bit lo (mask len))) OR push_bit lo (take_bit len v)"

abbreviation "e_present w \<equiv> bit (w :: u32) 0"
abbreviation "e_rw w \<equiv> bit (w :: u32) 1"
abbreviation "e_user w \<equiv> bit (w :: u32) 2"
abbreviation "e_wthru w \<equiv> bit (w :: u32) 3"
abbreviation "e_ncache w \<equiv> bit (w :: u32) 4"
abbreviation "e_accessed w \<equiv> bit (w :: u32) 5"
abbreviation "e_dirty w \<equiv> bit (w :: u32) 6"
abbreviation "e_pgsz w \<equiv> bit (w :: u32) 7"
abbreviation "e_global w \<equiv> bit (w :: u32) 8"
abbreviation "e_trapped w \<equiv> bit (w :: u32) 9"

definition e_frame :: "u32 \<Rightarrow> nat" where
  "e_frame w = unat (drop_bit 12 w)"

text \<open>Page table indices of an address.\<close>

definition pde_of :: "u32 \<Rightarrow> nat" where
  "pde_of va = unat (drop_bit 22 va)"

definition pte_of :: "u32 \<Rightarrow> nat" where
  "pte_of va = unat (drop_bit 12 va AND 0x3ff)"

text \<open>\<open>VMM_FLAGS_PRESENT\<close> is bit 0 of the flags, then RW, USER, GLOBAL, CACHE, CACHE_WTHRU, TRAPPED.\<close>

abbreviation "fl_present f \<equiv> bit (f :: u32) 0"
abbreviation "fl_rw f \<equiv> bit (f :: u32) 1"
abbreviation "fl_user f \<equiv> bit (f :: u32) 2"
abbreviation "fl_global f \<equiv> bit (f :: u32) 3"
abbreviation "fl_cache f \<equiv> bit (f :: u32) 4"
abbreviation "fl_wthru f \<equiv> bit (f :: u32) 5"
abbreviation "fl_trapped f \<equiv> bit (f :: u32) 6"

text \<open>The assignments to the flag fields shared by the mapping routines and \<open>vmm_set_flags\<close>.\<close>

definition e_set_flags :: "u32 \<Rightarrow> u32 \<Rightarrow> u32" where
  "e_set_flags f w =
     put_bit 3 (fl_wthru f) (put_bit 4 (\<not> fl_cache f) (put_bit 8 (fl_global f)
       (put_bit 1 (fl_rw f) (put_bit 2 (fl_user f) (put_bit 0 (fl_present f) w)))))"

text \<open>\<open>avail = (flags & VMM_FLAGS_TRAPPED) ? VMM_AVAIL_TRAPPED : 0\<close>\<close>

definition e_set_trapped :: "u32 \<Rightarrow> u32 \<Rightarrow> u32" where
  "e_set_trapped f w = put_field 9 3 (if fl_trapped f then 1 else 0) w"

definition e_get_flags :: "u32 \<Rightarrow> u32" where
  "e_get_flags w =
     (if e_present w then 1 else 0) OR (if e_rw w then 2 else 0) OR (if e_user w then 4 else 0) OR
     (if e_global w then 8 else 0) OR
     (if \<not> e_ncache w then 16 OR (if e_wthru w then 32 else 0) else 0) OR
     (if e_trapped w then 64 else 0)"

section \<open>Access to the tables\<close>

definition vm_window :: "u32 \<Rightarrow> vm \<Rightarrow> bool \<times> vm" where
  "vm_window vmm st =
     (if vmm = vmm_current st then (True, st)
      else case vm_win st of [] \<Rightarrow> (True, st) | a # as \<Rightarrow> (a, st\<lparr>vm_win := as\<rparr>))"

definition vm_read :: "vm \<Rightarrow> nat \<Rightarrow> nat \<Rightarrow> u32" where
  "vm_read st frame i = vm_phys st frame i"

definition vm_write :: "nat \<Rightarrow> nat \<Rightarrow> u32 \<Rightarrow> vm \<Rightarrow> vm" where
  "vm_write frame i w st = st\<lparr>vm_phys := (vm_phys st)(frame := (vm_phys st frame)(i := w))\<rparr>"

definition pd_frame :: "u32 \<Rightarrow> nat" where
  "pd_frame vmm = unat (drop_bit 12 vmm)"

abbreviation vm_pde :: "vm \<Rightarrow> u32 \<Rightarrow> nat \<Rightarrow> u32" where
  "vm_pde st vmm i \<equiv> vm_read st (pd_frame vmm) i"

definition vm_flush :: "u32 list \<Rightarrow> vm \<Rightarrow> vm" where
  "vm_flush vas st = st\<lparr>vm_invlpg := vm_invlpg st @ vas\<rparr>"

text \<open>\<open>for(i = 0; i < 1024; i++, va += step) invlpg(va)\<close>\<close>

definition flush_range :: "u32 \<Rightarrow> u32 \<Rightarrow> u32 list" where
  "flush_range va step = map (\<lambda>i. va + of_nat i * step) [0..<1024]"

section \<open>Queries and updates of a mapped page\<close>

text \<open>
  The prologue these functions share: map the page directory, look at the entry, map the page table
  behind it. \<open>W_fail\<close> is the error return when a window cannot be mapped.
\<close>

datatype walk = W_fail | W_none | W_huge | W_small nat

definition vm_walk :: "u32 \<Rightarrow> u32 \<Rightarrow> vm \<Rightarrow> walk \<times> vm" where
  "vm_walk vmm va st =
     (let (ok, st) = vm_window vmm st
      in if \<not> ok then (W_fail, st)
         else let d = vm_pde st vmm (pde_of va)
              in if d = 0 then (W_none, st)
                 else if e_pgsz d then (W_huge, st)
                 else let (ok, st) = vm_window vmm st
                      in if ok then (W_small (e_frame d), st) else (W_fail, st))"

definition vmm_get_pgsz :: "u32 \<Rightarrow> u32 \<Rightarrow> vm \<Rightarrow> nat option \<times> vm" where
  "vmm_get_pgsz vmm va st =
     (let (w, st) = vm_walk vmm va st
      in (case w of
            W_fail \<Rightarrow> None
          | W_none \<Rightarrow> None
          | W_huge \<Rightarrow> Some 1
          | W_small pt \<Rightarrow> if vm_read st pt (pte_of va) \<noteq> 0 then Some 0 else None, st))"

definition vmm_get_paddr :: "u32 \<Rightarrow> u32 \<Rightarrow> vm \<Rightarrow> u32 \<times> vm" where
  "vmm_get_paddr vmm va st =
     (let (w, st) = vm_walk vmm va st
      in (case w of
            W_fail \<Rightarrow> 0
          | W_none \<Rightarrow> 0
          | W_huge \<Rightarrow> push_bit 22 (get_field 22 10 (vm_pde st vmm (pde_of va))) OR (va AND 0x3FFFFF)
          | W_small pt \<Rightarrow>
              let e = vm_read st pt (pte_of va)
              in if e \<noteq> 0 then push_bit 12 (get_field 12 20 e) OR (va AND 0xFFF) else 0, st))"

definition vmm_set_paddr :: "u32 \<Rightarrow> u32 \<Rightarrow> u32 \<Rightarrow> vm \<Rightarrow> vm" where
  "vmm_set_paddr vmm va pa st =
     (let (w, st) = vm_walk vmm va st; d = vm_pde st vmm (pde_of va)
      in case w of
           W_fail \<Rightarrow> st
         | W_none \<Rightarrow> st
         | W_huge \<Rightarrow>
             let d' = put_field 22 10 (drop_bit 22 pa) d;
                 st = vm_write (pd_frame vmm) (pde_of va) d' st
             in if vmm = vmm_current st \<or> e_global d' then vm_flush (flush_range (va AND 0xFFC00000) 4096) st
                else st
         | W_small pt \<Rightarrow>
             let e = vm_read st pt (pte_of va)
             in if e \<noteq> 0 then
                  let e' = put_field 12 20 (drop_bit 12 pa) e;
                      st = vm_write pt (pte_of va) e' st
                  in if vmm = vmm_current st \<or> e_global e' then vm_flush [va AND NOT 0xFFF] st else st
                else st)"

definition vmm_get_flags :: "u32 \<Rightarrow> u32 \<Rightarrow> vm \<Rightarrow> u32 \<times> vm" where
  "vmm_get_flags vmm va st =
     (let (w, st) = vm_walk vmm va st
      in (case w of
            W_fail \<Rightarrow> 0
          | W_none \<Rightarrow> 0
          | W_huge \<Rightarrow> e_get_flags (vm_pde st vmm (pde_of va))
          | W_small pt \<Rightarrow>
              let e = vm_read st pt (pte_of va) in if e \<noteq> 0 then e_get_flags e else 0, st))"

text \<open>
  For a small page the last assignment is \<open>pt[pde].entry.avail = ...\<close>: the trap mark goes to the
  entry numbered by the directory index.
\<close>

definition vmm_set_flags :: "u32 \<Rightarrow> u32 \<Rightarrow> u32 \<Rightarrow> vm \<Rightarrow> vm" where
  "vmm_set_flags vmm va flags st =
     (let (w, st) = vm_walk vmm va st; d = vm_pde st vmm (pde_of va);
          inval = (vmm = vmm_current st \<or> fl_global flags)
      in case w of
           W_fail \<Rightarrow> st
         | W_none \<Rightarrow> st
         | W_huge \<Rightarrow>
             let st = vm_write (pd_frame vmm) (pde_of va) (e_set_trapped flags (e_set_flags flags d)) st
             in if inval \<or> e_global d then vm_flush (flush_range (va AND 0xFFC00000) 4096) st else st
         | W_small pt \<Rightarrow>
             let e = vm_read st pt (pte_of va)
             in if e \<noteq> 0 then
                  let st = vm_write pt (pte_of va) (e_set_flags flags e) st;
                      st = vm_write pt (pde_of va) (e_set_trapped flags (vm_read st pt (pde_of va))) st
                  in if inval \<or> e_global e then vm_flush [va] st else st
                else st)"

definition vmm_get_dirty :: "u32 \<Rightarrow> u32 \<Rightarrow> vm \<Rightarrow> bool \<times> vm" where
  "vmm_get_dirty vmm va st =
     (let (w, st) = vm_walk vmm va st
      in (case w of
            W_fail \<Rightarrow> True
          | W_none \<Rightarrow> False
          | W_huge \<Rightarrow> e_dirty (vm_pde st vmm (pde_of va))
          | W_small pt \<Rightarrow> e_dirty (vm_read st pt (pte_of va)), st))"

definition vmm_set_dirty :: "u32 \<Rightarrow> u32 \<Rightarrow> bool \<Rightarrow> vm \<Rightarrow> vm" where
  "vmm_set_dirty vmm va dirty st =
     (let (w, st) = vm_walk vmm va st
      in case w of
           W_fail \<Rightarrow> st
         | W_none \<Rightarrow> st
         | W_huge \<Rightarrow> vm_write (pd_frame vmm) (pde_of va) (put_bit 6 dirty (vm_pde st vmm (pde_of va))) st
         | W_small pt \<Rightarrow>
             let e = vm_read st pt (pte_of va)
             in if e \<noteq> 0 then vm_write pt (pte_of va) (put_bit 6 dirty e) st else st)"

definition vmm_switch :: "u32 \<Rightarrow> vm \<Rightarrow> vm" where
  "vmm_switch vmm st = (if vmm_current st = vmm then st else st\<lparr>vmm_current := vmm\<rparr>)"

section \<open>Mapping\<close>

text \<open>
  Propagation of a new kernel entry. The window for the other directory is mapped in the current
  address space. The loop over the ring of tasks tests \<open>proc\<close>, which is computed once, from
  \<open>task_kernel\<close>; all its turns write the same entry of the same directory.
\<close>

definition vm_propagate :: "u32 \<Rightarrow> u32 \<Rightarrow> u32 \<Rightarrow> vm \<Rightarrow> vm" where
  "vm_propagate vmm va entry st =
     (case vm_kproc st of
        None \<Rightarrow> st
      | Some v \<Rightarrow>
          if kernel_start st \<le> va then
            case vm_win st of
              [] \<Rightarrow> if v \<noteq> vmm then vm_write (pd_frame v) (pde_of va) entry st else st
            | a # as \<Rightarrow>
                let st = st\<lparr>vm_win := as\<rparr>
                in if a \<and> v \<noteq> vmm then vm_write (pd_frame v) (pde_of va) entry st else st
          else st)"

text \<open>Entry \<open>i\<close> of the table that replaces a 4M page.\<close>

definition split_pte :: "u32 \<Rightarrow> nat \<Rightarrow> u32 \<Rightarrow> u32" where
  "split_pte pde i e =
     put_field 12 20 (push_bit 10 (get_field 22 10 pde) + of_nat i)
       (put_field 9 3 (get_field 9 3 pde)
         (put_bit 6 (e_dirty pde) (put_bit 5 (e_accessed pde) (put_bit 3 (e_wthru pde)
           (put_bit 4 (e_ncache pde) (put_bit 8 (e_global pde) (put_bit 1 (e_rw pde)
             (put_bit 2 (e_user pde) (put_bit 0 (e_present pde) e)))))))))"

definition vm_split :: "nat \<Rightarrow> u32 \<Rightarrow> nat \<Rightarrow> vm \<Rightarrow> vm" where
  "vm_split pt pde pte st =
     fold (\<lambda>i st. if i \<noteq> pte then vm_write pt i (split_pte pde i (vm_read st pt i)) st else st) [0..<1024] st"

text \<open>The new page table entry.\<close>

definition small_pte :: "u32 \<Rightarrow> u32 \<Rightarrow> u32 \<Rightarrow> u32" where
  "small_pte pa flags e =
     e_set_trapped flags (put_bit 6 False (put_bit 5 False
       (put_field 12 20 (drop_bit 12 pa) (e_set_flags flags e))))"

text \<open>From \<^verbatim>\<open>set settings in page directory entry\<close> to the end.\<close>

definition pgmap_small_entry :: "u32 \<Rightarrow> u32 \<Rightarrow> u32 \<Rightarrow> u32 \<Rightarrow> nat \<Rightarrow> bool \<Rightarrow> vm \<Rightarrow> vm" where
  "pgmap_small_entry vmm pa va flags pt inval st =
     (let d = vm_pde st vmm (pde_of va);
          d = put_bit 0 (e_present d \<or> fl_present flags) d;
          d = put_bit 1 (e_rw d \<or> fl_rw flags) d;
          d = put_bit 2 (e_user d \<or> fl_user flags) d;
          st = vm_write (pd_frame vmm) (pde_of va) d st;
          e = vm_read st pt (pte_of va);
          st = vm_write pt (pte_of va) (small_pte pa flags e) st
      in if inval \<or> e_global e \<or> fl_global flags then vm_flush [va] st else st)"

definition pgmap_small_new_pt :: "u32 \<Rightarrow> u32 \<Rightarrow> nat \<Rightarrow> vm \<Rightarrow> bool \<times> vm" where
  "pgmap_small_new_pt vmm va frame st =
     (let pde = pde_of va; orig = vm_pde st vmm pde; pse = (e_present orig \<and> e_pgsz orig);
          d = push_bit 12 (of_nat frame) OR 3;
          d = (if pse then put_bit 2 (e_user d \<or> e_user orig) d else d);
          st = vm_write (pd_frame vmm) pde d st;
          (ok, st) = vm_window vmm st
      in if \<not> ok then (False, st)
         else let st = (if vmm = vmm_current st then vm_flush [rmap_start + push_bit 12 (of_nat pde)] st else st);
                  st = st\<lparr>vm_phys := (vm_phys st)(frame := (\<lambda>_. 0))\<rparr>;
                  st = vm_propagate vmm va (vm_pde st vmm pde) st;
                  st = (if pse then vm_split frame orig (pte_of va) st else st)
              in (True, st))"

definition vmm_pgmap_small :: "u32 \<Rightarrow> u32 \<Rightarrow> u32 \<Rightarrow> u32 \<Rightarrow> vm \<Rightarrow> vm option" where
  "vmm_pgmap_small vmm pa va flags st =
     (let (ok, st) = vm_window vmm st; d = vm_pde st vmm (pde_of va)
      in if \<not> ok then Some st
         else if d \<noteq> 0 \<and> \<not> e_pgsz d then
           let (ok, st) = vm_window vmm st
           in if ok then Some (pgmap_small_entry vmm pa va flags (e_frame d) (vmm = vmm_current st) st)
              else Some st
         else
           do { (pmm, r) \<leftarrow> pmm_alloc_free (vm_pmm st) 1;
                frame \<leftarrow> r;
                let inval = (vmm = vmm_current st \<or> (e_present d \<and> e_pgsz d \<and> e_global d));
                let (ok, st) = pgmap_small_new_pt vmm va frame (st\<lparr>vm_pmm := pmm\<rparr>);
                Some (if ok then pgmap_small_entry vmm pa va flags frame inval st else st) })"

text \<open>
  The entry of a 4M page. The loop that invalidates the TLB afterwards advances by 1024 bytes per
  turn, so it covers the first megabyte of the page.
\<close>

definition huge_pde :: "u32 \<Rightarrow> u32 \<Rightarrow> u32" where
  "huge_pde pa flags =
     e_set_trapped flags (put_bit 6 False (put_bit 5 False
       (put_field 22 10 (drop_bit 22 pa) (e_set_flags flags (push_bit 7 1)))))"

definition vmm_pgmap_huge :: "u32 \<Rightarrow> u32 \<Rightarrow> u32 \<Rightarrow> u32 \<Rightarrow> vm \<Rightarrow> vm" where
  "vmm_pgmap_huge vmm pa va flags st =
     (let (ok, st) = vm_window vmm st
      in if \<not> ok then st
         else
           let pde = pde_of va; d = vm_pde st vmm pde; cur = (vmm = vmm_current st); old_pt = (d \<noteq> 0 \<and> \<not> e_pgsz d);
               st = (if old_pt then
                       let st = vm_write (pd_frame vmm) pde 0 (st\<lparr>vm_pmm := pmm_free (vm_pmm st) (e_frame d)\<rparr>)
                       in if cur then vm_flush [rmap_start + push_bit 12 (of_nat pde)] st else st
                     else st);
               inval = (cur \<or> e_global (vm_pde st vmm pde) \<or> fl_global flags);
               st = vm_write (pd_frame vmm) pde (huge_pde pa flags) st;
               st = vm_propagate vmm va (vm_pde st vmm pde) st
           in if inval then vm_flush (flush_range va 1024) st else st)"

definition vmm_pgmap :: "u32 \<Rightarrow> u32 \<Rightarrow> u32 \<Rightarrow> nat \<Rightarrow> u32 \<Rightarrow> vm \<Rightarrow> vm option" where
  "vmm_pgmap vmm pa va pgsz_idx flags st =
     (if rmap_start \<le> va \<and> va < rmap_end then Some st
      else if pgsz_idx = 0 then vmm_pgmap_small vmm pa va flags st
      else if pgsz_idx = 1 then Some (vmm_pgmap_huge vmm pa va flags st)
      else Some st)"

section \<open>Fields\<close>

lemma bit_put_bit [simp]: "n < 32 \<Longrightarrow> bit (put_bit n b w) m \<longleftrightarrow> (if m = n then b else bit w m)"
  by (auto simp: put_bit_def bit_simps)

lemma bit_put_field [simp]:
  "lo + len \<le> 32 \<Longrightarrow>
   bit (put_field lo len v w) m \<longleftrightarrow> (if lo \<le> m \<and> m < lo + len then bit v (m - lo) else bit w m)"
  by (auto simp: put_field_def bit_simps dest: bit_imp_le_length)

lemma bit_get_field [simp]: "bit (get_field lo len w) m \<longleftrightarrow> m < len \<and> bit w (lo + m)"
  by (auto simp: get_field_def bit_simps ac_simps)

lemma e_set_flags_bit:
  "bit (e_set_flags f w) m \<longleftrightarrow>
     (if m = 0 then fl_present f else if m = 1 then fl_rw f else if m = 2 then fl_user f
      else if m = 3 then fl_wthru f else if m = 4 then \<not> fl_cache f else if m = 8 then fl_global f
      else bit w m)"
  by (simp add: e_set_flags_def)

lemma e_set_trapped_bit:
  "bit (e_set_trapped f w) m \<longleftrightarrow> (if m = 9 then fl_trapped f else if m = 10 \<or> m = 11 then False else bit w m)"
proof -
  have "bit (1 :: u32) (m - 9) \<longleftrightarrow> m = 9" if "9 \<le> m" using that by (auto simp: bit_simps)
  then show ?thesis by (auto simp: e_set_trapped_def)
qed

lemma small_pte_bit:
  "m < 32 \<Longrightarrow> bit (small_pte pa flags e) m \<longleftrightarrow>
     (if 12 \<le> m then bit pa m else if m = 5 \<or> m = 6 then False
      else bit (e_set_trapped flags (e_set_flags flags e)) m)"
  by (auto simp: small_pte_def e_set_trapped_bit bit_simps)

text \<open>The flags read back after they were set, up to the write-through flag of an uncached page.\<close>

definition fl_normal :: "u32 \<Rightarrow> u32" where
  "fl_normal f = (if fl_cache f then f AND mask 7 else put_bit 5 False (f AND mask 7))"

lemma e_get_flags_bit:
  "bit (e_get_flags w) m \<longleftrightarrow>
     (m = 0 \<and> e_present w \<or> m = 1 \<and> e_rw w \<or> m = 2 \<and> e_user w \<or> m = 3 \<and> e_global w \<or>
      m = 4 \<and> \<not> e_ncache w \<or> m = 5 \<and> \<not> e_ncache w \<and> e_wthru w \<or> m = 6 \<and> e_trapped w)"
proof -
  have exp: "bit (2 ^ k :: u32) m \<longleftrightarrow> m = k" if "k < 32" for k
    using that by (auto simp: bit_exp_iff)
  have lit: "bit (1 :: u32) m \<longleftrightarrow> m = 0" "bit (2 :: u32) m \<longleftrightarrow> m = 1" "bit (4 :: u32) m \<longleftrightarrow> m = 2"
    "bit (8 :: u32) m \<longleftrightarrow> m = 3" "bit (16 :: u32) m \<longleftrightarrow> m = 4" "bit (32 :: u32) m \<longleftrightarrow> m = 5"
    "bit (64 :: u32) m \<longleftrightarrow> m = 6"
    using exp [of 0] exp [of 1] exp [of 2] exp [of 3] exp [of 4] exp [of 5] exp [of 6] by simp_all
  have opt: "bit (if b then x else 0) m \<longleftrightarrow> b \<and> bit x m" for b and x :: u32
    by simp
  show ?thesis
    unfolding e_get_flags_def bit_or_iff opt lit by blast
qed

section \<open>Address translation\<close>

text \<open>
  The walk over the tables in memory, without the plumbing of the windows: what the functions above
  compute when no window fails.
\<close>

definition huge_addr :: "u32 \<Rightarrow> u32 \<Rightarrow> u32" where
  "huge_addr d va = push_bit 22 (get_field 22 10 d) OR (va AND 0x3FFFFF)"

definition small_addr :: "u32 \<Rightarrow> u32 \<Rightarrow> u32" where
  "small_addr e va = push_bit 12 (get_field 12 20 e) OR (va AND 0xFFF)"

definition ptw :: "(nat \<Rightarrow> nat \<Rightarrow> u32) \<Rightarrow> nat \<Rightarrow> u32 \<Rightarrow> u32" where
  "ptw M pdf va =
     (let d = M pdf (pde_of va)
      in if d = 0 then 0
         else if e_pgsz d then huge_addr d va
         else let e = M (e_frame d) (pte_of va) in if e = 0 then 0 else small_addr e va)"

definition vm_direct :: "u32 \<Rightarrow> vm \<Rightarrow> bool" where
  "vm_direct vmm st \<longleftrightarrow> vmm = vmm_current st \<or> vm_win st = []"

lemma vm_window_direct [simp]: "vm_direct vmm st \<Longrightarrow> vm_window vmm st = (True, st)"
  by (auto simp: vm_direct_def vm_window_def)

lemma vm_walk_direct:
  "vm_direct vmm st \<Longrightarrow> vm_walk vmm va st =
     (let d = vm_phys st (pd_frame vmm) (pde_of va)
      in if d = 0 then W_none else if e_pgsz d then W_huge else W_small (e_frame d), st)"
  by (simp add: vm_walk_def vm_read_def Let_def)

lemma vmm_get_paddr_ptw:
  "vm_direct vmm st \<Longrightarrow> vmm_get_paddr vmm va st = (ptw (vm_phys st) (pd_frame vmm) va, st)"
  by (simp add: vmm_get_paddr_def vm_walk_def ptw_def vm_read_def huge_addr_def small_addr_def Let_def)

text \<open>
  A directory's page tables occupy frames of their own. Entry 767 is the recursive one.
\<close>

definition has_pt :: "(nat \<Rightarrow> nat \<Rightarrow> u32) \<Rightarrow> nat \<Rightarrow> nat \<Rightarrow> bool" where
  "has_pt M pdf i \<longleftrightarrow> i \<noteq> 767 \<and> M pdf i \<noteq> 0 \<and> \<not> e_pgsz (M pdf i)"

definition tables_wf :: "(nat \<Rightarrow> nat \<Rightarrow> u32) \<Rightarrow> nat \<Rightarrow> bool" where
  "tables_wf M pdf \<longleftrightarrow>
     (\<forall>i. has_pt M pdf i \<longrightarrow> e_frame (M pdf i) \<noteq> pdf \<and>
        (\<forall>j. has_pt M pdf j \<and> j \<noteq> i \<longrightarrow> e_frame (M pdf j) \<noteq> e_frame (M pdf i)))"

definition table_frame :: "(nat \<Rightarrow> nat \<Rightarrow> u32) \<Rightarrow> nat \<Rightarrow> nat \<Rightarrow> bool" where
  "table_frame M pdf f \<longleftrightarrow> f = pdf \<or> (\<exists>i. has_pt M pdf i \<and> f = e_frame (M pdf i))"

text \<open>Writing one entry of a table, and the directory entry above it, affects that page only.\<close>

lemma ptw_write_entry:
  assumes wf: "tables_wf M pdf" and pt: "has_pt M pdf i"
    and d': "d' \<noteq> 0" "\<not> e_pgsz d'" "e_frame d' = e_frame (M pdf i)"
    and M': "M' = (let M1 = M(pdf := (M pdf)(i := d'))
                   in M1(e_frame d' := (M1 (e_frame d'))(k := e)))"
    and va: "pde_of va \<noteq> 767"
  shows "ptw M' pdf va =
    (if pde_of va = i \<and> pte_of va = k then if e = 0 then 0 else small_addr e va else ptw M pdf va)"
proof -
  let ?f = "e_frame (M pdf i)"
  have f: "?f \<noteq> pdf" using wf pt by (auto simp: tables_wf_def)
  have dir: "M' pdf j = (if j = i then d' else M pdf j)" for j
    using f d'(3) by (simp add: M' Let_def)
  have tab: "M' ?f j = (if j = k then e else M ?f j)" for j
    using f d'(3) by (simp add: M' Let_def)
  have other: "M' g j = M g j" if "g \<noteq> pdf" "g \<noteq> ?f" for g j
    using that d'(3) by (simp add: M' Let_def)
  show ?thesis
  proof (cases "pde_of va = i")
    case True
    with pt d' show ?thesis by (auto simp: ptw_def dir tab has_pt_def Let_def)
  next
    case False
    have same: "M' (e_frame (M pdf (pde_of va))) j = M (e_frame (M pdf (pde_of va))) j"
      if "M pdf (pde_of va) \<noteq> 0" "\<not> e_pgsz (M pdf (pde_of va))" for j
    proof (rule other)
      have "has_pt M pdf (pde_of va)" using that va by (simp add: has_pt_def)
      with wf pt False show "e_frame (M pdf (pde_of va)) \<noteq> pdf" "e_frame (M pdf (pde_of va)) \<noteq> ?f"
        by (auto simp: tables_wf_def)
    qed
    with False show ?thesis by (simp add: ptw_def dir Let_def)
  qed
qed

text \<open>A new table in an unused frame, filled so that it stands for the 4M page it replaces.\<close>

lemma ptw_new_table:
  assumes wf: "tables_wf M pdf" and f: "\<not> table_frame M pdf f"
    and old: "M pdf i = 0 \<or> e_pgsz (M pdf i)"
    and d': "d' \<noteq> 0" "\<not> e_pgsz d'" "e_frame d' = f"
    and M': "M' = M(pdf := (M pdf)(i := d'), f := tab)"
    and va: "pde_of va \<noteq> 767"
    and tab: "pde_of va = i \<Longrightarrow> (if tab (pte_of va) = 0 then 0 else small_addr (tab (pte_of va)) va) = ptw M pdf va"
  shows "ptw M' pdf va = ptw M pdf va"
proof (cases "pde_of va = i")
  case True
  have "pdf \<noteq> f" using f by (auto simp: table_frame_def)
  with True d' have "ptw M' pdf va = (if tab (pte_of va) = 0 then 0 else small_addr (tab (pte_of va)) va)"
    by (simp add: ptw_def M' Let_def)
  with True tab show ?thesis by simp
next
  case False
  have "pdf \<noteq> f" using f by (auto simp: table_frame_def)
  moreover have "M' (e_frame (M pdf (pde_of va))) j = M (e_frame (M pdf (pde_of va))) j"
    if "M pdf (pde_of va) \<noteq> 0" "\<not> e_pgsz (M pdf (pde_of va))" for j
  proof -
    have "has_pt M pdf (pde_of va)" using that va by (simp add: has_pt_def)
    with wf f show ?thesis by (auto simp: M' tables_wf_def table_frame_def)
  qed
  ultimately show ?thesis using False by (simp add: ptw_def M' Let_def)
qed

lemma mask_literals: "(0x3FF :: u32) = mask 10" "(0xFFF :: u32) = mask 12" "(0x3FFFFF :: u32) = mask 22"
  by (simp_all add: mask_eq_exp_minus_1)

lemma bit_small_addr:
  "bit (small_addr e va) n \<longleftrightarrow> (if 12 \<le> n then bit e n else bit va n)"
  by (auto simp: small_addr_def mask_literals bit_simps dest: bit_imp_le_length)

lemma bit_huge_addr:
  "bit (huge_addr d va) n \<longleftrightarrow> (if 22 \<le> n then bit d n else bit va n)"
  by (auto simp: huge_addr_def mask_literals bit_simps dest: bit_imp_le_length)

lemma bit_split_frame:
  "bit (push_bit 10 (get_field 22 10 d) + of_nat (pte_of va)) m \<longleftrightarrow>
     (if m < 10 then bit va (m + 12) else m < 20 \<and> bit d (m + 12))"
proof -
  let ?lo = "drop_bit 12 va AND mask 10"
  have lo: "of_nat (pte_of va) = ?lo" by (simp add: pte_of_def mask_literals)
  have "push_bit 10 (get_field 22 10 d) AND ?lo = 0"
    by (rule bit_word_eqI) (auto simp: bit_simps)
  then have "push_bit 10 (get_field 22 10 d) + ?lo = push_bit 10 (get_field 22 10 d) OR ?lo"
    by (rule disjunctive_add_eq_or)
  then show ?thesis
    by (auto simp: lo bit_simps add.commute dest: bit_imp_le_length)
qed

lemma bit_split_pte:
  "bit (split_pte d (pte_of va) e) n \<longleftrightarrow>
     (if 22 \<le> n then n < 32 \<and> bit d n else if 12 \<le> n then bit va n
      else if n = 7 then bit e n else bit d n)"
proof -
  consider "n = 0" | "n = 1" | "n = 2" | "n = 3" | "n = 4" | "n = 5" | "n = 6" | "n = 7" | "n = 8" | "9 \<le> n"
    by linarith
  then show ?thesis
    by cases (auto simp: split_pte_def bit_split_frame le_imp_diff_is_add dest: bit_imp_le_length)
qed

lemma split_pte_addr: "small_addr (split_pte d (pte_of va) e) va = huge_addr d va"
  by (rule bit_word_eqI) (auto simp: bit_small_addr bit_huge_addr bit_split_pte)

lemma split_pte_nonzero: "e_present d \<Longrightarrow> split_pte d (pte_of va) e \<noteq> 0"
  using bit_split_pte [of d va e 0] by auto

lemma small_addr_small_pte: "small_addr (small_pte pa flags e) va = (pa AND NOT 0xFFF) OR (va AND 0xFFF)"
  by (rule bit_word_eqI) (auto simp: bit_small_addr small_pte_bit mask_literals bit_simps)

lemma small_pte_nonzero:
  assumes "fl_present flags"
  shows "small_pte pa flags e \<noteq> 0"
proof -
  have "bit (small_pte pa flags e) 0"
    using assms by (simp add: small_pte_bit e_set_trapped_bit e_set_flags_bit)
  then show ?thesis by auto
qed

lemma e_frame_put_bit: "n < 12 \<Longrightarrow> e_frame (put_bit n b w) = e_frame w"
proof -
  assume "n < 12"
  then have "drop_bit 12 (put_bit n b w) = drop_bit 12 w"
    by (intro bit_word_eqI) (simp add: bit_simps)
  then show ?thesis by (simp add: e_frame_def)
qed

lemma nonzero_bitI: "bit w n \<Longrightarrow> w \<noteq> 0" for w :: u32
  by auto

text \<open>Two addresses are in the same 4K page exactly if both table indices agree.\<close>

lemma pde_of_less [simp]: "pde_of va < 1024"
  unfolding pde_of_def unsigned_drop_bit_eq
  using take_bit_nat_less_exp [of 32 "unat va"] by (simp add: drop_bit_eq_div less_mult_imp_div_less)

lemma pde_of_div: "pde_of va = unat va div 2 ^ 22"
  by (simp add: pde_of_def drop_bit_eq_div unat_div)

lemma pte_of_less [simp]: "pte_of va < 1024"
proof -
  have "drop_bit 12 va AND 0x3FF \<le> 0x3FF" by (rule word_and_le1)
  then show ?thesis by (simp add: pte_of_def word_le_nat_alt)
qed

lemma same_page_iff: "pde_of va = pde_of vb \<and> pte_of va = pte_of vb \<longleftrightarrow> drop_bit 12 va = drop_bit 12 vb"
proof
  assume "pde_of va = pde_of vb \<and> pte_of va = pte_of vb"
  then have eqs: "drop_bit 22 va = drop_bit 22 vb" "drop_bit 12 va AND 0x3ff = drop_bit 12 vb AND 0x3ff"
    by (simp_all add: pde_of_def pte_of_def word_unat_eq_iff)
  show "drop_bit 12 va = drop_bit 12 vb"
  proof (rule bit_word_eqI)
    fix n
    show "bit (drop_bit 12 va) n = bit (drop_bit 12 vb) n"
    proof (cases "n < 10")
      case True
      then show ?thesis
        using arg_cong [OF eqs(2), of "\<lambda>w. bit w n"] by (simp add: mask_literals bit_simps)
    next
      case False
      then show ?thesis
        using arg_cong [OF eqs(1), of "\<lambda>w. bit w (n - 10)"] by (simp add: bit_simps)
    qed
  qed
next
  assume eq: "drop_bit 12 va = drop_bit 12 vb"
  have "drop_bit 22 w = drop_bit 10 (drop_bit 12 w)" for w :: u32 by simp
  with eq show "pde_of va = pde_of vb \<and> pte_of va = pte_of vb"
    by (metis pde_of_def pte_of_def)
qed

section \<open>The effect of a mapping\<close>

definition vm_wf :: "u32 \<Rightarrow> vm \<Rightarrow> bool" where
  "vm_wf vmm st \<longleftrightarrow>
     tables_wf (vm_phys st) (pd_frame vmm) \<and> \<not> pmm_alloc_mutex (vm_pmm st) \<and>
     (\<forall>f. table_frame (vm_phys st) (pd_frame vmm) f \<longrightarrow> pmm_used (vm_pmm st) f) \<and>
     pmm_frames (vm_pmm st) \<le> 2 ^ 20"

text \<open>The address is not one whose new directory entry is copied to another address space.\<close>

definition vm_private :: "vm \<Rightarrow> u32 \<Rightarrow> bool" where
  "vm_private st va \<longleftrightarrow> vm_kproc st = None \<or> va < kernel_start st"

lemma vm_propagate_private [simp]: "vm_private st va \<Longrightarrow> vm_propagate vmm va w st = st"
  by (auto simp: vm_private_def vm_propagate_def not_le [symmetric] split: option.splits)

lemma vm_flush_fields [simp]:
  "vm_phys (vm_flush vas st) = vm_phys st" "vm_pmm (vm_flush vas st) = vm_pmm st"
  "vmm_current (vm_flush vas st) = vmm_current st" "vm_win (vm_flush vas st) = vm_win st"
  "vm_kproc (vm_flush vas st) = vm_kproc st" "kernel_start (vm_flush vas st) = kernel_start st"
  by (simp_all add: vm_flush_def)

lemma vm_write_fields [simp]:
  "vm_phys (vm_write f i w st) = (vm_phys st)(f := (vm_phys st f)(i := w))"
  "vm_pmm (vm_write f i w st) = vm_pmm st" "vmm_current (vm_write f i w st) = vmm_current st"
  "vm_win (vm_write f i w st) = vm_win st" "vm_kproc (vm_write f i w st) = vm_kproc st"
  "kernel_start (vm_write f i w st) = kernel_start st"
  by (simp_all add: vm_write_def)

lemma vm_direct_write [simp]:
  "vm_direct vmm (vm_write f i w st) = vm_direct vmm st" "vm_direct vmm (vm_flush vas st) = vm_direct vmm st"
  by (simp_all add: vm_direct_def)

lemma vm_split_phys:
  "vm_phys (vm_split pt d pte st) = (vm_phys st)(pt := (\<lambda>i.
     if i < 1024 \<and> i \<noteq> pte then split_pte d i (vm_phys st pt i) else vm_phys st pt i))"
proof -
  have "vm_phys (fold (\<lambda>i st. if i \<noteq> pte then vm_write pt i (split_pte d i (vm_read st pt i)) st else st) [0..<n] st) =
      (vm_phys st)(pt := (\<lambda>i. if i < n \<and> i \<noteq> pte then split_pte d i (vm_phys st pt i) else vm_phys st pt i))" for n
    by (induction n) (auto simp: vm_read_def fun_eq_iff less_Suc_eq)
  then show ?thesis by (simp add: vm_split_def)
qed

lemma vm_split_fields [simp]:
  "vm_pmm (vm_split pt d pte st) = vm_pmm st" "vmm_current (vm_split pt d pte st) = vmm_current st"
  "vm_win (vm_split pt d pte st) = vm_win st"
proof -
  have "vm_pmm (fold (\<lambda>i st. if i \<noteq> pte then vm_write pt i (split_pte d i (vm_read st pt i)) st else st) is st) = vm_pmm st \<and>
    vmm_current (fold (\<lambda>i st. if i \<noteq> pte then vm_write pt i (split_pte d i (vm_read st pt i)) st else st) is st) = vmm_current st \<and>
    vm_win (fold (\<lambda>i st. if i \<noteq> pte then vm_write pt i (split_pte d i (vm_read st pt i)) st else st) is st) = vm_win st" for "is"
    by (induction "is" arbitrary: st) auto
  then show "vm_pmm (vm_split pt d pte st) = vm_pmm st" "vmm_current (vm_split pt d pte st) = vmm_current st"
    "vm_win (vm_split pt d pte st) = vm_win st" by (simp_all add: vm_split_def)
qed

lemma pgmap_small_entry_phys:
  "vm_phys (pgmap_small_entry vmm pa va flags pt inval st) =
     (let d = vm_phys st (pd_frame vmm) (pde_of va);
          d = put_bit 2 (e_user d \<or> fl_user flags) (put_bit 1 (e_rw d \<or> fl_rw flags)
                (put_bit 0 (e_present d \<or> fl_present flags) d));
          M = (vm_phys st)(pd_frame vmm := (vm_phys st (pd_frame vmm))(pde_of va := d))
      in M(pt := (M pt)(pte_of va := small_pte pa flags (M pt (pte_of va)))))"
  by (simp add: pgmap_small_entry_def vm_read_def Let_def)

lemma ptw_pgmap_small_entry:
  assumes wf: "tables_wf (vm_phys st) (pd_frame vmm)"
    and pt: "has_pt (vm_phys st) (pd_frame vmm) (pde_of va)"
    and f: "f = e_frame (vm_phys st (pd_frame vmm) (pde_of va))"
    and present: "fl_present flags" and va': "pde_of va' \<noteq> 767"
  shows "ptw (vm_phys (pgmap_small_entry vmm pa va flags f inval st)) (pd_frame vmm) va' =
    (if drop_bit 12 va' = drop_bit 12 va then (pa AND NOT 0xFFF) OR (va' AND 0xFFF)
     else ptw (vm_phys st) (pd_frame vmm) va')"
proof -
  define d where "d = vm_phys st (pd_frame vmm) (pde_of va)"
  define d' where "d' = put_bit 2 (e_user d \<or> fl_user flags) (put_bit 1 (e_rw d \<or> fl_rw flags)
    (put_bit 0 (e_present d \<or> fl_present flags) d))"
  have "bit d' 0" using present by (simp add: d'_def)
  then have nz: "d' \<noteq> 0" by (rule nonzero_bitI)
  have small: "\<not> e_pgsz d'" using pt by (simp add: d'_def d_def has_pt_def)
  have frame: "e_frame d' = f" by (simp add: d'_def e_frame_put_bit f d_def)
  define e where "e = small_pte pa flags
    (((vm_phys st)(pd_frame vmm := (vm_phys st (pd_frame vmm))(pde_of va := d'))) f (pte_of va))"
  have M': "vm_phys (pgmap_small_entry vmm pa va flags f inval st) =
      (let M1 = (vm_phys st)(pd_frame vmm := (vm_phys st (pd_frame vmm))(pde_of va := d'))
       in M1(e_frame d' := (M1 (e_frame d'))(pte_of va := e)))"
    unfolding e_def frame pgmap_small_entry_phys Let_def d_def [symmetric] d'_def [symmetric] by (rule refl)
  show ?thesis
    using ptw_write_entry [OF wf pt nz small frame [unfolded f] M' va'] small_pte_nonzero [OF present]
      same_page_iff [of va' va]
    by (simp add: e_def small_addr_small_pte)
qed

lemma vm_direct_fields:
  "vmm_current st' = vmm_current st \<Longrightarrow> vm_win st' = vm_win st \<Longrightarrow> vm_direct vmm st' = vm_direct vmm st"
  by (simp add: vm_direct_def)

lemma of_nat_frame_bits: "f < 2 ^ 20 \<Longrightarrow> bit (of_nat f :: u32) n \<Longrightarrow> n < 20"
proof -
  assume f: "f < 2 ^ 20" and "bit (of_nat f :: u32) n"
  then have "bit f n" by (simp add: bit_of_nat_iff)
  then show "n < 20" using f by (metis bit_take_bit_iff take_bit_nat_eq_self)
qed

lemma pd_frame_push [simp]: "f < 2 ^ 20 \<Longrightarrow> pd_frame (push_bit 12 (of_nat f)) = f"
proof -
  assume f: "f < 2 ^ 20"
  have "drop_bit 12 (push_bit 12 (of_nat f) :: u32) = of_nat f"
    by (rule bit_word_eqI) (use of_nat_frame_bits [OF f] in \<open>auto simp: bit_simps dest: bit_imp_le_length\<close>)
  with f show "pd_frame (push_bit 12 (of_nat f)) = f" by (simp add: pd_frame_def unat_of_nat_u32)
qed

lemma push_bit_frame:
  assumes "f < 2 ^ 20"
  shows "e_frame (push_bit 12 (of_nat f) OR 3) = f" and "\<not> e_pgsz (push_bit 12 (of_nat f) OR 3)"
    and "e_present (push_bit 12 (of_nat f) OR 3)"
proof -
  have f: "unat (of_nat f :: u32) = f" using assms by (simp add: unat_of_nat_u32)
  note hi = of_nat_frame_bits [OF assms]
  have three: "(3 :: u32) = mask 2" by (simp add: mask_eq_exp_minus_1)
  have "drop_bit 12 (push_bit 12 (of_nat f) OR 3 :: u32) = of_nat f"
    by (rule bit_word_eqI) (use hi in \<open>auto simp: three bit_simps dest: bit_imp_le_length\<close>)
  then show "e_frame (push_bit 12 (of_nat f) OR 3) = f" by (simp add: e_frame_def f)
  show "\<not> e_pgsz (push_bit 12 (of_nat f) OR 3)" "e_present (push_bit 12 (of_nat f) OR 3)"
    by (simp_all add: three bit_simps)
qed

text \<open>The page table that is put in front of an unmapped region or of a 4M page.\<close>

lemma pgmap_small_new_pt_spec:
  assumes direct: "vm_direct vmm st" and priv: "vm_private st va"
    and wf: "tables_wf (vm_phys st) (pd_frame vmm)"
    and f: "\<not> table_frame (vm_phys st) (pd_frame vmm) f" "f < 2 ^ 20"
    and old: "vm_pde st vmm (pde_of va) = 0 \<or> e_pgsz (vm_pde st vmm (pde_of va)) \<and> e_present (vm_pde st vmm (pde_of va))"
    and va: "pde_of va \<noteq> 767"
    and new: "pgmap_small_new_pt vmm va f st = (ok, st')"
  shows "ok \<and> has_pt (vm_phys st') (pd_frame vmm) (pde_of va) \<and>
    e_frame (vm_phys st' (pd_frame vmm) (pde_of va)) = f \<and> tables_wf (vm_phys st') (pd_frame vmm) \<and>
    vmm_current st' = vmm_current st \<and> vm_win st' = vm_win st \<and>
    (\<forall>va'. pde_of va' \<noteq> 767 \<longrightarrow> drop_bit 12 va' \<noteq> drop_bit 12 va \<longrightarrow>
       ptw (vm_phys st') (pd_frame vmm) va' = ptw (vm_phys st) (pd_frame vmm) va')"
proof -
  let ?M = "vm_phys st" and ?pdf = "pd_frame vmm"
  define d where "d = ?M ?pdf (pde_of va)"
  define pse where "pse = (e_present d \<and> e_pgsz d)"
  define d' where "d' = (if pse then put_bit 2 (e_user (push_bit 12 (of_nat f) OR 3) \<or> e_user d) (push_bit 12 (of_nat f) OR 3)
    else push_bit 12 (of_nat f) OR 3)"
  define tab where "tab = (\<lambda>i. if pse \<and> i < 1024 \<and> i \<noteq> pte_of va then split_pte d i 0 else 0)"
  have d': "d' \<noteq> 0" "\<not> e_pgsz d'" "e_frame d' = f"
  proof -
    have "bit d' 0" using push_bit_frame [OF f(2)] by (simp add: d'_def)
    then show "d' \<noteq> 0" by (rule nonzero_bitI)
    show "\<not> e_pgsz d'" "e_frame d' = f"
      using push_bit_frame [OF f(2)] by (simp_all add: d'_def e_frame_put_bit)
  qed
  have pdf: "f \<noteq> ?pdf" using f(1) by (auto simp: table_frame_def)
  define st1 where "st1 = vm_write ?pdf (pde_of va) d' st"
  have dir: "vm_direct vmm st1" using direct by (simp add: st1_def vm_direct_def)
  define st2 where "st2 = (if vmm = vmm_current st1 then vm_flush [rmap_start + push_bit 12 (of_nat (pde_of va))] st1 else st1)"
  define st3 where "st3 = st2\<lparr>vm_phys := (vm_phys st2)(f := (\<lambda>_. 0))\<rparr>"
  have "vm_private st3 va"
    using priv by (simp add: vm_private_def st3_def st2_def st1_def)
  then have "pgmap_small_new_pt vmm va f st = (True, if pse then vm_split f d (pte_of va) st3 else st3)"
    unfolding pgmap_small_new_pt_def vm_read_def d_def [symmetric] Let_def pse_def [symmetric]
      d'_def [symmetric] st1_def [symmetric] vm_window_direct [OF dir] prod.case
      st2_def [symmetric] st3_def [symmetric]
    by simp
  then have ok: ok and st': "st' = (if pse then vm_split f d (pte_of va) st3 else st3)"
    using new by simp_all
  have cur: "vmm_current st' = vmm_current st" "vm_win st' = vm_win st"
    by (simp_all add: st' st3_def st2_def st1_def)
  have M': "vm_phys st' = ?M(?pdf := (?M ?pdf)(pde_of va := d'), f := tab)"
    by (auto simp: st' st3_def st2_def st1_def vm_split_phys tab_def fun_eq_iff)
  have dir_eq: "vm_phys st' ?pdf i = (if i = pde_of va then d' else ?M ?pdf i)" for i
    using pdf by (simp add: M')
  have pt': "has_pt (vm_phys st') ?pdf i \<longleftrightarrow> (if i = pde_of va then True else has_pt ?M ?pdf i)" for i
    using d' va by (auto simp: has_pt_def dir_eq)
  have "e_frame (?M ?pdf i) \<noteq> f" if "has_pt ?M ?pdf i" for i
    using that f(1) by (auto simp: table_frame_def)
  then have wf': "tables_wf (vm_phys st') ?pdf"
    using wf d'(3) pdf unfolding tables_wf_def pt' dir_eq by (auto; blast)
  have "ptw (vm_phys st') ?pdf va' = ptw ?M ?pdf va'"
    if va': "pde_of va' \<noteq> 767" "drop_bit 12 va' \<noteq> drop_bit 12 va" for va'
  proof (rule ptw_new_table [OF wf f(1) _ d' M' va'(1)])
    show "?M ?pdf (pde_of va) = 0 \<or> e_pgsz (?M ?pdf (pde_of va))"
      using old by (auto simp: vm_read_def)
    assume eq: "pde_of va' = pde_of va"
    with va'(2) have ne: "pte_of va' \<noteq> pte_of va" using same_page_iff [of va' va] by auto
    show "(if tab (pte_of va') = 0 then 0 else small_addr (tab (pte_of va')) va') = ptw ?M ?pdf va'"
    proof (cases pse)
      case True
      then have "d \<noteq> 0" by (auto simp: pse_def)
      with True ne eq show ?thesis
        using split_pte_nonzero [of d va' 0] by (simp add: tab_def ptw_def split_pte_addr pse_def d_def)
    next
      case False
      then have "d = 0" using old by (auto simp: pse_def d_def vm_read_def)
      with False eq show ?thesis by (simp add: tab_def ptw_def d_def)
    qed
  qed
  with ok cur wf' pt' d' dir_eq show ?thesis by auto
qed

lemma vm_phys_pmm [simp]: "vm_phys (st\<lparr>vm_pmm := p\<rparr>) = vm_phys st" "vm_read (st\<lparr>vm_pmm := p\<rparr>) = vm_read st"
  by (simp_all add: vm_read_def fun_eq_iff)

lemma pgmap_small_entry_fields [simp]:
  "vmm_current (pgmap_small_entry vmm pa va flags f inval st) = vmm_current st"
  "vm_win (pgmap_small_entry vmm pa va flags f inval st) = vm_win st"
  by (simp_all add: pgmap_small_entry_def Let_def)

lemma vmm_pgmap_small_ptw:
  assumes direct: "vm_direct vmm st" and wf: "vm_wf vmm st" and priv: "vm_private st va"
    and va: "pde_of va \<noteq> 767" and present: "fl_present flags"
    and huge: "e_pgsz (vm_pde st vmm (pde_of va)) \<Longrightarrow> e_present (vm_pde st vmm (pde_of va))"
    and mem: "g < pmm_frames (vm_pmm st)" "\<not> pmm_used (vm_pmm st) g"
  obtains st' where "vmm_pgmap_small vmm pa va flags st = Some st'" and "vm_direct vmm st'"
    and "\<And>va'. pde_of va' \<noteq> 767 \<Longrightarrow> ptw (vm_phys st') (pd_frame vmm) va' =
      (if drop_bit 12 va' = drop_bit 12 va then (pa AND NOT 0xFFF) OR (va' AND 0xFFF)
       else ptw (vm_phys st) (pd_frame vmm) va')"
proof (cases "has_pt (vm_phys st) (pd_frame vmm) (pde_of va)")
  case True
  let ?st' = "pgmap_small_entry vmm pa va flags (e_frame (vm_pde st vmm (pde_of va))) (vmm = vmm_current st) st"
  have wft: "tables_wf (vm_phys st) (pd_frame vmm)" using wf by (simp add: vm_wf_def)
  show thesis
  proof (rule that [of ?st'])
    show "vmm_pgmap_small vmm pa va flags st = Some ?st'"
      using True direct by (simp add: vmm_pgmap_small_def Let_def has_pt_def vm_read_def)
    show "vm_direct vmm ?st'" using direct by (simp add: vm_direct_def)
  qed (rule ptw_pgmap_small_entry [OF wft True _ present], simp_all add: vm_read_def)
next
  case False
  let ?d = "vm_pde st vmm (pde_of va)"
  have old: "?d = 0 \<or> e_pgsz ?d \<and> e_present ?d"
    using False va huge by (auto simp: has_pt_def vm_read_def)
  have unlocked: "\<not> pmm_alloc_mutex (vm_pmm st)" using wf by (simp add: vm_wf_def)
  obtain pmm f where alloc: "pmm_alloc_free (vm_pmm st) 1 = Some (pmm, Some f)"
    using pmm_alloc_free_frame [OF unlocked] mem by (auto split: option.splits prod.splits)
  then have f: "f < 2 ^ 20" "\<not> table_frame (vm_phys st) (pd_frame vmm) f"
    using pmm_alloc_free_frame [OF unlocked] wf by (auto simp: vm_wf_def)
  let ?st = "st\<lparr>vm_pmm := pmm\<rparr>"
  obtain ok st1 where new: "pgmap_small_new_pt vmm va f ?st = (ok, st1)" by fastforce
  have "vm_direct vmm ?st" "vm_private ?st va" "tables_wf (vm_phys ?st) (pd_frame vmm)"
    using direct priv wf by (simp_all add: vm_direct_def vm_private_def vm_wf_def)
  note spec = pgmap_small_new_pt_spec [OF this _ f(1) _ va new, simplified, OF f(2) old]
  let ?inval = "vmm = vmm_current st \<or> (e_present ?d \<and> e_pgsz ?d \<and> e_global ?d)"
  let ?st' = "pgmap_small_entry vmm pa va flags f ?inval st1"
  show thesis
  proof (rule that [of ?st'])
    show "vmm_pgmap_small vmm pa va flags st = Some ?st'"
      using direct old alloc new spec by (auto simp: vmm_pgmap_small_def Let_def)
    show "vm_direct vmm ?st'" using direct spec by (simp add: vm_direct_def)
    fix va'
    assume va': "pde_of va' \<noteq> 767"
    have "ptw (vm_phys ?st') (pd_frame vmm) va' =
      (if drop_bit 12 va' = drop_bit 12 va then (pa AND NOT 0xFFF) OR (va' AND 0xFFF)
       else ptw (vm_phys st1) (pd_frame vmm) va')"
      using spec by (intro ptw_pgmap_small_entry [OF _ _ _ present va']) simp_all
    with spec va' show "ptw (vm_phys ?st') (pd_frame vmm) va' =
      (if drop_bit 12 va' = drop_bit 12 va then (pa AND NOT 0xFFF) OR (va' AND 0xFFF)
       else ptw (vm_phys st) (pd_frame vmm) va')" by simp
  qed
qed

section \<open>Properties\<close>

text \<open>
  C7: \<open>vmm_pgmap\<close> of a 4K page with the present flag, when a frame is free for a page table,
  returns, and afterwards \<open>vmm_get_paddr\<close> gives the mapped frame for every address of the page and
  what it gave before for every other address; in particular a 4M page that has to be split is
  replaced by 4K pages that translate the same. The tables must be in frames of their own, the 4M
  page, if any, present, and the address not one whose directory entry is copied to other tasks.
\<close>

theorem vmm_pgmap_small_translation:
  assumes "vm_direct vmm st" and "vm_wf vmm st" and "vm_private st va"
    and "pde_of va \<noteq> 767" and "\<not> (rmap_start \<le> va \<and> va < rmap_end)" and "fl_present flags"
    and "e_pgsz (vm_pde st vmm (pde_of va)) \<longrightarrow> e_present (vm_pde st vmm (pde_of va))"
    and "g < pmm_frames (vm_pmm st)" and "\<not> pmm_used (vm_pmm st) g"
  shows "\<exists>st'. vmm_pgmap vmm pa va 0 flags st = Some st' \<and>
    (\<forall>va'. pde_of va' \<noteq> 767 \<longrightarrow>
       fst (vmm_get_paddr vmm va' st') =
         (if drop_bit 12 va' = drop_bit 12 va then (pa AND NOT 0xFFF) OR (va' AND 0xFFF)
          else fst (vmm_get_paddr vmm va' st)))"
proof -
  obtain st' where st': "vmm_pgmap_small vmm pa va flags st = Some st'" "vm_direct vmm st'"
    and ptw: "\<And>va'. pde_of va' \<noteq> 767 \<Longrightarrow> ptw (vm_phys st') (pd_frame vmm) va' =
      (if drop_bit 12 va' = drop_bit 12 va then (pa AND NOT 0xFFF) OR (va' AND 0xFFF)
       else ptw (vm_phys st) (pd_frame vmm) va')"
    using vmm_pgmap_small_ptw [OF assms(1-4,6) _ assms(8,9), of pa] assms(7) by blast
  have "vmm_pgmap vmm pa va 0 flags st = Some st'"
    using assms(5) st'(1) unfolding vmm_pgmap_def by (simp only: if_False simp_thms if_True)
  with ptw assms(1) st'(2) show ?thesis
    by (intro exI [of _ st']) (simp add: vmm_get_paddr_ptw)
qed

text \<open>An address space whose first 4M are one page at 4M, with frame 1 holding the directory.\<close>

definition vm_example :: vm where
  "vm_example = \<lparr>vm_phys = (\<lambda>f i. if f = 1 \<and> i = 0 then 0x400087 else 0),
     vm_pmm = \<lparr>pmm_bitmap = (\<lambda>_. 2), pmm_frames = 64, pmm_alloc_mutex = False\<rparr>,
     vmm_current = 0x1000, vmm_kernel = 0x1000, kernel_start = 0xBFC00000, vm_kproc = None,
     vm_invlpg = [], vm_win = [], vm_heap = [], vmm_traps = [], vmm_traps_mutex = False,
     vmm_frstage = [], vmm_frstage_mutex = False\<rparr>"

lemma vm_example_pd [simp]:
  "vm_phys vm_example (pd_frame 0x1000) i = (if i = 0 then 0x400087 else 0)"
  by (simp add: vm_example_def pd_frame_def)

lemma vm_example_wf: "vm_direct 0x1000 vm_example" "vm_wf 0x1000 vm_example"
proof -
  have "e_pgsz (0x400087 :: u32)" by simp
  then have pt: "\<not> has_pt (vm_phys vm_example) (pd_frame 0x1000) i" for i
    by (auto simp: has_pt_def)
  have "pmm_used (vm_pmm vm_example) (pd_frame 0x1000)"
    by (simp add: pmm_used_def vm_example_def pd_frame_def)
  with pt show "vm_wf 0x1000 vm_example"
    by (auto simp: vm_wf_def tables_wf_def table_frame_def) (simp_all add: vm_example_def)
qed (simp add: vm_direct_def vm_example_def)

theorem vmm_pgmap_small_translation_witness:
  "\<exists>st'. vmm_pgmap 0x1000 0x7000 0x3000 0 3 vm_example = Some st' \<and>
     fst (vmm_get_paddr 0x1000 0x3005 st') = 0x7005 \<and> fst (vmm_get_paddr 0x1000 0x5004 st') = 0x405004"
proof -
  have pde: "pde_of 0x3000 \<noteq> 767" "pde_of 0x3005 \<noteq> 767" "pde_of 0x5004 \<noteq> 767"
    by (simp_all add: pde_of_def)
  have old: "fst (vmm_get_paddr 0x1000 0x5004 vm_example) = 0x405004" by code_simp
  have "vm_private vm_example 0x3000" "0 < pmm_frames (vm_pmm vm_example)" "\<not> pmm_used (vm_pmm vm_example) 0"
    "e_pgsz (vm_pde vm_example 0x1000 (pde_of 0x3000)) \<longrightarrow> e_present (vm_pde vm_example 0x1000 (pde_of 0x3000))"
    by (simp_all add: vm_private_def vm_example_def pmm_used_def vm_read_def pd_frame_def pde_of_def)
  with vmm_pgmap_small_translation [OF vm_example_wf this(1) pde(1) _ _ this(4) this(2,3), where flags = 3 and pa = "0x7000"]
  obtain st' where "vmm_pgmap 0x1000 0x7000 0x3000 0 3 vm_example = Some st'"
    and paddr: "\<forall>va'. pde_of va' \<noteq> 767 \<longrightarrow> fst (vmm_get_paddr 0x1000 va' st') =
      (if drop_bit 12 va' = drop_bit 12 (0x3000 :: u32) then (0x7000 AND NOT 0xFFF) OR (va' AND 0xFFF)
       else fst (vmm_get_paddr 0x1000 va' vm_example))"
    by auto
  then show ?thesis
    using spec [OF paddr, of "0x3005"] spec [OF paddr, of "0x5004"] pde old by auto
qed

lemma fl_normal_bit: "bit (fl_normal f) m \<longleftrightarrow> bit f m \<and> m < 7 \<and> (m = 5 \<longrightarrow> fl_cache f)"
  by (auto simp: fl_normal_def bit_simps)

lemma e_get_set_flags: "e_get_flags (e_set_trapped f (e_set_flags f w)) = fl_normal f"
  by (rule bit_word_eqI)
     (auto simp: e_get_flags_bit e_set_trapped_bit e_set_flags_bit fl_normal_bit eval_nat_numeral less_Suc_eq)

text \<open>
  \<open>vmm_set_flags\<close> on a present 4M page is read back by \<open>vmm_get_flags\<close>: the seven flags, without
  write-through for an uncached page. On a 4K page the trap mark is not set, because
  \<open>pt[pde].entry.avail\<close> is assigned instead of \<open>pt[pte].entry.avail\<close>: the other flags are read back,
  the trap flag stays what it was (unless both indices happen to agree).
\<close>

lemma vmm_set_flags_read_back:
  assumes "vm_direct vmm st" and "vm_pde st vmm (pde_of va) = d" and "d \<noteq> 0" and "fl_present flags"
    and "\<not> e_pgsz d \<longrightarrow> e_frame d \<noteq> pd_frame vmm \<and> vm_read st (e_frame d) (pte_of va) = e \<and> e \<noteq> 0 \<and>
      pde_of va \<noteq> pte_of va"
  shows "fst (vmm_get_flags vmm va (vmm_set_flags vmm va flags st)) =
    (if e_pgsz d then fl_normal flags
     else put_bit 6 (e_trapped e) (fl_normal flags))"
proof -
  have d: "vm_phys st (pd_frame vmm) (pde_of va) = d" using assms(2) by (simp add: vm_read_def)
  show ?thesis
  proof (cases "e_pgsz d")
    case True
    let ?d' = "e_set_trapped flags (e_set_flags flags d)"
    let ?st' = "vm_write (pd_frame vmm) (pde_of va) ?d' st"
    have nz: "?d' \<noteq> 0" and pgsz: "e_pgsz ?d'"
      using assms(4) True nonzero_bitI [of ?d' 0] by (simp_all add: e_set_trapped_bit e_set_flags_bit)
    have "vmm_set_flags vmm va flags st =
        (if vmm = vmm_current st \<or> fl_global flags \<or> e_global d
         then vm_flush (flush_range (va AND 0xFFC00000) 4096) ?st' else ?st')"
      using True assms(1,3) d by (auto simp: vmm_set_flags_def vm_walk_direct Let_def vm_read_def)
    with True nz pgsz assms(1) show ?thesis
      by (auto simp: vmm_get_flags_def vm_walk_direct vm_read_def e_get_set_flags)
  next
    case False
    let ?f = "e_frame d" and ?e' = "e_set_flags flags e"
    let ?st1 = "vm_write ?f (pte_of va) ?e' st"
    let ?st' = "vm_write ?f (pde_of va) (e_set_trapped flags (vm_read ?st1 ?f (pde_of va))) ?st1"
    have f: "?f \<noteq> pd_frame vmm" "vm_phys st ?f (pte_of va) = e" "e \<noteq> 0" "pde_of va \<noteq> pte_of va"
      using False assms(5) by (simp_all add: vm_read_def)
    have nz: "?e' \<noteq> 0"
      using assms(4) nonzero_bitI [of ?e' 0] by (simp add: e_set_flags_bit)
    have "vmm_set_flags vmm va flags st =
        (if vmm = vmm_current st \<or> fl_global flags \<or> e_global e then vm_flush [va] ?st' else ?st')"
      using False assms(1,3) d f by (auto simp: vmm_set_flags_def vm_walk_direct Let_def vm_read_def)
    moreover have "e_get_flags ?e' = put_bit 6 (e_trapped e) (fl_normal flags)"
      by (rule bit_word_eqI)
         (auto simp: e_get_flags_bit e_set_flags_bit fl_normal_bit eval_nat_numeral less_Suc_eq)
    ultimately show ?thesis
      using False nz f d assms(1,3)
      by (auto simp: vmm_get_flags_def vm_walk_direct vm_read_def Let_def)
  qed
qed

text \<open>A 4K page at \<^verbatim>\<open>0x3000\<close>, set to present, writable and trapped, reads back without the trap flag.\<close>

lemma vmm_set_flags_read_back_witness:
  "\<exists>st. fst (vmm_get_flags 0x1000 0x3000 (vmm_set_flags 0x1000 0x3000 0x43 st)) = 3"
proof -
  let ?st = "vm_example\<lparr>vm_phys := (\<lambda>f i. if f = 1 \<and> i = 0 then 0x2003 else if f = 2 \<and> i = 3 then 0x7003 else 0)\<rparr>"
  have "vm_direct 0x1000 ?st" by (simp add: vm_direct_def vm_example_def)
  moreover have "vm_pde ?st 0x1000 (pde_of 0x3000) = 0x2003"
    by (simp add: vm_read_def pd_frame_def pde_of_def)
  moreover have "\<not> e_pgsz (0x2003 :: u32) \<longrightarrow> e_frame 0x2003 \<noteq> pd_frame 0x1000 \<and>
      vm_read ?st (e_frame 0x2003) (pte_of 0x3000) = 0x7003 \<and> (0x7003 :: u32) \<noteq> 0 \<and> pde_of 0x3000 \<noteq> pte_of 0x3000"
    by (simp add: vm_read_def e_frame_def pd_frame_def pde_of_def pte_of_def)
  ultimately have "fst (vmm_get_flags 0x1000 0x3000 (vmm_set_flags 0x1000 0x3000 0x43 ?st)) =
      (if e_pgsz (0x2003 :: u32) then fl_normal 0x43 else put_bit 6 (e_trapped 0x7003) (fl_normal 0x43))"
    by (intro vmm_set_flags_read_back) simp_all
  also have "\<dots> = 3" by code_simp
  finally show ?thesis by blast
qed

end
