(* ===== verification/Vmm.thy ===== *)
theory Vmm
  imports Paging
begin

text \<open>
  \<^verbatim>\<open>mm/vmm.c\<close> and the parts of \<^verbatim>\<open>arch/x86cpu/vmm.c\<close> that call back into it: copy-on-write traps,
  unmapping, range mapping, the search for free address ranges, cloning and freeing address spaces,
  and deferred deletion. Loops that may run forever are partial functions; \<open>None\<close> is also a
  mutex that is already held by the caller, or an access through a pointer that is not mapped.
\<close>

section \<open>Traps\<close>

definition blank_trap :: trap where
  "blank_trap = \<lparr>tr_type = VMM_TRAP_NONE, tr_vmm = 0, tr_vaddr = 0, tr_info = 0\<rparr>"

text \<open>The next answer of \<open>krealloc\<close>.\<close>

definition vm_realloc :: "vm \<Rightarrow> bool \<times> vm" where
  "vm_realloc st = (case vm_heap st of [] \<Rightarrow> (True, st) | a # as \<Rightarrow> (a, st\<lparr>vm_heap := as\<rparr>))"

definition vmm_new_trap :: "u32 \<Rightarrow> u32 \<Rightarrow> trap_type \<Rightarrow> vm \<Rightarrow> (nat option \<times> vm) option" where
  "vmm_new_trap vmm vaddr type st =
     do { l \<leftarrow> mutex_acquire (vmm_traps_mutex st);
          let tab = vmm_traps st;
          let (grown, st) = (if find_idx (\<lambda>t. tr_type t = VMM_TRAP_NONE) tab < length tab then (False, st)
                             else vm_realloc st);
          Some (case slot_find (\<lambda>t. tr_type t = VMM_TRAP_NONE) 4 blank_trap grown tab of
                  None \<Rightarrow> (None, st\<lparr>vmm_traps_mutex := mutex_release l\<rparr>)
                | Some (i, tab) \<Rightarrow>
                    (Some i, st\<lparr>vmm_traps := tab[i := (tab ! i)\<lparr>tr_type := type, tr_vmm := vmm, tr_vaddr := vaddr\<rparr>],
                                vmm_traps_mutex := mutex_release l\<rparr>)) }"

definition vmm_delete_trap :: "nat option \<Rightarrow> vm \<Rightarrow> vm" where
  "vmm_delete_trap trap st =
     (case trap of
        None \<Rightarrow> st
      | Some i \<Rightarrow> st\<lparr>vmm_traps := (vmm_traps st)[i := (vmm_traps st ! i)\<lparr>tr_type := VMM_TRAP_NONE\<rparr>]\<rparr>)"

definition is_cow_trap :: "u32 \<Rightarrow> u32 \<Rightarrow> trap \<Rightarrow> bool" where
  "is_cow_trap vmm vaddr t \<longleftrightarrow> tr_type t = VMM_TRAP_COW \<and> tr_vmm t = vmm \<and> tr_vaddr t = vaddr"

definition vmm_is_cow :: "u32 \<Rightarrow> u32 \<Rightarrow> bool \<Rightarrow> vm \<Rightarrow> (nat option \<times> vm) option" where
  "vmm_is_cow vmm vaddr validated st =
     (let (mapped, vaddr, st) =
        (if validated then (True, vaddr, st)
         else case vmm_get_pgsz vmm vaddr st of
                (None, st) \<Rightarrow> (False, vaddr, st)
              | (Some idx, st) \<Rightarrow> (True, vaddr - vaddr mod vmm_pgsz idx, st))
      in if \<not> mapped then Some (None, st)
         else do { l \<leftarrow> mutex_acquire (vmm_traps_mutex st);
                   let i = find_idx (is_cow_trap vmm vaddr) (vmm_traps st);
                   Some (if i < length (vmm_traps st) then Some i else None, st) })"

text \<open>
  The copy goes through a window of two frames that is mapped in the current address space and
  stays mapped. Its second half is addressed with \<open>copy_src + pgsz\<close>, which is inside the window
  only for 4K pages; for a 4M page the copy writes outside of it.
\<close>

definition vmm_cow_duplicate :: "u32 \<Rightarrow> u32 \<Rightarrow> nat option \<Rightarrow> vm \<Rightarrow> (bool \<times> vm) option" where
  "vmm_cow_duplicate vmm vaddr pgsz st =
     (let (pgsz, st) = (case pgsz of None \<Rightarrow> vmm_get_pgsz vmm vaddr st | Some _ \<Rightarrow> (pgsz, st))
      in case pgsz of
           None \<Rightarrow> Some (False, st)
         | Some idx \<Rightarrow>
             let bytes = vmm_pgsz idx; vaddr = vaddr - vaddr mod bytes
             in do { l \<leftarrow> mutex_acquire (vmm_traps_mutex st);
                     let st = st\<lparr>vmm_traps_mutex := l\<rparr>;
                     let idx_dst = find_idx (is_cow_trap vmm vaddr) (vmm_traps st);
                     let release = (\<lambda>st. st\<lparr>vmm_traps_mutex := mutex_release l\<rparr>);
                     if \<not> idx_dst < length (vmm_traps st) then Some (False, release st)
                     else
                       let src = tr_info (vmm_traps st ! idx_dst); s = vmm_traps st ! src;
                           (win, st) = (case vm_win st of [] \<Rightarrow> (True, st) | a # as \<Rightarrow> (a, st\<lparr>vm_win := as\<rparr>))
                       in if \<not> win then Some (False, release st)
                          else do {
                            (pmm, frame) \<leftarrow> pmm_alloc_free (vm_pmm st) (unat (bytes div 4096));
                            let st = st\<lparr>vm_pmm := pmm\<rparr>;
                            case frame of
                              None \<Rightarrow> Some (False, release st)
                            | Some f \<Rightarrow>
                                if bytes \<noteq> 4096 then None
                                else
                                  let (pa, st) = vmm_get_paddr (tr_vmm s) (tr_vaddr s) st;
                                      st = st\<lparr>vm_phys := (vm_phys st)(f := vm_phys st (unat (drop_bit 12 pa)))\<rparr>;
                                      st = vmm_set_paddr vmm vaddr (of_nat f * 4096) st;
                                      (fl, st) = vmm_get_flags vmm vaddr st;
                                      st = vmm_set_flags vmm vaddr (fl OR 2) st;
                                      refs = filter (\<lambda>i. i \<noteq> src \<and> is_cow_trap vmm vaddr (vmm_traps st ! i))
                                               [0..<length (vmm_traps st)];
                                      st = (if refs \<noteq> [] then
                                              let (fl, st) = vmm_get_flags (tr_vmm s) (tr_vaddr s) st
                                              in vmm_set_flags (tr_vmm s) (tr_vaddr s) ((fl AND NOT 0x40) OR 2) st
                                            else st);
                                      st = vmm_delete_trap (Some src) st;
                                      st = vmm_delete_trap (Some idx_dst) st
                                  in Some (True, release st) } })"

definition vmm_handle_fault :: "u32 \<Rightarrow> u32 \<Rightarrow> vm \<Rightarrow> (bool \<times> vm) option" where
  "vmm_handle_fault vaddr flags st =
     (if fl_rw flags then
        do { (r, st) \<leftarrow> vmm_cow_duplicate (vmm_current st) vaddr None st;
             Some (r, st) }
      else Some (False, st))"

section \<open>Unmapping\<close>

text \<open>\<open>while(cow)\<close>: does not end if a trap cannot be resolved.\<close>

partial_function (option) vmm_unmap_resolve_cow :: "u32 \<Rightarrow> u32 \<Rightarrow> nat \<Rightarrow> vm \<Rightarrow> vm option" where
  "vmm_unmap_resolve_cow vmm va pgsz st =
     Option.bind (vmm_is_cow vmm va True st) (\<lambda>(cow, st).
       case cow of
         None \<Rightarrow> Some st
       | Some i \<Rightarrow>
           let src = vmm_traps st ! (tr_info (vmm_traps st ! i))
           in Option.bind (vmm_cow_duplicate (tr_vmm src) (tr_vaddr src) (Some pgsz) st) (\<lambda>(r, st).
                vmm_unmap_resolve_cow vmm va pgsz st))"

definition vmm_pgunmap_huge :: "u32 \<Rightarrow> u32 \<Rightarrow> vm \<Rightarrow> vm option" where
  "vmm_pgunmap_huge vmm va st =
     (let (ok, st) = vm_window vmm st; pde = pde_of va; d = vm_pde st vmm pde; inval = (vmm = vmm_current st)
      in if \<not> ok \<or> d = 0 then Some st
         else
           do { st \<leftarrow>
                  (if \<not> e_pgsz d then
                     let (ok, st) = vm_window vmm st; pt = e_frame d
                     in if \<not> ok then None
                        else
                          do { st \<leftarrow> fold_opt (\<lambda>i st.
                                 let page = va OR push_bit 12 (of_nat i); e = vm_read st pt i;
                                     st = (if \<not> inval \<and> e_global e then vm_flush [page] st else st)
                                 in if e_trapped e then vmm_unmap_resolve_cow vmm page 0 st else Some st) [0..<1024] st;
                               let st = st\<lparr>vm_pmm := pmm_free (vm_pmm st) (e_frame (vm_pde st vmm pde))\<rparr>;
                               Some (if inval then vm_flush [rmap_start + push_bit 12 (of_nat pde)] st else st) }
                   else if e_trapped d then vmm_unmap_resolve_cow vmm va 1 st
                   else Some st);
                let st = vm_write (pd_frame vmm) pde 0 st;
                Some (if inval then vm_flush (flush_range va 4096) st else st) })"

text \<open>
  Taking one 4K page out of a 4M page: the 4M entry is dropped and the other 1023 pages are mapped
  again one by one, with the flags of the 4M page.
\<close>

definition vmm_pgunmap_small :: "u32 \<Rightarrow> u32 \<Rightarrow> vm \<Rightarrow> vm option" where
  "vmm_pgunmap_small vmm va st =
     (let (ok, st) = vm_window vmm st; pde = pde_of va; d = vm_pde st vmm pde
      in if \<not> ok then Some st
         else
           let (ok, st) = (if d \<noteq> 0 \<and> \<not> e_pgsz d then vm_window vmm st else (True, st))
           in if \<not> ok \<or> d = 0 then Some st
              else if \<not> e_pgsz d then
                let e = vm_read st (e_frame d) (pte_of va); inval = (vmm = vmm_current st \<or> e_global e)
                in do { st \<leftarrow> (if e_trapped e then vmm_unmap_resolve_cow vmm va 0 st else Some st);
                        let st = vm_write (e_frame d) (pte_of va) 0 st;
                        Some (if inval then vm_flush [va] st else st) }
              else
                let pa = push_bit 22 (get_field 22 10 d); flags = e_get_flags d AND NOT 0x40;
                    inval = (vmm = vmm_current st \<or> fl_global flags)
                in do { st \<leftarrow> (if e_trapped d then vmm_unmap_resolve_cow vmm (push_bit 22 (of_nat pde)) 1 st else Some st);
                        let st = vm_write (pd_frame vmm) pde 0 st;
                        let va_map = va AND 0xFFC00000;
                        st \<leftarrow> fold_opt (\<lambda>i st.
                               if va_map + of_nat i * 4096 \<noteq> va
                               then vmm_pgmap_small vmm (pa + of_nat i * 4096) (va_map + of_nat i * 4096) flags st
                               else Some st) [0..<1024] st;
                        Some (if inval then vm_flush [va] st else st) })"

definition vmm_pgunmap :: "u32 \<Rightarrow> u32 \<Rightarrow> nat \<Rightarrow> vm \<Rightarrow> vm option" where
  "vmm_pgunmap vmm va pgsz_idx st =
     (if rmap_start \<le> va \<and> va < rmap_end then Some st
      else if pgsz_idx = 0 then vmm_pgunmap_small vmm va st
      else if pgsz_idx = 1 then vmm_pgunmap_huge vmm va st
      else Some st)"

section \<open>Ranges\<close>

text \<open>
  The \<open>while\<close> loop of \<open>vmm_map\<close>; the inner \<open>for\<close> picks the largest page size that fits. With
  every size excluded the state does not change and the loop does not end.
\<close>

definition map_fits :: "u32 \<Rightarrow> u32 \<Rightarrow> u32 \<Rightarrow> nat \<Rightarrow> bool" where
  "map_fits pa va va_end i \<longleftrightarrow>
     \<not> (va_end < va + vmm_pgsz i \<or> pa mod vmm_pgsz i \<noteq> 0 \<or> va mod vmm_pgsz i \<noteq> 0)"

partial_function (option) vmm_map_loop ::
  "u32 \<Rightarrow> u32 \<Rightarrow> u32 \<Rightarrow> u32 \<Rightarrow> nat \<Rightarrow> u32 \<Rightarrow> vm \<Rightarrow> (u32 \<times> vm) option" where
  "vmm_map_loop vmm pa va va_end max_idx flags st =
     (if va < va_end then
        if 1 \<le> max_idx \<and> map_fits pa va va_end 1 then
          Option.bind (vmm_pgmap vmm pa va 1 flags st)
            (vmm_map_loop vmm (pa + vmm_pgsz 1) (va + vmm_pgsz 1) va_end max_idx flags)
        else if map_fits pa va va_end 0 then
          Option.bind (vmm_pgmap vmm pa va 0 flags st)
            (vmm_map_loop vmm (pa + vmm_pgsz 0) (va + vmm_pgsz 0) va_end max_idx flags)
        else None
      else Some (va, st))"

text \<open>\<open>if(sz % pgsz_min) sz += pgsz_min - sz % pgsz_min\<close>\<close>

definition page_up :: "u32 \<Rightarrow> u32" where
  "page_up sz = (if sz mod 4096 \<noteq> 0 then sz + (4096 - sz mod 4096) else sz)"

text \<open>
  \<open>d = delta - va\<close> is computed after \<open>va\<close> was rounded down and overwrites the original address.
\<close>

definition vmm_map :: "u32 \<Rightarrow> u32 \<Rightarrow> u32 \<Rightarrow> u32 \<Rightarrow> nat \<Rightarrow> u32 \<Rightarrow> vm \<Rightarrow> (u32 \<times> vm) option" where
  "vmm_map vmm pa va sz pgsz_max_idx flags st =
     (let pgsz_max_idx = (if vmm_pgsz_num \<le> pgsz_max_idx then vmm_pgsz_num - 1 else pgsz_max_idx);
          (delta, pa) = (if pa mod 4096 \<noteq> 0 then (pa - pa div 4096 * 4096, pa div 4096 * 4096) else (0, pa));
          (delta, va) = (if va mod 4096 \<noteq> 0 then
                           let va = va div 4096 * 4096; d = delta - va
                           in (if delta < d then d else delta, va)
                         else (delta, va));
          sz = page_up (sz + delta);
          pgsz_max_idx = (if pgsz_max_idx \<noteq> 0 \<and> sz < vmm_pgsz pgsz_max_idx then pgsz_max_idx - 1 else pgsz_max_idx)
      in do { (va, st) \<leftarrow> vmm_map_loop vmm pa va (va + sz) pgsz_max_idx flags st;
              Some (va - sz + delta, st) })"

text \<open>
  The loop of \<open>vmm_unmap\<close> has no \<open>break\<close>: after a 4M page it goes on to the 4K case at the
  advanced address.
\<close>

partial_function (option) vmm_unmap_loop :: "u32 \<Rightarrow> u32 \<Rightarrow> u32 \<Rightarrow> vm \<Rightarrow> vm option" where
  "vmm_unmap_loop vmm va va_end st =
     (if va < va_end then
        let fits1 = \<not> (va_end < va + vmm_pgsz 1 \<or> va mod vmm_pgsz 1 \<noteq> 0);
            va1 = (if fits1 then va + vmm_pgsz 1 else va);
            fits0 = \<not> (va_end < va1 + vmm_pgsz 0 \<or> va1 mod vmm_pgsz 0 \<noteq> 0);
            va0 = (if fits0 then va1 + vmm_pgsz 0 else va1)
        in Option.bind (if fits1 then vmm_pgunmap vmm va 1 st else Some st) (\<lambda>st.
             Option.bind (if fits0 then vmm_pgunmap vmm va1 0 st else Some st)
               (vmm_unmap_loop vmm va0 va_end))
      else Some st)"

definition vmm_unmap :: "u32 \<Rightarrow> u32 \<Rightarrow> u32 \<Rightarrow> vm \<Rightarrow> vm option" where
  "vmm_unmap vmm va sz st =
     (let (va, sz) = (if va mod 4096 \<noteq> 0 then (va div 4096 * 4096, sz + (va - va div 4096 * 4096)) else (va, sz));
          sz = page_up sz
      in vmm_unmap_loop vmm va (va + sz) st)"

text \<open>
  \<open>vmm_first_free\<close> counts in pages. The alignment is divided by the number of pages wanted
  (\<open>align /= sz\<close>), not by the page size.
\<close>

partial_function (option) vmm_first_free_loop ::
  "u32 \<Rightarrow> u32 \<Rightarrow> u32 \<Rightarrow> u32 \<Rightarrow> u32 \<Rightarrow> bool \<Rightarrow> u32 \<Rightarrow> u32 \<Rightarrow> vm \<Rightarrow> (u32 \<times> vm) option" where
  "vmm_first_free_loop vmm va_start va_end sz align down result blk_sz st =
     (if va_start \<le> result \<and> result + sz \<le> va_end then
        case vmm_get_pgsz vmm ((result + blk_sz) * 4096) st of (pg, st) \<Rightarrow>
          if pg \<noteq> None then
            (if down then
               let r = result - (blk_sz + 1); r = (if align \<noteq> 0 \<and> r mod align \<noteq> 0 then r - r mod align else r)
               in vmm_first_free_loop vmm va_start va_end sz align down r 0 st
             else
               let r = result + (blk_sz + 1); r = (if align \<noteq> 0 \<and> r mod align \<noteq> 0 then r + (align - r mod align) else r)
               in vmm_first_free_loop vmm va_start va_end sz align down r 0 st)
          else if blk_sz + 1 = sz then Some (result * 4096, st)
          else vmm_first_free_loop vmm va_start va_end sz align down result (blk_sz + 1) st
      else Some (0, st))"

definition vmm_first_free ::
  "u32 \<Rightarrow> u32 \<Rightarrow> u32 \<Rightarrow> u32 \<Rightarrow> u32 \<Rightarrow> bool \<Rightarrow> vm \<Rightarrow> (u32 \<times> vm) option" where
  "vmm_first_free vmm va_start va_end sz align down st =
     (let va_start = (if va_start = 0 then 1 else (va_start + 4096 - 1) div 4096);
          va_end = va_end div 4096; sz = (sz + 4096 - 1) div 4096
      in if sz = 0 then None
         else vmm_first_free_loop vmm va_start va_end sz (align div sz) down (if down then va_end - sz else va_start) 0 st)"

definition vmm_alloc_map ::
  "u32 \<Rightarrow> u32 \<Rightarrow> u32 \<Rightarrow> u32 \<Rightarrow> u32 \<Rightarrow> u32 \<Rightarrow> nat \<Rightarrow> bool \<Rightarrow> u32 \<Rightarrow> vm \<Rightarrow> (u32 \<times> vm) option" where
  "vmm_alloc_map vmm pa sz va_start va_end va_align pgsz_max_idx down flags st =
     (let off = pa mod 4096; pa = pa - off; sz = sz + off
      in do { (vaddr, st) \<leftarrow> vmm_first_free vmm va_start va_end sz va_align down st;
              if vaddr = 0 then Some (0, st)
              else do { (r, st) \<leftarrow> vmm_map vmm pa vaddr sz pgsz_max_idx flags st;
                        Some (vaddr + off, st) } })"

section \<open>Copy on write\<close>

text \<open>
  One turn of the loop: \<open>None\<close> is the \<open>break\<close>, otherwise the size of the page that was set up.
  \<open>vaddr_dst\<close> advances with the loop and \<open>done_sz\<close> is added to it again when the page is mapped.
\<close>

definition vmm_cow_subdivide :: "u32 \<Rightarrow> u32 \<Rightarrow> nat \<Rightarrow> vm \<Rightarrow> vm option" where
  "vmm_cow_subdivide vmm_src va_src idx st =
     (let (flags, st) = vmm_get_flags vmm_src va_src st;
          lo = va_src - va_src mod vmm_pgsz idx;
          (pa, st) = vmm_get_paddr vmm_src lo st;
          hi = lo + vmm_pgsz idx; new_sz = vmm_pgsz 0
      in do { (r, st) \<leftarrow> vmm_map vmm_src pa lo (va_src - lo) idx flags st;
              (r, st) \<leftarrow> vmm_map vmm_src (pa + va_src - lo) va_src new_sz 0 flags st;
              (r, st) \<leftarrow> vmm_map vmm_src (pa + va_src - lo + new_sz) (va_src + new_sz) (hi - (va_src + new_sz)) idx flags st;
              Some st })"

definition vmm_cow_step ::
  "u32 \<Rightarrow> u32 \<Rightarrow> u32 \<Rightarrow> u32 \<Rightarrow> u32 \<Rightarrow> u32 \<Rightarrow> vm \<Rightarrow> (u32 option \<times> vm) option" where
  "vmm_cow_step vmm_src va_src vmm_dst va_dst len done_sz st =
     (case vmm_get_pgsz vmm_src va_src st of
        (None, st) \<Rightarrow> Some (None, st)
      | (Some idx, st) \<Rightarrow>
          let (pg_dst, st) = vmm_get_pgsz vmm_dst va_dst st; big = (idx \<noteq> 0 \<and> len - done_sz < vmm_pgsz idx)
          in if pg_dst \<noteq> None then Some (None, st)
             else
               do { st \<leftarrow> (if big then vmm_cow_subdivide vmm_src va_src idx st else Some st);
                    let idx = (if big then 0 else idx);
                    let (pa, st) = vmm_get_paddr vmm_src va_src st;
                    let (fl, st) = vmm_get_flags vmm_src (va_src + done_sz) st;
                    st \<leftarrow> vmm_pgmap vmm_dst pa (va_dst + done_sz) idx ((fl AND NOT 2) OR 0x40) st;
                    (src, st) \<leftarrow> vmm_new_trap vmm_src va_src VMM_TRAP_COW st;
                    (dst, st) \<leftarrow> vmm_new_trap vmm_dst va_dst VMM_TRAP_COW st;
                    case (src, dst) of
                      (Some s, Some d) \<Rightarrow>
                        let tab = (vmm_traps st)[d := (vmm_traps st ! d)\<lparr>tr_info := s\<rparr>];
                            st = st\<lparr>vmm_traps := tab[s := (tab ! s)\<lparr>tr_info := d\<rparr>]\<rparr>;
                            (fl, st) = vmm_get_flags vmm_src va_src st;
                            st = vmm_set_flags vmm_src va_src ((fl AND NOT 2) OR 0x40) st
                        in Some (Some (vmm_pgsz idx), st)
                    | _ \<Rightarrow> Some (None, vmm_delete_trap dst (vmm_delete_trap src st)) })"

partial_function (option) vmm_cow_setup_loop ::
  "u32 \<Rightarrow> u32 \<Rightarrow> u32 \<Rightarrow> u32 \<Rightarrow> u32 \<Rightarrow> u32 \<Rightarrow> vm \<Rightarrow> (u32 \<times> vm) option" where
  "vmm_cow_setup_loop vmm_src va_src vmm_dst va_dst len done_sz st =
     (if done_sz < len then
        Option.bind (vmm_cow_step vmm_src va_src vmm_dst va_dst len done_sz st) (\<lambda>(r, st).
          case r of
            None \<Rightarrow> Some (done_sz, st)
          | Some pgsz \<Rightarrow> vmm_cow_setup_loop vmm_src (va_src + pgsz) vmm_dst (va_dst + pgsz) len (done_sz + pgsz) st)
      else Some (done_sz, st))"

text \<open>The size is rounded with \<open>size += size - size % pgsz_min\<close>.\<close>

definition vmm_cow_setup :: "u32 \<Rightarrow> u32 \<Rightarrow> u32 \<Rightarrow> u32 \<Rightarrow> u32 \<Rightarrow> vm \<Rightarrow> (u32 \<times> vm) option" where
  "vmm_cow_setup vmm_src va_src vmm_dst va_dst len st =
     (let delta = va_src mod 4096; d = va_dst mod 4096;
          va_src = va_src - delta; va_dst = va_dst - d;
          delta = (if delta < d then d else delta);
          len = len + delta;
          len = (if len mod 4096 \<noteq> 0 then len + (len - len mod 4096) else len)
      in vmm_cow_setup_loop vmm_src va_src vmm_dst va_dst len 0 st)"

section \<open>Deletion of address spaces\<close>

text \<open>
  The loop of \<open>vmm_trap_remove\<close> over the trap table, with \<open>resolved\<close> as a list of (address, new
  source space, new source address). The table lock is held throughout, also while
  \<open>vmm_cow_setup\<close> is called.
\<close>

fun trap_remove_loop :: "u32 \<Rightarrow> nat list \<Rightarrow> (u32 \<times> u32 \<times> u32) list \<Rightarrow> nat \<Rightarrow> vm \<Rightarrow> (bool \<times> vm) option" where
  "trap_remove_loop vmm [] resolved maxcnt st = Some (True, st)"
| "trap_remove_loop vmm (i # is) resolved maxcnt st =
     (let t = vmm_traps st ! i
      in if tr_type t = VMM_TRAP_NONE then trap_remove_loop vmm is resolved maxcnt st
         else if tr_type t = VMM_TRAP_COW \<and> tr_vmm (vmm_traps st ! tr_info t) = vmm then
           (case find (\<lambda>r. fst r = tr_vaddr t) resolved of
              Some (_, src_vmm, src_vaddr) \<Rightarrow>
                let (pgsz, st) = vmm_get_pgsz (tr_vmm t) (tr_vaddr t) st;
                    st = vmm_delete_trap (Some i) (vmm_delete_trap (Some (tr_info t)) st)
                in (case pgsz of
                      None \<Rightarrow> trap_remove_loop vmm is resolved maxcnt st
                    | Some idx \<Rightarrow>
                        do { (n, st) \<leftarrow> vmm_cow_setup src_vmm src_vaddr (tr_vmm t) (tr_vaddr t) (vmm_pgsz idx) st;
                             if n = 0 then Some (False, st) else trap_remove_loop vmm is resolved maxcnt st })
            | None \<Rightarrow>
                let (ok, st) = (if maxcnt = length resolved then vm_realloc st else (True, st));
                    maxcnt = (if maxcnt = length resolved then maxcnt + 4 else maxcnt)
                in if \<not> ok then Some (False, st)
                   else let (fl, st) = vmm_get_flags (tr_vmm t) (tr_vaddr t) st;
                            st = vmm_set_flags (tr_vmm t) (tr_vaddr t) (fl OR 2) st;
                            st = vmm_delete_trap (Some i) (vmm_delete_trap (Some (tr_info t)) st)
                        in trap_remove_loop vmm is (resolved @ [(tr_vaddr t, tr_vmm t, tr_vaddr t)]) maxcnt st)
         else if tr_vmm t = vmm then trap_remove_loop vmm is resolved maxcnt (vmm_delete_trap (Some i) st)
         else trap_remove_loop vmm is resolved maxcnt st)"

definition vmm_trap_remove :: "u32 \<Rightarrow> vm \<Rightarrow> (bool \<times> vm) option" where
  "vmm_trap_remove vmm st =
     do { l \<leftarrow> mutex_acquire (vmm_traps_mutex st);
          (r, st) \<leftarrow> trap_remove_loop vmm [0..<length (vmm_traps st)] [] 0 (st\<lparr>vmm_traps_mutex := l\<rparr>);
          Some (r, st\<lparr>vmm_traps_mutex := mutex_release l\<rparr>) }"

definition vmm_stage_free :: "u32 \<Rightarrow> vm \<Rightarrow> vm option" where
  "vmm_stage_free vmm st =
     do { l \<leftarrow> mutex_acquire (vmm_frstage_mutex st);
          let tab = vmm_frstage st;
          let (grown, st) = (if find_idx (\<lambda>v. v = 0) tab < length tab then (False, st) else vm_realloc st);
          Some (case slot_find (\<lambda>v. v = 0) 4 0 grown tab of
                  None \<Rightarrow> st\<lparr>vmm_frstage_mutex := mutex_release l\<rparr>
                | Some (i, tab) \<Rightarrow> st\<lparr>vmm_frstage := tab[i := vmm], vmm_frstage_mutex := mutex_release l\<rparr>) }"

definition vmm_free :: "u32 \<Rightarrow> vm \<Rightarrow> vm option" where
  "vmm_free vmm st =
     (if vmm = vmm_kernel st then Some st
      else if vmm = vmm_current st then vmm_stage_free vmm st
      else
        do { (r, st) \<leftarrow> vmm_trap_remove vmm st;
             let (ok, st) = (if r then vm_window vmm st else (False, st));
             if \<not> ok then Some st
             else
               let tables = pde_of (kernel_start st);
                   pmm = fold (\<lambda>i pmm. let d = vm_pde st vmm i
                                       in if d \<noteq> 0 \<and> \<not> e_pgsz d then pmm_free pmm (e_frame d) else pmm)
                           [0..<tables] (vm_pmm st)
               in Some (st\<lparr>vm_pmm := pmm_free pmm (pd_frame vmm)\<rparr>) })"

text \<open>Someone else holding the lock means that someone else is cleaning up.\<close>

definition vmm_do_cleanup :: "vm \<Rightarrow> vm option" where
  "vmm_do_cleanup st =
     (if mutex_test (vmm_frstage_mutex st) then Some st
      else
        do { l \<leftarrow> mutex_acquire (vmm_frstage_mutex st);
             st \<leftarrow> fold_opt (\<lambda>i st.
                    let v = vmm_frstage st ! i
                    in if v \<noteq> 0 \<and> v \<noteq> vmm_current st then
                         do { st \<leftarrow> vmm_free v st; Some (st\<lparr>vmm_frstage := (vmm_frstage st)[i := 0]\<rparr>) }
                       else Some st)
                  [0..<length (vmm_frstage st)] (st\<lparr>vmm_frstage_mutex := l\<rparr>);
             Some (st\<lparr>vmm_frstage_mutex := mutex_release l\<rparr>) })"

section \<open>Cloning\<close>

text \<open>
  One entry of the copy-on-write clone: the entry of the \<^emph>\<open>new\<close> directory, which was wiped, decides
  between 4M and 4K and gives the address of the page table to read.
\<close>

definition clone_cow_entry :: "u32 \<Rightarrow> u32 \<Rightarrow> nat \<Rightarrow> vm \<Rightarrow> vm option" where
  "clone_cow_entry src dst i st =
     (let d = vm_pde st dst i; base = push_bit 22 (of_nat i)
      in if e_pgsz d then
           do { (n, st) \<leftarrow> vmm_cow_setup src base dst base 4194304 st; Some st }
         else
           fold_opt (\<lambda>j st.
             let va = base OR push_bit 12 (of_nat j)
             in if vm_read st (e_frame d) j \<noteq> 0
                then do { (n, st) \<leftarrow> vmm_cow_setup src va dst va 4096 st; Some st }
                else Some st) [0..<1024] st)"

text \<open>The other mode copies the page tables; \<open>False\<close> is the failure, after its cleanup.\<close>

fun clone_tables :: "u32 \<Rightarrow> nat list \<Rightarrow> u32 \<Rightarrow> vm \<Rightarrow> (bool \<times> vm) option" where
  "clone_tables src [] dst st = Some (True, st)"
| "clone_tables src (i # is) dst st =
     (let d = vm_pde st dst i
      in if vm_pde st src i \<noteq> 0 \<and> \<not> e_pgsz d then
           do { (pmm, frame) \<leftarrow> pmm_alloc_free (vm_pmm st) 1;
                let st = st\<lparr>vm_pmm := pmm\<rparr>;
                case frame of
                  None \<Rightarrow>
                    let pmm = fold (\<lambda>j pmm. let e = vm_pde st dst j
                                            in if e \<noteq> 0 \<and> \<not> e_pgsz e then pmm_free pmm (e_frame e) else pmm)
                                [0..<i] (vm_pmm st)
                    in Some (False, st\<lparr>vm_pmm := pmm_free pmm (pd_frame dst)\<rparr>)
                | Some f \<Rightarrow>
                    let st = st\<lparr>vm_phys := (vm_phys st)(f := vm_phys st (e_frame d))\<rparr>;
                        st = vm_write (pd_frame dst) i (put_field 12 20 (of_nat f) d) st
                    in clone_tables src is dst st }
         else clone_tables src is dst st)"

definition vm_pop :: "vm \<Rightarrow> bool \<times> vm" where
  "vm_pop st = (case vm_win st of [] \<Rightarrow> (True, st) | a # as \<Rightarrow> (a, st\<lparr>vm_win := as\<rparr>))"

text \<open>The directory of the clone before its tables are filled in.\<close>

definition clone_pd :: "(nat \<Rightarrow> u32) \<Rightarrow> bool \<Rightarrow> nat \<Rightarrow> nat \<Rightarrow> nat \<Rightarrow> u32" where
  "clone_pd pd cow tables frame i =
     (if i = pde_of rmap_start then push_bit 12 (of_nat frame) OR 3
      else if cow \<and> i < tables then 0 else pd i)"

text \<open>
  The result is the physical address of the new directory, 0 on failure. When the source is not the
  current address space its directory is read after its window was unmapped: \<open>None\<close>.
\<close>

definition vmm_clone :: "u32 \<Rightarrow> bool \<Rightarrow> vm \<Rightarrow> (u32 \<times> vm) option" where
  "vmm_clone src cow st =
     (let (ok, st) = vm_window src st
      in if \<not> ok then Some (0, st)
         else
           do { (pmm, dst_frame) \<leftarrow> pmm_alloc_free (vm_pmm st) 1;
                let st = st\<lparr>vm_pmm := pmm\<rparr>;
                case dst_frame of
                  None \<Rightarrow> Some (0, st)
                | Some f \<Rightarrow>
                    let (ok, st) = vm_pop st; tables = pde_of (kernel_start st); dst = push_bit 12 (of_nat f)
                    in if \<not> ok then Some (0, st\<lparr>vm_pmm := pmm_free (vm_pmm st) f\<rparr>)
                       else
                         let st = st\<lparr>vm_phys := (vm_phys st)(f := clone_pd (vm_phys st (pd_frame src)) cow tables f)\<rparr>;
                             (ok, st) = vm_pop st
                         in if \<not> ok then Some (0, st\<lparr>vm_pmm := pmm_free (vm_pmm st) f\<rparr>)
                            else if src \<noteq> vmm_current st then None
                            else if cow then
                              do { st \<leftarrow> fold_opt (\<lambda>i st. if vm_pde st src i \<noteq> 0 then clone_cow_entry src dst i st else Some st)
                                          [0..<tables] st;
                                   Some (dst, st) }
                            else
                              do { (r, st) \<leftarrow> clone_tables src [0..<tables] dst st;
                                   Some (if r then dst else 0, st) } })"

section \<open>The trap table\<close>

lemma vmm_get_pgsz_direct:
  "vm_direct vmm st \<Longrightarrow> vmm_get_pgsz vmm va st = (fst (vmm_get_pgsz vmm va st), st)"
  by (simp add: vmm_get_pgsz_def vm_walk_direct Let_def)

interpretation trap_tab: slot_table "\<lambda>t. tr_type t = VMM_TRAP_NONE" blank_trap 4
  by unfold_locales (simp_all add: blank_trap_def)

interpretation stage_tab: slot_table "\<lambda>v. v = 0" "0 :: u32" 4
  by unfold_locales simp_all

abbreviation traps_live :: "vm \<Rightarrow> nat set" where
  "traps_live st \<equiv> slots_live (\<lambda>t. tr_type t = VMM_TRAP_NONE) (vmm_traps st)"

lemma vmm_new_trap_live:
  assumes "vmm_new_trap vmm vaddr VMM_TRAP_COW st = Some (Some i, st')"
  shows "i \<notin> traps_live st \<and> traps_live st' = insert i (traps_live st) \<and> is_cow_trap vmm vaddr (vmm_traps st' ! i) \<and>
    (\<forall>j \<in> traps_live st. vmm_traps st' ! j = vmm_traps st ! j)"
proof -
  obtain grown tab where find: "slot_find (\<lambda>t. tr_type t = VMM_TRAP_NONE) 4 blank_trap grown (vmm_traps st) = Some (i, tab)"
    and st': "vmm_traps st' = tab[i := (tab ! i)\<lparr>tr_type := VMM_TRAP_COW, tr_vmm := vmm, tr_vaddr := vaddr\<rparr>]"
    using assms by (auto simp: vmm_new_trap_def Let_def vm_realloc_def split: bind_splits prod.splits option.splits if_splits list.splits)
  show ?thesis
    unfolding st' using trap_tab.find_not_live [OF find] trap_tab.store_live [OF find] trap_tab.store_keeps [OF find]
    by (simp add: is_cow_trap_def)
qed

text \<open>Copy on write is refused for a page that the destination already maps.\<close>

lemma vmm_cow_setup_mapped:
  assumes "vm_direct src st" and "vm_direct dst st" and "va mod 4096 = 0" and "len mod 4096 = 0"
    and "fst (vmm_get_pgsz dst va st) \<noteq> None"
  shows "vmm_cow_setup src va dst va len st = Some (0, st)"
proof -
  have "vmm_cow_step src va dst va len 0 st = Some (None, st)"
    using assms(5) vmm_get_pgsz_direct [OF assms(1), of va] vmm_get_pgsz_direct [OF assms(2), of va]
    by (cases "fst (vmm_get_pgsz src va st)") (auto simp: vmm_cow_step_def Let_def split: prod.splits)
  then have "vmm_cow_setup_loop src va dst va len 0 st = Some (0, st)"
    by (subst vmm_cow_setup_loop.simps) simp
  then show ?thesis using assms(3,4) by (simp add: vmm_cow_setup_def)
qed

section \<open>The search for a free range\<close>

text \<open>A page (number) is free when it is not mapped; a block is \<open>z\<close> free pages in a row.\<close>

definition page_free :: "vm \<Rightarrow> u32 \<Rightarrow> nat \<Rightarrow> bool" where
  "page_free st vmm p \<longleftrightarrow> fst (vmm_get_pgsz vmm (of_nat p * 4096) st) = None"

definition free_block :: "vm \<Rightarrow> u32 \<Rightarrow> nat \<Rightarrow> nat \<Rightarrow> bool" where
  "free_block st vmm z p \<longleftrightarrow> (\<forall>i < z. page_free st vmm (p + i))"

lemma pages_of_nat:
  fixes w :: u32
  assumes "unat w \<le> 2 ^ 32 - 4096"
  shows "(w + 4096 - 1) div 4096 = of_nat ((unat w + 4095) div 4096)"
proof -
  have "unat (w + 4095) = unat w + 4095"
    using assms unat_add_no_wrap [of w 4095] by simp
  then have "unat ((w + 4095) div 4096) = (unat w + 4095) div 4096"
    by (simp add: unat_div)
  then have "(w + 4095) div 4096 = of_nat ((unat w + 4095) div 4096)"
    by (metis of_nat_unat ucast_id)
  moreover have "w + 4096 - 1 = w + 4095" by simp
  ultimately show ?thesis by (simp only:)
qed

lemma page_down_mod: "w div 4096 * 4096 mod 4096 = 0" for w :: u32
proof -
  have four: "(4096 :: u32) = 2 ^ 12" by simp
  show ?thesis
    unfolding four by (simp only: take_bit_eq_mod [symmetric] push_bit_eq_mult [symmetric] drop_bit_eq_div [symmetric] take_bit_push_bit) simp
qed

lemma take_bit_diff_zero: "take_bit 12 b = 0 \<Longrightarrow> take_bit 12 (a - b) = take_bit 12 a" for a b :: u32
proof (transfer, goal_cases)
  case (1 b a)
  then have b: "take_bit 12 b = 0" by simp
  have "take_bit 12 (a - b) = take_bit 12 (take_bit 12 a - take_bit 12 b)" by (simp only: take_bit_diff)
  also have "\<dots> = take_bit 12 a" by (simp add: b)
  finally show ?case by simp
qed
lemma mod_4096_diff: "b mod 4096 = 0 \<Longrightarrow> (a - b) mod 4096 = a mod 4096" for a b :: u32
proof -
  have four: "(4096 :: u32) = 2 ^ 12" by simp
  show "b mod 4096 = 0 \<Longrightarrow> (a - b) mod 4096 = a mod 4096"
    unfolding four take_bit_eq_mod [symmetric] by (rule take_bit_diff_zero)
qed

text \<open>
  The positions that are tried, from the position \<open>s\<close> on: the first one and the multiples of the
  alignment \<open>a\<close>, which is in pages; all for the alignment 0.
\<close>

definition search_pos :: "nat \<Rightarrow> nat \<Rightarrow> nat \<Rightarrow> bool" where
  "search_pos a s q \<longleftrightarrow> q = s \<or> a = 0 \<or> q mod a = 0"

definition round_up :: "nat \<Rightarrow> nat \<Rightarrow> nat" where
  "round_up a r = (if a \<noteq> 0 \<and> r mod a \<noteq> 0 then r + (a - r mod a) else r)"

lemma round_up_ge: "r \<le> round_up a r"
  unfolding round_up_def by (simp only: split: if_splits) linarith

lemma round_up_bound: "round_up a r \<le> max a (2 * r)"
proof (cases "r < a")
  case False
  then have "a - r mod a \<le> r" by simp
  then show ?thesis unfolding round_up_def by (simp only: split: if_splits) linarith
qed (simp add: round_up_def)

lemma round_up_multiple: "a = 0 \<or> round_up a r mod a = 0"
proof (cases "a = 0 \<or> r mod a = 0")
  case False
  have "r + (a - r mod a) = r div a * a + a"
    using False div_mult_mod_eq [of r a] mod_less_divisor [of a r] by linarith
  then show ?thesis using False by (simp add: round_up_def)
qed (auto simp: round_up_def)

lemma round_up_least:
  assumes "r \<le> q" and "a = 0 \<or> q mod a = 0"
  shows "round_up a r \<le> q"
proof (cases "a = 0 \<or> r mod a = 0")
  case False
  then obtain k where k: "q = a * k" using assms(2) by auto
  have r: "r = a * (r div a) + r mod a" by simp
  have "a * (r div a) < a * k" using assms(1) k r False by linarith
  then have "r div a + 1 \<le> k" by simp
  then have "a * (r div a + 1) \<le> q" unfolding k by (rule mult_le_mono2)
  then have "a * (r div a) + a \<le> q" by (simp add: algebra_simps)
  moreover have "r mod a < a" using False by simp
  ultimately have "r + (a - r mod a) \<le> q" using r by linarith
  then show ?thesis using False unfolding round_up_def by (simp only: if_True not_False_eq_True de_Morgan_disj simp_thms)
qed (use assms in \<open>auto simp: round_up_def\<close>)

lemma of_nat_mod_u32: "r < 2 ^ 32 \<Longrightarrow> a < 2 ^ 32 \<Longrightarrow> (of_nat r mod of_nat a :: u32) = of_nat (r mod a)"
  by (rule word_unat_eq_iff [THEN iffD2])
     (simp add: unat_mod_distrib unat_of_nat_u32 le_less_trans [OF mod_less_eq_dividend])

lemma of_nat_zero_u32: "a < 2 ^ 32 \<Longrightarrow> (of_nat a :: u32) = 0 \<longleftrightarrow> a = 0"
  using of_nat_inj_no_wrap [of a 0, where ?'a = 32] by simp

lemma round_up_word:
  assumes "r < 2 ^ 32" and "a < 2 ^ 32"
  shows "(if (of_nat a :: u32) \<noteq> 0 \<and> (of_nat r mod of_nat a :: u32) \<noteq> 0 then of_nat r + (of_nat a - of_nat r mod of_nat a) else of_nat r) =
    (of_nat (round_up a r) :: u32)"
proof -
  have le: "r mod a < 2 ^ 32" using assms(1) by (rule le_less_trans [OF mod_less_eq_dividend])
  have "a \<noteq> 0 \<Longrightarrow> (of_nat r + (of_nat a - of_nat (r mod a)) :: u32) = of_nat (r + (a - r mod a))"
    using mod_less_divisor [of a r] by (simp only: of_nat_add of_nat_diff less_imp_le)
  then show ?thesis
    unfolding of_nat_mod_u32 [OF assms] of_nat_zero_u32 [OF assms(2)] of_nat_zero_u32 [OF le] round_up_def by presburger
qed

lemma round_down_word:
  assumes "r < 2 ^ 32" and "a < 2 ^ 32"
  shows "(if (of_nat a :: u32) \<noteq> 0 \<and> (of_nat r mod of_nat a :: u32) \<noteq> 0 then of_nat r - of_nat r mod of_nat a else of_nat r) =
    (of_nat (if a = 0 then r else r - r mod a) :: u32)"
proof -
  have le: "r mod a < 2 ^ 32" using assms(1) by (rule le_less_trans [OF mod_less_eq_dividend])
  show ?thesis
    unfolding of_nat_mod_u32 [OF assms] of_nat_zero_u32 [OF assms(2)] of_nat_zero_u32 [OF le] by (simp add: of_nat_diff)
qed


lemma first_free_fits:
  assumes "e \<le> 2 ^ 20" and "r + z < 2 ^ 32" and "s \<le> r"
  shows "(of_nat s :: u32) \<le> of_nat r" and "(of_nat r + of_nat z :: u32) \<le> of_nat e \<longleftrightarrow> r + z \<le> e"
  using assms by (simp_all add: word_le_nat_alt unat_of_nat_u32 flip: of_nat_add)

lemma of_nat_last_u32: "b < z \<Longrightarrow> z < 2 ^ 32 \<Longrightarrow> (of_nat b + 1 :: u32) = of_nat z \<longleftrightarrow> b + 1 = z"
proof -
  assume "b < z" "z < 2 ^ 32"
  then have "(of_nat (b + 1) :: u32) = of_nat z \<longleftrightarrow> b + 1 = z" by (intro of_nat_inj_no_wrap) simp_all
  then show ?thesis unfolding of_nat_add of_nat_1 .
qed

text \<open>One step of either search, on numbers: the page \<open>r + b\<close> is examined.\<close>

lemma first_free_step:
  assumes "vm_direct vmm st" and "e \<le> 2 ^ 20" and "r + z < 2 ^ 32" and "s \<le> r" and "b < z" and "a < 2 ^ 32"
  shows "vmm_first_free_loop vmm (of_nat s) (of_nat e) (of_nat z) (of_nat a) down (of_nat r) (of_nat b) st =
    (if r + z \<le> e then
       if \<not> page_free st vmm (r + b) then
         vmm_first_free_loop vmm (of_nat s) (of_nat e) (of_nat z) (of_nat a) down
           (if down then let w = of_nat r - (of_nat b + 1) :: u32 in if (of_nat a :: u32) \<noteq> 0 \<and> w mod of_nat a \<noteq> 0 then w - w mod of_nat a else w
            else of_nat (round_up a (r + b + 1))) (of_nat 0) st
       else if b + 1 = z then Some (of_nat r * 4096, st)
       else vmm_first_free_loop vmm (of_nat s) (of_nat e) (of_nat z) (of_nat a) down (of_nat r) (of_nat (b + 1)) st
     else Some (0, st))"
proof -
  obtain x where pg: "vmm_get_pgsz vmm ((of_nat r + of_nat b) * 4096) st = (x, st)"
    using vmm_get_pgsz_direct [OF assms(1)] by blast
  then have free: "page_free st vmm (r + b) \<longleftrightarrow> x = None" by (simp add: page_free_def)
  have up: "(let r = of_nat r + (of_nat b + 1) :: u32 in if (of_nat a :: u32) \<noteq> 0 \<and> r mod of_nat a \<noteq> 0 then r + (of_nat a - r mod of_nat a) else r) =
      of_nat (round_up a (r + b + 1))"
  proof -
    have "(of_nat r + (of_nat b + 1) :: u32) = of_nat (r + b + 1)" by simp
    moreover have "r + b + 1 < 2 ^ 32" using assms(3,5) by simp
    ultimately show ?thesis unfolding Let_def by (simp only: round_up_word assms(6))
  qed
  have z: "z < 2 ^ 32" using assms(3) by simp
  show ?thesis
    unfolding vmm_first_free_loop.simps [of vmm "of_nat s" "of_nat e" "of_nat z" "of_nat a" down "of_nat r" "of_nat b" st]
    unfolding first_free_fits(2) [OF assms(2-4)] pg split of_nat_last_u32 [OF assms(5) z] up [symmetric] Let_def
    using first_free_fits(1) [OF assms(2-4)] free by (cases x; cases down) (simp_all add: ac_simps)
qed

lemma first_free_up_spec:
  assumes direct: "vm_direct vmm st" and e: "e \<le> 2 ^ 20" and z: "0 < z" "z \<le> 2 ^ 20" and a: "a + z < 2 ^ 32"
  shows "s \<le> r \<Longrightarrow> r + z < 2 ^ 32 \<Longrightarrow> b < z \<Longrightarrow> search_pos a s r \<Longrightarrow> \<forall>i < b. page_free st vmm (r + i) \<Longrightarrow>
    vmm_first_free_loop vmm (of_nat s) (of_nat e) (of_nat z) (of_nat a) False (of_nat r) (of_nat b) st =
      Some (if \<exists>q \<ge> r. search_pos a s q \<and> q + z \<le> e \<and> free_block st vmm z q
            then of_nat (LEAST q. r \<le> q \<and> search_pos a s q \<and> q + z \<le> e \<and> free_block st vmm z q) * 4096 else 0, st)"
proof (induction "(e - r) * (z + 1) + (z - b)" arbitrary: r b rule: less_induct)
  case less
  note prems = less.prems
  let ?P = "\<lambda>r q. r \<le> q \<and> search_pos a s q \<and> q + z \<le> e \<and> free_block st vmm z q"
  have a32: "a < 2 ^ 32" using a by simp
  note step = first_free_step [OF direct e prems(2,1,3) a32, where down = False, unfolded if_False]
  show ?case
  proof (cases "r + z \<le> e")
    case False
    then have none: "(\<exists>q \<ge> r. search_pos a s q \<and> q + z \<le> e \<and> free_block st vmm z q) = False" by auto
    show ?thesis unfolding none if_False step using False by simp
  next
    case fits: True
    show ?thesis
    proof (cases "page_free st vmm (r + b)")
      case False
      let ?r = "round_up a (r + b + 1)"
      have skip: "?P r q \<longleftrightarrow> ?P ?r q" for q
      proof
        assume q: "?P r q"
        have "\<not> q \<le> r + b"
        proof
          assume "q \<le> r + b"
          then have "r + b - q < z" "q + (r + b - q) = r + b" using prems(3) q by linarith+
          with q False show False unfolding free_block_def by metis
        qed
        moreover from this have "a = 0 \<or> q mod a = 0" using q prems(1) by (auto simp: search_pos_def)
        ultimately have "?r \<le> q" by (intro round_up_least) auto
        with q show "?P ?r q" by simp
      next
        assume "?P ?r q"
        moreover have "r \<le> ?r" using round_up_ge [of "r + b + 1" a] by simp
        ultimately show "?P r q" by auto
      qed
      have dec: "(e - ?r) * (z + 1) + (z - 0) < (e - r) * (z + 1) + (z - b)"
      proof -
        have "e - ?r \<le> e - (r + b + 1)" using round_up_ge [of "r + b + 1" a] by simp
        then have "(e - ?r) * (z + 1) \<le> (e - (r + b + 1)) * (z + 1)" by (rule mult_le_mono1)
        moreover obtain k where "e = r + b + 1 + k"
          using fits prems(3) by (metis add.assoc le_Suc_ex less_eq_Suc_le Suc_eq_plus1 add_le_cancel_left le_trans)
        ultimately show ?thesis using prems(3) by (simp add: algebra_simps)
      qed
      have "?r \<le> max a (2 ^ 21)" using round_up_bound [of a "r + b + 1"] fits prems(3) e by simp
      then have "?r + z < 2 ^ 32" using a z by (auto simp: max_def split: if_splits)
      moreover have "s \<le> ?r" using round_up_ge [of "r + b + 1" a] prems(1) by simp
      moreover have "search_pos a s ?r" using round_up_multiple [of a "r + b + 1"] by (simp add: search_pos_def)
      ultimately have "vmm_first_free_loop vmm (of_nat s) (of_nat e) (of_nat z) (of_nat a) False (of_nat ?r) (of_nat 0) st =
          Some (if \<exists>q. ?P ?r q then of_nat (LEAST q. ?P ?r q) * 4096 else 0, st)"
        using less.hyps [OF dec] z(1) by simp
      moreover have "?P r = ?P ?r" using skip by (rule ext)
      ultimately show ?thesis unfolding step by (simp only: fits False if_True not_False_eq_True)
    next
      case True
      have free: "\<forall>i < b + 1. page_free st vmm (r + i)"
        using prems(5) True by (simp add: less_Suc_eq)
      show ?thesis
      proof (cases "b + 1 = z")
        case last: True
        then have "?P r r" using free fits prems(4) by (simp add: free_block_def)
        moreover from this have "(LEAST q. ?P r q) = r" by (intro Least_equality) auto
        ultimately show ?thesis unfolding step using fits True last by auto
      next
        case False
        have dec: "(e - r) * (z + 1) + (z - (b + 1)) < (e - r) * (z + 1) + (z - b)"
          using prems(3) by simp
        have "b + 1 < z" using prems(3) False by simp
        from less.hyps [OF dec prems(1,2) this prems(4) free] show ?thesis
          unfolding step using fits True False by simp
      qed
    qed
  qed
qed


text \<open>
  The downward search goes from \<open>r\<close> to the last position below \<open>r - b\<close> when it finds the mapped
  page \<open>r + b\<close>. A run of free pages that is long enough is not jumped over.
\<close>

definition down_run :: "nat \<Rightarrow> nat \<Rightarrow> nat" where
  "down_run a z = 2 * z - 2 + max 1 a"

definition round_down :: "nat \<Rightarrow> nat \<Rightarrow> nat" where
  "round_down a r = (if a = 0 then r else r - r mod a)"

lemma round_down_facts:
  shows "round_down a r \<le> r" and "search_pos a s (round_down a r)" and "r < round_down a r + max 1 a"
proof -
  show "round_down a r \<le> r" by (simp add: round_down_def)
  show "search_pos a s (round_down a r)" by (simp add: search_pos_def round_down_def minus_mod_eq_mult_div)
  show "r < round_down a r + max 1 a"
    unfolding round_down_def using mod_less_divisor [of a r] mod_less_eq_dividend [of r a] by (simp only: split: if_splits) linarith
qed

lemma round_down_step:
  assumes "b < r" and "r < 2 ^ 32" and "a < 2 ^ 32"
  shows "(let w = of_nat r - (of_nat b + 1) :: u32 in if (of_nat a :: u32) \<noteq> 0 \<and> w mod of_nat a \<noteq> 0 then w - w mod of_nat a else w) =
    of_nat (round_down a (r - (b + 1)))"
proof -
  have "of_nat r - (of_nat b + 1) = (of_nat (r - (b + 1)) :: u32)"
    using assms(1) by (simp add: of_nat_diff)
  moreover have "r - (b + 1) < 2 ^ 32" using assms(2) by simp
  ultimately show ?thesis unfolding Let_def round_down_def by (simp only: round_down_word assms(3))
qed

lemma first_free_down_spec:
  assumes direct: "vm_direct vmm st" and e: "e \<le> 2 ^ 20" and z: "0 < z" "z \<le> s" and s: "s \<le> 2 ^ 21" and a: "a < 2 ^ 32"
  shows "r + z \<le> e \<Longrightarrow> b < z \<Longrightarrow> search_pos a (e - z) r \<Longrightarrow> \<forall>i < b. page_free st vmm (r + i) \<Longrightarrow>
    \<forall>p. s \<le> p \<and> p + down_run a z \<le> e \<and> free_block st vmm (down_run a z) p \<longrightarrow> p \<le> r \<Longrightarrow>
    \<exists>q. vmm_first_free_loop vmm (of_nat s) (of_nat e) (of_nat z) (of_nat a) True (of_nat r) (of_nat b) st = Some (of_nat q * 4096, st) \<and>
      (q = 0 \<or> s \<le> q \<and> q + z \<le> e \<and> search_pos a (e - z) q \<and> free_block st vmm z q) \<and>
      (\<forall>p. s \<le> p \<and> p + down_run a z \<le> e \<and> free_block st vmm (down_run a z) p \<longrightarrow> p \<le> q)"
proof (induction "r * (z + 1) + (z - b)" arbitrary: r b rule: less_induct)
  case less
  note prems = less.prems
  have r32: "r + z < 2 ^ 32" using prems(1) e by simp
  show ?case
  proof (cases "s \<le> r")
    case False
    then have "\<not> (of_nat s :: u32) \<le> of_nat r" if "s < 2 ^ 32"
      using that r32 by (simp add: word_le_nat_alt unat_of_nat_u32)
    then have "vmm_first_free_loop vmm (of_nat s) (of_nat e) (of_nat z) (of_nat a) True (of_nat r) (of_nat b) st = Some (of_nat 0 * 4096, st)"
      using s by (subst vmm_first_free_loop.simps) simp
    then show ?thesis using False prems(5) by (intro exI [of _ 0]) auto
  next
    case sr: True
    note step = first_free_step [OF direct e r32 sr prems(2) a, where down = True, unfolded if_True]
    show ?thesis
    proof (cases "page_free st vmm (r + b)")
      case False
      let ?r = "round_down a (r - (b + 1))"
      have br: "b < r" using prems(2) z sr by simp
      have "?r < r" using round_down_facts(1) [of a "r - (b + 1)"] br by simp
      then have "(?r + 1) * (z + 1) \<le> r * (z + 1)" by (intro mult_le_mono1) simp
      then have "?r * (z + 1) + (z + 1) \<le> r * (z + 1)" unfolding add_mult_distrib [of "?r" 1] by (simp only: mult_1)
      then have dec: "?r * (z + 1) + (z - 0) < r * (z + 1) + (z - b)"
        by (intro less_le_trans [OF _ trans_le_add1]) simp_all
      have fits: "?r + z \<le> e" using \<open>?r < r\<close> prems(1) by simp
      have runs: "\<forall>p. s \<le> p \<and> p + down_run a z \<le> e \<and> free_block st vmm (down_run a z) p \<longrightarrow> p \<le> ?r"
      proof (intro allI impI)
        fix p assume p: "s \<le> p \<and> p + down_run a z \<le> e \<and> free_block st vmm (down_run a z) p"
        then have "p \<le> r" using prems(5) by blast
        have "\<not> r + b < p + down_run a z"
        proof
          assume "r + b < p + down_run a z"
          then have "r + b - p < down_run a z" "p + (r + b - p) = r + b" using \<open>p \<le> r\<close> by linarith+
          with p False show False unfolding free_block_def by metis
        qed
        then show "p \<le> ?r" using round_down_facts(3) [of "r - (b + 1)" a] prems(2) br unfolding down_run_def by linarith
      qed
      have next_r: "vmm_first_free_loop vmm (of_nat s) (of_nat e) (of_nat z) (of_nat a) True (of_nat r) (of_nat b) st =
          vmm_first_free_loop vmm (of_nat s) (of_nat e) (of_nat z) (of_nat a) True (of_nat ?r) (of_nat 0) st"
        unfolding step round_down_step [OF br add_lessD1 [OF r32] a] by (simp only: prems(1) False if_True not_False_eq_True)
      show ?thesis
        unfolding next_r using less.hyps [OF dec fits z(1) round_down_facts(2) _ runs] by simp
    next
      case True
      have free: "\<forall>i < b + 1. page_free st vmm (r + i)"
        using prems(4) True by (simp add: less_Suc_eq)
      show ?thesis
      proof (cases "b + 1 = z")
        case last: True
        then have "free_block st vmm z r" using free by (simp add: free_block_def)
        then show ?thesis unfolding step using prems(1,3,5) sr True last by (intro exI [of _ r]) simp
      next
        case False
        have dec: "r * (z + 1) + (z - (b + 1)) < r * (z + 1) + (z - b)" using prems(2) by simp
        have "b + 1 < z" using prems(2) False by simp
        from less.hyps [OF dec prems(1) this prems(3) free prems(5)] show ?thesis
          unfolding step using prems(1) True False by simp
      qed
    qed
  qed
qed


lemma vmm_first_free_pages:
  assumes "unat va_start \<le> 2 ^ 32 - 4096" and "0 < unat sz" and "unat sz \<le> 2 ^ 32 - 4096"
    and "z = (unat sz + 4095) div 4096" and "e = unat va_end div 4096"
    and "s = (if va_start = 0 then 1 else (unat va_start + 4095) div 4096)" and "a = unat align div z"
  shows "vmm_first_free vmm va_start va_end sz align down st =
      vmm_first_free_loop vmm (of_nat s) (of_nat e) (of_nat z) (of_nat a) down
        (if down then of_nat e - of_nat z else of_nat s) (of_nat 0) st"
    and "e \<le> 2 ^ 20" and "0 < z" and "z \<le> 2 ^ 20" and "s \<le> 2 ^ 21"
proof -
  show "e \<le> 2 ^ 20"
    using less_mult_imp_div_less [of "unat va_end" "2 ^ 20" 4096] unat_u32_less [of va_end]
    by (simp add: assms(5))
  show z: "0 < z" "z \<le> 2 ^ 20" and "s \<le> 2 ^ 21" using assms(1-4,6) by auto
  have ze: "(sz + 4096 - 1) div 4096 = of_nat z" using pages_of_nat [OF assms(3)] assms(4) by simp
  have se: "(if va_start = 0 then 1 else (va_start + 4096 - 1) div 4096) = of_nat s"
    using pages_of_nat [OF assms(1)] assms(6) by simp
  have ee: "va_end div 4096 = of_nat e"
    unfolding assms(5) using word_arith_nat_div [of va_end 4096] by simp
  have nz: "(of_nat z :: u32) \<noteq> 0" using of_nat_zero_u32 [of z] z by simp
  have ae: "align div of_nat z = of_nat a"
    unfolding assms(7) using word_arith_nat_div [of align "of_nat z"] z by (simp add: unat_of_nat_u32)
  show "vmm_first_free vmm va_start va_end sz align down st =
      vmm_first_free_loop vmm (of_nat s) (of_nat e) (of_nat z) (of_nat a) down
        (if down then of_nat e - of_nat z else of_nat s) (of_nat 0) st"
    unfolding vmm_first_free_def Let_def ze se ee ae using nz by simp
qed

text \<open>
  Two free pages below a mapped one: the upward search finds them, the downward search steps over
  their position. At the lower end of the address space it wraps around instead, to the last pages
  of the address space, which lie outside of the range.
\<close>

lemma vmm_first_free_down_misses:
  assumes "vm_direct vmm st" and "2 \<le> p" and "p < 2 ^ 19"
    and "page_free st vmm p" and "page_free st vmm (p + 1)" and "\<not> page_free st vmm (p + 2)"
  shows "vmm_first_free vmm (of_nat (p * 4096)) (of_nat ((p + 3) * 4096)) 0x2000 0 True st = Some (0, st)"
proof -
  have "unat (of_nat (p * 4096) :: u32) = p * 4096" using assms(3) by (intro unat_of_nat_u32) simp
  moreover have "unat (of_nat ((p + 3) * 4096) :: u32) = (p + 3) * 4096" using assms(3) by (intro unat_of_nat_u32) simp
  moreover have "(of_nat (p * 4096) :: u32) \<noteq> 0" using of_nat_zero_u32 [of "p * 4096"] assms(2,3) by simp
  ultimately have "vmm_first_free vmm (of_nat (p * 4096)) (of_nat ((p + 3) * 4096)) 0x2000 0 True st =
      vmm_first_free_loop vmm (of_nat p) (of_nat (p + 3)) (of_nat 2) (of_nat 0) (True) (if True then of_nat (p + 3) - of_nat 2 else of_nat p) (of_nat 0) st"
    using assms(3) by (intro vmm_first_free_pages(1)) simp_all
  also have "(if True then of_nat (p + 3) - of_nat 2 else of_nat p :: u32) = of_nat (p + 1)" by simp
  also have "vmm_first_free_loop vmm (of_nat p) (of_nat (p + 3)) (of_nat 2) (of_nat 0) True (of_nat (p + 1)) (of_nat 0) st =
      vmm_first_free_loop vmm (of_nat p) (of_nat (p + 3)) (of_nat 2) (of_nat 0) True (of_nat (p + 1)) (of_nat (0 + 1)) st"
    using first_free_step [OF assms(1), of "p + 3" "p + 1" 2 p 0 0 True] assms(3,5) by simp
  also have "\<dots> = vmm_first_free_loop vmm (of_nat p) (of_nat (p + 3)) (of_nat 2) (of_nat 0) True (of_nat (p - 1)) (of_nat 0) st"
    using first_free_step [OF assms(1), of "p + 3" "p + 1" 2 p 1 0 True] assms(2,3,6) by (simp add: of_nat_diff)
  also have "\<dots> = Some (0, st)"
  proof -
    have "unat (of_nat (p - 1) :: u32) = p - 1" "unat (of_nat p :: u32) = p" using assms(3) by (intro unat_of_nat_u32, simp)+
    then have "\<not> (of_nat p :: u32) \<le> of_nat (p - 1)" unfolding word_le_nat_alt using assms(2) by linarith
    then show ?thesis by (subst vmm_first_free_loop.simps) (simp only: simp_thms if_False)
  qed
  finally show ?thesis .
qed

lemma vmm_first_free_down_wraps:
  assumes "vm_direct vmm st" and "page_free st vmm 1" and "\<not> page_free st vmm 2"
    and "page_free st vmm (2 ^ 20 - 1)" and "page_free st vmm 0"
  shows "vmm_first_free vmm 0 0x3000 0x2000 0 True st = Some (0xFFFFF000, st)"
proof -
  have pg: "\<exists>x. vmm_get_pgsz vmm va st = (x, st)" for va
    using vmm_get_pgsz_direct [OF assms(1)] by blast
  obtain x where "vmm_get_pgsz vmm 0x2000 st = (Some x, st)" using assms(3) pg [of "0x2000"] by (auto simp: page_free_def)
  moreover have top_page: "of_nat (2 ^ 20 - 1) * 4096 = (- 0x1000 :: u32)" by simp
  have "fst (vmm_get_pgsz vmm (- 0x1000) st) = None" using assms(4) unfolding page_free_def top_page .
  then have "vmm_get_pgsz vmm (- 0x1000) st = (None, st)" using pg [of "- 0x1000"] by (elim exE) (simp only: fst_conv)
  moreover have "vmm_get_pgsz vmm 0x1000 st = (None, st)" "vmm_get_pgsz vmm 0 st = (None, st)"
    using assms(2,5) pg [of "0x1000"] pg [of 0] by (auto simp: page_free_def)
  ultimately show ?thesis
    by (simp add: vmm_first_free_def vmm_first_free_loop.simps [of _ _ _ _ _ _ 1]
        vmm_first_free_loop.simps [of _ _ _ _ _ _ size_max])
qed

section \<open>Properties\<close>

text \<open>
  C9: searching a range of addresses for \<open>sz\<close> bytes returns and changes nothing. Counted in pages, the
  search is for \<open>z\<close> free pages in a row between \<open>s\<close> and \<open>e\<close>. The alignment in effect is
  \<open>a = align div z\<close> pages, not the boundary \<open>align\<close> that vmm.h documents: the positions that are
  tried are the first one, aligned or not, and the multiples of \<open>a\<close>, or all when \<open>align < z\<close> and so
  \<open>a = 0\<close>. Upwards the result is the address of the lowest such position with a free block,
  and 0 exactly when there is none. Downwards (with \<open>z \<le> s\<close>, so that no position wraps below 0) the result
  is 0 or the address of a free block at such a position, but not always of the highest one: it is
  only guaranteed to be at or above every run of \<open>down_run a z = 2 z - 2 + max 1 a\<close> free pages.
\<close>

theorem vmm_first_free_lowest:
  assumes "vm_direct vmm st" and "unat va_start \<le> 2 ^ 32 - 4096" and "0 < unat sz" and "unat sz \<le> 2 ^ 32 - 4096"
    and "z = (unat sz + 4095) div 4096" and "e = unat va_end div 4096"
    and "s = (if va_start = 0 then 1 else (unat va_start + 4095) div 4096)"
    and "a = unat align div z" and "a + z < 2 ^ 32"
  shows "vmm_first_free vmm va_start va_end sz align False st =
      Some (if \<exists>q \<ge> s. search_pos a s q \<and> q + z \<le> e \<and> free_block st vmm z q
            then of_nat (LEAST q. s \<le> q \<and> search_pos a s q \<and> q + z \<le> e \<and> free_block st vmm z q) * 4096 else 0, st) \<and>
    (z \<le> s \<and> z \<le> e \<longrightarrow>
      (\<exists>q. vmm_first_free vmm va_start va_end sz align True st = Some (of_nat q * 4096, st) \<and>
        (q = 0 \<or> s \<le> q \<and> q + z \<le> e \<and> search_pos a (e - z) q \<and> free_block st vmm z q) \<and>
        (\<forall>p. s \<le> p \<and> p + down_run a z \<le> e \<and> free_block st vmm (down_run a z) p \<longrightarrow> p \<le> q)))"
proof -
  note pages = vmm_first_free_pages [OF assms(2-8)]
  note loop = pages(1) and e = pages(2) and z = pages(3,4) and s = pages(5)
  have "search_pos a s s" "search_pos a (e - z) (e - z)" by (simp_all add: search_pos_def)
  show ?thesis
  proof (intro conjI impI)
    show "vmm_first_free vmm va_start va_end sz align False st =
        Some (if \<exists>q \<ge> s. search_pos a s q \<and> q + z \<le> e \<and> free_block st vmm z q
          then of_nat (LEAST q. s \<le> q \<and> search_pos a s q \<and> q + z \<le> e \<and> free_block st vmm z q) * 4096 else 0, st)"
      unfolding loop if_False using first_free_up_spec [OF assms(1) e z assms(9) order.refl _ z(1) \<open>search_pos a s s\<close>] s z by simp
  next
    assume ze: "z \<le> s \<and> z \<le> e"
    then have "of_nat e - of_nat z = (of_nat (e - z) :: u32)" by (simp add: of_nat_diff)
    moreover have "z \<le> down_run a z" using z unfolding down_run_def by linarith
    then have "\<forall>p. s \<le> p \<and> p + down_run a z \<le> e \<and> free_block st vmm (down_run a z) p \<longrightarrow> p \<le> e - z" by auto
    ultimately show "\<exists>q. vmm_first_free vmm va_start va_end sz align True st = Some (of_nat q * 4096, st) \<and>
        (q = 0 \<or> s \<le> q \<and> q + z \<le> e \<and> search_pos a (e - z) q \<and> free_block st vmm z q) \<and>
        (\<forall>p. s \<le> p \<and> p + down_run a z \<le> e \<and> free_block st vmm (down_run a z) p \<longrightarrow> p \<le> q)"
      unfolding loop if_True
      using first_free_down_spec [OF assms(1) e z(1) conjunct1 [OF ze] s _ _ z(1) \<open>search_pos a (e - z) (e - z)\<close>] assms(9) ze by simp
  qed
qed


text \<open>
  In the example space the first 4M are mapped. An alignment of 4K for one page, from a mapped page
  on, leads to the address 16M; downwards the search finds a free page in the upper half of the range.
\<close>

lemma vmm_example_pgsz:
  "fst (vmm_get_pgsz 0x1000 va vm_example) = (if pde_of va = 0 then Some 1 else None)"
proof -
  have "e_pgsz (0x400087 :: u32)" by simp
  then show ?thesis
    using vm_example_wf(1) by (simp add: vmm_get_pgsz_def vm_walk_direct Let_def)
qed

lemma vmm_example_free: "p < 2 ^ 20 \<Longrightarrow> page_free vm_example 0x1000 p \<longleftrightarrow> 1024 \<le> p"
proof -
  assume "p < 2 ^ 20"
  then have "unat (of_nat (p * 4096) :: u32) = p * 4096" by (simp add: unat_of_nat_u32 del: of_nat_mult)
  then have "unat (of_nat p * 4096 :: u32) = p * 4096" by simp
  then have "pde_of (of_nat p * 4096) = p div 1024" by (simp add: pde_of_div)
  then show ?thesis by (auto simp: page_free_def vmm_example_pgsz)
qed

theorem vmm_first_free_lowest_witness:
  "vmm_first_free 0x1000 0x3FF000 0x2000000 100 0x1000 False vm_example = Some (0x1000000, vm_example) \<and>
   (\<exists>q. 4096 \<le> q \<and> q < 8192 \<and> vmm_first_free 0x1000 0x3FF000 0x2000000 100 0x1000 True vm_example = Some (of_nat q * 4096, vm_example))"
proof -
  let ?P = "\<lambda>q. 1023 \<le> q \<and> search_pos 4096 1023 q \<and> q + 1 \<le> 8192 \<and> free_block vm_example 0x1000 1 q"
  have free: "q + 1 \<le> 8192 \<Longrightarrow> free_block vm_example 0x1000 1 q \<longleftrightarrow> 1024 \<le> q" for q
    by (simp add: free_block_def vmm_example_free)
  have at: "?P 4096" using free [of 4096] by (simp add: search_pos_def del: One_nat_def)
  have least: "(LEAST q. ?P q) = 4096"
  proof (rule Least_equality)
    show "?P 4096" by (rule at)
    fix q assume q: "?P q"
    then have "1024 \<le> q" using free [of q] by blast
    with q have "4096 dvd q" "0 < q" by (auto simp: search_pos_def)
    then show "4096 \<le> q" by (rule dvd_imp_le)
  qed
  have ex: "\<exists>q\<ge>1023. search_pos 4096 1023 q \<and> q + 1 \<le> 8192 \<and> free_block vm_example 0x1000 1 q" using at by blast
  have run: "1023 \<le> (4096 :: nat) \<and> 4096 + down_run 4096 1 \<le> 8192 \<and> free_block vm_example 0x1000 (down_run 4096 1) 4096"
    by (simp add: down_run_def free_block_def vmm_example_free)
  have both: "vmm_first_free 0x1000 0x3FF000 0x2000000 100 0x1000 False vm_example =
        Some (if \<exists>q\<ge>1023. search_pos 4096 1023 q \<and> q + 1 \<le> 8192 \<and> free_block vm_example 0x1000 1 q
          then of_nat (LEAST q. ?P q) * 4096 else 0, vm_example) \<and>
      (1 \<le> (1023 :: nat) \<and> 1 \<le> (8192 :: nat) \<longrightarrow>
        (\<exists>q. vmm_first_free 0x1000 0x3FF000 0x2000000 100 0x1000 True vm_example = Some (of_nat q * 4096, vm_example) \<and>
          (q = 0 \<or> 1023 \<le> q \<and> q + 1 \<le> 8192 \<and> search_pos 4096 (8192 - 1) q \<and> free_block vm_example 0x1000 1 q) \<and>
          (\<forall>p. 1023 \<le> p \<and> p + down_run 4096 1 \<le> 8192 \<and> free_block vm_example 0x1000 (down_run 4096 1) p \<longrightarrow> p \<le> q)))"
    by (rule vmm_first_free_lowest [OF vm_example_wf(1)]) simp_all
  have "vmm_first_free 0x1000 0x3FF000 0x2000000 100 0x1000 False vm_example = Some (0x1000000, vm_example)"
    unfolding conjunct1 [OF both] least if_P [OF ex] by simp
  moreover from both obtain q where
    "vmm_first_free 0x1000 0x3FF000 0x2000000 100 0x1000 True vm_example = Some (of_nat q * 4096, vm_example)"
    "q = 0 \<or> q + 1 \<le> 8192" and "4096 \<le> q" using run by force
  moreover from this have "q < 8192" by linarith
  ultimately show ?thesis by blast
qed

text \<open>
  \<open>vmm_map\<close> of a virtual address that is not page aligned (with an aligned physical address)
  maps nothing, when the rounded size is not larger than the page's address: the adjustment
  \<open>d = delta - va\<close> cancels the start of the range, which then ends below where it begins.
\<close>

lemma vmm_map_unaligned:
  assumes "va mod 4096 \<noteq> 0" and "pa mod 4096 = 0" and "0 < page_up sz" and "page_up sz \<le> va div 4096 * 4096"
  shows "\<exists>r. vmm_map vmm pa va sz idx flags st = Some (r, st)"
proof -
  define va' where "va' = va div 4096 * 4096"
  have pos: "0 < va'" using assms(3,4) by (simp add: va'_def)
  have "(sz - va') mod 4096 = sz mod 4096"
    by (rule mod_4096_diff) (simp add: va'_def page_down_mod)
  then have "va' + page_up (sz - va') = page_up sz" by (simp add: page_up_def)
  then have stop: "\<not> va' < va' + page_up (sz - va')" using assms(4) by (simp add: va'_def not_less)
  have "vmm_map_loop vmm pa va' (va' + page_up (sz - va')) i flags st = Some (va', st)" for i
    using stop by (subst vmm_map_loop.simps) simp
  moreover have "- va' \<noteq> 0" using pos by auto
  then have "0 < - va'" by (simp add: word_neq_0_conv [symmetric])
  ultimately show ?thesis
    using assms(1,2) by (simp add: vmm_map_def Let_def va'_def [symmetric])
qed

lemma vmm_map_unaligned_witness:
  "\<exists>r. vmm_map 0x1000 0x8000 0x5008 0x100 0 3 vm_example = Some (r, vm_example)"
  by (rule vmm_map_unaligned) (simp_all add: page_up_def)

text \<open>
  a copy-on-write clone of the current address space has no user pages at all when physical
  frame 0 is zero: \<open>vmm_clone\<close> wipes the user half of the new directory and then looks up the page
  tables to share in the new directory instead of the source's, so it reads physical frame 0. No
  trap is set up and every user address of the clone is unmapped.
\<close>

lemma vmm_clone_cow_empty:
  assumes "src = vmm_current st" and "vm_win st = []" and "\<not> pmm_alloc_mutex (vm_pmm st)"
    and "g < pmm_frames (vm_pmm st)" "\<not> pmm_used (vm_pmm st) g" and "pmm_frames (vm_pmm st) \<le> 2 ^ 20"
    and "pmm_used (vm_pmm st) 0" and "pmm_used (vm_pmm st) (pd_frame src)"
    and "kernel_start st = rmap_start" and "vm_phys st 0 = (\<lambda>_. 0)"
  shows "\<exists>dst st'. vmm_clone src True st = Some (dst, st') \<and> dst \<noteq> 0 \<and> vmm_traps st' = vmm_traps st \<and>
    (\<forall>va < rmap_start. fst (vmm_get_paddr dst va st') = 0)"
proof -
  obtain pmm f where alloc: "pmm_alloc_free (vm_pmm st) 1 = Some (pmm, Some f)"
    using pmm_alloc_free_frame [OF assms(3)] assms(4,5) by (auto split: option.splits prod.splits)
  then have f: "f < pmm_frames (vm_pmm st)" "\<not> pmm_used (vm_pmm st) f"
    using pmm_alloc_free_frame [OF assms(3)] by auto
  have f20: "f < 2 ^ 20" using f(1) assms(6) by simp
  have f0: "f \<noteq> 0" "f \<noteq> pd_frame src" using f(2) assms(7,8) by metis+
  define dst where "dst = push_bit 12 (of_nat f :: u32)"
  define st1 where "st1 = st\<lparr>vm_pmm := pmm, vm_phys := (vm_phys st)(f := clone_pd (vm_phys st (pd_frame src)) True 767 f)\<rparr>"
  have dstf: "pd_frame dst = f" using f20 by (simp add: dst_def)
  have tables: "pde_of rmap_start = 767" by (simp add: pde_of_def)
  have zero: "vm_phys st1 f i = 0" if "i < 767" for i
    using that by (simp add: st1_def clone_pd_def tables)
  have frame0: "vm_phys st1 0 = (\<lambda>_. 0)" using f0 assms(10) by (simp add: st1_def)
  have entry: "clone_cow_entry src dst i st1 = Some st1" if "i < 767" for i
  proof -
    have "fold_opt (\<lambda>j st. if vm_read st 0 j \<noteq> 0 then F j st else Some st) js st1 = Some st1" for F js
      by (induction js) (simp_all add: vm_read_def frame0)
    then show ?thesis
      using zero [OF that] by (simp add: clone_cow_entry_def Let_def e_frame_def vm_read_def dstf)
  qed
  have steps: "fold_opt (\<lambda>i st. if vm_pde st src i \<noteq> 0 then clone_cow_entry src dst i st else Some st) is st1 = Some st1"
    if "set is \<subseteq> {..<767}" for "is"
    using that by (induction "is") (simp_all add: entry)
  have loop: "fold_opt (\<lambda>i st. if vm_pde st src i \<noteq> 0 then clone_cow_entry src dst i st else Some st) [0..<767] st1 = Some st1"
    by (rule steps) auto
  have "vmm_clone src True st = Some (dst, st1)"
    using assms(2,9) alloc loop
    by (simp add: vmm_clone_def vm_pop_def vm_window_def tables Let_def dst_def st1_def assms(1) cong: if_cong)
  moreover have "fst (vmm_get_paddr dst va st1) = 0" if "va < rmap_start" for va
  proof -
    have "pde_of va < 767"
      using that by (simp add: pde_of_div word_less_nat_alt less_mult_imp_div_less)
    moreover have "vm_direct dst st1" using assms(2) by (simp add: vm_direct_def st1_def)
    ultimately show ?thesis by (simp add: vmm_get_paddr_ptw ptw_def dstf zero Let_def)
  qed
  moreover have "dst \<noteq> 0" using dstf f0 by (auto simp: pd_frame_def)
  ultimately show ?thesis by (intro exI [of _ dst] exI [of _ st1]) (simp add: st1_def)
qed

text \<open>The example space maps \<^verbatim>\<open>0x3000\<close>; its copy-on-write clone does not.\<close>

lemma vmm_clone_cow_empty_witness:
  "\<exists>st dst st'. fst (vmm_get_paddr 0x1000 0x3000 st) = 0x403000 \<and>
     vmm_clone 0x1000 True st = Some (dst, st') \<and> fst (vmm_get_paddr dst 0x3000 st') = 0"
proof -
  let ?st = "vm_example\<lparr>vm_pmm := \<lparr>pmm_bitmap = (\<lambda>_. 3), pmm_frames = 64, pmm_alloc_mutex = False\<rparr>\<rparr>"
  have "\<exists>dst st'. vmm_clone 0x1000 True ?st = Some (dst, st') \<and> dst \<noteq> 0 \<and> vmm_traps st' = vmm_traps ?st \<and>
      (\<forall>va < rmap_start. fst (vmm_get_paddr dst va st') = 0)"
    by (rule vmm_clone_cow_empty [where g = 2])
       (simp_all add: vm_example_def pmm_used_def pd_frame_def fun_eq_iff bit_iff_odd)
  moreover have "fst (vmm_get_paddr 0x1000 0x3000 ?st) = 0x403000" by code_simp
  ultimately show ?thesis by fastforce
qed

text \<open>
  C8: \<open>vmm_pgunmap\<close> of an untrapped 4K page removes its translation and leaves every other address
  of the space as it was.
\<close>

theorem vmm_pgunmap_small_translation:
  assumes "vm_direct vmm st" and "tables_wf (vm_phys st) (pd_frame vmm)"
    and "has_pt (vm_phys st) (pd_frame vmm) (pde_of va)" and "\<not> (rmap_start \<le> va \<and> va < rmap_end)"
    and "\<not> e_trapped (vm_read st (e_frame (vm_pde st vmm (pde_of va))) (pte_of va))"
  shows "\<exists>st'. vmm_pgunmap vmm va 0 st = Some st' \<and>
    (\<forall>va'. pde_of va' \<noteq> 767 \<longrightarrow> fst (vmm_get_paddr vmm va' st') =
      (if drop_bit 12 va' = drop_bit 12 va then 0 else fst (vmm_get_paddr vmm va' st)))"
proof -
  define d where "d = vm_phys st (pd_frame vmm) (pde_of va)"
  let ?st1 = "vm_write (e_frame d) (pte_of va) 0 st"
  let ?inval = "vmm = vmm_current st \<or> e_global (vm_read st (e_frame d) (pte_of va))"
  have d: "d \<noteq> 0" "\<not> e_pgsz d" using assms(3) by (simp_all add: d_def has_pt_def)
  have "vmm_pgunmap_small vmm va st = Some (if ?inval then vm_flush [va] ?st1 else ?st1)"
    using d assms(1,5) by (simp add: vmm_pgunmap_small_def Let_def vm_read_def d_def [symmetric])
  then have run: "vmm_pgunmap vmm va 0 st = Some (if ?inval then vm_flush [va] ?st1 else ?st1)"
    using assms(4) unfolding vmm_pgunmap_def by (simp only: if_False if_True simp_thms)
  have M': "vm_phys ?st1 = (let M1 = (vm_phys st)(pd_frame vmm := (vm_phys st (pd_frame vmm))(pde_of va := d))
      in M1(e_frame d := (M1 (e_frame d))(pte_of va := 0)))"
    by (simp add: d_def fun_upd_idem Let_def)
  have "ptw (vm_phys ?st1) (pd_frame vmm) va' =
      (if drop_bit 12 va' = drop_bit 12 va then 0 else ptw (vm_phys st) (pd_frame vmm) va')" if "pde_of va' \<noteq> 767" for va'
    using ptw_write_entry [OF assms(2,3) d _ M' that] same_page_iff [of va' va] by (simp add: d_def)
  moreover define st2 where "st2 = (if ?inval then vm_flush [va] ?st1 else ?st1)"
  then have "vm_direct vmm st2" "vm_phys st2 = vm_phys ?st1" using assms(1) by simp_all
  ultimately have "\<forall>va'. pde_of va' \<noteq> 767 \<longrightarrow> fst (vmm_get_paddr vmm va' st2) =
      (if drop_bit 12 va' = drop_bit 12 va then 0 else fst (vmm_get_paddr vmm va' st))"
    using vmm_get_paddr_ptw [OF assms(1)] by (simp add: vmm_get_paddr_ptw)
  moreover have "vmm_pgunmap vmm va 0 st = Some st2" using run by (simp only: st2_def)
  ultimately show ?thesis by blast
qed

theorem vmm_pgunmap_small_translation_witness:
  "\<exists>st st'. fst (vmm_get_paddr 0x1000 0x3008 st) = 0x7008 \<and>
     vmm_pgunmap 0x1000 0x3000 0 st = Some st' \<and> fst (vmm_get_paddr 0x1000 0x3008 st') = 0"
proof -
  let ?st = "vm_example\<lparr>vm_phys := (\<lambda>f i. if f = 1 \<and> i = 0 then 0x2003 else if f = 2 \<and> i = 3 then 0x7003 else 0)\<rparr>"
  have pt: "has_pt (vm_phys ?st) (pd_frame 0x1000) i \<longleftrightarrow> i = 0" for i
    by (simp add: has_pt_def pd_frame_def)
  have "tables_wf (vm_phys ?st) (pd_frame 0x1000)"
    unfolding tables_wf_def pt by (auto simp: pd_frame_def e_frame_def)
  moreover have "vm_direct 0x1000 ?st" by (simp add: vm_direct_def vm_example_def)
  moreover have "has_pt (vm_phys ?st) (pd_frame 0x1000) (pde_of 0x3000)" by (subst pt) (simp add: pde_of_def)
  moreover have "\<not> e_trapped (vm_read ?st (e_frame (vm_pde ?st 0x1000 (pde_of 0x3000))) (pte_of 0x3000))"
    by (simp add: vm_read_def e_frame_def pd_frame_def pde_of_def pte_of_def)
  ultimately have "\<exists>st'. vmm_pgunmap 0x1000 0x3000 0 ?st = Some st' \<and>
    (\<forall>va'. pde_of va' \<noteq> 767 \<longrightarrow> fst (vmm_get_paddr 0x1000 va' st') =
      (if drop_bit 12 va' = drop_bit 12 (0x3000 :: u32) then 0 else fst (vmm_get_paddr 0x1000 va' ?st)))"
    by (intro vmm_pgunmap_small_translation) simp_all
  then obtain st' where run: "vmm_pgunmap 0x1000 0x3000 0 ?st = Some st'"
    and paddr: "pde_of 0x3008 \<noteq> 767 \<Longrightarrow> fst (vmm_get_paddr 0x1000 0x3008 st') = 0"
    by fastforce
  have "fst (vmm_get_paddr 0x1000 0x3008 ?st) = 0x7008" by code_simp
  moreover have "pde_of 0x3008 \<noteq> 767" by (simp add: pde_of_def)
  ultimately show ?thesis using run paddr by blast
qed

end
