(* ===== verification/Ftab.thy ===== *)
theory Ftab
  imports Vfs Vmm
begin

text \<open>
  \<^verbatim>\<open>fs/ftab.c\<close>: the table of open files. An entry is in use when it has a node; it counts its
  openers and may be held by one process exclusively. Processes and nodes are numbers, an entry is
  named by its index (the code hands out its address), \<open>refs\<close> is the 30-bit field of the structure. The
  answers of \<open>krealloc\<close> come from the heap of the memory state. A result of \<open>None\<close> is a call that
  does not return: a mutex that nobody will release, or a handler that does not return.
\<close>

record ftab_ent =
  ft_node :: "nat option"
  ft_read :: bool
  ft_write :: bool
  ft_refs :: "30 word"
  ft_excl :: "nat option"
  ft_mutex :: mutex

record ('h, 'z) ftabs =
  k_fs :: "('h, 'z) vfs_scheme"
  k_vm :: vm
  k_ftab :: "ftab_ent list"
  k_ftab_mutex :: mutex

definition blank_ftab :: ftab_ent where
  "blank_ftab = \<lparr>ft_node = None, ft_read = False, ft_write = False, ft_refs = 0, ft_excl = None, ft_mutex = False\<rparr>"

definition put_ftab :: "nat \<Rightarrow> ftab_ent \<Rightarrow> ('h, 'z, 'y) ftabs_scheme \<Rightarrow> ('h, 'z, 'y) ftabs_scheme" where
  "put_ftab i e st = st\<lparr>k_ftab := (k_ftab st)[i := e]\<rparr>"

text \<open>The scan: the first entry that is empty or already has the node, or room for four more.\<close>

definition ftab_slot :: "nat option \<Rightarrow> ftab_ent \<Rightarrow> bool" where
  "ftab_slot node e \<longleftrightarrow> ft_node e = None \<or> ft_node e = node"

definition ftab_find :: "nat option \<Rightarrow> ('h, 'z, 'y) ftabs_scheme \<Rightarrow> nat option \<times> ('h, 'z, 'y) ftabs_scheme" where
  "ftab_find node st =
     (let (grown, vm) = (if find_idx (ftab_slot node) (k_ftab st) < length (k_ftab st) then (False, k_vm st)
                         else vm_realloc (k_vm st));
          st = st\<lparr>k_vm := vm\<rparr>
      in case slot_find (ftab_slot node) 4 blank_ftab grown (k_ftab st) of
           None \<Rightarrow> (None, st)
         | Some (i, tab) \<Rightarrow> (Some i, st\<lparr>k_ftab := tab\<rparr>))"

text \<open>The entry is empty: the file is opened for the first time. Failing returns with both locks held.\<close>

definition ftab_open_first ::
  "('h \<Rightarrow> ('h, 'z) vhook) \<Rightarrow> nat option \<Rightarrow> nat \<Rightarrow> bool \<Rightarrow> bool \<Rightarrow> bool \<Rightarrow> nat \<Rightarrow> ('h, 'z, 'y) ftabs_scheme \<Rightarrow>
     (nat option \<times> ('h, 'z, 'y) ftabs_scheme) option" where
  "ftab_open_first ops node proc r w excl i st =
     do { (ok, fs) \<leftarrow> vfs_open ops node r w (k_fs st);
          let st = st\<lparr>k_fs := fs\<rparr>; e = k_ftab st ! i
          in if \<not> ok then Some (None, st)
             else Some (Some i, put_ftab i (e\<lparr>ft_node := node, ft_read := r, ft_write := w, ft_refs := 1,
                          ft_excl := (if excl then Some proc else None), ft_mutex := mutex_release (ft_mutex e)\<rparr>)
                        (st\<lparr>k_ftab_mutex := mutex_release (k_ftab_mutex st)\<rparr>)) }"

text \<open>The entry is in use.\<close>

definition ftab_open_again ::
  "('h \<Rightarrow> ('h, 'z) vhook) \<Rightarrow> nat option \<Rightarrow> nat \<Rightarrow> bool \<Rightarrow> bool \<Rightarrow> bool \<Rightarrow> nat \<Rightarrow> ('h, 'z, 'y) ftabs_scheme \<Rightarrow>
     (nat option \<times> ('h, 'z, 'y) ftabs_scheme) option" where
  "ftab_open_again ops node proc r w excl i st =
     (let e = k_ftab st ! i;
          unlock = (\<lambda>e st. put_ftab i (e\<lparr>ft_mutex := mutex_release (ft_mutex e)\<rparr>)
                      (st\<lparr>k_ftab_mutex := mutex_release (k_ftab_mutex st)\<rparr>))
      in if ft_excl e \<noteq> None \<and> ft_excl e \<noteq> Some proc then Some (None, unlock e st)
         else if excl \<and> ft_refs e \<noteq> 0 then Some (None, unlock e st)
         else
           let r = (r \<or> ft_read e); w = (w \<or> ft_write e)
           in if r \<noteq> ft_read e \<or> w \<noteq> ft_write e then
                do { (ok, fs) \<leftarrow> vfs_open ops node r w (k_fs st);
                     let st = st\<lparr>k_fs := fs\<rparr>
                     in if \<not> ok then Some (None, unlock e st)
                        else Some (Some i, unlock (e\<lparr>ft_read := r, ft_write := w, ft_refs := ft_refs e + 1\<rparr>) st) }
              else Some (Some i, unlock (e\<lparr>ft_refs := ft_refs e + 1\<rparr>) st))"

definition ftab_open ::
  "('h \<Rightarrow> ('h, 'z) vhook) \<Rightarrow> nat option \<Rightarrow> nat \<Rightarrow> bool \<Rightarrow> bool \<Rightarrow> bool \<Rightarrow> ('h, 'z, 'y) ftabs_scheme \<Rightarrow>
     (nat option \<times> ('h, 'z, 'y) ftabs_scheme) option" where
  "ftab_open ops node proc r w excl st =
     do { l \<leftarrow> mutex_acquire (k_ftab_mutex st);
          let (found, st) = ftab_find node (st\<lparr>k_ftab_mutex := l\<rparr>);
          case found of
            None \<Rightarrow> Some (None, st\<lparr>k_ftab_mutex := mutex_release (k_ftab_mutex st)\<rparr>)
          | Some i \<Rightarrow>
              do { let e = k_ftab st ! i;
                   le \<leftarrow> mutex_acquire (ft_mutex e);
                   let st = put_ftab i (e\<lparr>ft_mutex := le\<rparr>) st;
                   if ft_node e = None then ftab_open_first ops node proc r w excl i st
                   else ftab_open_again ops node proc r w excl i st } }"

definition ftab_close ::
  "('h \<Rightarrow> ('h, 'z) vhook) \<Rightarrow> nat \<Rightarrow> nat \<Rightarrow> ('h, 'z, 'y) ftabs_scheme \<Rightarrow> ('h, 'z, 'y) ftabs_scheme option" where
  "ftab_close ops i proc st =
     (let e = k_ftab st ! i
      in if ft_excl e \<noteq> None \<and> ft_excl e \<noteq> Some proc then Some st
         else
           do { le \<leftarrow> mutex_acquire (ft_mutex e);
                let e = e\<lparr>ft_mutex := le, ft_refs := ft_refs e - 1\<rparr>;
                if ft_refs e = 0 then
                  do { (_, fs) \<leftarrow> vfs_close ops (ft_node e) (k_fs (put_ftab i e st));
                       Some (put_ftab i (blank_ftab\<lparr>ft_mutex := mutex_release (ft_mutex blank_ftab)\<rparr>) (st\<lparr>k_fs := fs\<rparr>)) }
                else Some (put_ftab i (e\<lparr>ft_mutex := mutex_release (ft_mutex e)\<rparr>) st) })"

text \<open>Reading and writing go to \<open>ftab->node\<close>, the node of the first entry of the table.\<close>

definition ftab_read ::
  "('h \<Rightarrow> ('h, 'z) vhook) \<Rightarrow> nat \<Rightarrow> nat \<Rightarrow> u64 \<Rightarrow> u64 \<Rightarrow> ('h, 'z, 'y) ftabs_scheme \<Rightarrow>
     ((u64 \<times> u8 list) \<times> ('h, 'z, 'y) ftabs_scheme) option" where
  "ftab_read ops i proc offset sz st =
     do { let e = k_ftab st ! i;
          le \<leftarrow> mutex_acquire (ft_mutex e);
          let st = put_ftab i (e\<lparr>ft_mutex := le\<rparr>) st;
          (ret, fs) \<leftarrow> (if (ft_excl e = None \<or> ft_excl e = Some proc) \<and> ft_read e
                        then vfs_read ops (ft_node (k_ftab st ! 0)) offset sz (k_fs st)
                        else Some ((0, []), k_fs st));
          Some (ret, put_ftab i (e\<lparr>ft_mutex := mutex_release le\<rparr>) (st\<lparr>k_fs := fs\<rparr>)) }"

definition ftab_write ::
  "('h \<Rightarrow> ('h, 'z) vhook) \<Rightarrow> nat \<Rightarrow> nat \<Rightarrow> u64 \<Rightarrow> u64 \<Rightarrow> u8 list \<Rightarrow> ('h, 'z, 'y) ftabs_scheme \<Rightarrow>
     (u64 \<times> ('h, 'z, 'y) ftabs_scheme) option" where
  "ftab_write ops i proc offset sz buf st =
     do { let e = k_ftab st ! i;
          le \<leftarrow> mutex_acquire (ft_mutex e);
          let st = put_ftab i (e\<lparr>ft_mutex := le\<rparr>) st;
          (ret, fs) \<leftarrow> (if (ft_excl e = None \<or> ft_excl e = Some proc) \<and> ft_write e
                        then vfs_write ops (ft_node (k_ftab st ! 0)) offset sz buf (k_fs st)
                        else Some (0, k_fs st));
          Some (ret, put_ftab i (e\<lparr>ft_mutex := mutex_release le\<rparr>) (st\<lparr>k_fs := fs\<rparr>)) }"

interpretation ftab_tab: slot_table "ftab_slot node" blank_ftab 4 for node
  by unfold_locales (simp_all add: ftab_slot_def blank_ftab_def)

section \<open>Lemmas\<close>

lemma put_ftab_simps [simp]:
  "k_ftab (put_ftab i e st) = (k_ftab st)[i := e]" "k_fs (put_ftab i e st) = k_fs st"
  "k_vm (put_ftab i e st) = k_vm st" "k_ftab_mutex (put_ftab i e st) = k_ftab_mutex st"
  by (simp_all add: put_ftab_def)

text \<open>No lock is held, and the used entries have openers.\<close>

definition ents_ok :: "ftab_ent list \<Rightarrow> bool" where
  "ents_ok tab \<longleftrightarrow> (\<forall>e\<in>set tab. \<not> ft_mutex e \<and> (ft_node e \<noteq> None \<longrightarrow> ft_refs e \<noteq> 0))"

definition ftab_ok :: "('h, 'z, 'y) ftabs_scheme \<Rightarrow> bool" where
  "ftab_ok st \<longleftrightarrow> \<not> k_ftab_mutex st \<and> ents_ok (k_ftab st)"

text \<open>What the scan returns: a slot that is empty or has the node; the other entries stay.\<close>

lemma ftab_find_fields:
  assumes "ftab_find node st = (r, st')"
  shows "k_fs st' = k_fs st" and "k_ftab_mutex st' = k_ftab_mutex st"
  using assms by (auto simp: ftab_find_def Let_def split: option.splits prod.splits)

lemma ftab_find_slot:
  assumes "ftab_find node st = (Some i, st')"
  shows "slot_find (ftab_slot node) 4 blank_ftab True (k_ftab st) = Some (i, k_ftab st')"
  using assms by (auto simp: ftab_find_def slot_find_def Let_def split: option.splits prod.splits if_splits)

lemma ents_ok_find:
  "slot_find (ftab_slot node) 4 blank_ftab g tab = Some (i, tab') \<Longrightarrow> ents_ok tab \<Longrightarrow> ents_ok tab'"
  unfolding ents_ok_def by (erule ftab_tab.find_all) (simp_all add: blank_ftab_def)

lemma ents_ok_nth: "ents_ok tab \<Longrightarrow> i < length tab \<Longrightarrow> \<not> ft_mutex (tab ! i) \<and> (ft_node (tab ! i) \<noteq> None \<longrightarrow> ft_refs (tab ! i) \<noteq> 0)"
  by (simp add: ents_ok_def)

lemma ents_ok_update:
  "ents_ok tab \<Longrightarrow> \<not> ft_mutex e \<Longrightarrow> ft_node e \<noteq> None \<longrightarrow> ft_refs e \<noteq> 0 \<Longrightarrow> ents_ok (tab[i := e])"
  using set_update_subset_insert [of tab i e] by (auto simp: ents_ok_def)

text \<open>The outcome of a first open and of a repeated one, for an entry whose lock was just taken.\<close>

definition ftab_opened :: "nat \<Rightarrow> nat \<Rightarrow> bool \<Rightarrow> bool \<Rightarrow> bool \<Rightarrow> ftab_ent \<Rightarrow> ftab_ent \<Rightarrow> bool" where
  "ftab_opened n p r w x e e' \<longleftrightarrow>
     ft_node e' = Some n \<and> \<not> ft_mutex e' \<and>
     ft_refs e' = (if ft_node e = None then 0 else ft_refs e) + 1 \<and>
     (ft_read e' \<longleftrightarrow> r \<or> ft_node e \<noteq> None \<and> ft_read e) \<and> (ft_write e' \<longleftrightarrow> w \<or> ft_node e \<noteq> None \<and> ft_write e) \<and>
     (ft_excl e' = None \<or> ft_excl e' = Some p) \<and> (x \<longrightarrow> ft_excl e' = Some p)"

lemma ftab_open_first_opened:
  assumes "ftab_open_first ops (Some n) p r w x i st = Some (Some j, st')" and "i < length (k_ftab st)"
    and "ft_node (k_ftab st ! i) = None"
  shows "j = i \<and> k_ftab st' = (k_ftab st)[i := k_ftab st' ! i] \<and> \<not> k_ftab_mutex st' \<and>
    ftab_opened n p r w x (k_ftab st ! i) (k_ftab st' ! i)"
  using assms by (auto simp: ftab_open_first_def ftab_opened_def Let_def mutex_release_def split: bind_splits if_splits)

lemma ftab_open_again_opened:
  assumes "ftab_open_again ops (Some n) p r w x i st = Some (Some j, st')" and "i < length (k_ftab st)"
    and "ft_node (k_ftab st ! i) = Some n" and "ft_refs (k_ftab st ! i) \<noteq> 0"
  shows "j = i \<and> k_ftab st' = (k_ftab st)[i := k_ftab st' ! i] \<and> \<not> k_ftab_mutex st' \<and>
    ftab_opened n p r w x (k_ftab st ! i) (k_ftab st' ! i)"
  using assms by (auto simp: ftab_open_again_def ftab_opened_def Let_def mutex_release_def split: bind_splits if_splits)

lemma ftab_open_entry:
  assumes "ftab_open ops (Some n) p r w x st = Some (Some i, st')" and "ftab_ok st"
  shows "\<exists>tab. slot_find (ftab_slot (Some n)) 4 blank_ftab True (k_ftab st) = Some (i, tab) \<and> i < length tab \<and>
    k_ftab st' = tab[i := k_ftab st' ! i] \<and> \<not> k_ftab_mutex st' \<and> ftab_opened n p r w x (tab ! i) (k_ftab st' ! i) \<and>
    ents_ok tab"
proof -
  let ?st = "st\<lparr>k_ftab_mutex := True\<rparr>"
  have free: "\<not> k_ftab_mutex st" and ok: "ents_ok (k_ftab ?st)" using assms(2) by (simp_all add: ftab_ok_def)
  obtain f st1 where find: "ftab_find (Some n) ?st = (f, st1)" by force
  obtain k where f: "f = Some k" using assms(1) free find by (cases f) (auto simp: ftab_open_def)
  note slot = ftab_find_slot [OF find [unfolded f]]
  have k: "k < length (k_ftab st1)" using slot_find_Some(1) [OF slot] by simp
  have ok1: "ents_ok (k_ftab st1)" using ents_ok_find [OF slot ok] .
  have sel: "ft_node (k_ftab st1 ! k) = None \<or> ft_node (k_ftab st1 ! k) = Some n"
    using ftab_tab.find_free [OF slot] by (simp add: ftab_slot_def)
  let ?e = "k_ftab st1 ! k"
  let ?st1 = "put_ftab k (?e\<lparr>ft_mutex := True\<rparr>) st1"
  have step: "if ft_node ?e = None then ftab_open_first ops (Some n) p r w x k ?st1 = Some (Some i, st')
              else ftab_open_again ops (Some n) p r w x k ?st1 = Some (Some i, st')"
    using assms(1) free find f ents_ok_nth [OF ok1 k] by (auto simp: ftab_open_def Let_def split: if_splits)
  have "i = k \<and> k_ftab st' = (k_ftab ?st1)[k := k_ftab st' ! k] \<and> \<not> k_ftab_mutex st' \<and>
      ftab_opened n p r w x (k_ftab ?st1 ! k) (k_ftab st' ! k)"
  proof (cases "ft_node ?e = None")
    case True
    then show ?thesis using step k ftab_open_first_opened [of ops n p r w x k ?st1 i st'] by simp
  next
    case False
    then show ?thesis
      using step k sel ents_ok_nth [OF ok1 k] ftab_open_again_opened [of ops n p r w x k ?st1 i st'] by auto
  qed
  then show ?thesis
    using slot k ok1 by (intro exI [of _ "k_ftab st1"]) (auto simp: ftab_opened_def)
qed

section \<open>Properties\<close>

text \<open>
  C15: opening a file counts the opener: in a table where no lock is held and no counter is about to
  wrap, a successful \<open>ftab_open\<close> gives an entry of the node with one more opener, which grants at
  least the access asked for, is held by nobody else, and by the opener when asked exclusively; every
  other entry is untouched and no lock stays held.
\<close>

theorem ftab_open_accounts:
  assumes "ftab_open ops (Some n) p r w x st = Some (Some i, st')" and "ftab_ok st"
    and "\<forall>e\<in>set (k_ftab st). ft_refs e \<noteq> - 1"
  shows "ftab_ok st' \<and> i < length (k_ftab st') \<and>
    (let e = (if i < length (k_ftab st) then k_ftab st ! i else blank_ftab) in
       ftab_opened n p r w x e (k_ftab st' ! i) \<and> (ft_node e = None \<or> ft_node e = Some n)) \<and>
    (\<forall>j<length (k_ftab st). j \<noteq> i \<longrightarrow> k_ftab st' ! j = k_ftab st ! j)"
proof -
  from ftab_open_entry [OF assms(1,2)] obtain tab where
    slot: "slot_find (ftab_slot (Some n)) 4 blank_ftab True (k_ftab st) = Some (i, tab)" and i: "i < length tab" and
    tab': "k_ftab st' = tab[i := k_ftab st' ! i]" and m: "\<not> k_ftab_mutex st'" and
    opened: "ftab_opened n p r w x (tab ! i) (k_ftab st' ! i)" and ok: "ents_ok tab" by blast
  have sel: "ft_node (tab ! i) = None \<or> ft_node (tab ! i) = Some n"
    using ftab_tab.find_free [OF slot] by (simp add: ftab_slot_def)
  have old: "tab ! i = (if i < length (k_ftab st) then k_ftab st ! i else blank_ftab)"
    using slot_find_Some(3,5) [OF slot] i by simp
  then have "ft_refs (tab ! i) \<noteq> - 1" using assms(3) by (auto simp: blank_ftab_def)
  then have "ft_refs (tab ! i) + 1 \<noteq> 0" by (metis add_eq_0_iff2)
  then have "ents_ok (k_ftab st')"
    using ok opened by (subst tab', intro ents_ok_update) (auto simp: ftab_opened_def)
  moreover have "k_ftab st' ! j = k_ftab st ! j" if "j < length (k_ftab st)" "j \<noteq> i" for j
    using that slot_find_Some(3) [OF slot] by (subst tab') simp
  moreover have "i < length (k_ftab st')" using i by (subst tab') simp
  ultimately show ?thesis using m opened sel old by (simp add: ftab_ok_def Let_def)
qed


text \<open>A file system of one file, node 5, without handlers, and an empty table.\<close>

definition ftab_fs :: "nat vfs" where
  "ftab_fs = \<lparr>vn = (\<lambda>n. \<lparr>vn_name = [], vn_flags = VFS_FILE, vn_uid = 0, vn_gid = 0, vn_inode = of_nat n, vn_length = 0,
     vn_hook = Some n, vn_link = Link_null, vn_mtime = 0\<rparr>), vfs_root = None, vfs_dirent_buf = [], vfs_dirent_idx = 0\<rparr>"

definition ftab_ops :: "bool \<Rightarrow> nat \<Rightarrow> (nat, unit) vhook" where
  "ftab_ops ok h = \<lparr>h_read = Some (\<lambda>n offset sz st. Some ((1, [of_nat n]), st)), h_write = None,
     h_open = Some (\<lambda>n r w st. Some (ok, st)), h_close = None, h_readdir = None, h_finddir = None,
     h_create = None, h_mkdir = None, h_remove = None, h_ioctl = None\<rparr>"

definition ftab_example :: "ftab_ent list \<Rightarrow> (nat, unit) ftabs" where
  "ftab_example tab = \<lparr>k_fs = ftab_fs, k_vm = vm_example, k_ftab = tab, k_ftab_mutex = False\<rparr>"

lemma ftab_example_simps [simp]:
  "k_ftab (ftab_example tab) = tab" "k_ftab_mutex (ftab_example tab) = False" "k_vm (ftab_example tab) = vm_example"
  "vfs_open (ftab_ops ok) (Some n) r w (k_fs (ftab_example tab)) = Some (ok, k_fs (ftab_example tab))"
  "vfs_read (ftab_ops ok) (Some n) off sz (k_fs (ftab_example tab)) = Some ((1, [of_nat n]), k_fs (ftab_example tab))"
  by (simp_all add: ftab_example_def vfs_open_def vfs_read_def vfs_call_def ftab_ops_def ftab_fs_def is_file_def
      vfs_traverse_symlink_node is_symlink_def)

lemma ftab_fs_open [simp]: "vfs_open (ftab_ops ok) (Some n) r w ftab_fs = Some (ok, ftab_fs)"
  by (simp add: vfs_open_def vfs_call_def ftab_ops_def ftab_fs_def vfs_traverse_symlink_node is_symlink_def)

text \<open>An entry of node 5 held exclusively by process 1.\<close>

abbreviation held_ent :: ftab_ent where
  "held_ent \<equiv> \<lparr>ft_node = Some 5, ft_read = True, ft_write = True, ft_refs = 1, ft_excl = Some 1, ft_mutex = False\<rparr>"

theorem ftab_open_accounts_witness:
  "\<exists>i st'. ftab_open (ftab_ops True) (Some 5) 1 True False True (ftab_example [blank_ftab]) = Some (Some i, st') \<and> ftab_ok st'"
proof -
  have "\<exists>i st'. ftab_open (ftab_ops True) (Some 5) 1 True False True (ftab_example [blank_ftab]) = Some (Some i, st')"
    by (simp add: ftab_open_def ftab_find_def slot_find_def ftab_slot_def blank_ftab_def Let_def ftab_open_first_def
        put_ftab_def ftab_example_def [symmetric])
  then show ?thesis
    using ftab_open_accounts [of "ftab_ops True" 5 1 True False True "ftab_example [blank_ftab]"]
    by (force simp: ftab_ok_def ents_ok_def blank_ftab_def)
qed

text \<open>
  An entry that the scan finds is closed to every other process while it is held exclusively.
\<close>

lemma ftab_open_excluded:
  assumes "ftab_ok st" and "i < length (k_ftab st)" and "find_idx (ftab_slot (Some n)) (k_ftab st) = i"
    and "ft_node (k_ftab st ! i) = Some n" and "ft_excl (k_ftab st ! i) = Some q" and "q \<noteq> p"
  shows "ftab_open ops (Some n) p r w x st = Some (None, st)"
proof -
  have free: "\<not> ft_mutex (k_ftab st ! i)" "\<not> k_ftab_mutex st" using assms(1,2) by (simp_all add: ftab_ok_def ents_ok_nth)
  have "(k_ftab st)[i := (k_ftab st ! i)\<lparr>ft_mutex := False\<rparr>] = (k_ftab st)[i := k_ftab st ! i]"
    using free(1) by (cases "k_ftab st ! i") simp
  then have "st\<lparr>k_ftab_mutex := False, k_ftab := (k_ftab st)[i := (k_ftab st ! i)\<lparr>ft_mutex := False\<rparr>]\<rparr> = st"
    using free(2) by (cases st) simp
  then show ?thesis
    using assms free
    by (simp add: ftab_open_def ftab_find_def slot_find_def Let_def ftab_open_again_def put_ftab_def mutex_release_def)
qed

text \<open>
  but the scan stops at the first empty entry, so as soon as an entry before the one of the file
  has been closed, a file that a process holds exclusively is opened by any other process, with a
  second entry (and both entries keep counting on their own).
\<close>

lemma ftab_exclusive_bypassed:
  assumes "ftab_ok st" and "i < j" and "j < length (k_ftab st)" and "find_idx (\<lambda>e. ft_node e = None) (k_ftab st) = i"
    and "ft_node (k_ftab st ! j) = Some n" and "ft_excl (k_ftab st ! j) = Some q" and "q \<noteq> p"
    and "\<forall>k<i. ft_node (k_ftab st ! k) \<noteq> Some n" and "vfs_open ops (Some n) r w (k_fs st) = Some (True, fs)"
  shows "\<exists>st'. ftab_open ops (Some n) p r w x st = Some (Some i, st') \<and>
    ft_node (k_ftab st' ! i) = Some n \<and> k_ftab st' ! j = k_ftab st ! j"
proof -
  have i: "i < length (k_ftab st)" using assms(2,3) by simp
  have none: "ft_node (k_ftab st ! i) = None"
    using find_idx_sat [of "\<lambda>e. ft_node e = None" "k_ftab st"] assms(4) i by simp
  have "\<not> ftab_slot (Some n) (k_ftab st ! k)" if "k < i" for k
    using that assms(8) find_idx_before [of k "\<lambda>e. ft_node e = None" "k_ftab st"] assms(4) by (simp add: ftab_slot_def)
  then have "find_idx (ftab_slot (Some n)) (k_ftab st) = i"
    using find_idx_eqI [of i "k_ftab st" "ftab_slot (Some n)"] i none by (simp add: ftab_slot_def)
  then show ?thesis
    using i none assms(1,2,9) ents_ok_nth [of "k_ftab st" i]
    by (simp add: ftab_open_def ftab_find_def slot_find_def Let_def ftab_ok_def ftab_open_first_def put_ftab_def)
qed

lemma ftab_exclusive_bypassed_witness:
  "\<exists>st'. ftab_open (ftab_ops True) (Some 5) 2 True False True (ftab_example [blank_ftab, held_ent]) = Some (Some 0, st') \<and>
     ft_node (k_ftab st' ! 0) = Some 5 \<and> k_ftab st' ! 1 = held_ent"
  using ftab_exclusive_bypassed [of "ftab_example [blank_ftab, held_ent]" 0 1 5 1 2 "ftab_ops True" True False _ True]
  by (simp add: ftab_ok_def ents_ok_def blank_ftab_def)

text \<open>
  when the file system refuses the first open of a file, the call returns with the locks of the
  table and of the entry held: no later open of any file by anyone returns.
\<close>

lemma ftab_open_refused_blocks:
  assumes "ftab_open ops node p r w x st = Some (None, st')" and "ftab_ok st"
    and "find_idx (ftab_slot node) (k_ftab st) < length (k_ftab st)"
    and "ft_node (k_ftab st ! find_idx (ftab_slot node) (k_ftab st)) = None"
  shows "ftab_open ops' node' p' r' w' x' st' = None"
  using assms ents_ok_nth [of "k_ftab st" "find_idx (ftab_slot node) (k_ftab st)"]
  by (auto simp: ftab_open_def ftab_find_def slot_find_def Let_def ftab_ok_def ftab_open_first_def put_ftab_def
      split: bind_splits if_splits)

lemma ftab_open_refused_blocks_witness:
  "\<exists>st'. ftab_open (ftab_ops False) (Some 5) 1 True False False (ftab_example [blank_ftab]) = Some (None, st') \<and>
     ftab_open (ftab_ops True) (Some 6) 2 True False False st' = None"
proof -
  have "\<exists>st'. ftab_open (ftab_ops False) (Some 5) 1 True False False (ftab_example [blank_ftab]) = Some (None, st')"
    by (simp add: ftab_open_def ftab_find_def slot_find_def ftab_slot_def blank_ftab_def Let_def ftab_open_first_def
        put_ftab_def ftab_example_def [symmetric])
  then obtain st' where run: "ftab_open (ftab_ops False) (Some 5) 1 True False False (ftab_example [blank_ftab]) = Some (None, st')" ..
  from ftab_open_refused_blocks [OF run] run show ?thesis
    by (auto simp: ftab_ok_def ents_ok_def blank_ftab_def ftab_slot_def)
qed

text \<open>Reading goes to the file of the first entry, whatever the entry.\<close>

lemma ftab_read_first:
  assumes "\<not> ft_mutex (k_ftab st ! i)" and "ft_excl (k_ftab st ! i) = None" and "ft_read (k_ftab st ! i)"
    and "i < length (k_ftab st)" and "vfs_read ops (ft_node (k_ftab st ! 0)) offset sz (k_fs st) = Some (ret, fs)"
  shows "map_option fst (ftab_read ops i p offset sz st) = Some ret"
  using assms by (cases "i = 0") (auto simp: ftab_read_def Let_def)

text \<open>The last closer empties the entry, others leave it with one opener less.\<close>

lemma ftab_close_counts:
  assumes "ftab_close ops i p st = Some st'" and "ft_excl (k_ftab st ! i) = None \<or> ft_excl (k_ftab st ! i) = Some p"
    and "i < length (k_ftab st)" and "\<not> ft_mutex (k_ftab st ! i)"
  shows "k_ftab st' = (k_ftab st)[i := (if ft_refs (k_ftab st ! i) = 1 then blank_ftab
       else (k_ftab st ! i)\<lparr>ft_refs := ft_refs (k_ftab st ! i) - 1, ft_mutex := False\<rparr>)]"
  using assms by (auto simp: ftab_close_def Let_def mutex_release_def blank_ftab_def split: bind_splits if_splits)

end
