(* ===== verification/Elf.thy ===== *)
theory Elf
  imports Vmm
begin

text \<open>
  \<^verbatim>\<open>exec/elf.c\<close>: the segments of a loaded program.
\<close>

record elf_prgload =
  pl_idx :: nat
  pl_vaddr :: u32
  pl_size :: u32

text \<open>
  The frames of the pages of a segment are freed after each page is unmapped. An address that is not
  mapped has page size index \<open>(size_t)-1\<close> and page size 0, so the loop stays there: \<open>None\<close>.
\<close>

partial_function (option) elf_unload_loop :: "u32 \<Rightarrow> u32 \<Rightarrow> u32 \<Rightarrow> u32 \<Rightarrow> vm \<Rightarrow> vm option" where
  "elf_unload_loop vmm sz off vaddr st =
     (if off < sz then
        case vmm_get_paddr vmm vaddr st of (paddr, st) \<Rightarrow>
        case vmm_get_pgsz vmm vaddr st of (pg, st) \<Rightarrow>
          (case pg of
             None \<Rightarrow> elf_unload_loop vmm sz off vaddr st
           | Some idx \<Rightarrow>
               Option.bind (vmm_pgunmap vmm vaddr idx st) (\<lambda>st.
                 let pgsz = vmm_pgsz idx;
                     pmm = (if paddr \<noteq> 0 then fold (\<lambda>j pmm. pmm_free pmm (unat paddr div 4096 + j)) [0..<unat pgsz div 4096] (vm_pmm st)
                            else vm_pmm st)
                 in elf_unload_loop vmm sz (off + pgsz) (vaddr + pgsz) (st\<lparr>vm_pmm := pmm\<rparr>)))
      else Some st)"

definition elf_unload_prg :: "u32 \<Rightarrow> elf_prgload list \<Rightarrow> vm \<Rightarrow> vm option" where
  "elf_unload_prg vmm segs st = fold_opt (\<lambda>s. elf_unload_loop vmm (pl_size s) 0 (pl_vaddr s)) segs st"

end
