(* ===== verification/Process.thy ===== *)
theory Process
  imports Ftab Elf
begin

text \<open>
  \<^verbatim>\<open>exec/process.c\<close>, the process table and file descriptors. Processes and tasks are numbered in the
  order in which their structures are allocated (\<open>k_new\<close> is the next number; freed structures are
  not used again, so a use after free sees the last contents). The process table maps PIDs to
  processes. \<open>(size_t)-1\<close> as a result is \<open>None\<close>.
\<close>

record fd_ent =
  fd_ftab :: "nat option"
  fd_read :: bool
  fd_write :: bool
  fd_append :: bool
  fd_offset :: u64
  fd_mutex :: mutex

record proc =
  p_pid :: nat
  p_parent :: nat
  p_vmm :: u32
  p_segs :: "elf_prgload list"
  p_mu_tasks :: mutex
  p_tasks :: "nat option list"
  p_mu_fds :: mutex
  p_fds :: "fd_ent list"

record ('h, 'z) kprocs = "('h, 'z) ftabs" +
  k_procs :: "nat \<Rightarrow> proc"
  k_pidtab :: "nat option list"
  k_proc_mutex :: mutex
  k_new :: nat

definition blank_fd :: fd_ent where
  "blank_fd = \<lparr>fd_ftab = None, fd_read = False, fd_write = False, fd_append = False, fd_offset = 0, fd_mutex = False\<rparr>"

definition blank_proc :: proc where
  "blank_proc = \<lparr>p_pid = 0, p_parent = 0, p_vmm = 0, p_segs = [], p_mu_tasks = False, p_tasks = [], p_mu_fds = False, p_fds = []\<rparr>"

definition put_proc :: "nat \<Rightarrow> proc \<Rightarrow> ('h, 'z, 'y) kprocs_scheme \<Rightarrow> ('h, 'z, 'y) kprocs_scheme" where
  "put_proc p x st = st\<lparr>k_procs := (k_procs st)(p := x)\<rparr>"

definition put_fd :: "nat \<Rightarrow> nat \<Rightarrow> fd_ent \<Rightarrow> ('h, 'z, 'y) kprocs_scheme \<Rightarrow> ('h, 'z, 'y) kprocs_scheme" where
  "put_fd p i e st = put_proc p ((k_procs st p)\<lparr>p_fds := (p_fds (k_procs st p))[i := e]\<rparr>) st"

text \<open>\<open>kcalloc\<close> and \<open>krealloc\<close>, with the answers of the heap.\<close>

definition k_realloc :: "('h, 'z, 'y) kprocs_scheme \<Rightarrow> bool \<times> ('h, 'z, 'y) kprocs_scheme" where
  "k_realloc st = (let (ok, vm) = vm_realloc (k_vm st) in (ok, st\<lparr>k_vm := vm\<rparr>))"

definition k_alloc :: "('h, 'z, 'y) kprocs_scheme \<Rightarrow> nat option \<times> ('h, 'z, 'y) kprocs_scheme" where
  "k_alloc st = (let (ok, st) = k_realloc st in if ok then (Some (k_new st), st\<lparr>k_new := k_new st + 1\<rparr>) else (None, st))"

section \<open>Process identifiers\<close>

definition proc_pid_alloc :: "nat \<Rightarrow> ('h, 'z, 'y) kprocs_scheme \<Rightarrow> (nat option \<times> ('h, 'z, 'y) kprocs_scheme) option" where
  "proc_pid_alloc proc st =
     do { l \<leftarrow> mutex_acquire (k_proc_mutex st);
          let st = st\<lparr>k_proc_mutex := l\<rparr>; tab = k_pidtab st; full = (find_idx (\<lambda>p. p = None) tab = length tab);
              unlock = (\<lambda>st. st\<lparr>k_proc_mutex := mutex_release (k_proc_mutex st)\<rparr>)
          in if full \<and> (65535 < length tab \<or> 2 ^ 28 \<le> length tab) then Some (None, unlock st)
             else let (grown, st) = (if full then k_realloc st else (False, st))
                  in Some (case slot_find (\<lambda>p. p = None) 4 None grown tab of
                       None \<Rightarrow> (None, unlock st)
                     | Some (pid, tab) \<Rightarrow>
                         (Some pid, unlock (put_proc proc ((k_procs st proc)\<lparr>p_pid := pid\<rparr>)
                            (st\<lparr>k_pidtab := tab[pid := Some proc]\<rparr>)))) }"

definition proc_pid_free :: "nat \<Rightarrow> ('h, 'z, 'y) kprocs_scheme \<Rightarrow> ('h, 'z, 'y) kprocs_scheme option" where
  "proc_pid_free pid st =
     do { l \<leftarrow> mutex_acquire (k_proc_mutex st);
          let st = (if pid < length (k_pidtab st) then st\<lparr>k_pidtab := (k_pidtab st)[pid := None]\<rparr> else st);
          Some (st\<lparr>k_proc_mutex := mutex_release l\<rparr>) }"

definition proc_get :: "nat \<Rightarrow> ('h, 'z, 'y) kprocs_scheme \<Rightarrow> nat option" where
  "proc_get pid st = (if pid < length (k_pidtab st) then k_pidtab st ! pid else None)"

section \<open>File descriptors\<close>

definition fd_slot :: "bool \<Rightarrow> nat \<Rightarrow> fd_ent \<Rightarrow> bool" where
  "fd_slot dup f e \<longleftrightarrow> fd_ftab e = None \<or> (\<not> dup \<and> fd_ftab e = Some f)"

definition proc_fd_open ::
  "('h \<Rightarrow> ('h, 'z) vhook) \<Rightarrow> nat \<Rightarrow> nat option \<Rightarrow> bool \<Rightarrow> bool \<Rightarrow> bool \<Rightarrow> bool \<Rightarrow> bool \<Rightarrow> ('h, 'z, 'y) kprocs_scheme \<Rightarrow>
     (nat option \<times> ('h, 'z, 'y) kprocs_scheme) option" where
  "proc_fd_open ops p node dup r w app excl st =
     do { (ft, st) \<leftarrow> ftab_open ops node p r w excl st;
          case ft of
            None \<Rightarrow> Some (None, st)
          | Some f \<Rightarrow>
              do { l \<leftarrow> mutex_acquire (p_mu_fds (k_procs st p));
                   let fds = p_fds (k_procs st p);
                       (grown, st) = (if find_idx (fd_slot dup f) fds = length fds then k_realloc st else (False, st));
                       x = (k_procs st p)\<lparr>p_mu_fds := mutex_release l\<rparr>
                   in case slot_find (fd_slot dup f) 4 blank_fd grown fds of
                        None \<Rightarrow> Some (None, put_proc p x st)
                      | Some (i, fds) \<Rightarrow>
                          do { le \<leftarrow> mutex_acquire (fd_mutex (fds ! i));
                               Some (Some i, put_proc p (x\<lparr>p_fds := fds[i :=
                                 \<lparr>fd_ftab = Some f, fd_read = r, fd_write = w, fd_append = app, fd_offset = 0,
                                  fd_mutex = mutex_release le\<rparr>]\<rparr>) st) } } }"

definition proc_fd_check :: "nat \<Rightarrow> nat \<Rightarrow> ('h, 'z, 'y) kprocs_scheme \<Rightarrow> (bool \<times> ('h, 'z, 'y) kprocs_scheme) option" where
  "proc_fd_check p fd st =
     do { l \<leftarrow> mutex_acquire (p_mu_fds (k_procs st p));
          let st = put_proc p ((k_procs st p)\<lparr>p_mu_fds := mutex_release l\<rparr>) st; fds = p_fds (k_procs st p)
          in if fd < length fds then
               do { le \<leftarrow> mutex_acquire (fd_mutex (fds ! fd));
                    Some (fd_ftab (fds ! fd) \<noteq> None, put_fd p fd ((fds ! fd)\<lparr>fd_mutex := mutex_release le\<rparr>) st) }
             else Some (False, st) }"

definition proc_fd_close ::
  "('h \<Rightarrow> ('h, 'z) vhook) \<Rightarrow> nat \<Rightarrow> nat \<Rightarrow> ('h, 'z, 'y) kprocs_scheme \<Rightarrow> ('h, 'z, 'y) kprocs_scheme option" where
  "proc_fd_close ops p fd st =
     do { (ok, st) \<leftarrow> proc_fd_check p fd st;
          if \<not> ok then Some st
          else
            do { let e = p_fds (k_procs st p) ! fd;
                 le \<leftarrow> mutex_acquire (fd_mutex e);
                 st \<leftarrow> ftab_close ops (the (fd_ftab e)) p (put_fd p fd (e\<lparr>fd_mutex := le\<rparr>) st);
                 Some (put_fd p fd (blank_fd\<lparr>fd_mutex := mutex_release (fd_mutex blank_fd)\<rparr>) st) } }"

definition proc_fd_read ::
  "('h \<Rightarrow> ('h, 'z) vhook) \<Rightarrow> nat \<Rightarrow> nat \<Rightarrow> u64 \<Rightarrow> ('h, 'z, 'y) kprocs_scheme \<Rightarrow>
     ((u64 \<times> u8 list) \<times> ('h, 'z, 'y) kprocs_scheme) option" where
  "proc_fd_read ops p fd sz st =
     do { (ok, st) \<leftarrow> proc_fd_check p fd st;
          if \<not> ok then Some ((0, []), st)
          else
            do { let e = p_fds (k_procs st p) ! fd;
                 le \<leftarrow> mutex_acquire (fd_mutex e);
                 let e = e\<lparr>fd_mutex := le\<rparr>;
                 let st = put_fd p fd e st;
                 ((ret, data), e, st) \<leftarrow>
                   (if fd_read e then
                      do { ((ret, data), st) \<leftarrow> ftab_read ops (the (fd_ftab e)) p (fd_offset e) sz st;
                           Some ((ret, data), e\<lparr>fd_offset := fd_offset e + ret\<rparr>, st) }
                    else Some ((0, []), e, st));
                 Some ((ret, data), put_fd p fd (e\<lparr>fd_mutex := mutex_release (fd_mutex e)\<rparr>) st) } }"

text \<open>With \<open>append\<close> the offset is first set to the length of the node of the file table entry.\<close>

definition proc_fd_write ::
  "('h \<Rightarrow> ('h, 'z) vhook) \<Rightarrow> nat \<Rightarrow> nat \<Rightarrow> u64 \<Rightarrow> u8 list \<Rightarrow> ('h, 'z, 'y) kprocs_scheme \<Rightarrow>
     (u64 \<times> ('h, 'z, 'y) kprocs_scheme) option" where
  "proc_fd_write ops p fd sz buf st =
     do { (ok, st) \<leftarrow> proc_fd_check p fd st;
          if \<not> ok then Some (0, st)
          else
            do { let e = p_fds (k_procs st p) ! fd;
                 le \<leftarrow> mutex_acquire (fd_mutex e);
                 let e = e\<lparr>fd_mutex := le\<rparr>;
                 let st = put_fd p fd e st;
                 (ret, e, st) \<leftarrow>
                   (if fd_write e then
                      do { let f = the (fd_ftab e);
                           off \<leftarrow> (if fd_append e then map_option (\<lambda>n. vn_length (vn (k_fs st) n)) (ft_node (k_ftab st ! f))
                                   else Some (fd_offset e));
                           (ret, st) \<leftarrow> ftab_write ops f p off sz buf st;
                           Some (ret, e\<lparr>fd_offset := off + ret\<rparr>, st) }
                    else Some (0, e, st));
                 Some (ret, put_fd p fd (e\<lparr>fd_mutex := mutex_release (fd_mutex e)\<rparr>) st) } }"

section \<open>Creating processes\<close>

text \<open>The three standard descriptors; an unexpected number is only reported.\<close>

definition proc_std_fds ::
  "('h \<Rightarrow> ('h, 'z) vhook) \<Rightarrow> nat option \<Rightarrow> nat \<Rightarrow> ('h, 'z, 'y) kprocs_scheme \<Rightarrow> ('h, 'z, 'y) kprocs_scheme option" where
  "proc_std_fds ops console p st =
     do { (fd, st) \<leftarrow> proc_fd_open ops p console True True False False False st;
          (fd, st) \<leftarrow> proc_fd_open ops p console True False True False False st;
          (fd, st) \<leftarrow> proc_fd_open ops p console True False True False False st;
          Some st }"

definition proc_create ::
  "('h \<Rightarrow> ('h, 'z) vhook) \<Rightarrow> nat option \<Rightarrow> nat option \<Rightarrow> u32 \<Rightarrow> bool \<Rightarrow> ('h, 'z, 'y) kprocs_scheme \<Rightarrow>
     (nat option \<times> ('h, 'z, 'y) kprocs_scheme) option" where
  "proc_create ops console parent vmm cow st =
     (case k_alloc st of
        (None, st) \<Rightarrow> Some (None, st)
      | (Some p, st) \<Rightarrow>
          do { let st = put_proc p blank_proc st;
               (ok, st) \<leftarrow> (if vmm \<noteq> 0 then
                   do { (v, vm) \<leftarrow> vmm_clone vmm cow (k_vm st);
                        Some (v \<noteq> 0, put_proc p (blank_proc\<lparr>p_vmm := v\<rparr>) (st\<lparr>k_vm := vm\<rparr>)) }
                 else Some (True, st));
               if \<not> ok then Some (None, st)
               else
                 do { (pid, st) \<leftarrow> proc_pid_alloc p st;
                      if pid = None then
                        do { vm \<leftarrow> vmm_free (p_vmm (k_procs st p)) (k_vm st); Some (None, st\<lparr>k_vm := vm\<rparr>) }
                      else
                        do { st \<leftarrow> proc_std_fds ops console p st;
                             Some (Some p, case parent of
                                 None \<Rightarrow> st
                               | Some q \<Rightarrow> put_proc p ((k_procs st p)\<lparr>p_parent := p_pid (k_procs st q)\<rparr>) st) } } })"

definition proc_do_delete :: "nat \<Rightarrow> ('h, 'z, 'y) kprocs_scheme \<Rightarrow> ('h, 'z, 'y) kprocs_scheme option" where
  "proc_do_delete p st =
     do { vm \<leftarrow> vmm_free (p_vmm (k_procs st p)) (k_vm st);
          proc_pid_free (p_pid (k_procs st p)) (st\<lparr>k_vm := vm\<rparr>) }"

interpretation pid_tab: slot_table "\<lambda>p. p = None" "None :: nat option" 4
  by unfold_locales simp_all

interpretation fd_tab: slot_table "fd_slot dup f" blank_fd 4 for dup f
  by unfold_locales (simp_all add: fd_slot_def blank_fd_def)


section \<open>Lemmas\<close>

lemma put_proc_simps [simp]:
  "k_procs (put_proc p x st) = (k_procs st)(p := x)" "k_pidtab (put_proc p x st) = k_pidtab st"
  "k_proc_mutex (put_proc p x st) = k_proc_mutex st" "k_ftab (put_proc p x st) = k_ftab st"
  "k_fs (put_proc p x st) = k_fs st" "k_vm (put_proc p x st) = k_vm st" "k_ftab_mutex (put_proc p x st) = k_ftab_mutex st"
  "k_new (put_proc p x st) = k_new st"
  by (simp_all add: put_proc_def)

lemma k_realloc_fields:
  assumes "k_realloc st = (ok, st')"
  shows "k_procs st' = k_procs st" "k_pidtab st' = k_pidtab st" "k_proc_mutex st' = k_proc_mutex st"
    "k_ftab st' = k_ftab st" "k_fs st' = k_fs st" "k_ftab_mutex st' = k_ftab_mutex st" "k_new st' = k_new st"
  using assms by (auto simp: k_realloc_def Let_def split: prod.splits)

text \<open>The slot of the scan: the lowest free one, or the first new one.\<close>

lemma slot_find_lowest:
  "slot_find free n blank g tab = Some (i, tab') \<Longrightarrow> i = find_idx free tab"
  using find_idx_le [of free tab] by (auto simp: slot_find_def Let_def split: if_splits)

lemma slot_find_stores:
  assumes "slot_find free n blank g tab = Some (i, tab')" and "0 < n"
  shows "tab'[i := x] ! i = x" and "j < length tab \<Longrightarrow> j \<noteq> i \<Longrightarrow> tab'[i := x] ! j = tab ! j"
    and "i < length tab'" and "length tab \<le> length tab'"
  using slot_find_Some [OF assms] by simp_all

section \<open>Properties\<close>

text \<open>The PID table grows four entries at a time, and not beyond 65536.\<close>

definition pidtab_ok :: "nat option list \<Rightarrow> bool" where
  "pidtab_ok tab \<longleftrightarrow> 4 dvd length tab \<and> length tab \<le> 65536"

lemma pidtab_ok_find:
  assumes "slot_find (\<lambda>p. p = None) 4 None g tab = Some (i, tab')" and "pidtab_ok tab"
    and "find_idx (\<lambda>p. p = None) tab = length tab \<Longrightarrow> length tab \<le> 65535"
  shows "pidtab_ok (tab'[i := x])"
proof -
  have "length tab' = length tab \<or> find_idx (\<lambda>p. p = None) tab = length tab \<and> length tab' = length tab + 4"
    using assms(1) find_idx_le [of "\<lambda>p. p = None" tab] by (auto simp: slot_find_def Let_def split: if_splits)
  then show ?thesis
  proof
    assume "length tab' = length tab"
    then show ?thesis using assms(2) by (simp add: pidtab_ok_def)
  next
    assume "find_idx (\<lambda>p. p = None) tab = length tab \<and> length tab' = length tab + 4"
    then show ?thesis using assms(2,3) unfolding pidtab_ok_def length_list_update by presburger
  qed
qed

text \<open>
  a new process gets the lowest PID that no process has, which is at most 65535; afterwards the PID
  names it, and every other PID names the process it did before.
\<close>

lemma proc_pid_alloc_lowest:
  assumes "proc_pid_alloc p st = Some (Some pid, st')" and "pidtab_ok (k_pidtab st)"
  shows "proc_get pid st = None \<and> (\<forall>q<pid. proc_get q st \<noteq> None) \<and> pid \<le> 65535 \<and>
    proc_get pid st' = Some p \<and> p_pid (k_procs st' p) = pid \<and> (\<forall>q. q \<noteq> pid \<longrightarrow> proc_get q st' = proc_get q st) \<and>
    pidtab_ok (k_pidtab st')"
proof -
  let ?tab = "k_pidtab st"
  obtain g tab' where slot: "slot_find (\<lambda>p. p = None) 4 None g ?tab = Some (pid, tab')" and
    lim: "find_idx (\<lambda>p. p = None) ?tab = length ?tab \<Longrightarrow> length ?tab \<le> 65535" and
    st': "k_pidtab st' = tab'[pid := Some p]" "p_pid (k_procs st' p) = pid"
    using assms(1) by (auto simp: proc_pid_alloc_def Let_def split: bind_splits if_splits option.splits prod.splits)
  note find = slot_find_Some [OF slot, simplified]
  have pid: "pid = find_idx (\<lambda>p. p = None) ?tab" using slot_find_lowest [OF slot] .
  have free: "proc_get pid st = None"
    using pid_tab.find_not_live [OF slot] by (auto simp: slots_live_def proc_get_def)
  have used: "proc_get q st \<noteq> None" if "q < pid" for q
    using find_idx_before [of q "\<lambda>p. p = None" ?tab] that pid find_idx_le [of "\<lambda>p. p = None" ?tab] by (simp add: proc_get_def)
  have ok: "pidtab_ok (k_pidtab st')" unfolding st' using pidtab_ok_find [OF slot assms(2) lim] .
  then have "pid \<le> 65535" using find(1) by (simp add: pidtab_ok_def st')
  moreover have "proc_get q st' = proc_get q st" if "q \<noteq> pid" for q
    using that find(2,3,5) by (auto simp: proc_get_def st' not_less)
  ultimately show ?thesis using free used ok find(1) st' by (simp add: proc_get_def)
qed

text \<open>A process and its open file, on the example of the file table.\<close>

definition proc_example :: "(nat, unit) kprocs" where
  "proc_example = \<lparr>k_fs = ftab_fs, k_vm = vm_example, k_ftab = [], k_ftab_mutex = False,
     k_procs = (\<lambda>_. blank_proc), k_pidtab = [Some 7, None, None, None], k_proc_mutex = False, k_new = 9\<rparr>"

lemma proc_pid_alloc_lowest_witness:
  "\<exists>st'. proc_pid_alloc 8 proc_example = Some (Some 1, st') \<and> proc_get 0 st' = Some 7 \<and> proc_get 1 st' = Some 8"
proof -
  have "\<exists>st'. proc_pid_alloc 8 proc_example = Some (Some 1, st')"
    by (simp add: proc_pid_alloc_def proc_example_def slot_find_def Let_def)
  then obtain st' where run: "proc_pid_alloc 8 proc_example = Some (Some 1, st')" ..
  have "length (k_pidtab proc_example) = 4" "proc_get 0 proc_example = Some 7" by (simp_all add: proc_example_def proc_get_def)
  then show ?thesis
    using proc_pid_alloc_lowest [OF run] run by (simp add: pidtab_ok_def)
qed

text \<open>Operations of the file table leave the processes alone.\<close>

lemma ftab_find_procs: "ftab_find node st = (r, st') \<Longrightarrow> k_procs st' = k_procs st"
  by (auto simp: ftab_find_def Let_def split: option.splits prod.splits)

lemma put_ftab_procs [simp]: "k_procs (put_ftab i e st) = k_procs st"
  by (simp add: put_ftab_def)

lemma ftab_open_procs: "ftab_open ops node p r w x st = Some (f, st') \<Longrightarrow> k_procs st' = k_procs st"
  by (auto simp: ftab_open_def ftab_open_first_def ftab_open_again_def Let_def
      split: bind_splits option.splits if_splits prod.splits dest!: ftab_find_procs)

text \<open>
  C16: opening a file, allowing duplicate descriptors, returns the lowest free descriptor of the process,
  which then has the access asked for and offset 0 and refers to an open entry of the file; all
  other descriptors stay.
\<close>

theorem proc_fd_open_lowest:
  assumes "proc_fd_open ops p (Some n) True r w app excl st = Some (Some fd, st')" and "ftab_ok st"
  shows "(\<forall>i<fd. i < length (p_fds (k_procs st p)) \<and> fd_ftab (p_fds (k_procs st p) ! i) \<noteq> None) \<and>
    (fd < length (p_fds (k_procs st p)) \<longrightarrow> fd_ftab (p_fds (k_procs st p) ! fd) = None) \<and>
    fd < length (p_fds (k_procs st' p)) \<and>
    (\<exists>f. p_fds (k_procs st' p) ! fd = \<lparr>fd_ftab = Some f, fd_read = r, fd_write = w, fd_append = app, fd_offset = 0, fd_mutex = False\<rparr> \<and>
       ft_node (k_ftab st' ! f) = Some n) \<and>
    (\<forall>i<length (p_fds (k_procs st p)). i \<noteq> fd \<longrightarrow> p_fds (k_procs st' p) ! i = p_fds (k_procs st p) ! i)"
proof -
  from assms(1) obtain f st1 g fds le where ft: "ftab_open ops (Some n) p r w excl st = Some (Some f, st1)" and
    slot: "slot_find (fd_slot True f) 4 blank_fd g (p_fds (k_procs st1 p)) = Some (fd, fds)" and
    st': "p_fds (k_procs st' p) = fds[fd := \<lparr>fd_ftab = Some f, fd_read = r, fd_write = w, fd_append = app, fd_offset = 0, fd_mutex = False\<rparr>]"
      "k_ftab st' = k_ftab st1"
    by (auto simp: proc_fd_open_def Let_def mutex_release_def k_realloc_fields split: bind_splits option.splits if_splits prod.splits)
  have fds: "p_fds (k_procs st1 p) = p_fds (k_procs st p)" using ftab_open_procs [OF ft] by simp
  have free: "fd_slot True f = (\<lambda>e. fd_ftab e = None)" by (simp add: fd_slot_def fun_eq_iff)
  note slot = slot [unfolded fds free]
  have "ft_node (k_ftab st' ! f) = Some n"
    using ftab_open_entry [OF ft assms(2)] st'(2) by (auto simp: ftab_opened_def)
  then show ?thesis
    using slot_find_stores [OF slot] st'(1) slot_find_lowest [OF slot]
      find_idx_before [of _ "\<lambda>e. fd_ftab e = None" "p_fds (k_procs st p)"] find_idx_sat [of "\<lambda>e. fd_ftab e = None" "p_fds (k_procs st p)"]
      find_idx_le [of "\<lambda>e. fd_ftab e = None" "p_fds (k_procs st p)"]
    by auto
qed

theorem proc_fd_open_lowest_witness:
  "\<exists>st'. proc_fd_open (ftab_ops True) 7 (Some 5) True True False False False proc_example = Some (Some 0, st') \<and>
     fd_read (p_fds (k_procs st' 7) ! 0)"
proof -
  have "\<exists>st'. proc_fd_open (ftab_ops True) 7 (Some 5) True True False False False proc_example = Some (Some 0, st')"
    by (simp add: proc_fd_open_def ftab_open_def ftab_find_def slot_find_def ftab_slot_def blank_ftab_def Let_def
        ftab_open_first_def put_ftab_def proc_example_def vm_realloc_def vm_example_def k_realloc_def blank_proc_def blank_fd_def)
  then obtain st' where run: "proc_fd_open (ftab_ops True) 7 (Some 5) True True False False False proc_example = Some (Some 0, st')" ..
  have "ftab_ok proc_example" by (simp add: ftab_ok_def ents_ok_def proc_example_def)
  from proc_fd_open_lowest [OF run this] run show ?thesis by auto
qed

end
