(* ===== verification/Task.thy ===== *)
theory Task
  imports Process
begin

text \<open>
  \<^verbatim>\<open>exec/task.c\<close>, \<^verbatim>\<open>arch/x86cpu/task.c\<close> and the parts of \<^verbatim>\<open>exec/process.c\<close> that work on tasks: tasks
  are a cyclic doubly linked list through \<open>t_prev\<close> and \<open>t_next\<close>; the scheduler walks it from the
  current task. \<open>task_switch\<close> is the assembly routine as its comments and instructions say: it saves
  the interrupted context to the current task, makes the new task current and ready, switches to its
  process' address space and continues with its registers. Extended registers are left out. A result
  of \<open>None\<close> is a NULL pointer that is dereferenced, a lock that is never released or a loop that
  never ends.
\<close>

datatype task_type = TASK_TYPE_KERNEL | TASK_TYPE_USER | TASK_TYPE_USER_SYS | TASK_TYPE_DELETE_PENDING

record regs =
  r_gen :: "u32 list" \<comment> \<open>EDI, ESI, EBP, ESP, EBX, EDX, ECX, EAX\<close>
  r_eip :: u32
  r_cs :: u32
  r_eflags :: u32
  r_esp_usr :: u32
  r_ss_usr :: u32

record task =
  t_regs :: regs
  t_type :: task_type
  t_ready :: bool
  t_pid :: nat
  t_stack_bottom :: u32
  t_stack_size :: u32
  t_switch :: u32
  t_prev :: nat
  t_next :: nat

record ('h, 'z) kern = "('h, 'z) kprocs" +
  k_tasks :: "nat \<Rightarrow> task"
  k_task_kernel :: "nat option"
  k_task_current :: "nat option"
  k_proc_kernel :: "nat option"
  k_block :: u32
  k_yield_tick :: u32
  k_tick :: u32

abbreviation task_kernel_stack_size :: u32 where "task_kernel_stack_size \<equiv> 2048"

definition put_task :: "nat \<Rightarrow> task \<Rightarrow> ('h, 'z, 'y) kern_scheme \<Rightarrow> ('h, 'z, 'y) kern_scheme" where
  "put_task t x st = st\<lparr>k_tasks := (k_tasks st)(t := x)\<rparr>"

section \<open>Task structures\<close>

definition r_esp :: "regs \<Rightarrow> u32" where
  "r_esp r = r_gen r ! 3"

definition blank_task :: "bool \<Rightarrow> task" where
  "blank_task user = \<lparr>t_regs = \<lparr>r_gen = replicate 8 0, r_eip = 0, r_cs = (if user then 0x1B else 0x08), r_eflags = 0x200,
       r_esp_usr = 0, r_ss_usr = 0x23\<rparr>,
     t_type = TASK_TYPE_KERNEL, t_ready = False, t_pid = 0, t_stack_bottom = 0, t_stack_size = 0, t_switch = 0, t_prev = 0, t_next = 0\<rparr>"

definition task_create_stub :: "bool \<Rightarrow> ('h, 'z, 'y) kern_scheme \<Rightarrow> nat option \<times> ('h, 'z, 'y) kern_scheme" where
  "task_create_stub user st =
     (case k_alloc st of (None, st) \<Rightarrow> (None, st) | (Some t, st) \<Rightarrow> (Some t, put_task t (blank_task user) st))"

definition task_get_iptr :: "task \<Rightarrow> u32" where
  "task_get_iptr t = r_eip (t_regs t)"

definition task_set_iptr :: "u32 \<Rightarrow> task \<Rightarrow> task" where
  "task_set_iptr iptr t = t\<lparr>t_regs := (t_regs t)\<lparr>r_eip := iptr\<rparr>\<rparr>"

definition task_get_sptr :: "task \<Rightarrow> u32" where
  "task_get_sptr t = (if t_type t = TASK_TYPE_USER then r_esp_usr (t_regs t) else r_esp (t_regs t) + 4 * (2 + 3))"

definition task_set_sptr :: "u32 \<Rightarrow> task \<Rightarrow> task" where
  "task_set_sptr sptr t =
     (if t_type t = TASK_TYPE_USER then t\<lparr>t_regs := (t_regs t)\<lparr>r_esp_usr := sptr\<rparr>\<rparr>
      else t\<lparr>t_regs := (t_regs t)\<lparr>r_gen := (r_gen (t_regs t))[3 := sptr - 4 * (2 + 3)]\<rparr>\<rparr>)"

definition task_set_ready :: "bool \<Rightarrow> task \<Rightarrow> task" where
  "task_set_ready ready t = t\<lparr>t_ready := ready\<rparr>"

definition task_get_ready :: "task \<Rightarrow> bool" where
  "task_get_ready t = t_ready t"

definition task_yield_block :: "('h, 'z, 'y) kern_scheme \<Rightarrow> ('h, 'z, 'y) kern_scheme" where
  "task_yield_block st = st\<lparr>k_block := k_block st + 1\<rparr>"

definition task_yield_unblock :: "('h, 'z, 'y) kern_scheme \<Rightarrow> ('h, 'z, 'y) kern_scheme" where
  "task_yield_unblock st = (if 0 < k_block st then st\<lparr>k_block := k_block st - 1\<rparr> else st)"

definition task_insert :: "nat \<Rightarrow> nat \<Rightarrow> ('h, 'z, 'y) kern_scheme \<Rightarrow> ('h, 'z, 'y) kern_scheme" where
  "task_insert task target st =
     (let st = task_yield_block st;
          st = put_task task ((k_tasks st task)\<lparr>t_prev := target\<rparr>) st;
          st = put_task task ((k_tasks st task)\<lparr>t_next := t_next (k_tasks st target)\<rparr>) st;
          n = t_next (k_tasks st task);
          st = put_task n ((k_tasks st n)\<lparr>t_prev := task\<rparr>) st;
          st = put_task target ((k_tasks st target)\<lparr>t_next := task\<rparr>) st
      in task_yield_unblock st)"

definition task_unlink :: "nat \<Rightarrow> ('h, 'z, 'y) kern_scheme \<Rightarrow> ('h, 'z, 'y) kern_scheme" where
  "task_unlink task st =
     (let p = t_prev (k_tasks st task);
          st = put_task p ((k_tasks st p)\<lparr>t_next := t_next (k_tasks st task)\<rparr>) st;
          n = t_next (k_tasks st task)
      in put_task n ((k_tasks st n)\<lparr>t_prev := t_prev (k_tasks st task)\<rparr>) st)"

section \<open>Tasks of a process\<close>

definition task_slot :: "nat \<Rightarrow> nat option \<Rightarrow> bool" where
  "task_slot task x \<longleftrightarrow> x = Some task \<or> x = None"

definition proc_add_task :: "nat \<Rightarrow> nat \<Rightarrow> ('h, 'z, 'y) kern_scheme \<Rightarrow> (nat option \<times> ('h, 'z, 'y) kern_scheme) option" where
  "proc_add_task p task st =
     do { l \<leftarrow> mutex_acquire (p_mu_tasks (k_procs st p));
          let tasks = p_tasks (k_procs st p); i = find_idx (task_slot task) tasks;
              unlock = (\<lambda>st. put_proc p ((k_procs st p)\<lparr>p_mu_tasks := mutex_release l\<rparr>) st)
          in if i < length tasks \<and> tasks ! i = Some task then Some (Some i, unlock st)
             else let (grown, st) = (if i = length tasks then k_realloc st else (False, st))
                  in Some (case slot_find (task_slot task) 4 None grown tasks of
                       None \<Rightarrow> (None, unlock st)
                     | Some (i, tasks) \<Rightarrow>
                         (Some i, unlock (put_task task ((k_tasks st task)\<lparr>t_pid := p_pid (k_procs st p)\<rparr>)
                            (put_proc p ((k_procs st p)\<lparr>p_tasks := tasks[i := Some task]\<rparr>) st)))) }"

text \<open>The stack of a new task, one frame at a time from its bottom; the number of frames obtained.\<close>

fun task_stack :: "u32 \<Rightarrow> u32 \<Rightarrow> u32 \<Rightarrow> nat \<Rightarrow> nat \<Rightarrow> vm \<Rightarrow> (nat \<times> vm) option" where
  "task_stack vmm bottom flags 0 frames vm = Some (frames, vm)"
| "task_stack vmm bottom flags (Suc k) frames vm =
     do { (pmm, r) \<leftarrow> pmm_alloc_free (vm_pmm vm) 1;
          let vm = vm\<lparr>vm_pmm := pmm\<rparr>;
          case r of
            None \<Rightarrow> Some (frames, vm)
          | Some frame \<Rightarrow>
              do { vm \<leftarrow> vmm_pgmap vmm (of_nat frame * 4096) (bottom - of_nat (frames + 1) * 4096) 0 flags vm;
                   task_stack vmm bottom flags k (frames + 1) vm } }"

text \<open>
  The stack pointer is set while the type is still that of a fresh structure; a task that cannot be
  completed is freed, but stays in the list of the process.
\<close>

definition task_setup :: "bool \<Rightarrow> u32 \<Rightarrow> u32 \<Rightarrow> u32 \<Rightarrow> u32 \<Rightarrow> task \<Rightarrow> task" where
  "task_setup user entry bottom sz tick x =
     (let x = task_set_iptr entry (x\<lparr>t_stack_size := sz\<rparr>);
          x = task_set_sptr (bottom - (if user then task_kernel_stack_size else 0)) x
      in x\<lparr>t_switch := tick, t_type := (if user then TASK_TYPE_USER else TASK_TYPE_KERNEL), t_ready := (entry \<noteq> 0)\<rparr>)"

definition task_finish ::
  "bool \<Rightarrow> u32 \<Rightarrow> nat \<Rightarrow> u32 \<Rightarrow> u32 \<Rightarrow> nat \<Rightarrow> ('h, 'z, 'y) kern_scheme \<Rightarrow> (nat option \<times> ('h, 'z, 'y) kern_scheme) option" where
  "task_finish user vmm stack_frames entry bottom task st =
     do { (frames, vm) \<leftarrow> task_stack vmm bottom (0x13 OR (if user then 4 else 0)) stack_frames 0 (k_vm st);
          let st = st\<lparr>k_vm := vm\<rparr>;
          if of_nat frames * 4096 \<le> (if user then task_kernel_stack_size else 0) then Some (None, st)
          else
            do { target \<leftarrow> k_task_kernel st;
                 Some (Some task, task_insert task target
                   (put_task task (task_setup user entry bottom (of_nat frames * 4096) (k_tick st) (k_tasks st task)) st)) } }"

definition task_with_stack ::
  "bool \<Rightarrow> nat \<Rightarrow> u32 \<Rightarrow> u32 \<Rightarrow> u32 \<Rightarrow> nat \<Rightarrow> ('h, 'z, 'y) kern_scheme \<Rightarrow> (nat option \<times> ('h, 'z, 'y) kern_scheme) option" where
  "task_with_stack user p stack_sz entry stack_bottom task st =
     do { let vmm = p_vmm (k_procs st p);
          let stack_sz = (if stack_sz mod 4096 \<noteq> 0 then stack_sz + (4096 - stack_sz mod 4096) else stack_sz);
          (bottom, vm) \<leftarrow> (if stack_bottom \<noteq> 0 then Some (stack_bottom, k_vm st)
             else do { (a, vm) \<leftarrow> vmm_first_free vmm 0 (kernel_start (k_vm st)) stack_sz 0 True (k_vm st);
                       Some (a + stack_sz, vm) });
          let st = put_task task ((k_tasks st task)\<lparr>t_stack_bottom := bottom\<rparr>) (st\<lparr>k_vm := vm\<rparr>);
          if bottom = 0 then Some (None, st)
          else task_finish user vmm (unat ((stack_sz + 4096 - 1) div 4096)) entry bottom task st }"

definition task_create ::
  "bool \<Rightarrow> nat \<Rightarrow> u32 \<Rightarrow> u32 \<Rightarrow> u32 \<Rightarrow> ('h, 'z, 'y) kern_scheme \<Rightarrow> (nat option \<times> ('h, 'z, 'y) kern_scheme) option" where
  "task_create user p stack_sz entry stack_bottom st =
     (case task_create_stub user st of
        (None, st) \<Rightarrow> Some (None, st)
      | (Some task, st) \<Rightarrow>
          do { (idx, st) \<leftarrow> proc_add_task p task st;
               if idx = None then Some (None, st)
               else task_with_stack user p stack_sz entry stack_bottom task st })"

section \<open>Deleting tasks and processes\<close>

definition task_free_stack :: "u32 \<Rightarrow> u32 \<Rightarrow> u32 \<Rightarrow> vm \<Rightarrow> vm option" where
  "task_free_stack vmm bottom sz vm =
     (if 0xFFFFF000 < sz then None
      else Some (fold (\<lambda>i vm. let (pa, vm) = vmm_get_paddr vmm (bottom - 4096 - of_nat i * 4096) vm
                             in vm\<lparr>vm_pmm := pmm_free (vm_pmm vm) (unat pa div 4096)\<rparr>)
                 [0..<(unat sz + 4095) div 4096] vm))"

definition task_do_delete :: "nat \<Rightarrow> ('h, 'z, 'y) kern_scheme \<Rightarrow> ('h, 'z, 'y) kern_scheme option" where
  "task_do_delete task st =
     do { let st = task_yield_block st;
          let x = k_tasks st task;
          st \<leftarrow> (case proc_get (t_pid x) st of
              None \<Rightarrow> Some st
            | Some p \<Rightarrow>
                do { vm \<leftarrow> task_free_stack (p_vmm (k_procs st p)) (t_stack_bottom x) (t_stack_size x) (k_vm st);
                     let tasks = map (\<lambda>y. if y = Some task then None else y) (p_tasks (k_procs st p));
                     let st = put_proc p ((k_procs st p)\<lparr>p_tasks := tasks\<rparr>) (st\<lparr>k_vm := vm\<rparr>);
                     if \<forall>y\<in>set tasks. y = None then proc_do_delete p st else Some st });
          Some (task_yield_unblock (task_unlink task st)) }"

definition task_delete :: "nat \<Rightarrow> ('h, 'z, 'y) kern_scheme \<Rightarrow> ('h, 'z, 'y) kern_scheme option" where
  "task_delete task st =
     (if k_task_current st = Some task then
        Some (put_task task ((k_tasks st task)\<lparr>t_type := TASK_TYPE_DELETE_PENDING\<rparr>) st)
      else task_do_delete task st)"

definition proc_delete_task :: "nat \<Rightarrow> nat \<Rightarrow> ('h, 'z, 'y) kern_scheme \<Rightarrow> ('h, 'z, 'y) kern_scheme option" where
  "proc_delete_task p task st =
     do { l \<leftarrow> mutex_acquire (p_mu_tasks (k_procs st p));
          let tasks = p_tasks (k_procs st p);
          let i = find_idx (\<lambda>y. y = Some task) tasks;
          let st = put_proc p ((k_procs st p)\<lparr>p_tasks := tasks[i := None], p_mu_tasks := mutex_release l\<rparr>) st;
          task_delete task st }"

text \<open>The loop of \<open>proc_delete\<close>: whether the current task is one of the process' tasks.\<close>

fun proc_delete_tasks :: "nat \<Rightarrow> nat list \<Rightarrow> bool \<Rightarrow> ('h, 'z, 'y) kern_scheme \<Rightarrow> (bool \<times> ('h, 'z, 'y) kern_scheme) option" where
  "proc_delete_tasks p [] deleting st = Some (deleting, st)"
| "proc_delete_tasks p (i # is) deleting st =
     (case p_tasks (k_procs st p) ! i of
        None \<Rightarrow> proc_delete_tasks p is deleting st
      | Some t \<Rightarrow>
          if k_task_current st = Some t then proc_delete_tasks p is True st
          else do { st \<leftarrow> task_delete t st; proc_delete_tasks p is deleting st })"

definition proc_delete :: "nat \<Rightarrow> ('h, 'z, 'y) kern_scheme \<Rightarrow> ('h, 'z, 'y) kern_scheme option" where
  "proc_delete p st =
     (if k_proc_kernel st = Some p then None
      else
        do { l \<leftarrow> mutex_acquire (p_mu_tasks (k_procs st p));
             l' \<leftarrow> mutex_acquire (p_mu_fds (k_procs st p));
             let st = put_proc p ((k_procs st p)\<lparr>p_mu_tasks := l, p_mu_fds := l'\<rparr>) st;
             (deleting, st) \<leftarrow> proc_delete_tasks p [0..<length (p_tasks (k_procs st p))] False st;
             vm \<leftarrow> elf_unload_prg (p_vmm (k_procs st p)) (p_segs (k_procs st p)) (k_vm st);
             let st = st\<lparr>k_vm := vm\<rparr>;
             if deleting then task_delete (the (k_task_current st)) st else Some st })"

section \<open>Scheduling\<close>

definition task_init_stub :: "u32 \<Rightarrow> u32 \<Rightarrow> u32 \<Rightarrow> ('h, 'z, 'y) kern_scheme \<Rightarrow> ('h, 'z, 'y) kern_scheme option" where
  "task_init_stub kmain stack_bottom stack_top st =
     (case task_create_stub False st of
        (None, st) \<Rightarrow> None
      | (Some t, st) \<Rightarrow>
          let x = (k_tasks st t)\<lparr>t_pid := 0, t_type := TASK_TYPE_KERNEL, t_prev := t, t_next := t,
                t_stack_bottom := stack_bottom, t_stack_size := stack_bottom - stack_top\<rparr>;
              x = task_set_ready False (task_set_sptr stack_bottom (task_set_iptr kmain x))
          in Some ((put_task t x st)\<lparr>k_task_kernel := Some t\<rparr>))"

definition proc_init ::
  "('h \<Rightarrow> ('h, 'z) vhook) \<Rightarrow> nat option \<Rightarrow> u32 \<Rightarrow> u32 \<Rightarrow> u32 \<Rightarrow> ('h, 'z, 'y) kern_scheme \<Rightarrow> ('h, 'z, 'y) kern_scheme option" where
  "proc_init ops console kmain stack_bottom stack_top st =
     do { (p, st) \<leftarrow> proc_create ops console None 0 False st;
          p \<leftarrow> p;
          let st = put_proc p ((k_procs st p)\<lparr>p_vmm := vmm_kernel (k_vm st)\<rparr>) (st\<lparr>k_proc_kernel := Some p\<rparr>);
          st \<leftarrow> task_init_stub kmain stack_bottom stack_top st;
          (i, st) \<leftarrow> proc_add_task p (the (k_task_kernel st)) st;
          Some st }"

text \<open>The interrupted context is saved, with the user stack only when it comes from ring 3.\<close>

definition task_switch :: "nat \<Rightarrow> regs \<Rightarrow> ('h, 'z, 'y) kern_scheme \<Rightarrow> (regs \<times> ('h, 'z, 'y) kern_scheme) option" where
  "task_switch task ctx st =
     do { let st = (case k_task_current st of
              None \<Rightarrow> st
            | Some c \<Rightarrow>
                let old = t_regs (k_tasks st c);
                    ctx = (if r_cs ctx AND 3 = 0 then ctx\<lparr>r_esp_usr := r_esp_usr old, r_ss_usr := r_ss_usr old\<rparr> else ctx)
                in put_task c ((k_tasks st c)\<lparr>t_regs := ctx\<rparr>) st);
          let st = put_task task ((k_tasks st task)\<lparr>t_ready := True\<rparr>) (st\<lparr>k_task_current := Some task\<rparr>);
          p \<leftarrow> k_pidtab st ! t_pid (k_tasks st task);
          Some (t_regs (k_tasks st task), st\<lparr>k_vm := vmm_switch (p_vmm (k_procs st p)) (k_vm st)\<rparr>) }"

text \<open>The walk around the ring from the current task \<open>cur\<close>, for the longest wait.\<close>

partial_function (option) task_select ::
  "(nat \<Rightarrow> task) \<Rightarrow> u32 \<Rightarrow> nat \<Rightarrow> nat \<Rightarrow> nat \<Rightarrow> u32 \<Rightarrow> nat option" where
  "task_select tasks tick cur selected task tdelta_max =
     (let task = t_next (tasks task)
      in if task = cur then Some selected
         else if \<not> t_ready (tasks task) then task_select tasks tick cur selected task tdelta_max
         else let tdelta = tick - t_switch (tasks task)
              in if tdelta_max < tdelta then task_select tasks tick cur task task tdelta
                 else task_select tasks tick cur selected task tdelta_max)"

text \<open>\<open>task_yield\<close>: the context that runs next, \<open>None\<close> when the call returns to its caller.\<close>

definition task_yield :: "regs \<Rightarrow> ('h, 'z, 'y) kern_scheme \<Rightarrow> (regs option \<times> ('h, 'z, 'y) kern_scheme) option" where
  "task_yield ctx st =
     (case k_task_kernel st of
        None \<Rightarrow> Some (None, st)
      | Some tk \<Rightarrow>
          if k_block st \<noteq> 0 then Some (None, st)
          else
            do { vm \<leftarrow> vmm_do_cleanup (k_vm st);
                 let st = st\<lparr>k_vm := vm\<rparr>;
                 let go = (\<lambda>t st. map_option (\<lambda>(r, st). (Some r, st))
                     (task_switch t ctx (put_task t ((k_tasks st t)\<lparr>t_switch := k_tick st\<rparr>) (st\<lparr>k_yield_tick := k_tick st\<rparr>))));
                 case k_task_current st of
                   None \<Rightarrow> if task_get_ready (k_tasks st tk) then go tk st else Some (None, st)
                 | Some cur \<Rightarrow>
                     do { sel \<leftarrow> task_select (k_tasks st) (k_tick st) cur cur cur 0;
                          if sel = cur then Some (None, st)
                          else
                            do { st \<leftarrow> (if t_type (k_tasks st cur) = TASK_TYPE_DELETE_PENDING
                                   then do { st \<leftarrow> task_do_delete cur st; Some (st\<lparr>k_task_current := None\<rparr>) }
                                   else Some st);
                                 go sel st } } })"

section \<open>Forking\<close>

text \<open>
  \<open>memcpy\<close> of whole pages between two mapped stacks of the current address space, frame by frame; stacks
  that do not start at a page boundary are not modelled (\<open>None\<close>).
\<close>

definition copy_pages :: "u32 \<Rightarrow> u32 \<Rightarrow> u32 \<Rightarrow> vm \<Rightarrow> vm option" where
  "copy_pages dst src sz vm =
     (if dst mod 4096 \<noteq> 0 \<or> src mod 4096 \<noteq> 0 \<or> sz mod 4096 \<noteq> 0 then None
      else Some (fold (\<lambda>i vm.
        let (pd, vm) = vmm_get_paddr (vmm_current vm) (dst + of_nat i * 4096) vm;
            (ps, vm) = vmm_get_paddr (vmm_current vm) (src + of_nat i * 4096) vm
        in vm\<lparr>vm_phys := (vm_phys vm)(pd_frame pd := vm_phys vm (pd_frame ps))\<rparr>) [0..<unat sz div 4096] vm))"

definition task_fork_stub :: "nat option \<Rightarrow> ('h, 'z, 'y) kern_scheme \<Rightarrow> (nat option \<times> ('h, 'z, 'y) kern_scheme) option" where
  "task_fork_stub proc st =
     do { cur \<leftarrow> k_task_current st;
          let c = k_tasks st cur;
          let cur_proc = proc_get (t_pid c) st;
          let same_proc = (proc = None \<or> proc = cur_proc);
          p \<leftarrow> (if proc = None then cur_proc else proc);
          let user = (t_type c = TASK_TYPE_USER \<or> t_type c = TASK_TYPE_USER_SYS);
          (t, st) \<leftarrow> task_create user p (t_stack_size c - (if user then task_kernel_stack_size else 0)) 0
                       (if same_proc then 0 else t_stack_bottom c) st;
          case t of
            None \<Rightarrow> Some (None, st)
          | Some task \<Rightarrow>
              do { let x = (k_tasks st task)\<lparr>t_type := (if t_type c = TASK_TYPE_KERNEL then TASK_TYPE_KERNEL else TASK_TYPE_USER_SYS),
                          t_pid := p_pid (k_procs st p), t_ready := False\<rparr>;
                   let st = put_task task x st;
                   let top = t_stack_bottom x - t_stack_size x;
                   let vmm = p_vmm (k_procs st p);
                   let cvm = vmm_current (k_vm st);
                   (win, vm) \<leftarrow> (if vmm \<noteq> cvm
                       then vmm_alloc_map cvm 0 (t_stack_size x) 0 (kernel_start (k_vm st)) 0 0 False 3 (k_vm st)
                       else Some (top, k_vm st));
                   if vmm \<noteq> cvm \<and> win = 0
                   then do { st \<leftarrow> task_delete task (st\<lparr>k_vm := vm\<rparr>); Some (None, st) }
                   else
                     do { let vm = (if vmm \<noteq> cvm then fold (\<lambda>i vm.
                              let (pa, vm) = vmm_get_paddr vmm (top + of_nat i * 4096) vm
                              in vmm_set_paddr cvm (win + of_nat i * 4096) pa vm) [0..<unat (t_stack_size x) div 4096] vm else vm);
                          vm \<leftarrow> copy_pages win (t_stack_bottom c - t_stack_size c) (t_stack_size x) vm;
                          vm \<leftarrow> (if vmm \<noteq> cvm then vmm_unmap cvm win (t_stack_size x) vm else Some vm);
                          Some (Some task, st\<lparr>k_vm := vm\<rparr>) } } }"

text \<open>
  \<open>task_fork\<close> is assembly: it stores the caller's context, \<open>ctx\<close> here, in the new task and marks it
  ready.
\<close>

definition task_fork :: "regs \<Rightarrow> nat option \<Rightarrow> ('h, 'z, 'y) kern_scheme \<Rightarrow> (nat option \<times> ('h, 'z, 'y) kern_scheme) option" where
  "task_fork ctx proc st =
     do { (t, st) \<leftarrow> task_fork_stub proc st;
          Some (case t of None \<Rightarrow> (None, st)
                | Some task \<Rightarrow> (Some task, put_task task ((k_tasks st task)\<lparr>t_regs := ctx, t_ready := True\<rparr>) st)) }"

text \<open>The descriptors from 3 on are shared with the parent, unless they are held exclusively.\<close>

fun fork_fds :: "nat \<Rightarrow> nat list \<Rightarrow> ('h, 'z, 'y) kprocs_scheme \<Rightarrow> ('h, 'z, 'y) kprocs_scheme option" where
  "fork_fds p [] st = Some st"
| "fork_fds p (i # is) st =
     (case fd_ftab (p_fds (k_procs st p) ! i) of
        None \<Rightarrow> fork_fds p is st
      | Some f \<Rightarrow>
          let e = k_ftab st ! f
          in if ft_excl e \<noteq> None then fork_fds p is (put_fd p i blank_fd st)
             else do { le \<leftarrow> mutex_acquire (ft_mutex e);
                       fork_fds p is (put_ftab f (e\<lparr>ft_refs := ft_refs e + 1, ft_mutex := mutex_release le\<rparr>) st) })"

definition proc_fork ::
  "('h \<Rightarrow> ('h, 'z) vhook) \<Rightarrow> nat option \<Rightarrow> regs \<Rightarrow> ('h, 'z, 'y) kern_scheme \<Rightarrow> (nat option \<times> ('h, 'z, 'y) kern_scheme) option" where
  "proc_fork ops console ctx st =
     do { cur \<leftarrow> k_task_current st;
          src \<leftarrow> proc_get (t_pid (k_tasks st cur)) st;
          (r, st) \<leftarrow> proc_create ops console (Some src) (p_vmm (k_procs st src)) True st;
          case r of
            None \<Rightarrow> Some (None, st)
          | Some dst \<Rightarrow>
              do { let st = put_proc dst ((k_procs st dst)\<lparr>p_parent := p_pid (k_procs st src)\<rparr>) st;
                   let (ok, st) = k_realloc st;
                   if \<not> ok then do { st \<leftarrow> proc_delete dst st; Some (None, st) }
                   else
                     do { let fds = p_fds (k_procs st src);
                          st \<leftarrow> fork_fds dst [3..<length fds] (put_proc dst ((k_procs st dst)\<lparr>p_fds := fds\<rparr>) st);
                          (t, st) \<leftarrow> task_fork ctx (Some dst) st;
                          if t = None then do { st \<leftarrow> proc_delete dst st; Some (None, st) }
                          else Some (Some dst, st) } } }"

section \<open>System calls\<close>

text \<open>
  \<open>proc_abort\<close> and \<open>exit\<close> end in a loop that spins until the scheduler takes the task away; their
  result is the state in which they spin. Without a current task \<open>proc_abort\<close> halts.
\<close>

definition proc_abort :: "('h, 'z, 'y) kern_scheme \<Rightarrow> ('h, 'z, 'y) kern_scheme option" where
  "proc_abort st =
     do { cur \<leftarrow> k_task_current st;
          p \<leftarrow> proc_get (t_pid (k_tasks st cur)) st;
          proc_delete p st }"

definition syscall_fork ::
  "('h \<Rightarrow> ('h, 'z) vhook) \<Rightarrow> nat option \<Rightarrow> regs \<Rightarrow> ('h, 'z, 'y) kern_scheme \<Rightarrow> (u32 \<times> ('h, 'z, 'y) kern_scheme) option" where
  "syscall_fork ops console ctx st =
     do { (r, st) \<leftarrow> proc_fork ops console ctx st;
          case r of
            None \<Rightarrow> Some (size_max, st)
          | Some child \<Rightarrow>
              do { cur \<leftarrow> k_task_current st;
                   if t_pid (k_tasks st cur) = p_pid (k_procs st child) then Some (0, st)
                   else Some (of_nat (p_pid (k_procs st child)), st) } }"

text \<open>
  The dispatcher: the result, the new value of the function register, and what a read stores in the
  caller's buffer. \<open>buf\<close> is what the buffer holds for a write.
\<close>

definition syscall_handler_stub ::
  "('h \<Rightarrow> ('h, 'z) vhook) \<Rightarrow> nat option \<Rightarrow> regs \<Rightarrow> u32 \<Rightarrow> u32 \<Rightarrow> u32 \<Rightarrow> u8 list \<Rightarrow> ('h, 'z, 'y) kern_scheme \<Rightarrow>
     ((bool \<times> u32 \<times> u8 list) \<times> ('h, 'z, 'y) kern_scheme) option" where
  "syscall_handler_stub ops console ctx func arg1 arg3 buf st =
     (if func = 0 then map_option (\<lambda>st. ((True, func, []), st)) (proc_abort st)
      else if func = 1 then
        do { cur \<leftarrow> k_task_current st; p \<leftarrow> proc_get (t_pid (k_tasks st cur)) st;
             ((n, data), st) \<leftarrow> proc_fd_read ops p (unat arg3) (ucast arg1) st;
             Some ((True, ucast n, data), st) }
      else if func = 2 then
        do { cur \<leftarrow> k_task_current st; p \<leftarrow> proc_get (t_pid (k_tasks st cur)) st;
             (n, st) \<leftarrow> proc_fd_write ops p (unat arg3) (ucast arg1) buf st;
             Some ((True, ucast n, []), st) }
      else if func = 3 then
        do { (r, st) \<leftarrow> syscall_fork ops console ctx st; Some ((True, r, []), st) }
      else Some ((False, size_max, []), st))"

interpretation task_tab: slot_table "task_slot t" None 4 for t
  by unfold_locales (simp_all add: task_slot_def)


section \<open>The ring of tasks\<close>

text \<open>A doubly linked segment from \<open>a\<close> through \<open>xs\<close> to \<open>b\<close>; the ring is one from a task to itself.\<close>

fun task_seg :: "(nat \<Rightarrow> task) \<Rightarrow> nat \<Rightarrow> nat list \<Rightarrow> nat \<Rightarrow> bool" where
  "task_seg T a [] b \<longleftrightarrow> t_next (T a) = b \<and> t_prev (T b) = a"
| "task_seg T a (x # xs) b \<longleftrightarrow> t_next (T a) = x \<and> t_prev (T x) = a \<and> task_seg T x xs b"

definition task_ring :: "(nat \<Rightarrow> task) \<Rightarrow> nat \<Rightarrow> nat list \<Rightarrow> bool" where
  "task_ring T a xs \<longleftrightarrow> task_seg T a xs a \<and> distinct (a # xs)"

lemma task_seg_append: "task_seg T a (xs @ x # ys) b \<longleftrightarrow> task_seg T a xs x \<and> task_seg T x ys b"
  by (induction xs arbitrary: a) auto

lemma task_ring_rotate: "task_ring T a (xs @ b # ys) \<Longrightarrow> task_ring T b (ys @ a # xs)"
  by (auto simp: task_ring_def task_seg_append)

lemma task_seg_cong:
  assumes "\<And>z. z = a \<or> z \<in> set xs \<Longrightarrow> t_next (T' z) = t_next (T z)"
    and "\<And>z. z = b \<or> z \<in> set xs \<Longrightarrow> t_prev (T' z) = t_prev (T z)"
  shows "task_seg T' a xs b = task_seg T a xs b"
  using assms
proof (induction xs arbitrary: a)
  case (Cons x xs)
  have "task_seg T' x xs b = task_seg T x xs b" by (rule Cons.IH) (use Cons.prems in auto)
  then show ?case using Cons.prems by simp
qed simp

lemma put_task_simps [simp]:
  "k_tasks (put_task t x st) = (k_tasks st)(t := x)" "k_task_current (put_task t x st) = k_task_current st"
  "k_task_kernel (put_task t x st) = k_task_kernel st" "k_block (put_task t x st) = k_block st"
  "k_vm (put_task t x st) = k_vm st" "k_pidtab (put_task t x st) = k_pidtab st" "k_procs (put_task t x st) = k_procs st"
  "k_tick (put_task t x st) = k_tick st" "k_yield_tick (put_task t x st) = k_yield_tick st"
  by (simp_all add: put_task_def)

lemma task_yield_block_tasks [simp]:
  "k_tasks (task_yield_block st) = k_tasks st" "k_tasks (task_yield_unblock st) = k_tasks st"
  by (simp_all add: task_yield_block_def task_yield_unblock_def)

lemma task_insert_block: "k_block st \<noteq> - 1 \<Longrightarrow> k_block (task_insert t a st) = k_block st"
  by (auto simp: task_insert_def Let_def task_yield_block_def task_yield_unblock_def word_gt_0 add_eq_0_iff2)

lemma task_insert_links:
  assumes "t \<noteq> a" and "t_next (k_tasks st a) \<noteq> t"
  shows "t_next (k_tasks (task_insert t a st) z) =
      (if z = a then t else if z = t then t_next (k_tasks st a) else t_next (k_tasks st z))"
    and "t_prev (k_tasks (task_insert t a st) z) =
      (if z = t_next (k_tasks st a) then t else if z = t then a else t_prev (k_tasks st z))"
  using assms by (auto simp: task_insert_def Let_def)

lemma task_unlink_links:
  assumes "t_prev (k_tasks st t) \<noteq> t" and "t_next (k_tasks st t) \<noteq> t"
  shows "t_next (k_tasks (task_unlink t st) z) =
      (if z = t_prev (k_tasks st t) then t_next (k_tasks st t) else t_next (k_tasks st z))"
    and "t_prev (k_tasks (task_unlink t st) z) =
      (if z = t_next (k_tasks st t) then t_prev (k_tasks st t) else t_prev (k_tasks st z))"
  using assms by (auto simp: task_unlink_def Let_def)

lemma task_insert_ring:
  assumes "task_ring (k_tasks st) a xs" and "t \<notin> set (a # xs)"
  shows "task_ring (k_tasks (task_insert t a st)) a (t # xs)"
proof (cases xs)
  case Nil
  then have n: "t_next (k_tasks st a) = a" using assms(1) by (simp add: task_ring_def)
  note l = task_insert_links [of t a st]
  show ?thesis using Nil assms(2) n l by (auto simp: task_ring_def)
next
  case (Cons y ys)
  then have n: "t_next (k_tasks st a) = y" and seg: "task_seg (k_tasks st) y ys a" and d: "distinct (a # y # ys)"
    using assms(1) by (auto simp: task_ring_def)
  have "t \<noteq> a" "t_next (k_tasks st a) \<noteq> t" using assms(2) n Cons by auto
  note l = task_insert_links [OF this, unfolded n]
  have "task_seg (k_tasks (task_insert t a st)) y ys a = task_seg (k_tasks st) y ys a"
    by (rule task_seg_cong) (use d assms(2) Cons in \<open>auto simp: l\<close>)
  then show ?thesis using seg d assms(2) Cons by (auto simp: task_ring_def l)
qed

lemma task_unlink_ring:
  assumes "task_ring (k_tasks st) a (t # xs)"
  shows "task_ring (k_tasks (task_unlink t st)) a xs"
proof (cases xs)
  case Nil
  then have n: "t_next (k_tasks st t) = a" "t_prev (k_tasks st t) = a" "t \<noteq> a" using assms by (auto simp: task_ring_def)
  then have "t_prev (k_tasks st t) \<noteq> t" "t_next (k_tasks st t) \<noteq> t" by auto
  note l = task_unlink_links [OF this, unfolded n]
  show ?thesis using Nil by (simp add: task_ring_def l)
next
  case (Cons y ys)
  then have n: "t_next (k_tasks st t) = y" "t_prev (k_tasks st t) = a" and seg: "task_seg (k_tasks st) y ys a"
    and d: "distinct (a # t # y # ys)"
    using assms by (auto simp: task_ring_def)
  then have "t_prev (k_tasks st t) \<noteq> t" "t_next (k_tasks st t) \<noteq> t" by auto
  note l = task_unlink_links [OF this, unfolded n]
  have "task_seg (k_tasks (task_unlink t st)) y ys a = task_seg (k_tasks st) y ys a"
    by (rule task_seg_cong) (use d in \<open>auto simp: l\<close>)
  then show ?thesis using seg d Cons by (auto simp: task_ring_def l)
qed

text \<open>
  C17: inserting a task after another one keeps the tasks a doubly linked ring, in which the new task
  comes right after that other task and all others keep their order; removing a task keeps the ring of
  the others.
\<close>

theorem task_ring_insert_unlink:
  assumes "task_ring (k_tasks st) a xs" and "t \<notin> set (a # xs)"
  shows "task_ring (k_tasks (task_insert t a st)) a (t # xs) \<and>
    task_ring (k_tasks (task_unlink t (task_insert t a st))) a xs"
  using task_insert_ring [OF assms] task_unlink_ring by blast

section \<open>Choosing the next task\<close>

text \<open>The loop of the scheduler as a fold over the ring.\<close>

definition task_better :: "(nat \<Rightarrow> task) \<Rightarrow> u32 \<Rightarrow> nat \<Rightarrow> nat \<times> u32 \<Rightarrow> nat \<times> u32" where
  "task_better T tick t r =
     (if t_ready (T t) \<and> snd r < tick - t_switch (T t) then (t, tick - t_switch (T t)) else r)"

lemma task_select_fold:
  "task_seg T a xs cur \<Longrightarrow> cur \<notin> set xs \<Longrightarrow>
     task_select T tick cur s a m = Some (fst (fold (task_better T tick) xs (s, m)))"
proof (induction xs arbitrary: a s m)
  case Nil
  then show ?case by (simp add: task_select.simps [of T tick cur s a])
next
  case (Cons x xs)
  then have "t_next (T a) = x" "x \<noteq> cur" "task_seg T x xs cur" "cur \<notin> set xs" by auto
  then show ?case
    using Cons.IH [of x] by (simp add: task_select.simps [of T tick cur s a] Let_def task_better_def)
qed

text \<open>The waiting time of a task.\<close>

definition task_wait :: "('h, 'z, 'y) kern_scheme \<Rightarrow> nat \<Rightarrow> u32" where
  "task_wait st t = k_tick st - t_switch (k_tasks st t)"

lemma task_better_longest:
  assumes "fold (task_better T tick) xs (s, m) = (r, n)"
  shows "m \<le> n \<and> (\<forall>t\<in>set xs. t_ready (T t) \<longrightarrow> tick - t_switch (T t) \<le> n) \<and>
    (r = s \<and> n = m \<or> r \<in> set xs \<and> t_ready (T r) \<and> tick - t_switch (T r) = n \<and> m < n)"
  using assms
proof (induction xs arbitrary: s m)
  case (Cons x xs)
  obtain s' m' where b: "task_better T tick x (s, m) = (s', m')" by force
  from Cons.IH [of s' m'] Cons.prems b
  have ih: "m' \<le> n \<and> (\<forall>t\<in>set xs. t_ready (T t) \<longrightarrow> tick - t_switch (T t) \<le> n) \<and>
    (r = s' \<and> n = m' \<or> r \<in> set xs \<and> t_ready (T r) \<and> tick - t_switch (T r) = n \<and> m' < n)" by simp
  show ?case using ih b by (auto simp: task_better_def split: if_splits)
qed simp


lemma task_select_longest:
  assumes "task_ring (k_tasks st) cur xs"
  shows "\<exists>s. task_select (k_tasks st) (k_tick st) cur cur cur 0 = Some s \<and>
    (if \<exists>t\<in>set xs. t_ready (k_tasks st t) \<and> task_wait st t \<noteq> 0
     then s \<in> set xs \<and> t_ready (k_tasks st s) \<and> (\<forall>t\<in>set xs. t_ready (k_tasks st t) \<longrightarrow> task_wait st t \<le> task_wait st s)
     else s = cur)"
proof -
  obtain r n where f: "fold (task_better (k_tasks st) (k_tick st)) xs (cur, 0) = (r, n)" by force
  have "task_select (k_tasks st) (k_tick st) cur cur cur 0 = Some r"
    using assms f task_select_fold [of "k_tasks st" cur xs cur] by (simp add: task_ring_def)
  moreover note task_better_longest [OF f]
  ultimately show ?thesis
    by (intro exI [of _ r]) (auto simp: task_wait_def word_gt_0 split: if_splits)
qed

text \<open>
  when the timer interrupts a task and switching is not blocked, the scheduler walks the ring and
  switches to a ready task that has waited longest, whose registers continue; the interrupted
  context is saved in the old task, the new one is current, its time stamps are set and its process'
  address space is active. It returns to the interrupted task exactly when no other task is ready
  with a non-zero waiting time.
\<close>

text \<open>
  What is kept of an interrupted task: the whole context; an interrupt in kernel mode does not push
  the stack pointer of user mode, so that of the last interrupt in user mode stays.
\<close>

definition saved_regs :: "regs \<Rightarrow> regs \<Rightarrow> regs" where
  "saved_regs ctx old = (if r_cs ctx AND 3 = 0 then ctx\<lparr>r_esp_usr := r_esp_usr old, r_ss_usr := r_ss_usr old\<rparr> else ctx)"

lemma task_yield_longest_wait:
  assumes "task_ring (k_tasks st) cur xs" and "k_task_current st = Some cur" and "k_task_kernel st \<noteq> None"
    and "k_block st = 0" and "vmm_do_cleanup (k_vm st) = Some vm"
    and "t_type (k_tasks st cur) \<noteq> TASK_TYPE_DELETE_PENDING"
    and "\<forall>t\<in>set xs. k_pidtab st ! t_pid (k_tasks st t) \<noteq> None"
  shows "if \<exists>t\<in>set xs. t_ready (k_tasks st t) \<and> task_wait st t \<noteq> 0
    then \<exists>s p st'. s \<in> set xs \<and> t_ready (k_tasks st s) \<and> (\<forall>t\<in>set xs. t_ready (k_tasks st t) \<longrightarrow> task_wait st t \<le> task_wait st s) \<and>
      task_yield ctx st = Some (Some (t_regs (k_tasks st s)), st') \<and> k_task_current st' = Some s \<and>
      t_regs (k_tasks st' cur) = saved_regs ctx (t_regs (k_tasks st cur)) \<and> t_switch (k_tasks st' s) = k_tick st \<and> k_yield_tick st' = k_tick st \<and>
      k_pidtab st ! t_pid (k_tasks st s) = Some p \<and> k_vm st' = vmm_switch (p_vmm (k_procs st p)) vm
    else task_yield ctx st = Some (None, st\<lparr>k_vm := vm\<rparr>)"
proof -
  obtain tk where tk: "k_task_kernel st = Some tk" using assms(3) by auto
  from task_select_longest [OF assms(1)] obtain s where
    sel: "task_select (k_tasks st) (k_tick st) cur cur cur 0 = Some s" and
    best: "if \<exists>t\<in>set xs. t_ready (k_tasks st t) \<and> task_wait st t \<noteq> 0
     then s \<in> set xs \<and> t_ready (k_tasks st s) \<and> (\<forall>t\<in>set xs. t_ready (k_tasks st t) \<longrightarrow> task_wait st t \<le> task_wait st s)
     else s = cur" by blast
  show ?thesis
  proof (cases "\<exists>t\<in>set xs. t_ready (k_tasks st t) \<and> task_wait st t \<noteq> 0")
    case False
    then have "s = cur" using best by (simp split: if_splits)
    then have "task_yield ctx st = Some (None, st\<lparr>k_vm := vm\<rparr>)"
      using tk assms(2,4,5) sel by (simp add: task_yield_def)
    then show ?thesis using False by simp
  next
    case True
    then have s: "s \<in> set xs" "t_ready (k_tasks st s)"
      "\<forall>t\<in>set xs. t_ready (k_tasks st t) \<longrightarrow> task_wait st t \<le> task_wait st s"
      using best by simp_all
    have neq: "s \<noteq> cur" using s(1) assms(1) by (auto simp: task_ring_def)
    obtain p where p: "k_pidtab st ! t_pid (k_tasks st s) = Some p" using assms(7) s(1) by auto
    have "\<exists>st'. task_yield ctx st = Some (Some (t_regs (k_tasks st s)), st') \<and> k_task_current st' = Some s \<and>
      t_regs (k_tasks st' cur) = saved_regs ctx (t_regs (k_tasks st cur)) \<and> t_switch (k_tasks st' s) = k_tick st \<and> k_yield_tick st' = k_tick st \<and>
      k_vm st' = vmm_switch (p_vmm (k_procs st p)) vm"
      using tk assms(2,4,5,6) sel neq p by (simp add: task_yield_def task_switch_def put_task_def saved_regs_def Let_def)
    then show ?thesis using True s p by auto
  qed
qed

lemma task_insert_keeps [simp]:
  "t_regs (k_tasks (task_insert t a st) z) = t_regs (k_tasks st z)"
  "t_type (k_tasks (task_insert t a st) z) = t_type (k_tasks st z)"
  by (simp_all add: task_insert_def Let_def)

lemma k_realloc_tasks: "k_realloc st = (ok, st') \<Longrightarrow> k_tasks st' = k_tasks st"
  by (auto simp: k_realloc_def Let_def split: prod.splits)

lemma put_proc_tasks [simp]: "k_tasks (put_proc p x st) = k_tasks st"
  by (simp add: put_proc_def)

lemma proc_add_task_regs:
  "proc_add_task p t st = Some (i, st') \<Longrightarrow>
     t_regs (k_tasks st' z) = t_regs (k_tasks st z) \<and> t_type (k_tasks st' z) = t_type (k_tasks st z)"
  by (auto simp: proc_add_task_def Let_def k_realloc_tasks split: bind_splits if_splits option.splits prod.splits)

lemma task_finish_regs:
  assumes "task_finish True vmm n entry bottom t st = Some (Some t', st')"
    and "t_regs (k_tasks st t) = t_regs (blank_task True)" and "t_type (k_tasks st t) = TASK_TYPE_KERNEL"
  shows "t' = t \<and> t_type (k_tasks st' t) = TASK_TYPE_USER \<and> task_get_sptr (k_tasks st' t) = 0 \<and> r_cs (t_regs (k_tasks st' t)) = 0x1B"
  using assms
  by (auto simp: task_finish_def Let_def task_get_sptr_def task_setup_def task_set_sptr_def task_set_iptr_def blank_task_def
      split: bind_splits if_splits)

lemma task_with_stack_regs:
  assumes "task_with_stack True p sz entry bottom t st = Some (Some t', st')"
    and "t_regs (k_tasks st t) = t_regs (blank_task True)" and "t_type (k_tasks st t) = TASK_TYPE_KERNEL"
  shows "t' = t \<and> t_type (k_tasks st' t) = TASK_TYPE_USER \<and> task_get_sptr (k_tasks st' t) = 0 \<and> r_cs (t_regs (k_tasks st' t)) = 0x1B"
proof -
  from assms(1) obtain vmm n b st3 where fin: "task_finish True vmm n entry b t st3 = Some (Some t', st')" and
    st3: "k_tasks st3 = (k_tasks st)(t := (k_tasks st t)\<lparr>t_stack_bottom := b\<rparr>)"
    by (auto simp: task_with_stack_def Let_def split: bind_splits if_splits)
  show ?thesis by (rule task_finish_regs [OF fin]) (use assms(2,3) st3 in simp_all)
qed

lemma task_create_stub_blank: "task_create_stub u st = (Some t, st') \<Longrightarrow> k_tasks st' t = blank_task u"
  by (auto simp: task_create_stub_def split: option.splits prod.splits)

text \<open>
  the stack pointer of a new user task is lost: it is stored while the structure still has the type
  of a kernel task, so the user stack pointer of the finished task is 0.
\<close>

lemma task_create_user_stack:
  assumes "task_create True p stack_sz entry bottom st = Some (Some t, st')"
  shows "t_type (k_tasks st' t) = TASK_TYPE_USER \<and> task_get_sptr (k_tasks st' t) = 0 \<and> r_cs (t_regs (k_tasks st' t)) = 0x1B"
proof -
  obtain r st1 where stub: "task_create_stub True st = (r, st1)" by force
  then obtain t0 where r: "r = Some t0" using assms by (cases r) (auto simp: task_create_def)
  obtain i st2 where add: "proc_add_task p t0 st1 = Some (i, st2)"
    using assms stub r by (cases "proc_add_task p t0 st1") (auto simp: task_create_def)
  have regs: "t_regs (k_tasks st2 t0) = t_regs (blank_task True)" "t_type (k_tasks st2 t0) = TASK_TYPE_KERNEL"
    using proc_add_task_regs [OF add, of t0] task_create_stub_blank [OF stub [unfolded r]] by (simp_all add: blank_task_def)
  have "task_with_stack True p stack_sz entry bottom t0 st2 = Some (Some t, st')"
    using assms stub r add by (cases i) (auto simp: task_create_def)
  from task_with_stack_regs [OF this regs] show ?thesis by auto
qed

text \<open>A kernel task alone in the ring, and a process 0 for it.\<close>

definition task_example :: "(nat, unit) kern" where
  "task_example = \<lparr>k_fs = ftab_fs, k_vm = vm_example, k_ftab = [], k_ftab_mutex = False,
     k_procs = (\<lambda>_. blank_proc\<lparr>p_vmm := 0x1000\<rparr>), k_pidtab = [Some 0, None, None, None], k_proc_mutex = False, k_new = 9,
     k_tasks = (\<lambda>t. (blank_task True)\<lparr>t_ready := True, t_prev := 3 - t, t_next := 3 - t, t_switch := of_nat t\<rparr>),
     k_task_kernel = Some 1, k_task_current = Some 1, k_proc_kernel = Some 0, k_block = 0, k_yield_tick = 0, k_tick = 10\<rparr>"

lemma task_example_ring: "task_ring (k_tasks task_example) 1 [2]"
  by (simp add: task_ring_def task_example_def)

theorem task_ring_insert_unlink_witness: "task_ring (k_tasks (task_insert 5 1 task_example)) 1 [5, 2]"
  using task_ring_insert_unlink [OF task_example_ring, of 5] by simp

lemma task_yield_longest_wait_witness:
  "\<exists>st'. task_yield (t_regs (blank_task True)) task_example = Some (Some (t_regs (k_tasks task_example 2)), st') \<and>
     k_task_current st' = Some 2"
proof -
  have "vmm_do_cleanup (k_vm task_example) = Some (k_vm task_example)"
    by (simp add: task_example_def vmm_do_cleanup_def vm_example_def mutex_test_def mutex_release_def)
  from task_yield_longest_wait [OF task_example_ring _ _ _ this, of "t_regs (blank_task True)"] show ?thesis
    by (auto simp: task_example_def blank_task_def task_wait_def)
qed


lemma vm_example_frame: "\<exists>m. pmm_alloc_free (vm_pmm vm_example) 1 = Some (m, Some 0)"
proof -
  have "pmm_first_free (vm_pmm vm_example\<lparr>pmm_alloc_mutex := True\<rparr>) 1 = Some 0"
    by (simp add: vm_example_def pmm_first_free_def pmm_first_free_loop.simps [of _ _ 0] Let_def
        pmm_run_fail.simps [of _ 0 _ 0] pmm_run_fail.simps [of _ _ _ "Suc 0"] pmm_run_fail.simps [of _ _ _ 1])
  moreover have "pmm_alloc_mutex (vm_pmm vm_example) = False" by (simp add: vm_example_def)
  ultimately show ?thesis by (simp add: pmm_alloc_free_def)
qed

lemma task_create_user_stack_witness:
  "\<exists>st'. task_create True 0 4096 0x100 0xBFC02000 task_example = Some (Some 9, st') \<and> task_get_sptr (k_tasks st' 9) = 0"
proof -
  have stub: "task_create_stub True task_example = (Some 9, put_task 9 (blank_task True) (task_example\<lparr>k_new := 10\<rparr>))"
    (is "_ = (_, ?st)")
    by (simp add: task_create_stub_def k_alloc_def k_realloc_def vm_realloc_def task_example_def vm_example_def)
  obtain st2 where "proc_add_task 0 9 ?st = Some (Some 0, st2)" "k_vm st2 = vm_example" "p_vmm (k_procs st2 0) = 0x1000"
    "k_task_kernel st2 = Some 1"
    by (simp add: proc_add_task_def blank_proc_def task_example_def put_task_def k_realloc_def vm_realloc_def vm_example_def
        slot_find_def put_proc_def Let_def)
  moreover obtain m where "pmm_alloc_free (vm_pmm vm_example) 1 = Some (m, Some 0)" using vm_example_frame by blast
  ultimately have "\<exists>st'. task_create True 0 4096 0x100 0xBFC02000 task_example = Some (Some 9, st')" using stub
    by (simp add: task_create_def task_with_stack_def task_finish_def Let_def vmm_pgmap_def put_task_def)
  then show ?thesis using task_create_user_stack by blast
qed

end
