(* ===== verification/Terminal.thy ===== *)
theory Terminal
  imports KString Helpers
begin

text \<open>
  \<^verbatim>\<open>hal/terminal.c\<close>: the terminal of the kernel, a table of optional handlers over the state \<open>'d\<close> of
  the device. Output is guarded by a mutex and, unless the device needs interrupts, by masking them;
  input by another mutex. A handler that does not return, and an acquired mutex that nobody releases,
  are \<open>None\<close>. Colours are emulated with a palette of 256 entries when the device has RGB colours only.
\<close>

record 'd term_hook =
  th_putc :: "(u8 \<Rightarrow> 'd \<Rightarrow> 'd option) option"
  th_puts :: "(u8 list \<Rightarrow> 'd \<Rightarrow> 'd option) option"
  th_available :: "('d \<Rightarrow> (u32 \<times> 'd) option) option"
  th_getc :: "('d \<Rightarrow> (u8 \<times> 'd) option) option"
  th_clear :: "('d \<Rightarrow> 'd option) option"
  th_get_dimensions :: "('d \<Rightarrow> ((u32 \<times> u32) \<times> 'd) option) option"
  th_set_xy :: "(u32 \<Rightarrow> u32 \<Rightarrow> 'd \<Rightarrow> 'd option) option"
  th_get_xy :: "('d \<Rightarrow> ((u32 \<times> u32) \<times> 'd) option) option"
  th_setfg_indexed :: "(u32 \<Rightarrow> 'd \<Rightarrow> (bool \<times> 'd) option) option"
  th_getfg_indexed :: "('d \<Rightarrow> (u32 \<times> 'd) option) option"
  th_setbg_indexed :: "(u32 \<Rightarrow> 'd \<Rightarrow> (bool \<times> 'd) option) option"
  th_getbg_indexed :: "('d \<Rightarrow> (u32 \<times> 'd) option) option"
  th_setfg_rgb :: "(u32 \<Rightarrow> 'd \<Rightarrow> (bool \<times> 'd) option) option"
  th_getfg_rgb :: "('d \<Rightarrow> (u32 \<times> 'd) option) option"
  th_setbg_rgb :: "(u32 \<Rightarrow> 'd \<Rightarrow> (bool \<times> 'd) option) option"
  th_getbg_rgb :: "('d \<Rightarrow> (u32 \<times> 'd) option) option"
  th_out_irq :: bool

text \<open>\<open>tm_impl\<close> is \<open>term_impl\<close>, \<open>tm_irq\<close> the interrupt flag of the processor.\<close>

record 'd terminal =
  tm_impl :: "'d term_hook option"
  tm_mutex_in :: mutex
  tm_mutex_out :: mutex
  tm_irq :: bool
  tm_dev :: 'd

section \<open>Output\<close>

definition term_outguard_start :: "'d term_hook \<Rightarrow> 'd terminal \<Rightarrow> (bool \<times> 'd terminal) option" where
  "term_outguard_start h st =
     (let irq = (\<not> th_out_irq h \<and> tm_irq st);
          st = (if th_out_irq h then st else st\<lparr>tm_irq := False\<rparr>)
      in map_option (\<lambda>l. (irq, st\<lparr>tm_mutex_out := l\<rparr>)) (mutex_acquire (tm_mutex_out st)))"

definition term_outguard_end :: "bool \<Rightarrow> 'd terminal \<Rightarrow> 'd terminal" where
  "term_outguard_end enable_irq st =
     (let st = st\<lparr>tm_mutex_out := mutex_release (tm_mutex_out st)\<rparr>
      in if enable_irq then st\<lparr>tm_irq := True\<rparr> else st)"

text \<open>A call of a handler in a guarded section, with its result, and without one.\<close>

definition term_guarded :: "'d term_hook \<Rightarrow> ('d \<Rightarrow> ('a \<times> 'd) option) \<Rightarrow> 'd terminal \<Rightarrow> ('a \<times> 'd terminal) option" where
  "term_guarded h f st =
     do { (irq, st) \<leftarrow> term_outguard_start h st;
          (ret, d) \<leftarrow> f (tm_dev st);
          Some (ret, term_outguard_end irq (st\<lparr>tm_dev := d\<rparr>)) }"

definition term_guarded_void :: "'d term_hook \<Rightarrow> ('d \<Rightarrow> 'd option) \<Rightarrow> 'd terminal \<Rightarrow> 'd terminal option" where
  "term_guarded_void h f st = map_option snd (term_guarded h (\<lambda>d. map_option (Pair ()) (f d)) st)"

definition term_putc :: "u8 \<Rightarrow> 'd terminal \<Rightarrow> 'd terminal option" where
  "term_putc c st =
     (case tm_impl st of
        None \<Rightarrow> Some st
      | Some h \<Rightarrow> (case th_putc h of None \<Rightarrow> Some st | Some putc \<Rightarrow> term_guarded_void h (putc c) st))"

text \<open>The loop over the characters of the string.\<close>

primrec putc_all :: "(u8 \<Rightarrow> 'd \<Rightarrow> 'd option) \<Rightarrow> u8 list \<Rightarrow> 'd \<Rightarrow> 'd option" where
  "putc_all putc [] d = Some d"
| "putc_all putc (c # cs) d = Option.bind (putc c d) (putc_all putc cs)"

definition term_puts :: "u8 list \<Rightarrow> 'd terminal \<Rightarrow> 'd terminal option" where
  "term_puts s st =
     (case tm_impl st of
        None \<Rightarrow> Some st
      | Some h \<Rightarrow>
          term_guarded_void h
            (case th_puts h of
               Some puts \<Rightarrow> puts s
             | None \<Rightarrow> (case th_putc h of Some putc \<Rightarrow> putc_all putc s | None \<Rightarrow> Some)) st)"

definition term_clear :: "'d terminal \<Rightarrow> 'd terminal option" where
  "term_clear st =
     (case tm_impl st of
        None \<Rightarrow> Some st
      | Some h \<Rightarrow> (case th_clear h of None \<Rightarrow> Some st | Some clear \<Rightarrow> term_guarded_void h clear st))"

text \<open>The two functions that fill variables of the caller: \<open>None\<close> leaves the variables as they are.\<close>

definition term_get_dimensions :: "'d terminal \<Rightarrow> ((u32 \<times> u32) option \<times> 'd terminal) option" where
  "term_get_dimensions st =
     (case tm_impl st of
        None \<Rightarrow> Some (None, st)
      | Some h \<Rightarrow> (case th_get_dimensions h of
            None \<Rightarrow> Some (None, st)
          | Some get \<Rightarrow> map_option (\<lambda>(r, st). (Some r, st)) (term_guarded h get st)))"

definition term_set_xy :: "u32 \<Rightarrow> u32 \<Rightarrow> 'd terminal \<Rightarrow> 'd terminal option" where
  "term_set_xy x y st =
     (case tm_impl st of
        None \<Rightarrow> Some st
      | Some h \<Rightarrow> (case th_set_xy h of None \<Rightarrow> Some st | Some set_xy \<Rightarrow> term_guarded_void h (set_xy x y) st))"

definition term_get_xy :: "'d terminal \<Rightarrow> ((u32 \<times> u32) option \<times> 'd terminal) option" where
  "term_get_xy st =
     (case tm_impl st of
        None \<Rightarrow> Some (None, st)
      | Some h \<Rightarrow> (case th_get_xy h of
            None \<Rightarrow> Some (None, st)
          | Some get \<Rightarrow> map_option (\<lambda>(r, st). (Some r, st)) (term_guarded h get st)))"

section \<open>Input\<close>

definition term_available :: "'d terminal \<Rightarrow> (u32 \<times> 'd terminal) option" where
  "term_available st =
     (case tm_impl st of
        None \<Rightarrow> Some (1, st)
      | Some h \<Rightarrow> (case th_available h of
            None \<Rightarrow> Some (1, st)
          | Some available \<Rightarrow>
              do { l \<leftarrow> mutex_acquire (tm_mutex_in st);
                   (n, d) \<leftarrow> available (tm_dev st);
                   Some (n, st\<lparr>tm_dev := d, tm_mutex_in := mutex_release l\<rparr>) }))"

text \<open>
  The loop \<open>while(!available())\<close>. Interrupts are taken between two polls: \<open>env\<close> is what they do to
  the device.
\<close>

partial_function (option) term_poll :: "('d \<Rightarrow> (u32 \<times> 'd) option) \<Rightarrow> ('d \<Rightarrow> 'd) \<Rightarrow> 'd \<Rightarrow> 'd option" where
  "term_poll available env d =
     Option.bind (available d) (\<lambda>(n, d). if n = 0 then term_poll available env (env d) else Some d)"

definition term_getc_noecho :: "('d \<Rightarrow> 'd) \<Rightarrow> 'd terminal \<Rightarrow> (u8 \<times> 'd terminal) option" where
  "term_getc_noecho env st =
     (case tm_impl st of
        None \<Rightarrow> Some (0, st)
      | Some h \<Rightarrow> (case th_getc h of
            None \<Rightarrow> Some (0, st)
          | Some getc \<Rightarrow>
              do { l \<leftarrow> mutex_acquire (tm_mutex_in st);
                   d \<leftarrow> (case th_available h of None \<Rightarrow> Some (tm_dev st) | Some available \<Rightarrow> term_poll available env (tm_dev st));
                   (c, d) \<leftarrow> getc d;
                   Some (c, st\<lparr>tm_dev := d, tm_mutex_in := mutex_release l\<rparr>) }))"

definition has_getc :: "'d terminal \<Rightarrow> bool" where
  "has_getc st \<longleftrightarrow> (\<exists>h \<in> set_option (tm_impl st). th_getc h \<noteq> None)"

definition term_getc :: "('d \<Rightarrow> 'd) \<Rightarrow> 'd terminal \<Rightarrow> (u8 \<times> 'd terminal) option" where
  "term_getc env st =
     (if \<not> has_getc st then Some (0, st)
      else do { (c, st) \<leftarrow> term_getc_noecho env st; st \<leftarrow> term_putc c st; Some (c, st) })"

text \<open>
  Reading a line into the buffer at \<open>s\<close>: 10 ends it, 8 is the backspace. The buffer has no bound. The
  function returns the memory and the terminal.
\<close>

definition step_back :: "u32 \<Rightarrow> u32" where
  "step_back i = (if i \<noteq> 0 then i - 1 else i)"

partial_function (option) gets_noecho_loop :: "('d \<Rightarrow> 'd) \<Rightarrow> u32 \<Rightarrow> u32 \<Rightarrow> mem \<Rightarrow> 'd terminal \<Rightarrow> (mem \<times> 'd terminal) option" where
  "gets_noecho_loop env s i m st =
     do { (c, st) \<leftarrow> term_getc_noecho env st;
          if c = 10 then Some (m(s + i := 0), st)
          else if c = 8 then gets_noecho_loop env s (step_back i) m st
          else gets_noecho_loop env s (i + 1) (m(s + i := c)) st }"

definition term_gets_noecho :: "('d \<Rightarrow> 'd) \<Rightarrow> u32 \<Rightarrow> mem \<Rightarrow> 'd terminal \<Rightarrow> (mem \<times> 'd terminal) option" where
  "term_gets_noecho env s m st = (if \<not> has_getc st then Some (m, st) else gets_noecho_loop env s 0 m st)"

partial_function (option) gets_loop :: "('d \<Rightarrow> 'd) \<Rightarrow> u32 \<Rightarrow> u32 \<Rightarrow> mem \<Rightarrow> 'd terminal \<Rightarrow> (mem \<times> 'd terminal) option" where
  "gets_loop env s i m st =
     do { (c, st) \<leftarrow> term_getc_noecho env st;
          if c = 10 then do { st \<leftarrow> term_puts [13, 10] st; Some (m(s + i := 0), st) }
          else if c = 8 then do { st \<leftarrow> term_puts [8, 32, 8] st; gets_loop env s (step_back i) m st }
          else do { st \<leftarrow> term_putc c st; gets_loop env s (i + 1) (m(s + i := c)) st } }"

definition term_gets :: "('d \<Rightarrow> 'd) \<Rightarrow> u32 \<Rightarrow> mem \<Rightarrow> 'd terminal \<Rightarrow> (mem \<times> 'd terminal) option" where
  "term_gets env s m st = (if \<not> has_getc st then Some (m, st) else gets_loop env s 0 m st)"

section \<open>Colours\<close>

definition term_color_palette :: "u32 list" where
  "term_color_palette =
    [
     0x000000, 0x800000, 0x008000, 0x808000, 0x000080, 0x800080, 0x008080, 0xC0C0C0,
     0x808080, 0xFF0000, 0x00FF00, 0xFFFF00, 0x0000FF, 0xFF00FF, 0x00FFFF, 0xFFFFFF,
     0x000000, 0x00002A, 0x000054, 0x00007E, 0x0000A8, 0x0000D2, 0x002A00, 0x002A2A,
     0x002A54, 0x002A7E, 0x002AA8, 0x002AD2, 0x005400, 0x00542A, 0x005454, 0x00547E,
     0x0054A8, 0x0054D2, 0x007E00, 0x007E2A, 0x007E54, 0x007E7E, 0x007EA8, 0x007ED2,
     0x00A800, 0x00A82A, 0x00A854, 0x00A87E, 0x00A8A8, 0x00A8D2, 0x00D200, 0x00D22A,
     0x00D254, 0x00D27E, 0x00D2A8, 0x00D2D2, 0x002A00, 0x002A2A, 0x002A54, 0x002A7E,
     0x002AA8, 0x002AD2, 0x002A00, 0x002A2A, 0x002A54, 0x002A7E, 0x002AA8, 0x002AD2,
     0x007E00, 0x007E2A, 0x007E54, 0x007E7E, 0x007EA8, 0x007ED2, 0x007E00, 0x007E2A,
     0x007E54, 0x007E7E, 0x007EA8, 0x007ED2, 0x00AA00, 0x00AA2A, 0x00AA54, 0x00AA7E,
     0x00AAA8, 0x00AAD2, 0x00FA00, 0x00FA2A, 0x00FA54, 0x00FA7E, 0x00FAA8, 0x00FAD2,
     0x005400, 0x00542A, 0x005454, 0x00547E, 0x0054A8, 0x0054D2, 0x007E00, 0x007E2A,
     0x007E54, 0x007E7E, 0x007EA8, 0x007ED2, 0x005400, 0x00542A, 0x005454, 0x00547E,
     0x0054A8, 0x0054D2, 0x007E00, 0x007E2A, 0x007E54, 0x007E7E, 0x007EA8, 0x007ED2,
     0x00FC00, 0x00FC2A, 0x00FC54, 0x00FC7E, 0x00FCA8, 0x00FCD2, 0x00D600, 0x00D62A,
     0x00D654, 0x00D67E, 0x00D6A8, 0x00D6D2, 0x007E00, 0x007E2A, 0x007E54, 0x007E7E,
     0x007EA8, 0x007ED2, 0x007E00, 0x007E2A, 0x007E54, 0x007E7E, 0x007EA8, 0x007ED2,
     0x007E00, 0x007E2A, 0x007E54, 0x007E7E, 0x007EA8, 0x007ED2, 0x007E00, 0x007E2A,
     0x007E54, 0x007E7E, 0x007EA8, 0x007ED2, 0x00FE00, 0x00FE2A, 0x00FE54, 0x00FE7E,
     0x00FEA8, 0x00FED2, 0x00FE00, 0x00FE2A, 0x00FE54, 0x00FE7E, 0x00FEA8, 0x00FED2,
     0x00A800, 0x00A82A, 0x00A854, 0x00A87E, 0x00A8A8, 0x00A8D2, 0x00AA00, 0x00AA2A,
     0x00AA54, 0x00AA7E, 0x00AAA8, 0x00AAD2, 0x00FC00, 0x00FC2A, 0x00FC54, 0x00FC7E,
     0x00FCA8, 0x00FCD2, 0x00FE00, 0x00FE2A, 0x00FE54, 0x00FE7E, 0x00FEA8, 0x00FED2,
     0x00A800, 0x00A82A, 0x00A854, 0x00A87E, 0x00A8A8, 0x00A8D2, 0x00FA00, 0x00FA2A,
     0x00FA54, 0x00FA7E, 0x00FAA8, 0x00FAD2, 0x00D200, 0x00D22A, 0x00D254, 0x00D27E,
     0x00D2A8, 0x00D2D2, 0x00FA00, 0x00FA2A, 0x00FA54, 0x00FA7E, 0x00FAA8, 0x00FAD2,
     0x00D600, 0x00D62A, 0x00D654, 0x00D67E, 0x00D6A8, 0x00D6D2, 0x00FE00, 0x00FE2A,
     0x00FE54, 0x00FE7E, 0x00FEA8, 0x00FED2, 0x00FA00, 0x00FA2A, 0x00FA54, 0x00FA7E,
     0x00FAA8, 0x00FAD2, 0x00D200, 0x00D22A, 0x00D254, 0x00D27E, 0x00D2A8, 0x00D2D2,
     0x000000, 0x0A0A0A, 0x141414, 0x1E1E1E, 0x282828, 0x323232, 0x3C3C3C, 0x464646,
     0x505050, 0x5A5A5A, 0x646464, 0x6E6E6E, 0x787878, 0x828282, 0x8C8C8C, 0x969696,
     0xA0A0A0, 0xAAAAAA, 0xB4B4B4, 0xBEBEBE, 0xC8C8C8, 0xD2D2D2, 0xDCDCDC, 0xE6E6E6]"

definition term_palette_index :: "u32 \<Rightarrow> u32" where
  "term_palette_index color =
     (let i = find_idx (\<lambda>c. c = color) term_color_palette in if i < 256 then of_nat i else -1)"

definition term_setbg_indexed :: "u32 \<Rightarrow> 'd terminal \<Rightarrow> (bool \<times> 'd terminal) option" where
  "term_setbg_indexed idx st =
     (case tm_impl st of
        None \<Rightarrow> Some (False, st)
      | Some h \<Rightarrow>
          if 255 < idx then Some (False, st)
          else case th_setbg_indexed h of
            Some set_idx \<Rightarrow> term_guarded h (set_idx idx) st
          | None \<Rightarrow>
              (case th_setbg_rgb h of
                 Some set_rgb \<Rightarrow> term_guarded h (set_rgb (term_color_palette ! unat idx)) st
               | None \<Rightarrow> Some (False, st)))"

definition term_setfg_indexed :: "u32 \<Rightarrow> 'd terminal \<Rightarrow> (bool \<times> 'd terminal) option" where
  "term_setfg_indexed idx st =
     (case tm_impl st of
        None \<Rightarrow> Some (False, st)
      | Some h \<Rightarrow>
          if 255 < idx then Some (False, st)
          else case th_setfg_indexed h of
            Some set_idx \<Rightarrow> term_guarded h (set_idx idx) st
          | None \<Rightarrow>
              (case th_setfg_rgb h of
                 Some set_rgb \<Rightarrow> term_guarded h (set_rgb (term_color_palette ! unat idx)) st
               | None \<Rightarrow> Some (False, st)))"

definition term_getbg_indexed :: "'d terminal \<Rightarrow> (u32 \<times> 'd terminal) option" where
  "term_getbg_indexed st =
     (case tm_impl st of
        None \<Rightarrow> Some (-1, st)
      | Some h \<Rightarrow>
          (case th_getbg_indexed h of
             Some get_idx \<Rightarrow> term_guarded h get_idx st
           | None \<Rightarrow>
               (case th_getbg_rgb h of
                  Some get_rgb \<Rightarrow>
                    do { (color, st) \<leftarrow> term_guarded h get_rgb st;
                         Some (term_palette_index color, st) }
                | None \<Rightarrow> Some (-1, st))))"

definition term_getfg_indexed :: "'d terminal \<Rightarrow> (u32 \<times> 'd terminal) option" where
  "term_getfg_indexed st =
     (case tm_impl st of
        None \<Rightarrow> Some (-1, st)
      | Some h \<Rightarrow>
          (case th_getfg_indexed h of
             Some get_idx \<Rightarrow> term_guarded h get_idx st
           | None \<Rightarrow>
               (case th_getfg_rgb h of
                  Some get_rgb \<Rightarrow>
                    do { (color, st) \<leftarrow> term_guarded h get_rgb st;
                         Some (term_palette_index color, st) }
                | None \<Rightarrow> Some (-1, st))))"

definition term_setbg_rgb :: "u32 \<Rightarrow> 'd terminal \<Rightarrow> (bool \<times> 'd terminal) option" where
  "term_setbg_rgb color st =
     (case tm_impl st of
        None \<Rightarrow> Some (False, st)
      | Some h \<Rightarrow>
          (case th_setbg_rgb h of
             None \<Rightarrow> Some (False, st)
           | Some set_rgb \<Rightarrow> if 0xFFFFFF < color then Some (False, st) else term_guarded h (set_rgb color) st))"

definition term_setfg_rgb :: "u32 \<Rightarrow> 'd terminal \<Rightarrow> (bool \<times> 'd terminal) option" where
  "term_setfg_rgb color st =
     (case tm_impl st of
        None \<Rightarrow> Some (False, st)
      | Some h \<Rightarrow>
          (case th_setfg_rgb h of
             None \<Rightarrow> Some (False, st)
           | Some set_rgb \<Rightarrow> if 0xFFFFFF < color then Some (False, st) else term_guarded h (set_rgb color) st))"

definition term_getbg_rgb :: "'d terminal \<Rightarrow> (u32 \<times> 'd terminal) option" where
  "term_getbg_rgb st =
     (case tm_impl st of
        None \<Rightarrow> Some (0, st)
      | Some h \<Rightarrow>
          (case th_getbg_rgb h of
             Some get_rgb \<Rightarrow> term_guarded h get_rgb st
           | None \<Rightarrow>
               (case th_getbg_indexed h of
                  Some get_idx \<Rightarrow>
                    do { (idx, st) \<leftarrow> term_guarded h get_idx st;
                         Some (if idx \<le> 255 then term_color_palette ! unat idx else -1, st) }
                | None \<Rightarrow> Some (-1, st))))"

definition term_getfg_rgb :: "'d terminal \<Rightarrow> (u32 \<times> 'd terminal) option" where
  "term_getfg_rgb st =
     (case tm_impl st of
        None \<Rightarrow> Some (0, st)
      | Some h \<Rightarrow>
          (case th_getfg_rgb h of
             Some get_rgb \<Rightarrow> term_guarded h get_rgb st
           | None \<Rightarrow>
               (case th_getfg_indexed h of
                  Some get_idx \<Rightarrow>
                    do { (idx, st) \<leftarrow> term_guarded h get_idx st;
                         Some (if idx \<le> 255 then term_color_palette ! unat idx else -1, st) }
                | None \<Rightarrow> Some (-1, st))))"

section \<open>Guarded sections\<close>

text \<open>
  A guarded call on a terminal whose mutex is free runs the handler, and gives back the mutex and the
  interrupt flag as they were.
\<close>

lemma term_guarded_run:
  assumes "\<not> tm_mutex_out st" and "f (tm_dev st) = Some (r, d)"
  shows "term_guarded h f st = Some (r, st\<lparr>tm_dev := d\<rparr>)"
  using assms by (cases st) (simp add: term_guarded_def term_outguard_start_def term_outguard_end_def mutex_release_def Let_def)

lemma term_guarded_void_run:
  assumes "\<not> tm_mutex_out st" and "f (tm_dev st) = Some d"
  shows "term_guarded_void h f st = Some (st\<lparr>tm_dev := d\<rparr>)"
  using term_guarded_run [OF assms(1), of "\<lambda>d. map_option (Pair ()) (f d)" "()" d] assms(2)
  by (simp add: term_guarded_void_def)

text \<open>An output call inside of a guarded section, as from an interrupt handler, never returns.\<close>

lemma term_guarded_held: "tm_mutex_out st \<Longrightarrow> term_guarded h f st = None"
  by (simp add: term_guarded_def term_outguard_start_def Let_def)

section \<open>Line editing\<close>

text \<open>What the keys of a line leave in the buffer.\<close>

definition edit_key :: "u8 list \<Rightarrow> u8 \<Rightarrow> u8 list" where
  "edit_key l c = (if c = 8 then butlast l else l @ [c])"

lemma edit_key_simps: "edit_key l 8 = butlast l" "c \<noteq> 8 \<Longrightarrow> edit_key l c = l @ [c]"
  by (simp_all add: edit_key_def)

definition edit_line :: "u8 list \<Rightarrow> u8 list" where
  "edit_line = foldl edit_key []"

lemma length_edit_keys: "length (foldl edit_key l cs) \<le> length l + length cs"
proof (induction cs arbitrary: l)
  case Nil
  then show ?case by simp
next
  case (Cons c cs)
  have "length (edit_key l c) \<le> Suc (length l)" by (auto simp: edit_key_def)
  then show ?case using Cons.IH [of "edit_key l c"] by simp
qed

lemma step_back_length:
  "length l < 2 ^ 32 \<Longrightarrow> step_back (of_nat (length l)) = of_nat (length (butlast l))"
  using of_nat_inj_no_wrap [of "length l" 0, where ?'a = 32] by (cases l rule: rev_cases) (auto simp: step_back_def)

text \<open>The buffer holds the line \<open>l\<close>, and what lies \<open>n\<close> or more bytes behind its start is as in \<open>m\<close>.\<close>

definition line_buf :: "mem \<Rightarrow> u32 \<Rightarrow> nat \<Rightarrow> u8 list \<Rightarrow> mem \<Rightarrow> bool" where
  "line_buf m s n l m' \<longleftrightarrow> (\<forall>k<length l. m' (s + of_nat k) = l ! k) \<and> (\<forall>a. n \<le> unat (a - s) \<longrightarrow> m' a = m a)"

lemma line_buf_init: "line_buf m s n [] m"
  by (simp add: line_buf_def)

lemma line_buf_put:
  assumes "line_buf m s n l m'" and "length l < n" and "n \<le> 2 ^ 32"
  shows "line_buf m s n (l @ [c]) (m'(s + of_nat (length l) := c))"
proof -
  have "k = length l" if "s + of_nat k = s + of_nat (length l)" "k < Suc (length l)" for k
    using that assms(2,3) offset_eq_iff [of k "length l" s] by simp
  moreover have "unat (s + of_nat (length l) - s) = length l"
    using assms(2,3) by (simp add: unat_of_nat_u32)
  ultimately show ?thesis
    using assms(1,2) by (auto simp: line_buf_def nth_append less_Suc_eq)
qed

lemma line_buf_butlast: "line_buf m s n l m' \<Longrightarrow> line_buf m s n (butlast l) m'"
  by (auto simp: line_buf_def nth_butlast)

lemma line_buf_terminated:
  assumes "line_buf m s n l m'" and "length l < n" and "n \<le> 2 ^ 32" and "0 \<notin> set l"
  shows "cstr_at (m'(s + of_nat (length l) := 0)) s l"
  using line_buf_put [OF assms(1-3), of 0] assms(4)
  by (auto simp: cstr_at_iff line_buf_def nth_append less_Suc_eq in_set_conv_nth)

section \<open>The interface of a terminal\<close>

text \<open>
  A source of characters: while some are pending, reading returns the first one and leaves the others.
\<close>

locale char_source =
  fixes getc :: "'d \<Rightarrow> (u8 \<times> 'd) option"
    and pending :: "'d \<Rightarrow> u8 list"
    and ok :: "'d \<Rightarrow> bool"
  assumes getc_next: "ok d \<Longrightarrow> pending d = c # cs \<Longrightarrow> \<exists>d'. getc d = Some (c, d') \<and> ok d' \<and> pending d' = cs"

text \<open>A terminal device whose input handlers are such a source; polling does not change it.\<close>

locale term_input = char_source getc pending ok
  for getc :: "'d \<Rightarrow> (u8 \<times> 'd) option" and pending :: "'d \<Rightarrow> u8 list" and ok :: "'d \<Rightarrow> bool" +
  fixes h :: "'d term_hook"
  assumes hook_getc: "th_getc h = Some getc"
    and hook_available: "ok d \<Longrightarrow> pending d \<noteq> [] \<Longrightarrow> th_available h = Some available \<Longrightarrow>
      \<exists>n d'. available d = Some (n, d') \<and> n \<noteq> 0 \<and> ok d' \<and> pending d' = pending d"
begin

definition ready :: "'d terminal \<Rightarrow> bool" where
  "ready st \<longleftrightarrow> tm_impl st = Some h \<and> \<not> tm_mutex_in st \<and> \<not> tm_mutex_out st \<and> ok (tm_dev st)"

lemma getc_noecho_next:
  assumes "ready st" and "pending (tm_dev st) = c # cs"
  shows "\<exists>st'. term_getc_noecho env st = Some (c, st') \<and> ready st' \<and> pending (tm_dev st') = cs"
proof -
  let ?d = "tm_dev st"
  have st: "tm_impl st = Some h" "\<not> tm_mutex_in st" "\<not> tm_mutex_out st" "ok ?d" using assms(1) by (simp_all add: ready_def)
  obtain d1 where d1: "(case th_available h of None \<Rightarrow> Some ?d | Some av \<Rightarrow> term_poll av env ?d) = Some d1" "ok d1" "pending d1 = c # cs"
  proof (cases "th_available h")
    case None
    then show ?thesis using that st assms(2) by simp
  next
    case (Some av)
    with hook_available [OF st(4) _ Some] assms(2) obtain n d' where
      "av ?d = Some (n, d')" "n \<noteq> 0" "ok d'" "pending d' = c # cs" by auto
    then show ?thesis using that Some by (simp add: term_poll.simps [of av env ?d])
  qed
  from getc_next [OF d1(2,3)] obtain d2 where "getc d1 = Some (c, d2)" "ok d2" "pending d2 = cs" by blast
  then show ?thesis
    using st d1(1) by (simp add: term_getc_noecho_def hook_getc ready_def mutex_release_def)
qed

end

sublocale term_input \<subseteq> line: char_source "term_getc_noecho env" "\<lambda>st. pending (tm_dev st)" ready for env
  by unfold_locales (rule getc_noecho_next)

context term_input
begin

lemma has_getc_ready: "ready st \<Longrightarrow> has_getc st"
  by (simp add: ready_def has_getc_def hook_getc)

lemma gets_noecho_loop_line:
  assumes "ready st" and "pending (tm_dev st) = cs @ 10 # rest" and "10 \<notin> set cs" and "0 \<notin> set cs" and "0 \<notin> set l"
    and "line_buf m0 s n l m" and "length l + length cs < n" and "n \<le> 2 ^ 32"
  shows "\<exists>m' st'. gets_noecho_loop env s (of_nat (length l)) m st = Some (m', st') \<and> ready st' \<and>
    pending (tm_dev st') = rest \<and> cstr_at m' s (foldl edit_key l cs) \<and> (\<forall>a. n \<le> unat (a - s) \<longrightarrow> m' a = m0 a)"
  using assms
proof (induction cs arbitrary: l m st)
  case Nil
  then obtain st' where "term_getc_noecho env st = Some (10, st')" "ready st'" "pending (tm_dev st') = rest"
    using line.getc_next [of st 10 rest env] by auto
  moreover have "\<forall>a. n \<le> unat (a - s) \<longrightarrow> (m(s + of_nat (length l) := 0)) a = m0 a"
    using line_buf_put [of m0 s n l m 0] Nil.prems by (simp add: line_buf_def)
  ultimately show ?case
    using line_buf_terminated [of m0 s n l m] Nil.prems by (subst gets_noecho_loop.simps) simp
next
  case (Cons c cs)
  from Cons.prems(1,2) line.getc_next [of st c "cs @ 10 # rest" env] obtain st1 where
    st1: "term_getc_noecho env st = Some (c, st1)" "ready st1" "pending (tm_dev st1) = cs @ 10 # rest" by auto
  show ?case
  proof (cases "c = 8")
    case True
    have "0 \<notin> set (butlast l)" using Cons.prems(5) by (auto dest: in_set_butlastD)
    then show ?thesis
      using Cons.IH [of st1 "butlast l" m] st1 Cons.prems True
      by (subst gets_noecho_loop.simps) (simp add: edit_key_simps line_buf_butlast step_back_length)
  next
    case False
    then show ?thesis
      using Cons.IH [of st1 "l @ [c]" "m(s + of_nat (length l) := c)"] st1 Cons.prems
        line_buf_put [of m0 s n l m c]
      by (subst gets_noecho_loop.simps) (simp add: edit_key_simps add.commute fun_upd_def)
  qed
qed

lemma term_gets_noecho_line:
  assumes "ready st" and "pending (tm_dev st) = cs @ 10 # rest" and "10 \<notin> set cs" and "0 \<notin> set cs" and "length cs < 2 ^ 32"
  shows "\<exists>m' st'. term_gets_noecho env s m st = Some (m', st') \<and> ready st' \<and> pending (tm_dev st') = rest \<and>
    cstr_at m' s (edit_line cs) \<and> (\<forall>a. length cs < unat (a - s) \<longrightarrow> m' a = m a)"
  using gets_noecho_loop_line [OF assms(1-4), where l = "[]" and n = "Suc (length cs)" and m = m and m0 = m and s = s and env = env]
    assms(5) line_buf_init
  by (simp add: term_gets_noecho_def has_getc_ready [OF assms(1)] edit_line_def Suc_le_eq)

end

text \<open>A terminal whose output handlers do not touch the input.\<close>

locale term_console = term_input getc pending ok h
  for getc :: "'d \<Rightarrow> (u8 \<times> 'd) option" and pending :: "'d \<Rightarrow> u8 list" and ok :: "'d \<Rightarrow> bool" and h :: "'d term_hook" +
  assumes hook_putc: "ok d \<Longrightarrow> th_putc h = Some putc \<Longrightarrow> \<exists>d'. putc c d = Some d' \<and> ok d' \<and> pending d' = pending d"
    and hook_puts: "ok d \<Longrightarrow> th_puts h = Some puts \<Longrightarrow> \<exists>d'. puts str d = Some d' \<and> ok d' \<and> pending d' = pending d"
begin

lemma putc_all_ok:
  assumes "th_putc h = Some putc" and "ok d"
  shows "\<exists>d'. putc_all putc str d = Some d' \<and> ok d' \<and> pending d' = pending d"
  using assms(2)
proof (induction str arbitrary: d)
  case Nil
  then show ?case by simp
next
  case (Cons c cs)
  from hook_putc [OF Cons.prems assms(1), of c] obtain d1 where
    d1: "putc c d = Some d1" "ok d1" "pending d1 = pending d" by blast
  from Cons.IH [OF d1(2)] show ?case using d1 by simp
qed

lemma guarded_void_ready:
  assumes "ready st" and "\<exists>d'. f (tm_dev st) = Some d' \<and> ok d' \<and> pending d' = pending (tm_dev st)"
  shows "\<exists>st'. term_guarded_void h f st = Some st' \<and> ready st' \<and> pending (tm_dev st') = pending (tm_dev st)"
proof -
  from assms(2) obtain d' where d': "f (tm_dev st) = Some d'" "ok d'" "pending d' = pending (tm_dev st)" by blast
  have "\<not> tm_mutex_out st" using assms(1) by (simp add: ready_def)
  from term_guarded_void_run [of st f d' h, OF this d'(1)] show ?thesis using assms(1) d' by (simp add: ready_def)
qed

lemma term_putc_ready:
  assumes "ready st"
  shows "\<exists>st'. term_putc c st = Some st' \<and> ready st' \<and> pending (tm_dev st') = pending (tm_dev st)"
proof (cases "th_putc h")
  case None
  then show ?thesis using assms by (simp add: term_putc_def ready_def)
next
  case (Some putc)
  with hook_putc [OF _ Some] assms have "\<exists>d'. putc c (tm_dev st) = Some d' \<and> ok d' \<and> pending d' = pending (tm_dev st)"
    by (simp add: ready_def)
  from guarded_void_ready [of st "putc c", OF assms this] show ?thesis using Some assms by (simp add: term_putc_def ready_def)
qed

lemma term_puts_ready:
  assumes "ready st"
  shows "\<exists>st'. term_puts str st = Some st' \<and> ready st' \<and> pending (tm_dev st') = pending (tm_dev st)"
proof -
  have ok: "ok (tm_dev st)" and impl: "tm_impl st = Some h" using assms by (simp_all add: ready_def)
  show ?thesis
    unfolding term_puts_def impl option.case
    by (rule guarded_void_ready [OF assms]) (use ok in \<open>auto split: option.split intro: hook_puts putc_all_ok\<close>)
qed

lemma gets_loop_line:
  assumes "ready st" and "pending (tm_dev st) = cs @ 10 # rest" and "10 \<notin> set cs" and "0 \<notin> set cs" and "0 \<notin> set l"
    and "line_buf m0 s n l m" and "length l + length cs < n" and "n \<le> 2 ^ 32"
  shows "\<exists>m' st'. gets_loop env s (of_nat (length l)) m st = Some (m', st') \<and> ready st' \<and>
    pending (tm_dev st') = rest \<and> cstr_at m' s (foldl edit_key l cs) \<and> (\<forall>a. n \<le> unat (a - s) \<longrightarrow> m' a = m0 a)"
  using assms
proof (induction cs arbitrary: l m st)
  case Nil
  then obtain st1 where st1: "term_getc_noecho env st = Some (10, st1)" "ready st1" "pending (tm_dev st1) = rest"
    using line.getc_next [of st 10 rest env] by auto
  from term_puts_ready [OF st1(2), of "[13, 10]"] obtain st2 where
    "term_puts [13, 10] st1 = Some st2" "ready st2" "pending (tm_dev st2) = rest" using st1 by auto
  moreover have "\<forall>a. n \<le> unat (a - s) \<longrightarrow> (m(s + of_nat (length l) := 0)) a = m0 a"
    using line_buf_put [of m0 s n l m 0] Nil.prems by (simp add: line_buf_def)
  ultimately show ?case
    using line_buf_terminated [of m0 s n l m] Nil.prems st1 by (subst gets_loop.simps) simp
next
  case (Cons c cs)
  from Cons.prems(1,2) line.getc_next [of st c "cs @ 10 # rest" env] obtain st1 where
    st1: "term_getc_noecho env st = Some (c, st1)" "ready st1" "pending (tm_dev st1) = cs @ 10 # rest" by auto
  show ?case
  proof (cases "c = 8")
    case True
    from term_puts_ready [OF st1(2), of "[8, 32, 8]"] obtain st2 where
      st2: "term_puts [8, 32, 8] st1 = Some st2" "ready st2" "pending (tm_dev st2) = cs @ 10 # rest" using st1 by auto
    have "0 \<notin> set (butlast l)" using Cons.prems(5) by (auto dest: in_set_butlastD)
    then show ?thesis
      using Cons.IH [of st2 "butlast l" m] st1(1) st2 Cons.prems True
      by (subst gets_loop.simps) (simp add: edit_key_simps line_buf_butlast step_back_length)
  next
    case False
    from term_putc_ready [OF st1(2), of c] obtain st2 where
      st2: "term_putc c st1 = Some st2" "ready st2" "pending (tm_dev st2) = cs @ 10 # rest" using st1 by auto
    then show ?thesis
      using Cons.IH [of st2 "l @ [c]" "m(s + of_nat (length l) := c)"] st1(1) Cons.prems False
        line_buf_put [of m0 s n l m c]
      by (subst gets_loop.simps) (simp add: edit_key_simps add.commute fun_upd_def)
  qed
qed

lemma term_gets_line:
  assumes "ready st" and "pending (tm_dev st) = cs @ 10 # rest" and "10 \<notin> set cs" and "0 \<notin> set cs" and "length cs < 2 ^ 32"
  shows "\<exists>m' st'. term_gets env s m st = Some (m', st') \<and> ready st' \<and> pending (tm_dev st') = rest \<and>
    cstr_at m' s (edit_line cs) \<and> (\<forall>a. length cs < unat (a - s) \<longrightarrow> m' a = m a)"
  using gets_loop_line [OF assms(1-4), where l = "[]" and n = "Suc (length cs)" and m = m and m0 = m and s = s and env = env]
    assms(5) line_buf_init
  by (simp add: term_gets_def has_getc_ready [OF assms(1)] edit_line_def Suc_le_eq)

end

text \<open>
  A colour of a terminal: setting it succeeds for the valid values, the value is read back, and nothing
  else changes; an invalid value is refused. \<open>rest\<close> is the state without the colour.
\<close>

locale attribute =
  fixes set_attr :: "'c \<Rightarrow> 'd \<Rightarrow> bool \<times> 'd"
    and get_attr :: "'d \<Rightarrow> 'c"
    and valid :: "'c \<Rightarrow> bool"
    and rest :: "'d \<Rightarrow> 'r"
  assumes set_accepts: "fst (set_attr c d) = valid c"
    and set_refuses: "\<not> valid c \<Longrightarrow> snd (set_attr c d) = d"
    and get_set: "valid c \<Longrightarrow> get_attr (snd (set_attr c d)) = c"
    and set_rest: "rest (snd (set_attr c d)) = rest d"
begin

text \<open>Of several changes the last valid one counts.\<close>

lemma get_fold_set:
  "get_attr (fold (\<lambda>c d. snd (set_attr c d)) cs d) = (if filter valid cs = [] then get_attr d else last (filter valid cs))"
proof (induction cs arbitrary: d)
  case Nil
  then show ?case by simp
next
  case (Cons c cs)
  then show ?case using get_set [of c d] set_refuses [of c d] by simp
qed

lemma rest_fold_set: "rest (fold (\<lambda>c d. snd (set_attr c d)) cs d) = rest d"
  by (induction cs arbitrary: d) (simp_all add: set_rest)

end

section \<open>The palette\<close>

lemma length_palette [simp]: "length term_color_palette = 256"
  by (simp add: term_color_palette_def)

text \<open>
  The index found for a colour of the palette is the lowest one with that colour. The palette has 104
  different colours in its 256 entries.
\<close>

lemma term_palette_index_lowest:
  assumes "i < 256"
  shows "term_palette_index (term_color_palette ! i) \<le> of_nat i"
    and "term_color_palette ! unat (term_palette_index (term_color_palette ! i)) = term_color_palette ! i"
proof -
  let ?k = "find_idx (\<lambda>c. c = term_color_palette ! i) term_color_palette"
  have "?k < 256" using find_idx_lt_iff [of _ term_color_palette] assms nth_mem [of i term_color_palette] by auto
  moreover have "?k \<le> i" using find_idx_before [of i "\<lambda>c. c = term_color_palette ! i" term_color_palette] by (auto simp: not_le [symmetric])
  moreover have "term_color_palette ! ?k = term_color_palette ! i"
    using find_idx_sat [of "\<lambda>c. c = term_color_palette ! i" term_color_palette] calculation(1) by simp
  ultimately show "term_palette_index (term_color_palette ! i) \<le> of_nat i"
    "term_color_palette ! unat (term_palette_index (term_color_palette ! i)) = term_color_palette ! i"
    using assms by (simp_all add: term_palette_index_def Let_def word_le_nat_alt unat_of_nat_u32)
qed

text \<open>The 216 entries that should be the colour cube have no red component.\<close>

lemma palette_no_red: "\<forall>c \<in> set (take 216 (drop 16 term_color_palette)). drop_bit 16 c = 0"
  by code_simp

end
