(* ===== verification/Keyboard.thy ===== *)
theory Keyboard
  imports Terminal
begin

text \<open>
  \<^verbatim>\<open>hal/keyboard.c\<close> and \<^verbatim>\<open>hal/term_kbd.c\<close>: the registered keyboards and the ring of 64 events they
  share. An event is read at \<open>kbd_rd\<close> and written at \<open>kbd_wr\<close>; it is invalidated by a code of 0. A
  keyboard id of \<open>None\<close> stands for \<open>(size_t)-1\<close>, any keyboard. Reading the ring outside of its 64
  entries is \<open>None\<close>, and so is a loop that never meets its end.
\<close>

record kbd_event =
  ev_id :: nat
  ev_pressed :: bool
  ev_code :: u8
  ev_c :: u8
  ev_mod :: u16

record kbd_info =
  kb_keymap :: "u8 list"
  kb_mod :: u16
  kb_in_use :: u8

record kbds =
  kbd_list :: "kbd_info list"
  kbd_events :: "kbd_event list"
  kbd_rd :: nat
  kbd_wr :: nat

abbreviation KEY_LEFTCTRL :: u8 where "KEY_LEFTCTRL \<equiv> 0xe0"
abbreviation KEY_LEFTSHIFT :: u8 where "KEY_LEFTSHIFT \<equiv> 0xe1"
abbreviation KEY_LEFTALT :: u8 where "KEY_LEFTALT \<equiv> 0xe2"
abbreviation KEY_LEFTMETA :: u8 where "KEY_LEFTMETA \<equiv> 0xe3"
abbreviation KEY_RIGHTCTRL :: u8 where "KEY_RIGHTCTRL \<equiv> 0xe4"
abbreviation KEY_RIGHTSHIFT :: u8 where "KEY_RIGHTSHIFT \<equiv> 0xe5"
abbreviation KEY_RIGHTALT :: u8 where "KEY_RIGHTALT \<equiv> 0xe6"
abbreviation KEY_RIGHTMETA :: u8 where "KEY_RIGHTMETA \<equiv> 0xe7"
abbreviation KEY_NUMLOCK :: u8 where "KEY_NUMLOCK \<equiv> 0x53"
abbreviation KEY_CAPSLOCK :: u8 where "KEY_CAPSLOCK \<equiv> 0x39"
abbreviation KEY_MOD_LCTRL :: u16 where "KEY_MOD_LCTRL \<equiv> 0x1"
abbreviation KEY_MOD_LSHIFT :: u16 where "KEY_MOD_LSHIFT \<equiv> 0x2"
abbreviation KEY_MOD_LALT :: u16 where "KEY_MOD_LALT \<equiv> 0x4"
abbreviation KEY_MOD_LMETA :: u16 where "KEY_MOD_LMETA \<equiv> 0x8"
abbreviation KEY_MOD_RCTRL :: u16 where "KEY_MOD_RCTRL \<equiv> 0x10"
abbreviation KEY_MOD_RSHIFT :: u16 where "KEY_MOD_RSHIFT \<equiv> 0x20"
abbreviation KEY_MOD_RALT :: u16 where "KEY_MOD_RALT \<equiv> 0x40"
abbreviation KEY_MOD_RMETA :: u16 where "KEY_MOD_RMETA \<equiv> 0x80"
abbreviation KEY_MOD_NUM :: u16 where "KEY_MOD_NUM \<equiv> 0x100"
abbreviation KEY_MOD_CAPS :: u16 where "KEY_MOD_CAPS \<equiv> 0x200"

section \<open>Keyboards\<close>

text \<open>\<open>qwerty\<close> is the built-in key map, used when the caller passes none.\<close>

definition kbd_register :: "u8 list \<Rightarrow> u8 list option \<Rightarrow> kbds \<Rightarrow> nat option \<times> kbds" where
  "kbd_register qwerty keymap st =
     (let i = find_idx (\<lambda>k. kb_in_use k = 0) (kbd_list st)
      in if i < length (kbd_list st) then
           (Some i, st\<lparr>kbd_list := (kbd_list st)[i := \<lparr>kb_keymap = (case keymap of None \<Rightarrow> qwerty | Some k \<Rightarrow> k),
              kb_mod = 0, kb_in_use = kb_in_use (kbd_list st ! i) + 1\<rparr>]\<rparr>)
         else (None, st))"

definition kbd_unregister :: "nat \<Rightarrow> kbds \<Rightarrow> kbds" where
  "kbd_unregister i st =
     (if i < 128 then st\<lparr>kbd_list := (kbd_list st)[i := (kbd_list st ! i)\<lparr>kb_in_use := 0\<rparr>]\<rparr> else st)"

section \<open>The ring\<close>

text \<open>The indices of the loops \<open>while(rdidx != wridx)\<close> that advance modulo 64.\<close>

partial_function (option) kbd_idxs :: "nat \<Rightarrow> nat \<Rightarrow> nat list option" where
  "kbd_idxs wr rd = (if rd = wr then Some [] else Option.bind (kbd_idxs wr ((rd + 1) mod 64)) (\<lambda>is. Some (rd # is)))"

text \<open>The events of the ring with their indices, and the test of the keyboard.\<close>

definition kbd_ring :: "kbds \<Rightarrow> (nat \<times> kbd_event) list option" where
  "kbd_ring st =
     do { is \<leftarrow> kbd_idxs (kbd_wr st) (kbd_rd st);
          if list_all (\<lambda>i. i < 64) is then Some (map (\<lambda>i. (i, kbd_events st ! i)) is) else None }"

definition kbd_is :: "nat option \<Rightarrow> kbd_event \<Rightarrow> bool" where
  "kbd_is kid e \<longleftrightarrow> kid = None \<or> kid = Some (ev_id e)"

definition kbd_event_peek :: "nat option \<Rightarrow> bool \<Rightarrow> kbds \<Rightarrow> nat option option" where
  "kbd_event_peek kid lst st =
     do { es \<leftarrow> kbd_ring st;
          let es = filter (\<lambda>(i, e). kbd_is kid e \<and> ev_code e \<noteq> 0) es;
          Some (if es = [] then None else Some (fst (if lst then last es else hd es))) }"

text \<open>The modifiers after a key event.\<close>

definition set_mod :: "u16 \<Rightarrow> bool \<Rightarrow> u16 \<Rightarrow> u16" where
  "set_mod m pressed w = (w AND NOT m) OR (if pressed then m else 0)"

definition kbd_mod :: "bool \<Rightarrow> u8 \<Rightarrow> u16 \<Rightarrow> u16" where
  "kbd_mod pressed code w =
     (if code = KEY_LEFTCTRL then set_mod KEY_MOD_LCTRL pressed w
      else if code = KEY_RIGHTCTRL then set_mod KEY_MOD_RCTRL pressed w
      else if code = KEY_LEFTSHIFT then set_mod KEY_MOD_LSHIFT pressed w
      else if code = KEY_RIGHTSHIFT then set_mod KEY_MOD_RSHIFT pressed w
      else if code = KEY_LEFTALT then set_mod KEY_MOD_LALT pressed w
      else if code = KEY_RIGHTALT then set_mod KEY_MOD_RALT pressed w
      else if code = KEY_LEFTMETA then set_mod KEY_MOD_LMETA pressed w
      else if code = KEY_RIGHTMETA then set_mod KEY_MOD_RMETA pressed w
      else if code = KEY_NUMLOCK then (if pressed then w else w XOR KEY_MOD_NUM)
      else if code = KEY_CAPSLOCK then (if pressed then w else w XOR KEY_MOD_CAPS)
      else w)"


text \<open>The layer of the key map: bit 0 for shift, bit 1 for caps lock, bit 2 for the right alt key.\<close>

definition kbd_layer :: "u16 \<Rightarrow> nat" where
  "kbd_layer w =
     (if w AND (KEY_MOD_LSHIFT OR KEY_MOD_RSHIFT) \<noteq> 0 then 1 else 0) +
     (if w AND KEY_MOD_CAPS \<noteq> 0 then 2 else 0) + (if w AND KEY_MOD_RALT \<noteq> 0 then 4 else 0)"

text \<open>A full ring loses events: the read index becomes \<open>(rd + 1) & 64\<close>.\<close>

definition kbd_make_room :: "kbds \<Rightarrow> kbds" where
  "kbd_make_room st =
     (if (kbd_wr st + 1) mod 64 = kbd_rd st then st\<lparr>kbd_rd := (kbd_rd st + 1) AND 64\<rparr> else st)"

definition kbd_keypress :: "nat \<Rightarrow> bool \<Rightarrow> u8 \<Rightarrow> kbds \<Rightarrow> nat option \<times> kbds" where
  "kbd_keypress kid pressed code st =
     (if 128 \<le> kid \<or> kb_in_use (kbd_list st ! kid) = 0 then (None, st)
      else
        let st = kbd_make_room st;
            k = kbd_list st ! kid;
            k = k\<lparr>kb_mod := kbd_mod pressed code (kb_mod k)\<rparr>;
            c = (if pressed then kb_keymap k ! (kbd_layer (kb_mod k) * 256 + unat code) else 0);
            e = \<lparr>ev_id = kid, ev_pressed = pressed, ev_code = code, ev_c = c, ev_mod = kb_mod k\<rparr>
        in (Some (kbd_wr st), st\<lparr>kbd_list := (kbd_list st)[kid := k], kbd_events := (kbd_events st)[kbd_wr st := e],
              kbd_wr := (kbd_wr st + 1) mod 64\<rparr>))"

definition kbd_event_available :: "nat option \<Rightarrow> kbds \<Rightarrow> nat option" where
  "kbd_event_available kid st =
     map_option (\<lambda>es. length (filter (\<lambda>(i, e). kbd_is kid e \<and> ev_code e \<noteq> 0) es)) (kbd_ring st)"

definition kbd_invalidate :: "nat \<Rightarrow> kbds \<Rightarrow> kbds" where
  "kbd_invalidate i st = st\<lparr>kbd_events := (kbd_events st)[i := (kbd_events st ! i)\<lparr>ev_code := 0\<rparr>]\<rparr>"

partial_function (option) kbd_skip :: "kbd_event list \<Rightarrow> nat \<Rightarrow> nat \<Rightarrow> nat option" where
  "kbd_skip events wr rd =
     (if rd < 64 then
        if ev_code (events ! rd) = 0 \<and> rd \<noteq> wr then kbd_skip events wr ((rd + 1) mod 64) else Some rd
      else None)"

definition kbd_event_read :: "nat option \<Rightarrow> kbds \<Rightarrow> (kbd_event option \<times> kbds) option" where
  "kbd_event_read kid st =
     do { r \<leftarrow> kbd_event_peek kid False st;
          case r of
            None \<Rightarrow> Some (None, st)
          | Some i \<Rightarrow>
              do { let e = kbd_events st ! i;
                   let st = kbd_invalidate i st;
                   rd \<leftarrow> (if i = kbd_rd st then kbd_skip (kbd_events st) (kbd_wr st) (kbd_rd st) else Some (kbd_rd st));
                   Some (Some e, st\<lparr>kbd_rd := rd\<rparr>) } }"

definition kbd_char_available :: "nat option \<Rightarrow> kbds \<Rightarrow> nat option" where
  "kbd_char_available kid st =
     map_option (\<lambda>es. length (filter (\<lambda>(i, e). kbd_is kid e \<and> ev_c e \<noteq> 0) es)) (kbd_ring st)"

text \<open>
  The first character of the keyboard: the events of the keyboard before it are invalidated, and the
  read index moves behind it, past the events of all keyboards.
\<close>

definition kbd_char_read :: "nat option \<Rightarrow> kbds \<Rightarrow> (u8 \<times> kbds) option" where
  "kbd_char_read kid st =
     do { es \<leftarrow> kbd_ring st;
          let before = takeWhile (\<lambda>(i, e). \<not> (kbd_is kid e \<and> ev_c e \<noteq> 0)) es;
          case drop (length before) es of
            [] \<Rightarrow> Some (0, st)
          | (i, e) # _ \<Rightarrow>
              let st = kbd_invalidate i st;
                  st = fold (\<lambda>(j, d) st.
                    if kbd_is kid d then
                      let st = kbd_invalidate j st
                      in if j = kbd_rd st then st\<lparr>kbd_rd := (kbd_rd st + 1) mod 64\<rparr> else st
                    else st) before st
              in Some (ev_c e, st\<lparr>kbd_rd := (i + 1) mod 64\<rparr>) }"

text \<open>The input of the terminal: characters from any keyboard.\<close>

definition kbd_term_available :: "kbds \<Rightarrow> nat option" where
  "kbd_term_available st = kbd_char_available None st"

definition kbd_term_getc :: "kbds \<Rightarrow> (u8 \<times> kbds) option" where
  "kbd_term_getc st = kbd_char_read None st"

section \<open>The ring as a queue\<close>

definition kbd_ok :: "kbds \<Rightarrow> bool" where
  "kbd_ok st \<longleftrightarrow> kbd_rd st < 64 \<and> kbd_wr st < 64 \<and> length (kbd_events st) = 64"

definition kbd_count :: "kbds \<Rightarrow> nat" where
  "kbd_count st = (kbd_wr st + 64 - kbd_rd st) mod 64"

definition kbd_queue :: "kbds \<Rightarrow> kbd_event list" where
  "kbd_queue st = map (\<lambda>k. kbd_events st ! ((kbd_rd st + k) mod 64)) [0..<kbd_count st]"

lemma kbd_idxs_count:
  "(rd + n) mod 64 = wr \<Longrightarrow> n < 64 \<Longrightarrow> rd < 64 \<Longrightarrow> kbd_idxs wr rd = Some (map (\<lambda>k. (rd + k) mod 64) [0..<n])"
proof (induction n arbitrary: rd)
  case 0
  then show ?case by (subst kbd_idxs.simps) simp
next
  case (Suc n)
  have neq: "rd \<noteq> wr" using Suc.prems by (cases "rd + Suc n < 64") (auto simp: mod_if split: if_splits)
  have "((rd + 1) mod 64 + k) mod 64 = (rd + Suc k) mod 64" for k
    by (metis add.commute add_Suc_right add_Suc_shift mod_add_left_eq plus_1_eq_Suc)
  note shift = this
  have "kbd_idxs wr ((rd + 1) mod 64) = Some (map (\<lambda>k. ((rd + 1) mod 64 + k) mod 64) [0..<n])"
    using Suc.IH [of "(rd + 1) mod 64"] Suc.prems shift [of n] by simp
  also have "map (\<lambda>k. ((rd + 1) mod 64 + k) mod 64) [0..<n] = map (\<lambda>k. (rd + k) mod 64) (map Suc [0..<n])"
    by (simp only: shift map_map comp_def)
  finally have "kbd_idxs wr rd = Some (rd # map (\<lambda>k. (rd + k) mod 64) (map Suc [0..<n]))"
    using neq by (subst kbd_idxs.simps) simp
  moreover have "[0..<Suc n] = 0 # map Suc [0..<n]" by (simp add: upt_conv_Cons map_Suc_upt del: upt_Suc)
  ultimately show ?case using Suc.prems(3) by simp
qed

lemma ring_count:
  fixes rd wr :: nat
  assumes "rd < 64" and "wr < 64"
  shows "(rd + (wr + 64 - rd) mod 64) mod 64 = wr"
  using assms by (cases "rd \<le> wr") (auto simp: mod_if)

lemma kbd_wr_count: "kbd_ok st \<Longrightarrow> kbd_wr st = (kbd_rd st + kbd_count st) mod 64"
  using ring_count [of "kbd_rd st" "kbd_wr st"] by (simp add: kbd_ok_def kbd_count_def)

lemma kbd_count_less [simp]: "kbd_count st < 64"
  by (simp add: kbd_count_def)

text \<open>Different offsets below 64 are different places of the ring.\<close>

lemma ring_inj_le: "(a + j) mod 64 = (a + k) mod 64 \<Longrightarrow> j \<le> k \<Longrightarrow> k < 64 \<Longrightarrow> j = k" for a j k :: nat
  using mod_eq_dvd_iff_nat [of "a + j" "a + k" 64] by (auto dest!: dvd_imp_le)

lemma ring_inj: "(a + j) mod 64 = (a + k) mod 64 \<Longrightarrow> j < 64 \<Longrightarrow> k < 64 \<Longrightarrow> j = k" for a j k :: nat
  using ring_inj_le [of a j k] ring_inj_le [of a k j] by (cases "j \<le> k") auto

lemma kbd_ring_queue:
  assumes "kbd_ok st"
  shows "kbd_ring st = Some (map (\<lambda>k. ((kbd_rd st + k) mod 64, kbd_events st ! ((kbd_rd st + k) mod 64))) [0..<kbd_count st])"
proof -
  note kbd_wr_count [OF assms, symmetric]
  from kbd_idxs_count [OF this] assms
  have "kbd_idxs (kbd_wr st) (kbd_rd st) = Some (map (\<lambda>k. (kbd_rd st + k) mod 64) [0..<kbd_count st])"
    by (simp add: kbd_ok_def kbd_count_def)
  then show ?thesis by (simp add: kbd_ring_def list_all_iff comp_def)
qed

lemma kbd_ring_events: "kbd_ok st \<Longrightarrow> map_option (map snd) (kbd_ring st) = Some (kbd_queue st)"
  by (simp add: kbd_ring_queue kbd_queue_def comp_def)


lemma kbd_count_wr:
  assumes "kbd_rd st < 64" and "n < 64" and "kbd_wr st = (kbd_rd st + n) mod 64"
  shows "kbd_count st = n"
proof -
  have "(kbd_rd st + kbd_count st) mod 64 = (kbd_rd st + n) mod 64"
    using ring_count [of "kbd_rd st" "kbd_wr st"] assms by (simp add: kbd_count_def)
  from ring_inj [OF this] assms(2) show ?thesis by simp
qed

text \<open>A key event of a registered keyboard, as the source computes it.\<close>

definition kbd_event_of :: "nat \<Rightarrow> bool \<Rightarrow> u8 \<Rightarrow> kbds \<Rightarrow> kbd_event" where
  "kbd_event_of kid pressed code st =
     (let w = kbd_mod pressed code (kb_mod (kbd_list st ! kid))
      in \<lparr>ev_id = kid, ev_pressed = pressed, ev_code = code,
          ev_c = (if pressed then kb_keymap (kbd_list st ! kid) ! (kbd_layer w * 256 + unat code) else 0), ev_mod = w\<rparr>)"

lemma kbd_keypress_run:
  assumes "kid < 128" and "length (kbd_list st) = 128" and "kb_in_use (kbd_list st ! kid) \<noteq> 0" and "(kbd_wr st + 1) mod 64 \<noteq> kbd_rd st"
  shows "\<exists>st'. kbd_keypress kid pressed code st = (Some (kbd_wr st), st') \<and> kbd_rd st' = kbd_rd st \<and>
    kbd_wr st' = (kbd_wr st + 1) mod 64 \<and> kbd_events st' = (kbd_events st)[kbd_wr st := kbd_event_of kid pressed code st]"
  using assms by (simp add: kbd_keypress_def kbd_make_room_def kbd_event_of_def Let_def)

text \<open>
  C18: the event ring is a queue of at most 63 events: while it holds fewer, a key press or release of a
  registered keyboard puts its event, with the modifiers after it and the character of its key map
  layer, at the end; the events before it are untouched.
\<close>

theorem kbd_keypress_appends:
  assumes "kbd_ok st" and "kbd_count st < 63" and "kid < 128" and "length (kbd_list st) = 128"
    and "kb_in_use (kbd_list st ! kid) \<noteq> 0"
  shows "\<exists>st'. kbd_keypress kid pressed code st = (Some (kbd_wr st), st') \<and> kbd_ok st' \<and>
    kbd_queue st' = kbd_queue st @ [kbd_event_of kid pressed code st]"
proof -
  let ?n = "kbd_count st" and ?rd = "kbd_rd st"
  have wr: "kbd_wr st = (?rd + ?n) mod 64" using kbd_wr_count [OF assms(1)] .
  then have next_wr: "(kbd_wr st + 1) mod 64 = (?rd + Suc ?n) mod 64" by presburger
  have "(kbd_wr st + 1) mod 64 \<noteq> ?rd"
  proof
    assume "(kbd_wr st + 1) mod 64 = ?rd"
    then have "(?rd + Suc ?n) mod 64 = (?rd + 0) mod 64" using next_wr assms(1) by (simp add: kbd_ok_def)
    from ring_inj [OF this] assms(2) show False by simp
  qed
  from kbd_keypress_run [OF assms(3-5) this] obtain st' where
    run: "kbd_keypress kid pressed code st = (Some (kbd_wr st), st')" and rd': "kbd_rd st' = ?rd" and
    wr': "kbd_wr st' = (?rd + Suc ?n) mod 64" and ev: "kbd_events st' = (kbd_events st)[kbd_wr st := kbd_event_of kid pressed code st]"
    unfolding next_wr by blast
  have ok': "kbd_ok st'" using assms(1) rd' wr' ev by (simp add: kbd_ok_def)
  have n': "kbd_count st' = Suc ?n"
    by (rule kbd_count_wr) (use rd' wr' assms(1,2) in \<open>simp_all add: kbd_ok_def\<close>)
  have old: "kbd_events st' ! ((?rd + k) mod 64) = kbd_events st ! ((?rd + k) mod 64)" if "k < ?n" for k
  proof -
    have "(?rd + k) mod 64 \<noteq> (?rd + ?n) mod 64" using ring_inj [of ?rd k ?n] that assms(2) by auto
    then show ?thesis using ev wr by simp
  qed
  moreover have "kbd_events st' ! ((?rd + ?n) mod 64) = kbd_event_of kid pressed code st"
    using ev wr assms(1) by (simp add: kbd_ok_def)
  ultimately have "kbd_queue st' = kbd_queue st @ [kbd_event_of kid pressed code st]"
    unfolding kbd_queue_def n' rd' by simp
  then show ?thesis using run ok' by blast
qed

text \<open>
  A key press on a full ring does not make room for one event: with the read index at 0, all 63
  events that wait and the new one are lost; with the read index at 63, it becomes 64 and the next
  access to the ring is outside of it.
\<close>

lemma kbd_full_loses:
  assumes "kbd_ok st" and "kbd_count st = 63" and "kid < 128" and "length (kbd_list st) = 128"
    and "kb_in_use (kbd_list st ! kid) \<noteq> 0"
  shows "(kbd_rd st = 0 \<longrightarrow> kbd_queue (snd (kbd_keypress kid pressed code st)) = []) \<and>
    (kbd_rd st = 63 \<longrightarrow> kbd_event_read None (snd (kbd_keypress kid pressed code st)) = None)"
proof -
  have wr: "kbd_wr st = (kbd_rd st + 63) mod 64" using kbd_wr_count [OF assms(1)] assms(2) by simp
  have run: "kbd_wr (snd (kbd_keypress kid pressed code st)) = (kbd_wr st + 1) mod 64"
    "kbd_rd (snd (kbd_keypress kid pressed code st)) = (if (kbd_wr st + 1) mod 64 = kbd_rd st then (kbd_rd st + 1) AND 64 else kbd_rd st)"
    using assms(3,5) by (simp_all add: kbd_keypress_def kbd_make_room_def Let_def)
  let ?st' = "snd (kbd_keypress kid pressed code st)"
  have "kbd_queue ?st' = []" if "kbd_rd st = 0"
    using run wr that by (simp add: kbd_queue_def kbd_count_def)
  moreover have "kbd_ring ?st' = None" if "kbd_rd st = 63"
  proof -
    have "kbd_wr ?st' = 63" "kbd_rd ?st' = 64" using run wr that by simp_all
    then show ?thesis by (cases "kbd_idxs 63 (65 mod 64)") (simp_all add: kbd_ring_def kbd_idxs.simps [of 63 64])
  qed
  ultimately show ?thesis by (simp add: kbd_event_read_def kbd_event_peek_def)
qed

text \<open>
  reading any keyboard's event takes the first one from the queue, when no event in it has been
  invalidated; a key code of 0 marks an event as invalid.
\<close>

lemma kbd_event_read_first:
  assumes "kbd_ok st" and "kbd_queue st = e # q" and "\<forall>x\<in>set (kbd_queue st). ev_code x \<noteq> 0"
  shows "\<exists>st'. kbd_event_read None st = Some (Some e, st') \<and> kbd_ok st' \<and> kbd_queue st' = q"
proof -
  let ?n = "kbd_count st" and ?rd = "kbd_rd st"
  define m where "m = ?n - 1"
  have n: "?n = Suc m" using assms(2) by (cases ?n) (auto simp: kbd_queue_def m_def)
  have rd: "?rd < 64" and len: "length (kbd_events st) = 64" using assms(1) by (simp_all add: kbd_ok_def)
  have wr: "kbd_wr st = (?rd + Suc m) mod 64" using kbd_wr_count [OF assms(1)] n by simp
  have upt: "[0..<?n] = 0 # map Suc [0..<m]" unfolding n by (simp add: upt_conv_Cons map_Suc_upt del: upt_Suc)
  have e: "kbd_events st ! ?rd = e" and q: "q = map (\<lambda>k. kbd_events st ! ((?rd + Suc k) mod 64)) [0..<m]"
    using assms(2) rd unfolding kbd_queue_def upt by (auto simp: comp_def)
  have valid: "ev_code e \<noteq> 0" "\<And>k. k < m \<Longrightarrow> ev_code (kbd_events st ! ((?rd + Suc k) mod 64)) \<noteq> 0"
    using assms(2,3) q by auto
  have "kbd_event_peek None False st = Some (Some ?rd)"
    using valid(1) e rd by (simp add: kbd_event_peek_def kbd_ring_queue [OF assms(1)] kbd_is_def upt)
  let ?st = "kbd_invalidate ?rd st"
  have other: "(?rd + Suc k) mod 64 \<noteq> ?rd" if "k < m" for k
    using ring_inj [of ?rd "Suc k" 0] that n kbd_count_less [of st] rd by auto
  have same: "kbd_events ?st ! ((?rd + Suc k) mod 64) = kbd_events st ! ((?rd + Suc k) mod 64)" if "k < m" for k
    using other [OF that] by (simp add: kbd_invalidate_def)
  have wr_other: "kbd_wr st \<noteq> ?rd"
    using ring_inj [of ?rd "Suc m" 0] n kbd_count_less [of st] rd wr by auto
  have stop: "kbd_skip (kbd_events ?st) (kbd_wr st) ((?rd + 1) mod 64) = Some ((?rd + 1) mod 64)"
  proof (cases m)
    case 0
    then show ?thesis using wr by (subst kbd_skip.simps) simp
  next
    case (Suc l)
    then have "ev_code (kbd_events ?st ! ((?rd + 1) mod 64)) \<noteq> 0" using same [of 0] valid(2) [of 0] by simp
    then show ?thesis by (subst kbd_skip.simps) simp
  qed
  have "kbd_skip (kbd_events ?st) (kbd_wr st) ?rd = Some ((?rd + 1) mod 64)"
    using stop rd wr_other len by (subst kbd_skip.simps) (simp add: kbd_invalidate_def)
  then have run: "kbd_event_read None st = Some (Some e, ?st\<lparr>kbd_rd := (?rd + 1) mod 64\<rparr>)"
    using \<open>kbd_event_peek None False st = Some (Some ?rd)\<close> e
    by (simp add: kbd_event_read_def Let_def kbd_invalidate_def)
  let ?st' = "?st\<lparr>kbd_rd := (?rd + 1) mod 64\<rparr>"
  have "kbd_count ?st' = m"
    by (rule kbd_count_wr) (use n kbd_count_less [of st] wr in \<open>simp_all add: kbd_invalidate_def mod_add_left_eq\<close>)
  then have "kbd_queue ?st' = q"
    using same by (simp add: kbd_queue_def q mod_add_left_eq)
  moreover have "kbd_ok ?st'" using assms(1) by (simp add: kbd_ok_def kbd_invalidate_def)
  ultimately show ?thesis using run by blast
qed


section \<open>The keyboards as the input of a terminal\<close>

text \<open>
  A character that \<open>kbd_event_read\<close> has consumed from the middle of the ring keeps its character and is
  delivered again by \<open>kbd_char_read\<close>: only the code is cleared.
\<close>

lemma kbd_invalidate_keeps_char: "ev_c (kbd_events (kbd_invalidate i st) ! j) = ev_c (kbd_events st ! j)"
  by (cases "i < length (kbd_events st)") (auto simp: kbd_invalidate_def nth_list_update list_update_beyond)

text \<open>The characters that wait in the ring, of all keyboards.\<close>

definition kbd_chars :: "kbds \<Rightarrow> u8 list" where
  "kbd_chars st = filter (\<lambda>c. c \<noteq> 0) (map ev_c (kbd_queue st))"

definition same_chars :: "kbds \<Rightarrow> kbds \<Rightarrow> bool" where
  "same_chars st st' \<longleftrightarrow> kbd_wr st' = kbd_wr st \<and> length (kbd_events st') = length (kbd_events st) \<and>
     (\<forall>j. ev_c (kbd_events st' ! j) = ev_c (kbd_events st ! j))"

lemma same_chars_refl [simp]: "same_chars st st"
  by (simp add: same_chars_def)

lemma same_chars_invalidate: "same_chars st st' \<Longrightarrow> same_chars st (kbd_invalidate i st')"
  by (simp add: same_chars_def kbd_invalidate_keeps_char) (simp add: kbd_invalidate_def)

lemma same_chars_rd: "same_chars st st' \<Longrightarrow> same_chars st (st'\<lparr>kbd_rd := r\<rparr>)"
  by (simp add: same_chars_def)

lemma same_chars_fold:
  "(\<And>x st'. same_chars st st' \<Longrightarrow> same_chars st (f x st')) \<Longrightarrow> same_chars st st' \<Longrightarrow> same_chars st (fold f xs st')"
  by (induction xs arbitrary: st') auto

lemma kbd_chars_from:
  assumes "kbd_ok st" and "same_chars st st'" and "j < kbd_count st"
    and "kbd_rd st' = ((kbd_rd st + j) mod 64 + 1) mod 64"
  shows "kbd_ok st'" and "map ev_c (kbd_queue st') = drop (Suc j) (map ev_c (kbd_queue st))"
proof -
  show ok': "kbd_ok st'" using assms(1,2,4) by (simp add: kbd_ok_def same_chars_def)
  have rd': "kbd_rd st' = (kbd_rd st + Suc j) mod 64" using assms(4) by (simp add: mod_Suc_eq)
  have n': "kbd_count st' = kbd_count st - Suc j"
  proof (rule kbd_count_wr)
    show "kbd_rd st' < 64" using rd' by simp
    show "kbd_count st - Suc j < 64" using kbd_count_less [of st] by linarith
    have "kbd_wr st' = (kbd_rd st + Suc j + (kbd_count st - Suc j)) mod 64"
      using kbd_wr_count [OF assms(1)] assms(2,3) by (simp add: same_chars_def)
    then show "kbd_wr st' = (kbd_rd st' + (kbd_count st - Suc j)) mod 64"
      unfolding rd' by (simp only: mod_add_left_eq)
  qed
  show "map ev_c (kbd_queue st') = drop (Suc j) (map ev_c (kbd_queue st))"
  proof (rule nth_equalityI)
    fix k
    assume "k < length (map ev_c (kbd_queue st'))"
    then have k: "k < kbd_count st - Suc j" by (simp add: kbd_queue_def n')
    have "(kbd_rd st' + k) mod 64 = (kbd_rd st + (Suc j + k)) mod 64"
      unfolding rd' by (simp only: mod_add_left_eq add.assoc)
    then show "map ev_c (kbd_queue st') ! k = drop (Suc j) (map ev_c (kbd_queue st)) ! k"
      using k assms(2,3) by (simp add: kbd_queue_def n' same_chars_def)
  qed (simp add: kbd_queue_def n')
qed

lemma kbd_char_read_first:
  assumes "kbd_ok st" and "kbd_chars st = c # cs"
  shows "\<exists>st'. kbd_char_read None st = Some (c, st') \<and> kbd_ok st' \<and> kbd_chars st' = cs"
proof -
  let ?n = "kbd_count st" and ?es = "map (\<lambda>k. ((kbd_rd st + k) mod 64, kbd_events st ! ((kbd_rd st + k) mod 64))) [0..<kbd_count st]"
  let ?P = "\<lambda>(i :: nat, e). \<not> (kbd_is None e \<and> ev_c e \<noteq> 0)"
  from assms(2) obtain us vs where q: "map ev_c (kbd_queue st) = us @ c # vs" and us: "\<forall>u\<in>set us. u = 0"
    and c: "c \<noteq> 0" and vs: "cs = filter (\<lambda>c. c \<noteq> 0) vs"
    unfolding kbd_chars_def by (auto dest!: filter_eq_ConsD)
  define j where "j = length us"
  have es: "map (ev_c \<circ> snd) ?es = us @ c # vs" using q by (simp add: kbd_queue_def comp_def)
  have j: "j < ?n" using arg_cong [OF es, of length] by (simp add: j_def)
  have ev: "ev_c (snd (?es ! k)) = (us @ c # vs) ! k" if "k < ?n" for k
    using arg_cong [OF es, of "\<lambda>l. l ! k"] that by simp
  have before: "takeWhile ?P ?es = take j ?es"
  proof (rule takeWhile_eq_take_P_nth)
    fix k assume "k < j" "k < length ?es"
    then show "?P (?es ! k)" using ev [of k] us by (auto simp: j_def nth_append)
  next
    show "\<not> ?P (?es ! j)" using ev [of j] c j by (simp add: j_def kbd_is_def)
  qed
  have rest: "drop j ?es = ?es ! j # drop (Suc j) ?es"
    using j by (intro Cons_nth_drop_Suc [symmetric]) simp
  have evj: "ev_c (kbd_events st ! ((kbd_rd st + j) mod 64)) = c" using ev [OF j] j by (simp add: j_def)
  obtain st1 where run: "kbd_char_read None st = Some (c, st1\<lparr>kbd_rd := ((kbd_rd st + j) mod 64 + 1) mod 64\<rparr>)" and same: "same_chars st st1"
  proof
    show "kbd_char_read None st = Some (c, (fold (\<lambda>(j, d) st. if kbd_is None d then
          let st = kbd_invalidate j st in if j = kbd_rd st then st\<lparr>kbd_rd := (kbd_rd st + 1) mod 64\<rparr> else st
        else st) (take j ?es) (kbd_invalidate ((kbd_rd st + j) mod 64) st))\<lparr>kbd_rd := ((kbd_rd st + j) mod 64 + 1) mod 64\<rparr>)"
      unfolding kbd_char_read_def kbd_ring_queue [OF assms(1)] Let_def bind.bind_lunit before length_take
      using j rest evj by (simp add: min_def)
    show "same_chars st (fold (\<lambda>(j, d) st. if kbd_is None d then
          let st = kbd_invalidate j st in if j = kbd_rd st then st\<lparr>kbd_rd := (kbd_rd st + 1) mod 64\<rparr> else st
        else st) (take j ?es) (kbd_invalidate ((kbd_rd st + j) mod 64) st))"
      by (rule same_chars_fold) (auto simp: Let_def intro!: same_chars_invalidate same_chars_rd)
  qed
  have "kbd_chars (st1\<lparr>kbd_rd := ((kbd_rd st + j) mod 64 + 1) mod 64\<rparr>) = cs"
    using kbd_chars_from(2) [OF assms(1) same_chars_rd [OF same] j] q vs by (simp add: kbd_chars_def j_def)
  moreover have "kbd_ok (st1\<lparr>kbd_rd := ((kbd_rd st + j) mod 64 + 1) mod 64\<rparr>)"
    by (rule kbd_chars_from(1) [OF assms(1) same_chars_rd [OF same] j]) simp
  ultimately show ?thesis using run by blast
qed

lemma length_kbd_chars: "length (kbd_chars st) < 64"
proof -
  have "length (kbd_chars st) \<le> kbd_count st"
    using length_filter_le [of "\<lambda>c. c \<noteq> 0" "map ev_c (kbd_queue st)"] by (simp add: kbd_chars_def kbd_queue_def)
  then show ?thesis using kbd_count_less le_less_trans by blast
qed

text \<open>The number of characters available is the number that wait.\<close>

lemma kbd_char_available_count: "kbd_ok st \<Longrightarrow> kbd_char_available None st = Some (length (kbd_chars st))"
  by (simp add: kbd_char_available_def kbd_ring_queue kbd_chars_def kbd_queue_def kbd_is_def filter_map comp_def case_prod_beta)

interpretation kbd_term: char_source kbd_term_getc kbd_chars kbd_ok
  by unfold_locales (simp add: kbd_term_getc_def kbd_char_read_first)

text \<open>All keyboards registered with a key map of one letter, events of key 4 in the ring.\<close>

definition kbd_example :: "nat \<Rightarrow> kbds" where
  "kbd_example wr = \<lparr>kbd_list = replicate 128 \<lparr>kb_keymap = replicate 2048 97, kb_mod = 0, kb_in_use = 1\<rparr>,
     kbd_events = replicate 64 \<lparr>ev_id = 1, ev_pressed = True, ev_code = 4, ev_c = 97, ev_mod = 0\<rparr>, kbd_rd = 0, kbd_wr = wr\<rparr>"

lemma kbd_example_simps [simp]:
  "wr < 64 \<Longrightarrow> kbd_ok (kbd_example wr)" "wr < 64 \<Longrightarrow> kbd_count (kbd_example wr) = wr"
  "length (kbd_list (kbd_example wr)) = 128" "k < 128 \<Longrightarrow> kb_in_use (kbd_list (kbd_example wr) ! k) = 1"
  "kbd_rd (kbd_example wr) = 0" "kbd_wr (kbd_example wr) = wr"
  by (simp_all add: kbd_example_def kbd_ok_def kbd_count_def)

theorem kbd_keypress_appends_witness:
  "\<exists>st'. kbd_keypress 2 True 5 (kbd_example 1) = (Some 1, st') \<and> length (kbd_queue st') = 2"
proof -
  have "length (kbd_queue (kbd_example 1)) = 1" by (simp add: kbd_queue_def)
  moreover have "\<exists>st'. kbd_keypress 2 True 5 (kbd_example 1) = (Some (kbd_wr (kbd_example 1)), st') \<and> kbd_ok st' \<and>
    kbd_queue st' = kbd_queue (kbd_example 1) @ [kbd_event_of 2 True 5 (kbd_example 1)]"
    by (rule kbd_keypress_appends) simp_all
  ultimately show ?thesis by auto
qed

lemma kbd_full_loses_witness: "kbd_queue (snd (kbd_keypress 2 True 5 (kbd_example 63))) = []"
  using kbd_full_loses [of "kbd_example 63" 2 True 5] by simp

lemma kbd_event_read_first_witness:
  "\<exists>e st'. kbd_event_read None (kbd_example 1) = Some (Some e, st') \<and> ev_code e = 4 \<and> kbd_queue st' = []"
proof -
  have "kbd_queue (kbd_example 1) = [kbd_events (kbd_example 1) ! 0]" by (simp add: kbd_queue_def)
  from kbd_event_read_first [OF _ this] show ?thesis
    by (simp add: kbd_queue_def) (fastforce simp: kbd_example_def)
qed

end
