(* ===== verification/VgaText.thy ===== *)
theory VgaText
  imports Keyboard Vmm
begin

text \<open>
  \<^verbatim>\<open>arch/x86/terminal_vgatext.c\<close>: the terminal on the VGA text screen of 80 by 25 cells, in its
  default configuration (colours, cursor, clearing and coordinates enabled, input from the keyboards).
  The screen is the memory at \<open>TERM_VGATEXT_ADDR\<close> in cells of 16 bits, also the ones behind the last
  row: the cursor may be set outside of the screen. The registers of the display controller are a
  function of the index written to port \<open>0x3D4\<close>.
\<close>

record vgaterm =
  vg_x :: u8
  vg_y :: u8
  vg_buffer :: "nat \<Rightarrow> u16"
  vg_attr :: u8
  vg_crtc :: "u8 \<Rightarrow> u8"
  vg_kbds :: kbds

definition vgaterm_update_cursor :: "vgaterm \<Rightarrow> vgaterm" where
  "vgaterm_update_cursor st =
     (let pos = (ucast (vg_y st) * 80 + ucast (vg_x st) :: u16)
      in st\<lparr>vg_crtc := (vg_crtc st)(0x0F := ucast (pos AND 0xFF), 0x0E := ucast (drop_bit 8 pos AND 0xFF))\<rparr>)"

section \<open>Colours\<close>

definition vgaterm_idxmap :: "u8 list" where
  "vgaterm_idxmap = [0, 4, 2, 6, 1, 5, 3, 7, 8, 12, 10, 14, 9, 13, 11, 15]"

definition vgaterm_setfg_idx :: "u32 \<Rightarrow> vgaterm \<Rightarrow> bool \<times> vgaterm" where
  "vgaterm_setfg_idx idx st =
     (if 16 \<le> idx then (False, st)
      else (True, st\<lparr>vg_attr := (vg_attr st AND 0xF0) OR vgaterm_idxmap ! unat idx\<rparr>))"

definition vgaterm_setbg_idx :: "u32 \<Rightarrow> vgaterm \<Rightarrow> bool \<times> vgaterm" where
  "vgaterm_setbg_idx idx st =
     (if 8 \<le> idx then (False, st)
      else (True, st\<lparr>vg_attr := (vg_attr st AND 0x0F) OR push_bit 4 (vgaterm_idxmap ! unat idx AND 7)\<rparr>))"

definition vgaterm_getfg_idx :: "vgaterm \<Rightarrow> u32" where
  "vgaterm_getfg_idx st = ucast (vgaterm_idxmap ! unat (vg_attr st AND 0x0F))"

definition vgaterm_getbg_idx :: "vgaterm \<Rightarrow> u32" where
  "vgaterm_getbg_idx st = ucast (vgaterm_idxmap ! unat (drop_bit 4 (vg_attr st) AND 7))"

section \<open>Output\<close>

text \<open>The cell under the cursor, a blank cell and a cell with a character.\<close>

definition vga_pos :: "vgaterm \<Rightarrow> nat" where
  "vga_pos st = unat (vg_y st) * 80 + unat (vg_x st)"

definition vga_blank :: "u8 \<Rightarrow> u16" where
  "vga_blank attr = push_bit 8 (ucast attr)"

definition vga_cell :: "u8 \<Rightarrow> u8 \<Rightarrow> u16" where
  "vga_cell c attr = ucast c OR push_bit 8 (ucast attr)"

definition vga_put :: "u16 \<Rightarrow> vgaterm \<Rightarrow> vgaterm" where
  "vga_put cell st = st\<lparr>vg_buffer := (vg_buffer st)(vga_pos st := cell), vg_x := vg_x st + 1\<rparr>"

text \<open>\<open>memmove\<close> of 24 rows, and blanks in the last one.\<close>

definition vgaterm_newline :: "vgaterm \<Rightarrow> vgaterm" where
  "vgaterm_newline st =
     (let st = st\<lparr>vg_x := 0, vg_y := vg_y st + 1\<rparr>
      in if vg_y st = 25 then
           let b = vg_buffer st;
               b = (\<lambda>i. if i < 24 * 80 then b (i + 80) else b i);
               b = fold (\<lambda>x b. b(24 * 80 + x := vga_blank (vg_attr st))) [0..<80] b
           in st\<lparr>vg_buffer := b, vg_y := 24\<rparr>
         else st)"

function vga_tab_loop :: "vgaterm \<Rightarrow> vgaterm" where
  "vga_tab_loop st =
     (let st' = vga_put (vga_blank (vg_attr st)) st
      in if vg_x st' < 80 \<and> vg_x st' mod 4 \<noteq> 0 then vga_tab_loop st' else st')"
  by pat_completeness auto
termination
proof (relation "measure (\<lambda>st. 255 - unat (vg_x st))", goal_cases)
  case (2 st st')
  then have x: "vg_x st' = vg_x st + 1" "vg_x st' < 80" "vg_x st' \<noteq> 0" by (auto simp: vga_put_def)
  then have "unat (vg_x st') = Suc (unat (vg_x st))" using unatSuc [of "vg_x st"] by (simp add: add.commute)
  moreover have "unat (vg_x st') < 80" using x(2) by (simp add: word_less_nat_alt)
  ultimately show ?case by simp
qed simp

declare vga_tab_loop.simps [simp del]

definition vgaterm_putc_stub :: "u8 \<Rightarrow> vgaterm \<Rightarrow> vgaterm" where
  "vgaterm_putc_stub c st =
     (if c = 8 then
        if vg_x st \<noteq> 0 then st\<lparr>vg_x := vg_x st - 1\<rparr>
        else if vg_y st \<noteq> 0 then st\<lparr>vg_x := 79, vg_y := vg_y st - 1\<rparr>
        else st
      else if c = 13 then st\<lparr>vg_x := 0\<rparr>
      else if c = 10 then vgaterm_newline st
      else if c = 9 then
        let st = vga_tab_loop st in if vg_x st = 80 then vgaterm_newline st else st
      else
        let st = vga_put (vga_cell c (vg_attr st)) st in if vg_x st = 80 then vgaterm_newline st else st)"

definition vgaterm_putc :: "u8 \<Rightarrow> vgaterm \<Rightarrow> vgaterm" where
  "vgaterm_putc c st = vgaterm_update_cursor (vgaterm_putc_stub c st)"

definition vgaterm_puts :: "u8 list \<Rightarrow> vgaterm \<Rightarrow> vgaterm" where
  "vgaterm_puts s st = vgaterm_update_cursor (fold vgaterm_putc_stub s st)"

definition vgaterm_clear :: "vgaterm \<Rightarrow> vgaterm" where
  "vgaterm_clear st =
     vgaterm_update_cursor
       (st\<lparr>vg_buffer := fold (\<lambda>y b. fold (\<lambda>x b. b(y * 80 + x := vga_blank (vg_attr st))) [0..<80] b) [0..<25] (vg_buffer st),
          vg_x := 0, vg_y := 0\<rparr>)"

definition vgaterm_get_dimensions :: "u32 \<times> u32" where
  "vgaterm_get_dimensions = (80, 25)"

definition vgaterm_set_xy :: "u32 \<Rightarrow> u32 \<Rightarrow> vgaterm \<Rightarrow> vgaterm" where
  "vgaterm_set_xy x y st = vgaterm_update_cursor (st\<lparr>vg_x := ucast x, vg_y := ucast y\<rparr>)"

definition vgaterm_get_xy :: "vgaterm \<Rightarrow> u32 \<times> u32" where
  "vgaterm_get_xy st = (ucast (vg_x st), ucast (vg_y st))"

definition vgaterm_hook :: "vgaterm term_hook" where
  "vgaterm_hook = \<lparr>
     th_putc = Some (\<lambda>c d. Some (vgaterm_putc c d)),
     th_puts = Some (\<lambda>s d. Some (vgaterm_puts s d)),
     th_available = Some (\<lambda>d. map_option (\<lambda>n. (of_nat n, d)) (kbd_term_available (vg_kbds d))),
     th_getc = Some (\<lambda>d. map_option (\<lambda>(c, k). (c, d\<lparr>vg_kbds := k\<rparr>)) (kbd_term_getc (vg_kbds d))),
     th_clear = Some (\<lambda>d. Some (vgaterm_clear d)),
     th_get_dimensions = Some (\<lambda>d. Some (vgaterm_get_dimensions, d)),
     th_set_xy = Some (\<lambda>x y d. Some (vgaterm_set_xy x y d)),
     th_get_xy = Some (\<lambda>d. Some (vgaterm_get_xy d, d)),
     th_setfg_indexed = Some (\<lambda>i d. Some (vgaterm_setfg_idx i d)),
     th_getfg_indexed = Some (\<lambda>d. Some (vgaterm_getfg_idx d, d)),
     th_setbg_indexed = Some (\<lambda>i d. Some (vgaterm_setbg_idx i d)),
     th_getbg_indexed = Some (\<lambda>d. Some (vgaterm_getbg_idx d, d)),
     th_setfg_rgb = None, th_getfg_rgb = None, th_setbg_rgb = None, th_getbg_rgb = None,
     th_out_irq = False\<rparr>"

text \<open>
  \<open>term_init\<close>: the screen is mapped (the flags are present, writable, global, cached), the shape of the cursor is set, the screen is cleared and the
  hooks are installed with their mutexes free.
\<close>

definition vgaterm_enable_cursor :: "vgaterm \<Rightarrow> vgaterm" where
  "vgaterm_enable_cursor d =
     (let r = (vg_crtc d)(0x09 := 15);
          r = r(0x0A := (r 0x0A AND 0xC0) OR 14);
          r = r(0x0B := (r 0x0B AND 0xE0) OR 15)
      in d\<lparr>vg_crtc := r\<rparr>)"

definition vgaterm_init :: "vgaterm terminal \<Rightarrow> vm \<Rightarrow> (vgaterm terminal \<times> vm) option" where
  "vgaterm_init st vm =
     do { (_, vm) \<leftarrow> vmm_map (vmm_current vm) 0xB8000 0xC00B8000 (80 * 25 * 2) 0
            0x1B vm;
          Some (st\<lparr>tm_dev := vgaterm_clear (vgaterm_enable_cursor (tm_dev st)), tm_impl := Some vgaterm_hook,
                  tm_mutex_in := False, tm_mutex_out := False\<rparr>, vm) }"

section \<open>The terminal as a console\<close>

definition vga_ok :: "vgaterm \<Rightarrow> bool" where
  "vga_ok d \<longleftrightarrow> kbd_ok (vg_kbds d)"

definition vga_pending :: "vgaterm \<Rightarrow> u8 list" where
  "vga_pending d = kbd_chars (vg_kbds d)"

definition vga_getc :: "vgaterm \<Rightarrow> (u8 \<times> vgaterm) option" where
  "vga_getc d = map_option (\<lambda>(c, k). (c, d\<lparr>vg_kbds := k\<rparr>)) (kbd_term_getc (vg_kbds d))"

text \<open>Output does not touch the keyboards.\<close>

lemma vga_put_kbds [simp]: "vg_kbds (vga_put cell d) = vg_kbds d"
  by (simp add: vga_put_def)

lemma vgaterm_newline_kbds [simp]: "vg_kbds (vgaterm_newline d) = vg_kbds d"
  by (simp add: vgaterm_newline_def Let_def)

lemma vga_tab_loop_kbds [simp]: "vg_kbds (vga_tab_loop d) = vg_kbds d"
proof (induction d rule: vga_tab_loop.induct)
  case (1 st)
  then show ?case by (subst vga_tab_loop.simps) (simp add: Let_def)
qed

lemma vgaterm_putc_stub_kbds [simp]: "vg_kbds (vgaterm_putc_stub c d) = vg_kbds d"
  by (simp add: vgaterm_putc_stub_def Let_def)

lemma vgaterm_update_cursor_kbds [simp]: "vg_kbds (vgaterm_update_cursor d) = vg_kbds d"
  by (simp add: vgaterm_update_cursor_def Let_def)

lemma vgaterm_puts_kbds [simp]: "vg_kbds (vgaterm_puts s d) = vg_kbds d"
proof -
  have "vg_kbds (fold vgaterm_putc_stub s d) = vg_kbds d" by (induction s arbitrary: d) simp_all
  then show ?thesis by (simp add: vgaterm_puts_def)
qed

interpretation vga: term_console vga_getc vga_pending vga_ok vgaterm_hook
proof unfold_locales
  show "\<exists>d'. vga_getc d = Some (c, d') \<and> vga_ok d' \<and> vga_pending d' = cs"
    if "vga_ok d" "vga_pending d = c # cs" for d c cs
    using kbd_term.getc_next [of "vg_kbds d" c cs] that by (auto simp: vga_ok_def vga_pending_def vga_getc_def)
  show "th_getc vgaterm_hook = Some vga_getc"
    by (simp add: vgaterm_hook_def vga_getc_def fun_eq_iff)
  fix d available
  assume ok: "vga_ok d" and "vga_pending d \<noteq> []" and av: "th_available vgaterm_hook = Some available"
  then have "0 < length (kbd_chars (vg_kbds d))" by (simp add: vga_pending_def)
  then have "(of_nat (length (kbd_chars (vg_kbds d))) :: u32) \<noteq> 0"
    using of_nat_inj_no_wrap [of "length (kbd_chars (vg_kbds d))" 0, where ?'a = 32] length_kbd_chars [of "vg_kbds d"] by simp
  then show "\<exists>n d'. available d = Some (n, d') \<and> n \<noteq> 0 \<and> vga_ok d' \<and> vga_pending d' = vga_pending d"
    using av ok by (auto simp: vgaterm_hook_def vga_ok_def kbd_term_available_def kbd_char_available_count)
qed (auto simp: vgaterm_hook_def vgaterm_putc_def vga_ok_def vga_pending_def)

text \<open>
  C19: on the VGA terminal, with a line waiting in the keyboard ring, \<open>term_gets\<close> returns with the
  edited line as a C string in the buffer: every backspace removes the character before it, if any.
  Nothing behind the length of the typed line is written, the rest of the input keeps waiting and the
  terminal is free again. The length of the buffer is not a part of the interface: a line of \<open>n\<close>
  characters writes \<open>n + 1\<close> bytes.
\<close>

theorem vgaterm_gets_line:
  assumes "tm_impl st = Some vgaterm_hook" and "\<not> tm_mutex_in st" and "\<not> tm_mutex_out st"
    and "kbd_ok (vg_kbds (tm_dev st))" and "kbd_chars (vg_kbds (tm_dev st)) = cs @ 10 # rest" and "10 \<notin> set cs"
  shows "\<exists>m' st'. term_gets env s m st = Some (m', st') \<and> \<not> tm_mutex_in st' \<and> \<not> tm_mutex_out st' \<and>
    kbd_chars (vg_kbds (tm_dev st')) = rest \<and>
    cstr_at m' s (edit_line cs) \<and> (\<forall>a. length cs < unat (a - s) \<longrightarrow> m' a = m a)"
proof -
  have ready: "vga.ready st" using assms(1-4) by (simp add: vga.ready_def vga_ok_def)
  have "0 \<notin> set (kbd_chars (vg_kbds (tm_dev st)))" by (simp add: kbd_chars_def)
  moreover have "length cs < 2 ^ 32"
    using length_kbd_chars [of "vg_kbds (tm_dev st)"] assms(5) by simp
  ultimately show ?thesis
    using vga.term_gets_line [OF ready, of cs rest env s m] assms(5,6)
    by (fastforce simp: vga_pending_def vga.ready_def)
qed

section \<open>The screen as a grid\<close>

text \<open>
  The specification of the output: a grid of 25 rows of 80 cells with a cursor inside. Text runs to
  the end of a row and on to the next one; below the last row the grid scrolls.
\<close>

record grid =
  g_rows :: "u16 list list"
  g_x :: nat
  g_y :: nat

definition grid_newline :: "u16 \<Rightarrow> grid \<Rightarrow> grid" where
  "grid_newline blank g =
     (if g_y g = 24 then g\<lparr>g_rows := tl (g_rows g) @ [replicate 80 blank], g_x := 0\<rparr>
      else g\<lparr>g_x := 0, g_y := g_y g + 1\<rparr>)"

definition grid_put :: "u16 \<Rightarrow> u16 \<Rightarrow> grid \<Rightarrow> grid" where
  "grid_put blank cell g =
     (let g' = g\<lparr>g_rows := (g_rows g)[g_y g := (g_rows g ! g_y g)[g_x g := cell]], g_x := g_x g + 1\<rparr>
      in if g_x g' = 80 then grid_newline blank g' else g')"

definition grid_putc :: "u8 \<Rightarrow> u8 \<Rightarrow> grid \<Rightarrow> grid" where
  "grid_putc attr c g =
     (if c = 8 then
        if 0 < g_x g then g\<lparr>g_x := g_x g - 1\<rparr>
        else if 0 < g_y g then g\<lparr>g_x := 79, g_y := g_y g - 1\<rparr> else g
      else if c = 13 then g\<lparr>g_x := 0\<rparr>
      else if c = 10 then grid_newline (vga_blank attr) g
      else if c = 9 then (grid_put (vga_blank attr) (vga_blank attr) ^^ (4 - g_x g mod 4)) g
      else grid_put (vga_blank attr) (vga_cell c attr) g)"

text \<open>The grid that a buffer shows, and the cursor on the screen.\<close>

definition buf_rows :: "(nat \<Rightarrow> u16) \<Rightarrow> u16 list list" where
  "buf_rows b = map (\<lambda>r. map (\<lambda>c. b (r * 80 + c)) [0..<80]) [0..<25]"

definition vga_grid :: "vgaterm \<Rightarrow> grid" where
  "vga_grid st = \<lparr>g_rows = buf_rows (vg_buffer st), g_x = unat (vg_x st), g_y = unat (vg_y st)\<rparr>"

definition vga_inside :: "vgaterm \<Rightarrow> bool" where
  "vga_inside st \<longleftrightarrow> vg_x st < 80 \<and> vg_y st < 25"

lemma vga_inside_unat: "vga_inside st \<longleftrightarrow> unat (vg_x st) < 80 \<and> unat (vg_y st) < 25"
  by (simp add: vga_inside_def word_less_nat_alt)

lemma cell_inj:
  fixes r c y x :: nat
  assumes "c < 80" and "x < 80"
  shows "r * 80 + c = y * 80 + x \<longleftrightarrow> r = y \<and> c = x"
proof
  assume eq: "r * 80 + c = y * 80 + x"
  have "c = (r * 80 + c) mod 80" using assms by simp
  also have "\<dots> = x" unfolding eq using assms by simp
  finally show "r = y \<and> c = x" using eq by simp
qed simp

lemma buf_rows_put:
  assumes "x < 80" and "y < 25"
  shows "buf_rows (b(y * 80 + x := cell)) = (buf_rows b)[y := (buf_rows b ! y)[x := cell]]"
  using assms by (auto simp: buf_rows_def nth_list_update cell_inj intro!: nth_equalityI)

lemma fold_blank:
  "fold (\<lambda>x b. b(p + x := v)) [0..<n] b = (\<lambda>i. if p \<le> i \<and> i < p + n then v else b i)" for b :: "nat \<Rightarrow> u16"
  by (induction n) (auto simp: fun_eq_iff)

lemma buf_rows_scroll:
  "buf_rows (fold (\<lambda>x b. b(24 * 80 + x := v)) [0..<80] (\<lambda>i. if i < 24 * 80 then b (i + 80) else b i)) =
     tl (buf_rows b) @ [replicate 80 v]"
proof -
  have upt: "[0..<25] = [0..<24] @ [24]" "[0..<25] = 0 # map Suc [0..<24]"
    by (simp_all add: upt_conv_Cons map_Suc_upt upt_rec)
  have "buf_rows (fold (\<lambda>x b. b(24 * 80 + x := v)) [0..<80] (\<lambda>i. if i < 24 * 80 then b (i + 80) else b i)) =
      map (\<lambda>r. map (\<lambda>c. b (Suc r * 80 + c)) [0..<80]) [0..<24] @ [replicate 80 v]"
    unfolding fold_blank buf_rows_def upt(1) by (auto simp: map_replicate_trivial add.commute add.left_commute intro!: nth_equalityI)
  also have "map (\<lambda>r. map (\<lambda>c. b (Suc r * 80 + c)) [0..<80]) [0..<24] = tl (buf_rows b)"
    unfolding buf_rows_def upt(2) by (simp add: comp_def)
  finally show ?thesis .
qed

lemma vga_put_inside:
  assumes "vga_inside st"
  shows "buf_rows (vg_buffer (vga_put cell st)) =
      (buf_rows (vg_buffer st))[unat (vg_y st) := (buf_rows (vg_buffer st) ! unat (vg_y st))[unat (vg_x st) := cell]]"
    and "unat (vg_x (vga_put cell st)) = Suc (unat (vg_x st))" and "vg_y (vga_put cell st) = vg_y st"
    and "vg_attr (vga_put cell st) = vg_attr st"
proof -
  have "unat (vg_x st) + 1 < 256" using assms by (simp add: vga_inside_unat)
  then show "unat (vg_x (vga_put cell st)) = Suc (unat (vg_x st))"
    using unat_add_no_wrap [of "vg_x st" 1] by (simp add: vga_put_def)
qed (use assms in \<open>simp_all add: vga_put_def vga_pos_def buf_rows_put vga_inside_unat\<close>)

lemma vgaterm_newline_grid:
  assumes "unat (vg_y st) < 25"
  shows "vga_grid (vgaterm_newline st) = grid_newline (vga_blank (vg_attr st)) (vga_grid st)"
    and "vga_inside (vgaterm_newline st)" and "vg_attr (vgaterm_newline st) = vg_attr st"
proof -
  have y: "unat (vg_y st + 1) = Suc (unat (vg_y st))"
    using unat_add_no_wrap [of "vg_y st" 1] assms by simp
  then have last: "vg_y st + 1 = 25 \<longleftrightarrow> unat (vg_y st) = 24" by (auto simp: word_unat_eq_iff)
  show "vga_grid (vgaterm_newline st) = grid_newline (vga_blank (vg_attr st)) (vga_grid st)"
    using y by (auto simp: vgaterm_newline_def grid_newline_def vga_grid_def last Let_def buf_rows_scroll [simplified])
  show "vga_inside (vgaterm_newline st)"
    using y assms by (auto simp: vgaterm_newline_def vga_inside_unat last Let_def)
  show "vg_attr (vgaterm_newline st) = vg_attr st" by (simp add: vgaterm_newline_def Let_def)
qed

text \<open>Writing a cell and moving on, with the line break at the end of a row.\<close>

definition vga_advance :: "vgaterm \<Rightarrow> vgaterm" where
  "vga_advance st = (if vg_x st = 80 then vgaterm_newline st else st)"

lemma vga_put_advance:
  assumes "vga_inside st"
  shows "vga_grid (vga_advance (vga_put cell st)) = grid_put (vga_blank (vg_attr st)) cell (vga_grid st)"
    and "vga_inside (vga_advance (vga_put cell st))" and "vg_attr (vga_advance (vga_put cell st)) = vg_attr st"
proof -
  note put = vga_put_inside [OF assms, of cell]
  let ?st = "vga_put cell st"
  have y: "unat (vg_y ?st) < 25" and x: "unat (vg_x st) < 80" using assms put(3) by (simp_all add: vga_inside_unat)
  have x80: "vg_x ?st = 80 \<longleftrightarrow> Suc (unat (vg_x st)) = 80" using put(2) by (auto simp: word_unat_eq_iff)
  have grid: "vga_grid ?st = (vga_grid st)\<lparr>g_rows := (g_rows (vga_grid st))[g_y (vga_grid st) :=
      (g_rows (vga_grid st) ! g_y (vga_grid st))[g_x (vga_grid st) := cell]], g_x := g_x (vga_grid st) + 1\<rparr>"
    using put by (simp add: vga_grid_def)
  have gx: "g_x (vga_grid st) = unat (vg_x st)" by (simp add: vga_grid_def)
  show "vga_grid (vga_advance ?st) = grid_put (vga_blank (vg_attr st)) cell (vga_grid st)"
    using vgaterm_newline_grid(1) [OF y] grid x80 put(4) by (simp add: vga_advance_def grid_put_def gx Let_def)
  show "vga_inside (vga_advance ?st)"
    using vgaterm_newline_grid(2) [OF y] x80 x y put(2) by (auto simp: vga_advance_def vga_inside_unat)
  show "vg_attr (vga_advance ?st) = vg_attr st"
    using vgaterm_newline_grid(3) [OF y] put(4) by (simp add: vga_advance_def)
qed

lemma vga_tab_grid:
  assumes "vga_inside st"
  shows "vga_grid (vga_advance (vga_tab_loop st)) =
      (grid_put (vga_blank (vg_attr st)) (vga_blank (vg_attr st)) ^^ (4 - unat (vg_x st) mod 4)) (vga_grid st) \<and>
    vga_inside (vga_advance (vga_tab_loop st)) \<and> vg_attr (vga_advance (vga_tab_loop st)) = vg_attr st"
  using assms
proof (induction st rule: vga_tab_loop.induct)
  case (1 st)
  let ?b = "vga_blank (vg_attr st)"
  let ?st = "vga_put ?b st"
  note put = vga_put_inside [OF 1(2), of ?b] and adv = vga_put_advance [OF 1(2), of ?b]
  have x: "unat (vg_x st) < 80" using 1(2) by (simp add: vga_inside_unat)
  have go: "vg_x ?st < 80 \<and> vg_x ?st mod 4 \<noteq> 0 \<longleftrightarrow> Suc (unat (vg_x st)) mod 4 \<noteq> 0"
    using put(2) x by (auto simp: word_less_nat_alt word_unat_eq_iff unat_mod) presburger
  show ?case
  proof (cases "Suc (unat (vg_x st)) mod 4 = 0")
    case True
    then have "4 - unat (vg_x st) mod 4 = 1" by presburger
    moreover have "vga_tab_loop st = ?st" using go True by (subst vga_tab_loop.simps) (auto simp: Let_def)
    ultimately show ?thesis using adv by simp
  next
    case False
    then have small: "Suc (unat (vg_x st)) < 80" using x by presburger
    then have "vg_x ?st \<noteq> 80" using put(2) by (auto simp: word_unat_eq_iff)
    then have same: "vga_advance ?st = ?st" by (simp add: vga_advance_def)
    have n: "4 - unat (vg_x st) mod 4 = Suc (4 - Suc (unat (vg_x st)) mod 4)" using False by presburger
    have "vga_tab_loop st = vga_tab_loop ?st" using go False by (subst vga_tab_loop.simps) (simp add: Let_def)
    moreover have "vga_inside ?st" using adv(2) same by simp
    ultimately show ?thesis
      using 1(1) [OF refl] go False adv same put n by (simp add: funpow_Suc_right del: funpow.simps)
  qed
qed

lemma vgaterm_putc_stub_advance:
  "vgaterm_putc_stub c st =
     (if c = 8 then
        if vg_x st \<noteq> 0 then st\<lparr>vg_x := vg_x st - 1\<rparr>
        else if vg_y st \<noteq> 0 then st\<lparr>vg_x := 79, vg_y := vg_y st - 1\<rparr>
        else st
      else if c = 13 then st\<lparr>vg_x := 0\<rparr>
      else if c = 10 then vgaterm_newline st
      else if c = 9 then vga_advance (vga_tab_loop st)
      else vga_advance (vga_put (vga_cell c (vg_attr st)) st))"
  by (simp add: vgaterm_putc_stub_def vga_advance_def Let_def)

lemma vga_back:
  assumes "vga_inside st"
  shows "vga_grid (vgaterm_putc_stub 8 st) = grid_putc (vg_attr st) 8 (vga_grid st) \<and>
    vga_inside (vgaterm_putc_stub 8 st) \<and> vg_attr (vgaterm_putc_stub 8 st) = vg_attr st"
proof -
  have pos: "v \<noteq> 0 \<longleftrightarrow> 0 < unat v" for v :: u8 by (simp add: unat_gt_0)
  have dec: "v \<noteq> 0 \<Longrightarrow> unat (v - 1) = unat v - 1" for v :: u8 by (simp add: unat_sub word_le_nat_alt unat_gt_0 Suc_le_eq)
  show ?thesis
    using assms dec [of "vg_x st"] dec [of "vg_y st"] pos [of "vg_x st"] pos [of "vg_y st"]
    by (auto simp: vgaterm_putc_stub_def grid_putc_def vga_grid_def vga_inside_unat)
qed

lemma vgaterm_putc_stub_grid:
  assumes "vga_inside st"
  shows "vga_grid (vgaterm_putc_stub c st) = grid_putc (vg_attr st) c (vga_grid st) \<and>
    vga_inside (vgaterm_putc_stub c st) \<and> vg_attr (vgaterm_putc_stub c st) = vg_attr st"
proof -
  have y: "unat (vg_y st) < 25" using assms by (simp add: vga_inside_unat)
  consider "c = 8" | "c = 13" | "c = 10" | "c = 9" | "c \<notin> {8, 13, 10, 9}" by blast
  then show ?thesis
  proof cases
    case 1
    then show ?thesis using vga_back [OF assms] by simp
  next
    case 2
    then show ?thesis using assms by (simp add: vgaterm_putc_stub_def grid_putc_def vga_grid_def vga_inside_unat)
  next
    case 3
    then show ?thesis using vgaterm_newline_grid [OF y] by (simp add: vgaterm_putc_stub_def grid_putc_def)
  next
    case 4
    have "g_x (vga_grid st) = unat (vg_x st)" by (simp add: vga_grid_def)
    then show ?thesis using vga_tab_grid [OF assms] 4 by (simp add: vgaterm_putc_stub_advance grid_putc_def)
  next
    case 5
    then show ?thesis using vga_put_advance [OF assms] by (simp add: vgaterm_putc_stub_advance grid_putc_def)
  qed
qed

text \<open>Nothing behind the screen is written while the cursor is on it.\<close>

definition same_behind :: "vgaterm \<Rightarrow> vgaterm \<Rightarrow> bool" where
  "same_behind st st' \<longleftrightarrow> (\<forall>i \<ge> 2000. vg_buffer st' i = vg_buffer st i)"

lemma same_behind_put: "vga_inside st \<Longrightarrow> same_behind st (vga_put cell st)"
  by (auto simp: same_behind_def vga_put_def vga_pos_def vga_inside_unat)

lemma same_behind_newline: "same_behind st (vgaterm_newline st)"
  by (simp add: same_behind_def vgaterm_newline_def Let_def fold_blank [simplified])

lemma same_behind_trans: "same_behind a b \<Longrightarrow> same_behind b c \<Longrightarrow> same_behind a c"
  by (simp add: same_behind_def)

lemma same_behind_advance: "same_behind st (vga_advance st)"
  using same_behind_newline by (simp add: vga_advance_def same_behind_def)

lemma vga_put_inside_again:
  assumes "vga_inside st" and "vg_x (vga_put cell st) < 80"
  shows "vga_inside (vga_put cell st)"
  using assms vga_put_inside(3) [OF assms(1), of cell] by (simp add: vga_inside_def)

lemma same_behind_tab: "vga_inside st \<Longrightarrow> same_behind st (vga_tab_loop st)"
proof (induction st rule: vga_tab_loop.induct)
  case (1 st)
  then show ?case
    using same_behind_put [of st] vga_put_inside_again [of st]
    by (subst vga_tab_loop.simps) (auto simp: Let_def intro: same_behind_trans)
qed

lemma same_behind_putc_stub: "vga_inside st \<Longrightarrow> same_behind st (vgaterm_putc_stub c st)"
  using same_behind_put [of st] same_behind_tab [of st] same_behind_newline same_behind_advance
  by (auto simp: vgaterm_putc_stub_advance intro: same_behind_trans) (simp_all add: same_behind_def)

text \<open>The hardware cursor is at the cursor.\<close>

definition cursor_pos :: "vgaterm \<Rightarrow> nat" where
  "cursor_pos st = 256 * unat (vg_crtc st 0x0E) + unat (vg_crtc st 0x0F)"

lemma low_byte: "unat (ucast (w AND 0xFF) :: u8) = unat w mod 256" for w :: u16
proof -
  have "w AND 0xFF = take_bit 8 w" by (simp add: take_bit_eq_mask mask_eq_exp_minus_1)
  then show ?thesis by (simp add: unsigned_ucast_eq take_bit_eq_mod unat_mod)
qed

lemma cursor_bytes: "256 * unat (ucast (drop_bit 8 p AND 0xFF) :: u8) + unat (ucast (p AND 0xFF) :: u8) = unat p" for p :: u16
proof -
  have "unat p < 65536" using unsigned_less [of p, where ?'a = nat] by simp
  then have "unat p div 256 < 256" by (simp add: div_less_iff_less_mult)
  then show ?thesis by (simp add: low_byte unat_div drop_bit_eq_div)
qed

lemma vgaterm_update_cursor_pos: "cursor_pos (vgaterm_update_cursor st) = vga_pos st"
proof -
  have "(ucast (vg_y st) * 80 + ucast (vg_x st) :: u16) = of_nat (vga_pos st)"
    by (simp add: vga_pos_def)
  moreover have "vga_pos st < 65536"
    unfolding vga_pos_def using unat_u8_less [of "vg_x st"] unat_u8_less [of "vg_y st"] by linarith
  ultimately have "unat (ucast (vg_y st) * 80 + ucast (vg_x st) :: u16) = vga_pos st"
    by (simp add: unat_of_nat take_bit_nat_eq_self)
  then show ?thesis
    using cursor_bytes [of "ucast (vg_y st) * 80 + ucast (vg_x st)"]
    by (simp add: vgaterm_update_cursor_def cursor_pos_def Let_def)
qed

lemma vgaterm_update_cursor_simps [simp]:
  "vga_grid (vgaterm_update_cursor st) = vga_grid st" "vga_inside (vgaterm_update_cursor st) = vga_inside st"
  "same_behind st' (vgaterm_update_cursor st) = same_behind st' st" "vga_pos (vgaterm_update_cursor st) = vga_pos st"
  by (simp_all add: vgaterm_update_cursor_def vga_grid_def vga_inside_def same_behind_def vga_pos_def Let_def)

lemma fold_putc_stub:
  assumes "vga_inside st"
  shows "vga_grid (fold vgaterm_putc_stub s st) = fold (grid_putc (vg_attr st)) s (vga_grid st) \<and>
    vga_inside (fold vgaterm_putc_stub s st) \<and> same_behind st (fold vgaterm_putc_stub s st)"
  using assms
proof (induction s arbitrary: st)
  case Nil
  then show ?case by (simp add: same_behind_def)
next
  case (Cons c s)
  note stub = vgaterm_putc_stub_grid [OF Cons.prems, of c]
  then show ?case
    using Cons.IH [of "vgaterm_putc_stub c st"] same_behind_putc_stub [OF Cons.prems, of c]
    by (auto intro: same_behind_trans)
qed

text \<open>
  C20: while the cursor is on the screen, writing a string implements the grid of 25 rows of 80 cells:
  characters in the current attribute, backspace, carriage return, newline with scrolling, and tabs
  that fill up to the next multiple of four. The cursor stays on the screen, the hardware cursor shows
  it, and no cell outside of the screen is written.
\<close>

theorem vgaterm_puts_grid:
  assumes "vga_inside st"
  shows "vga_grid (vgaterm_puts s st) = fold (grid_putc (vg_attr st)) s (vga_grid st) \<and>
    vga_inside (vgaterm_puts s st) \<and> (\<forall>i \<ge> 2000. vg_buffer (vgaterm_puts s st) i = vg_buffer st i) \<and>
    cursor_pos (vgaterm_puts s st) = vga_pos (vgaterm_puts s st)"
proof -
  have "same_behind st (vgaterm_puts s st)"
    using fold_putc_stub [OF assms, of s] by (simp add: vgaterm_puts_def)
  then show ?thesis
    using fold_putc_stub [OF assms, of s]
    by (simp add: vgaterm_puts_def vgaterm_update_cursor_pos same_behind_def)
qed

section \<open>Colours\<close>

lemma attr_fg:
  "((a AND 0xF0) OR v) AND 0x0F = v AND 0x0F" "((a AND 0xF0) OR v) AND 0xF0 = (a AND 0xF0) OR (v AND 0xF0)" for a v :: u8
  by (simp_all add: bit.conj_disj_distrib2 and.assoc)

lemma attr_bg:
  "drop_bit 4 ((a AND 0x0F) OR w) = drop_bit 4 w" "((a AND 0x0F) OR w) AND 0x0F = (a AND 0x0F) OR (w AND 0x0F)" for a w :: u8
  by (simp_all add: bit.conj_disj_distrib2 and.assoc drop_bit_or drop_bit_and)

text \<open>The colour map is its own inverse, on the first 8 colours too.\<close>

lemma idxmap_fg: "\<forall>n\<in>{0..<16}. ucast (vgaterm_idxmap ! unat (vgaterm_idxmap ! n AND 0x0F)) = (of_nat n :: u32) \<and>
    vgaterm_idxmap ! n AND 0xF0 = 0"
  by code_simp

lemma idxmap_bg: "\<forall>n\<in>{0..<8}. ucast (vgaterm_idxmap ! unat (drop_bit 4 (push_bit 4 (vgaterm_idxmap ! n AND 7)) AND 7)) = (of_nat n :: u32) \<and>
    push_bit 4 (vgaterm_idxmap ! n AND 7) AND 0x0F = 0"
  by code_simp

interpretation vga_fg: attribute vgaterm_setfg_idx vgaterm_getfg_idx "\<lambda>i. i < 16" "\<lambda>st. st\<lparr>vg_attr := vg_attr st AND 0xF0\<rparr>"
proof unfold_locales
  fix i :: u32 and st
  show "vgaterm_getfg_idx (snd (vgaterm_setfg_idx i st)) = i" if "i < 16"
    using that idxmap_fg [rule_format, of "unat i"]
    by (simp add: vgaterm_setfg_idx_def vgaterm_getfg_idx_def attr_fg word_less_nat_alt word_le_nat_alt)
  show "(snd (vgaterm_setfg_idx i st))\<lparr>vg_attr := vg_attr (snd (vgaterm_setfg_idx i st)) AND 0xF0\<rparr> = st\<lparr>vg_attr := vg_attr st AND 0xF0\<rparr>"
    using idxmap_fg [rule_format, of "unat i"]
    by (auto simp: vgaterm_setfg_idx_def attr_fg word_less_nat_alt word_le_nat_alt and.assoc not_le)
qed (auto simp: vgaterm_setfg_idx_def)

interpretation vga_bg: attribute vgaterm_setbg_idx vgaterm_getbg_idx "\<lambda>i. i < 8" "\<lambda>st. st\<lparr>vg_attr := vg_attr st AND 0x0F\<rparr>"
proof unfold_locales
  fix i :: u32 and st
  show "vgaterm_getbg_idx (snd (vgaterm_setbg_idx i st)) = i" if "i < 8"
    using that idxmap_bg [rule_format, of "unat i"]
    by (simp add: vgaterm_setbg_idx_def vgaterm_getbg_idx_def attr_bg word_less_nat_alt word_le_nat_alt)
  show "(snd (vgaterm_setbg_idx i st))\<lparr>vg_attr := vg_attr (snd (vgaterm_setbg_idx i st)) AND 0x0F\<rparr> = st\<lparr>vg_attr := vg_attr st AND 0x0F\<rparr>"
    using idxmap_bg [rule_format, of "unat i"]
    by (auto simp: vgaterm_setbg_idx_def attr_bg word_less_nat_alt word_le_nat_alt and.assoc not_le)
qed (auto simp: vgaterm_setbg_idx_def)

text \<open>
  On the VGA terminal, setting one of the 16 foreground colours succeeds, the colour is read back,
  and the background colour is not changed; any other index is refused without an effect. The calls
  give back the output mutex.
\<close>

lemma vgaterm_colours:
  assumes "tm_impl st = Some vgaterm_hook" and "\<not> tm_mutex_out st" and "term_getbg_indexed st = Some (bg, st)"
  shows "\<exists>st'. term_setfg_indexed idx st = Some (idx < 16, st') \<and> (idx < 16 \<longrightarrow> term_getfg_indexed st' = Some (idx, st')) \<and>
    term_getbg_indexed st' = Some (bg, st') \<and> (16 \<le> idx \<longrightarrow> st' = st) \<and> \<not> tm_mutex_out st'"
proof (cases "idx < 16")
  case True
  let ?d = "snd (vgaterm_setfg_idx idx (tm_dev st))" and ?rest = "\<lambda>d. d\<lparr>vg_attr := vg_attr d AND 0xF0\<rparr>"
  have set: "vgaterm_setfg_idx idx (tm_dev st) = (True, ?d)"
    using vga_fg.set_accepts [of idx "tm_dev st"] True by (auto simp: prod_eq_iff)
  have bits: "drop_bit 4 (v AND 0xF0) AND 7 = drop_bit 4 v AND 7" for v :: u8
    by (simp add: drop_bit_and and.assoc)
  have "vg_attr (?rest ?d) = vg_attr (?rest (tm_dev st))" using vga_fg.set_rest [of idx "tm_dev st"] by simp
  then have "vgaterm_getbg_idx ?d = vgaterm_getbg_idx (tm_dev st)"
    unfolding vgaterm_getbg_idx_def bits [of "vg_attr ?d", symmetric] bits [of "vg_attr (tm_dev st)", symmetric] by simp
  moreover have "bg = vgaterm_getbg_idx (tm_dev st)"
    using assms by (simp add: term_getbg_indexed_def vgaterm_hook_def term_guarded_run)
  moreover have "\<not> 255 < idx" using True by (auto simp: word_less_nat_alt)
  ultimately show ?thesis
    using vga_fg.get_set [OF True, of "tm_dev st"] assms(1,2) True set
    by (simp add: term_setfg_indexed_def term_getfg_indexed_def term_getbg_indexed_def vgaterm_hook_def term_guarded_run)
next
  case False
  then have "vgaterm_setfg_idx idx (tm_dev st) = (False, tm_dev st)" by (simp add: vgaterm_setfg_idx_def)
  then show ?thesis
    using False assms by (simp add: term_setfg_indexed_def vgaterm_hook_def term_guarded_run)
qed

section \<open>Concrete screens\<close>

text \<open>The line "ab", backspace, newline waits in the ring; the cursor is in the last cell of the screen.\<close>

definition vga_kbds_example :: kbds where
  "vga_kbds_example = \<lparr>kbd_list = [],
     kbd_events = map (\<lambda>c. \<lparr>ev_id = 0, ev_pressed = True, ev_code = 4, ev_c = c, ev_mod = 0\<rparr>) ([97, 98, 8, 10] @ replicate 60 0),
     kbd_rd = 0, kbd_wr = 4\<rparr>"

definition vga_example :: "vgaterm terminal" where
  "vga_example = \<lparr>tm_impl = Some vgaterm_hook, tm_mutex_in = False, tm_mutex_out = False, tm_irq = True,
     tm_dev = \<lparr>vg_x = 79, vg_y = 24, vg_buffer = (\<lambda>_. 0), vg_attr = 7, vg_crtc = (\<lambda>_. 0), vg_kbds = vga_kbds_example\<rparr>\<rparr>"

lemma vga_example_chars: "kbd_chars vga_kbds_example = [97, 98, 8, 10]" "kbd_ok vga_kbds_example"
  by (simp_all add: kbd_chars_def kbd_queue_def vga_kbds_example_def kbd_count_def kbd_ok_def upt_rec)

theorem vgaterm_gets_line_witness:
  "\<exists>m st'. term_gets (\<lambda>d. d) 0x1000 (\<lambda>_. 1) vga_example = Some (m, st') \<and> cstr_at m 0x1000 [97] \<and> m 0x1004 = 1"
proof -
  have "edit_line [97, 98, 8] = [97]" by (simp add: edit_line_def edit_key_def)
  moreover have "unat (0x1004 - 0x1000 :: u32) = 4" by simp
  ultimately show ?thesis
    using vgaterm_gets_line [of vga_example "[97, 98, 8]" "[]" "\<lambda>d. d" "0x1000" "\<lambda>_. 1"] vga_example_chars
    by (auto simp: vga_example_def)
qed

theorem vgaterm_puts_grid_witness:
  "vga_grid (vgaterm_puts [97] (tm_dev vga_example)) = grid_putc 7 97 (vga_grid (tm_dev vga_example)) \<and>
   g_y (vga_grid (vgaterm_puts [97] (tm_dev vga_example))) = 24 \<and> g_x (vga_grid (vgaterm_puts [97] (tm_dev vga_example))) = 0"
  using vgaterm_puts_grid [of "tm_dev vga_example" "[97]"]
  by (simp add: vga_example_def vga_inside_def grid_putc_def grid_put_def grid_newline_def vga_grid_def)

lemma vgaterm_colours_witness:
  "\<exists>st'. term_setfg_indexed 9 vga_example = Some (True, st') \<and> term_getfg_indexed st' = Some (9, st')"
proof -
  have "vga_example\<lparr>tm_dev := tm_dev vga_example\<rparr> = vga_example" by simp
  then have "term_getbg_indexed vga_example = Some (0, vga_example)"
    using term_guarded_run [of vga_example "\<lambda>d. Some (vgaterm_getbg_idx d, d)" 0 "tm_dev vga_example" vgaterm_hook]
    by (simp add: term_getbg_indexed_def vga_example_def vgaterm_hook_def vgaterm_getbg_idx_def vgaterm_idxmap_def)
  with vgaterm_colours [of vga_example 0 9] show ?thesis by (auto simp: vga_example_def)
qed

text \<open>The cursor can be set outside of the screen; the next character is then written behind the screen.\<close>

lemma vgaterm_set_xy_outside:
  "vg_buffer (vgaterm_putc 97 (vgaterm_set_xy 200 200 (tm_dev vga_example))) 16200 = vga_cell 97 7"
  by (simp add: vgaterm_putc_def vgaterm_set_xy_def vgaterm_update_cursor_def vgaterm_putc_stub_def vga_put_def vga_pos_def vga_example_def)

end
