(* ===== verification/StringAsm.thy ===== *)
theory StringAsm
  imports KString
begin

text \<open>
  \<^verbatim>\<open>arch/x86cpu/string.asm\<close>: the assembler versions of the block routines, which replace the weak
  ones of \<^verbatim>\<open>lib/string.c\<close> when the target asks for them. They are string instructions with a
  repeat prefix: \<open>ecx\<close> counts down, \<open>edi\<close> and \<open>esi\<close> move by the size of the unit, upwards or, with the
  direction flag set, downwards.
\<close>

definition str_step :: "bool \<Rightarrow> u32 \<Rightarrow> u32 \<Rightarrow> u32" where
  "str_step df unit p = (if df then p - unit else p + unit)"

primrec rep_movsb :: "bool \<Rightarrow> nat \<Rightarrow> u32 \<Rightarrow> u32 \<Rightarrow> mem \<Rightarrow> mem" where
  "rep_movsb df 0 edi esi m = m"
| "rep_movsb df (Suc ecx) edi esi m = rep_movsb df ecx (str_step df 1 edi) (str_step df 1 esi) (m(edi := m esi))"

primrec rep_stosb :: "nat \<Rightarrow> u32 \<Rightarrow> u8 \<Rightarrow> mem \<Rightarrow> mem" where
  "rep_stosb 0 edi al m = m"
| "rep_stosb (Suc ecx) edi al m = rep_stosb ecx (str_step False 1 edi) al (m(edi := al))"

primrec rep_stosw :: "nat \<Rightarrow> u32 \<Rightarrow> u16 \<Rightarrow> mem \<Rightarrow> mem" where
  "rep_stosw 0 edi ax m = m"
| "rep_stosw (Suc ecx) edi ax m = rep_stosw ecx (str_step False 2 edi) ax (store16 m edi ax)"

primrec rep_stosd :: "nat \<Rightarrow> u32 \<Rightarrow> u32 \<Rightarrow> mem \<Rightarrow> mem" where
  "rep_stosd 0 edi eax m = m"
| "rep_stosd (Suc ecx) edi eax m = rep_stosd ecx (str_step False 4 edi) eax (store32 m edi eax)"

definition asm_memcpy :: "mem \<Rightarrow> u32 \<Rightarrow> u32 \<Rightarrow> u32 \<Rightarrow> mem" where
  "asm_memcpy m dest src n = rep_movsb False (unat n) dest src m"

definition asm_memmove :: "mem \<Rightarrow> u32 \<Rightarrow> u32 \<Rightarrow> u32 \<Rightarrow> mem" where
  "asm_memmove m dest src n =
     (if dest = src then m
      else if dest < src then rep_movsb False (unat n) dest src m
      else rep_movsb True (unat n) (dest + n - 1) (src + n - 1) m)"

definition asm_memset :: "mem \<Rightarrow> u32 \<Rightarrow> u32 \<Rightarrow> u32 \<Rightarrow> mem" where
  "asm_memset m str c n = rep_stosb (unat n) str (ucast c) m"

definition asm_memset16 :: "mem \<Rightarrow> u32 \<Rightarrow> u16 \<Rightarrow> u32 \<Rightarrow> mem" where
  "asm_memset16 m str c n = rep_stosw (unat n) str c m"

definition asm_memset32 :: "mem \<Rightarrow> u32 \<Rightarrow> u32 \<Rightarrow> u32 \<Rightarrow> mem" where
  "asm_memset32 m str c n = rep_stosd (unat n) str c m"

section \<open>Copying\<close>

text \<open>Counting up and counting down, the instruction is the loop of the portable version.\<close>

lemma rep_movsb_up: "rep_movsb False n (d + of_nat k) (s + of_nat k) (copy_up k d s m) = copy_up (k + n) d s m"
proof (induction n arbitrary: k)
  case 0
  then show ?case by simp
next
  case (Suc n)
  show ?case using Suc [of "Suc k"] by (simp add: str_step_def Let_def algebra_simps fun_upd_def)
qed

lemma rep_movsb_down: "rep_movsb True n (d + of_nat n - 1) (s + of_nat n - 1) m = copy_down n d s m"
  by (induction n arbitrary: m) (simp_all add: str_step_def algebra_simps)

text \<open>
  C21: the assembler \<open>memmove\<close> computes the same memory as the portable one, for blocks of up to
  \<open>2 ^ 31\<close> bytes, wherever they are and however they overlap (beyond that the portable loop, which
  counts with an \<open>int\<close>, does nothing when it copies downwards).
\<close>

theorem asm_memmove_portable:
  assumes "unat n \<le> 2 ^ 31"
  shows "asm_memmove m dest src n = memmove m dest src n"
  using rep_movsb_up [where k = 0 and n = "unat n"] rep_movsb_down [where n = "unat n"] sint_pred_count [OF assms]
  by (simp add: asm_memmove_def memmove_def)

theorem asm_memmove_portable_witness:
  "asm_memmove (\<lambda>a. ucast a) 0x1002 0x1000 4 = memmove (\<lambda>a. ucast a) 0x1002 0x1000 4"
  by (rule asm_memmove_portable) simp

lemma asm_memcpy_up: "asm_memcpy m dest src n = copy_up (unat n) dest src m"
  using rep_movsb_up [where k = 0 and n = "unat n"] by (simp add: asm_memcpy_def)

lemma asm_memcpy_portable: "dest \<noteq> src \<Longrightarrow> asm_memcpy m dest src n = memcpy m dest src n"
  by (simp add: asm_memcpy_up memcpy_def)

section \<open>Filling\<close>

lemma rep_stosb_memset: "rep_stosb n (p + of_nat k) c (memset_loop k p c m) = memset_loop (k + n) p c m"
proof (induction n arbitrary: k)
  case 0
  then show ?case by simp
next
  case (Suc n)
  show ?case using Suc [of "Suc k"] by (simp add: str_step_def algebra_simps fun_upd_def)
qed

lemma asm_memset_portable: "asm_memset m str c n = memset m str c n"
  using rep_stosb_memset [where k = 0 and n = "unat n"] by (simp add: asm_memset_def memset_def)

text \<open>
  What a fill with units of \<open>w\<close> bytes promises: the bytes of \<open>n\<close> units from \<open>p\<close> on repeat the bytes of
  the unit, and nothing else changes.
\<close>

definition unit_fill :: "nat \<Rightarrow> (nat \<Rightarrow> u8) \<Rightarrow> nat \<Rightarrow> u32 \<Rightarrow> mem \<Rightarrow> mem" where
  "unit_fill w b n p m = (\<lambda>a. if unat (a - p) < w * n then b (unat (a - p) mod w) else m a)"

definition byte16 :: "u16 \<Rightarrow> nat \<Rightarrow> u8" where
  "byte16 v i = (if i = 0 then ucast v else ucast (drop_bit 8 v))"

definition byte32 :: "u32 \<Rightarrow> nat \<Rightarrow> u8" where
  "byte32 v i = ucast (drop_bit (8 * i) v)"

lemma unat_diff_back:
  fixes u :: u32
  assumes "w < 2 ^ 32"
  shows "unat (u - of_nat w) = (if w \<le> unat u then unat u - w else unat u + 2 ^ 32 - w)"
proof (cases "w \<le> unat u")
  case True
  then have "of_nat w \<le> u" using assms by (simp add: word_le_nat_alt unat_of_nat_u32)
  then show ?thesis using True assms by (simp add: unat_sub unat_of_nat_u32)
next
  case False
  then have "\<not> of_nat w \<le> u" using assms by (simp add: word_le_nat_alt unat_of_nat_u32)
  then show ?thesis using False assms by (simp add: unat_sub_if_size word_size unat_of_nat_u32)
qed

lemma unit_fill_Suc:
  assumes "0 < w" and "w * Suc n \<le> 2 ^ 32" and "w < 2 ^ 32"
  shows "unit_fill w b n (p + of_nat w) (unit_fill w b 1 p m) = unit_fill w b (Suc n) p m"
proof
  fix a
  have off: "unat (a - (p + of_nat w)) = (if w \<le> unat (a - p) then unat (a - p) - w else unat (a - p) + 2 ^ 32 - w)"
    using unat_diff_back [OF assms(3), of "a - p"] by (simp add: algebra_simps)
  show "unit_fill w b n (p + of_nat w) (unit_fill w b 1 p m) a = unit_fill w b (Suc n) p m a"
  proof (cases "w \<le> unat (a - p)")
    case True
    then have "(unat (a - p) - w) mod w = unat (a - p) mod w" by (simp add: le_mod_geq)
    then show ?thesis using True assms by (auto simp: unit_fill_def off)
  next
    case False
    then have "\<not> unat (a - p) + 2 ^ 32 - w < w * n" using assms(2) by simp
    then show ?thesis using False assms(1) by (simp add: unit_fill_def off)
  qed
qed

lemma u32_offset: "unat (a - p) = k \<Longrightarrow> a = p + of_nat k" for a p :: u32
  by auto

lemma store16_unit: "store16 m p v = unit_fill 2 (byte16 v) 1 p m"
proof
  fix a
  have "unat (a - p) = 0 \<or> unat (a - p) = 1 \<or> 2 \<le> unat (a - p)" by linarith
  then consider "a = p + of_nat 0" | "a = p + of_nat 1" | "2 \<le> unat (a - p)" using u32_offset by blast
  then show "store16 m p v a = unit_fill 2 (byte16 v) 1 p m a"
  proof cases
    case 3
    then have "a \<noteq> p" "a \<noteq> p + 1" by auto
    then show ?thesis using 3 by (simp add: store16_def unit_fill_def)
  qed (simp_all add: store16_def unit_fill_def byte16_def)
qed

lemma store32_unit: "store32 m p v = unit_fill 4 (byte32 v) 1 p m"
proof
  fix a
  have "unat (a - p) = 0 \<or> unat (a - p) = 1 \<or> unat (a - p) = 2 \<or> unat (a - p) = 3 \<or> 4 \<le> unat (a - p)" by linarith
  then consider "a = p + of_nat 0" | "a = p + of_nat 1" | "a = p + of_nat 2" | "a = p + of_nat 3" | "4 \<le> unat (a - p)"
    using u32_offset by blast
  then show "store32 m p v a = unit_fill 4 (byte32 v) 1 p m a"
  proof cases
    case 5
    then have "a \<noteq> p" "a \<noteq> p + 1" "a \<noteq> p + 2" "a \<noteq> p + 3" by auto
    then show ?thesis using 5 by (simp add: store32_def unit_fill_def)
  qed (simp_all add: store32_def unit_fill_def byte32_def)
qed

lemma rep_stosw_fill: "2 * n \<le> 2 ^ 32 \<Longrightarrow> rep_stosw n p v m = unit_fill 2 (byte16 v) n p m"
proof (induction n arbitrary: p m)
  case 0
  then show ?case by (simp add: unit_fill_def)
next
  case (Suc n)
  then have "rep_stosw n (p + of_nat 2) v (unit_fill 2 (byte16 v) 1 p m) =
      unit_fill 2 (byte16 v) n (p + of_nat 2) (unit_fill 2 (byte16 v) 1 p m)" by simp
  also have "\<dots> = unit_fill 2 (byte16 v) (Suc n) p m" using Suc.prems by (intro unit_fill_Suc) simp_all
  finally show ?case by (simp add: str_step_def store16_unit)
qed

lemma rep_stosd_fill: "4 * n \<le> 2 ^ 32 \<Longrightarrow> rep_stosd n p v m = unit_fill 4 (byte32 v) n p m"
proof (induction n arbitrary: p m)
  case 0
  then show ?case by (simp add: unit_fill_def)
next
  case (Suc n)
  then have "rep_stosd n (p + of_nat 4) v (unit_fill 4 (byte32 v) 1 p m) =
      unit_fill 4 (byte32 v) n (p + of_nat 4) (unit_fill 4 (byte32 v) 1 p m)" by simp
  also have "\<dots> = unit_fill 4 (byte32 v) (Suc n) p m" using Suc.prems by (intro unit_fill_Suc) simp_all
  finally show ?case by (simp add: str_step_def store32_unit)
qed

text \<open>
  the assembler \<open>memset16\<close> and \<open>memset32\<close> fill \<open>n\<close> whole units of 2 and 4 bytes in little-endian
  order and nothing else, as \<^verbatim>\<open>string.h\<close> promises and the portable versions do not.
\<close>

lemma asm_memset_units:
  assumes "unat n \<le> 2 ^ 30"
  shows "asm_memset16 m p v n = unit_fill 2 (byte16 v) (unat n) p m \<and>
    asm_memset32 m p w n = unit_fill 4 (byte32 w) (unat n) p m"
  using assms by (simp_all add: asm_memset16_def asm_memset32_def rep_stosw_fill rep_stosd_fill)

lemma asm_memset_units_witness:
  "asm_memset16 (\<lambda>_. 0) 0x1000 0x1234 2 0x1003 = 0x12 \<and> asm_memset16 (\<lambda>_. 0) 0x1000 0x1234 2 0x1004 = 0"
  using asm_memset_units [of 2 "\<lambda>_. 0" "0x1000" "0x1234"] by (simp add: unit_fill_def byte16_def)

end
