(* ===== verification/Pixel.thy ===== *)
theory Pixel
  imports StringAsm
begin

text \<open>
  The pixel formats of \<^verbatim>\<open>hal/fbuf.c\<close>: how a colour is converted, stored and read, and what is left
  of it.
\<close>

datatype fbuf_pixel_type =
    FBUF_15BPP_RGB555 | FBUF_15BPP_RGB555_RE | FBUF_15BPP_BGR555 | FBUF_15BPP_BGR555_RE
  | FBUF_16BPP_RGB565 | FBUF_16BPP_RGB565_RE | FBUF_16BPP_BGR565 | FBUF_16BPP_BGR565_RE
  | FBUF_24BPP_RGB888 | FBUF_24BPP_BGR888
  | FBUF_32BPP_RGB888 | FBUF_32BPP_RGB888_RE | FBUF_32BPP_BGR888 | FBUF_32BPP_BGR888_RE

section \<open>Pixels\<close>

definition fbuf_bytes_per_pixel :: "fbuf_pixel_type \<Rightarrow> u32" where
  "fbuf_bytes_per_pixel t =
     (case t of
        FBUF_15BPP_RGB555 \<Rightarrow> 2 | FBUF_15BPP_RGB555_RE \<Rightarrow> 2 | FBUF_15BPP_BGR555 \<Rightarrow> 2 | FBUF_15BPP_BGR555_RE \<Rightarrow> 2
      | FBUF_16BPP_RGB565 \<Rightarrow> 2 | FBUF_16BPP_RGB565_RE \<Rightarrow> 2 | FBUF_16BPP_BGR565 \<Rightarrow> 2 | FBUF_16BPP_BGR565_RE \<Rightarrow> 2
      | FBUF_24BPP_RGB888 \<Rightarrow> 3 | FBUF_24BPP_BGR888 \<Rightarrow> 3
      | FBUF_32BPP_RGB888 \<Rightarrow> 4 | FBUF_32BPP_RGB888_RE \<Rightarrow> 4 | FBUF_32BPP_BGR888 \<Rightarrow> 4 | FBUF_32BPP_BGR888_RE \<Rightarrow> 4)"

definition FBUF_R :: "u32 \<Rightarrow> u32" where "FBUF_R c = drop_bit 16 c AND 0xFF"
definition FBUF_G :: "u32 \<Rightarrow> u32" where "FBUF_G c = drop_bit 8 c AND 0xFF"
definition FBUF_B :: "u32 \<Rightarrow> u32" where "FBUF_B c = c AND 0xFF"

definition pack555 :: "u32 \<Rightarrow> u32 \<Rightarrow> u32 \<Rightarrow> u32" where
  "pack555 hi mid lo = push_bit 10 (drop_bit 3 hi) OR push_bit 5 (drop_bit 3 mid) OR drop_bit 3 lo"

definition pack565 :: "u32 \<Rightarrow> u32 \<Rightarrow> u32 \<Rightarrow> u32" where
  "pack565 hi mid lo = push_bit 11 (drop_bit 3 hi) OR push_bit 5 (drop_bit 2 mid) OR drop_bit 3 lo"

definition swap16 :: "u32 \<Rightarrow> u32" where
  "swap16 c = push_bit 8 (c AND 0x00FF) OR drop_bit 8 (c AND 0xFF00)"

text \<open>The test \<open>if(color)\<close> is on the pointer, which is never null.\<close>

definition fbuf_process_color :: "fbuf_pixel_type \<Rightarrow> u32 \<Rightarrow> u32" where
  "fbuf_process_color t color =
     (let color = color AND 0x00FFFFFF; r = FBUF_R color; g = FBUF_G color; b = FBUF_B color
      in case t of
           FBUF_15BPP_BGR555 \<Rightarrow> pack555 b g r
         | FBUF_15BPP_BGR555_RE \<Rightarrow> swap16 (pack555 b g r)
         | FBUF_15BPP_RGB555 \<Rightarrow> pack555 r g b
         | FBUF_15BPP_RGB555_RE \<Rightarrow> swap16 (pack555 r g b)
         | FBUF_16BPP_BGR565 \<Rightarrow> pack565 b g r
         | FBUF_16BPP_BGR565_RE \<Rightarrow> swap16 (pack565 b g r)
         | FBUF_16BPP_RGB565 \<Rightarrow> pack565 r g b
         | FBUF_16BPP_RGB565_RE \<Rightarrow> swap16 (pack565 r g b)
         | FBUF_24BPP_BGR888 \<Rightarrow> color
         | FBUF_24BPP_RGB888 \<Rightarrow> color
         | FBUF_32BPP_BGR888 \<Rightarrow> r OR push_bit 8 g OR push_bit 16 b
         | FBUF_32BPP_BGR888_RE \<Rightarrow> push_bit 24 r OR push_bit 16 g OR push_bit 8 b
         | FBUF_32BPP_RGB888 \<Rightarrow> color
         | FBUF_32BPP_RGB888_RE \<Rightarrow> push_bit 24 (color AND 0x000000FF) OR push_bit 8 (color AND 0x0000FF00) OR
             drop_bit 8 (color AND 0x0FF00000))"

text \<open>One pixel of the sequential write.\<close>

definition fbuf_store :: "fbuf_pixel_type \<Rightarrow> u32 \<Rightarrow> u32 \<Rightarrow> u32 \<Rightarrow> mem \<Rightarrow> mem" where
  "fbuf_store t bytes_per_pixel p color m =
     (if bytes_per_pixel = 2 then store16 m p (ucast color)
      else if bytes_per_pixel = 3 then
        if t = FBUF_24BPP_BGR888
        then m(p := ucast (FBUF_R color), p + 1 := ucast (FBUF_G color), p + 2 := ucast (FBUF_B color))
        else m(p := ucast (FBUF_B color), p + 1 := ucast (FBUF_G color), p + 2 := ucast (FBUF_R color))
      else if bytes_per_pixel = 4 then store32 m p color
      else m)"

definition unpack555 :: "u32 \<Rightarrow> u32 \<times> u32 \<times> u32" where
  "unpack555 t = (drop_bit 10 (t AND 0x7C00), drop_bit 5 (t AND 0x03E0), t AND 0x001F)"

definition unpack565 :: "u32 \<Rightarrow> u32 \<times> u32 \<times> u32" where
  "unpack565 t = (drop_bit 11 (t AND 0xF800), drop_bit 5 (t AND 0x07E0), t AND 0x001F)"

definition rgb555 :: "u32 \<times> u32 \<times> u32 \<Rightarrow> u32" where
  "rgb555 = (\<lambda>(r, g, b). push_bit 3 b OR push_bit 11 g OR push_bit 19 r)"

definition rgb565 :: "u32 \<times> u32 \<times> u32 \<Rightarrow> u32" where
  "rgb565 = (\<lambda>(r, g, b). push_bit 3 b OR push_bit 10 g OR push_bit 19 r)"

definition rev3 :: "u32 \<times> u32 \<times> u32 \<Rightarrow> u32 \<times> u32 \<times> u32" where
  "rev3 = (\<lambda>(a, b, c). (c, b, a))"

text \<open>Reading one pixel.\<close>

definition fbuf_load :: "fbuf_pixel_type \<Rightarrow> mem \<Rightarrow> u32 \<Rightarrow> u32" where
  "fbuf_load t m p =
     (case t of
        FBUF_15BPP_RGB555 \<Rightarrow> rgb555 (unpack555 (load16 m p))
      | FBUF_15BPP_RGB555_RE \<Rightarrow> rgb555 (unpack555 (swap16 (load16 m p)))
      | FBUF_15BPP_BGR555 \<Rightarrow> rgb555 (rev3 (unpack555 (load16 m p)))
      | FBUF_15BPP_BGR555_RE \<Rightarrow> rgb555 (rev3 (unpack555 (swap16 (load16 m p))))
      | FBUF_16BPP_BGR565 \<Rightarrow> rgb565 (rev3 (unpack565 (load16 m p)))
      | FBUF_16BPP_BGR565_RE \<Rightarrow> rgb565 (rev3 (unpack565 (swap16 (load16 m p))))
      | FBUF_16BPP_RGB565 \<Rightarrow> rgb565 (unpack565 (load16 m p))
      | FBUF_16BPP_RGB565_RE \<Rightarrow> rgb565 (unpack565 (swap16 (load16 m p)))
      | FBUF_24BPP_RGB888 \<Rightarrow> push_bit 16 (ucast (m p)) OR push_bit 8 (ucast (m (p + 1))) OR ucast (m (p + 2))
      | FBUF_24BPP_BGR888 \<Rightarrow> push_bit 16 (ucast (m (p + 2))) OR push_bit 8 (ucast (m (p + 1))) OR ucast (m p)
      | FBUF_32BPP_BGR888 \<Rightarrow>
          (let t = load32 m p in push_bit 16 (t AND 0x000000FF) OR (t AND 0x0000FF00) OR drop_bit 16 (t AND 0x00FF0000))
      | FBUF_32BPP_BGR888_RE \<Rightarrow> drop_bit 8 (load32 m p)
      | FBUF_32BPP_RGB888 \<Rightarrow> load32 m p AND 0x00FFFFFF
      | FBUF_32BPP_RGB888_RE \<Rightarrow>
          (let t = load32 m p in drop_bit 24 (t AND 0xFF000000) OR drop_bit 8 (t AND 0x00FF0000) OR push_bit 8 (t AND 0x0000FF00)))"

section \<open>Reading back what was drawn\<close>

text \<open>Words of 32 bits are equal when their bits are, one by one.\<close>

lemma word32_cases:
  fixes v w :: u32
  assumes "bit v 0 = bit w 0" and "bit v 1 = bit w 1" and "bit v 2 = bit w 2" and "bit v 3 = bit w 3"
    and "bit v 4 = bit w 4" and "bit v 5 = bit w 5" and "bit v 6 = bit w 6" and "bit v 7 = bit w 7"
    and "bit v 8 = bit w 8" and "bit v 9 = bit w 9" and "bit v 10 = bit w 10" and "bit v 11 = bit w 11"
    and "bit v 12 = bit w 12" and "bit v 13 = bit w 13" and "bit v 14 = bit w 14" and "bit v 15 = bit w 15"
    and "bit v 16 = bit w 16" and "bit v 17 = bit w 17" and "bit v 18 = bit w 18" and "bit v 19 = bit w 19"
    and "bit v 20 = bit w 20" and "bit v 21 = bit w 21" and "bit v 22 = bit w 22" and "bit v 23 = bit w 23"
    and "bit v 24 = bit w 24" and "bit v 25 = bit w 25" and "bit v 26 = bit w 26" and "bit v 27 = bit w 27"
    and "bit v 28 = bit w 28" and "bit v 29 = bit w 29" and "bit v 30 = bit w 30" and "bit v 31 = bit w 31"
  shows "v = w"
proof (rule bit_word_eqI)
  fix n assume "n < LENGTH(32)"
  then have "n \<in> set [0..<32]" by simp
  moreover have "[0..<32] = [0, 1, 2, 3, 4, 5, 6, 7, 8, 9, 10, 11, 12, 13, 14, 15, 16, 17, 18, 19, 20, 21, 22, 23, 24, 25, 26, 27, 28, 29, 30, 31]" by (simp add: upt_rec)
  ultimately have "n \<in> {0, 1, 2, 3, 4, 5, 6, 7, 8, 9, 10, 11, 12, 13, 14, 15, 16, 17, 18, 19, 20, 21, 22, 23, 24, 25, 26, 27, 28, 29, 30, 31}" by simp
  then show "bit v n = bit w n" using assms by auto
qed


text \<open>
  What reading a pixel returns of the colour it was drawn in: the upper bits of the components; red
  and blue exchanged in the 24-bit formats; without the lower half of red in \<open>FBUF_32BPP_RGB888_RE\<close>.
\<close>

definition fbuf_visible :: "fbuf_pixel_type \<Rightarrow> u32 \<Rightarrow> u32" where
  "fbuf_visible t c =
     (case t of
        FBUF_15BPP_RGB555 \<Rightarrow> c AND 0xF8F8F8 | FBUF_15BPP_RGB555_RE \<Rightarrow> c AND 0xF8F8F8
      | FBUF_15BPP_BGR555 \<Rightarrow> c AND 0xF8F8F8 | FBUF_15BPP_BGR555_RE \<Rightarrow> c AND 0xF8F8F8
      | FBUF_16BPP_RGB565 \<Rightarrow> c AND 0xF8FCF8 | FBUF_16BPP_RGB565_RE \<Rightarrow> c AND 0xF8FCF8
      | FBUF_16BPP_BGR565 \<Rightarrow> c AND 0xF8FCF8 | FBUF_16BPP_BGR565_RE \<Rightarrow> c AND 0xF8FCF8
      | FBUF_24BPP_RGB888 \<Rightarrow> push_bit 16 (FBUF_B c) OR push_bit 8 (FBUF_G c) OR FBUF_R c
      | FBUF_24BPP_BGR888 \<Rightarrow> push_bit 16 (FBUF_B c) OR push_bit 8 (FBUF_G c) OR FBUF_R c
      | FBUF_32BPP_RGB888 \<Rightarrow> c AND 0xFFFFFF | FBUF_32BPP_RGB888_RE \<Rightarrow> c AND 0xF0FFFF
      | FBUF_32BPP_BGR888 \<Rightarrow> c AND 0xFFFFFF | FBUF_32BPP_BGR888_RE \<Rightarrow> c AND 0xFFFFFF)"

lemmas colour_defs = rgb555_def rgb565_def unpack555_def unpack565_def pack555_def pack565_def rev3_def swap16_def
  FBUF_R_def FBUF_G_def FBUF_B_def

lemma load16_store16: "load16 (store16 m p v) p = ucast v"
  by (rule word32_cases) (auto simp: load16_def store16_def bit_simps dest: bit_imp_le_length)

lemma load32_store32: "load32 (store32 m p v) p = v"
  by (rule word32_cases) (simp_all add: load32_def store32_def bit_simps)


lemma swap16_swap16: "swap16 (ucast (ucast (swap16 v) :: u16)) = ucast (ucast v :: u16)"
  by (rule word32_cases) (simp_all add: swap16_def bit_simps)

text \<open>Unpacking the fields gives the upper bits of the three components.\<close>

definition byte_val :: "u32 \<Rightarrow> bool" where
  "byte_val v \<longleftrightarrow> v AND 0xFF = v"

lemma byte_val_bit: "byte_val v \<Longrightarrow> 8 \<le> n \<Longrightarrow> \<not> bit v n"
proof
  assume "byte_val v" and "8 \<le> n" and "bit v n"
  then have "bit (v AND 0xFF) n" by (simp add: byte_val_def)
  then have "bit (0xFF :: u32) n" by (simp add: bit_and_iff)
  moreover have "(0xFF :: u32) = mask 8" by (simp add: mask_eq_exp_minus_1)
  ultimately show False using \<open>8 \<le> n\<close> by (simp add: bit_mask_iff)
qed

lemma byte_val_rgb [simp]: "byte_val (FBUF_R c)" "byte_val (FBUF_G c)" "byte_val (FBUF_B c)"
  by (simp_all add: byte_val_def FBUF_R_def FBUF_G_def FBUF_B_def and.assoc)

lemma unpack555_pack555:
  assumes "byte_val h" and "byte_val m" and "byte_val l"
  shows "unpack555 (ucast (ucast (pack555 h m l) :: u16)) = (drop_bit 3 h, drop_bit 3 m, drop_bit 3 l)"
  unfolding unpack555_def pack555_def prod.inject
  by (intro conjI; rule word32_cases; simp add: bit_simps byte_val_bit assms)

lemma unpack565_pack565:
  assumes "byte_val h" and "byte_val m" and "byte_val l"
  shows "unpack565 (ucast (ucast (pack565 h m l) :: u16)) = (drop_bit 3 h, drop_bit 2 m, drop_bit 3 l)"
  unfolding unpack565_def pack565_def prod.inject
  by (intro conjI; rule word32_cases; simp add: bit_simps byte_val_bit assms)

lemma rgb_fields:
  "rgb555 (drop_bit 3 (FBUF_R c), drop_bit 3 (FBUF_G c), drop_bit 3 (FBUF_B c)) = c AND 0xF8F8F8"
  "rgb565 (drop_bit 3 (FBUF_R c), drop_bit 2 (FBUF_G c), drop_bit 3 (FBUF_B c)) = c AND 0xF8FCF8"
  by (rule word32_cases; simp add: rgb555_def rgb565_def FBUF_R_def FBUF_G_def FBUF_B_def bit_simps)+

lemma FBUF_mask [simp]: "FBUF_R (c AND 0xFFFFFF) = FBUF_R c" "FBUF_G (c AND 0xFFFFFF) = FBUF_G c" "FBUF_B (c AND 0xFFFFFF) = FBUF_B c"
  by (rule word32_cases; simp add: FBUF_R_def FBUF_G_def FBUF_B_def bit_simps)+

lemma rev3_simp [simp]: "rev3 (a, b, c) = (c, b, a)"
  by (simp add: rev3_def)

text \<open>The 32-bit formats, and the bytes of the 24-bit ones.\<close>

lemma pixel32:
  "push_bit 16 ((FBUF_R c OR push_bit 8 (FBUF_G c) OR push_bit 16 (FBUF_B c)) AND 0xFF) OR
     ((FBUF_R c OR push_bit 8 (FBUF_G c) OR push_bit 16 (FBUF_B c)) AND 0xFF00) OR
     drop_bit 16 ((FBUF_R c OR push_bit 8 (FBUF_G c) OR push_bit 16 (FBUF_B c)) AND 0xFF0000) = c AND 0xFFFFFF"
  "drop_bit 8 (push_bit 24 (FBUF_R c) OR push_bit 16 (FBUF_G c) OR push_bit 8 (FBUF_B c)) = c AND 0xFFFFFF"
  by (rule word32_cases; simp add: FBUF_R_def FBUF_G_def FBUF_B_def bit_simps)+

lemma pixel32_RE:
  fixes c :: u32
  defines "d \<equiv> c AND 0xFFFFFF"
  defines "w \<equiv> push_bit 24 (d AND 0xFF) OR push_bit 8 (d AND 0xFF00) OR drop_bit 8 (d AND 0x0FF00000)"
  shows "drop_bit 24 (w AND 0xFF000000) OR drop_bit 8 (w AND 0xFF0000) OR push_bit 8 (w AND 0xFF00) = c AND 0xF0FFFF"
  unfolding w_def d_def by (rule word32_cases; simp add: bit_simps)

lemma byte_of_FBUF [simp]: "ucast (ucast v :: u8) = v AND 0xFF" for v :: u32
  by (rule word32_cases; simp add: bit_simps)

lemma FBUF_byte [simp]: "FBUF_R c AND 0xFF = FBUF_R c" "FBUF_G c AND 0xFF = FBUF_G c" "FBUF_B c AND 0xFF = FBUF_B c"
  using byte_val_rgb [of c] by (simp_all add: byte_val_def)

text \<open>A stored pixel is read back in the precision of its format.\<close>

lemmas pixel_defs = fbuf_load_def fbuf_store_def fbuf_bytes_per_pixel_def fbuf_process_color_def fbuf_visible_def Let_def

lemma fbuf_load_store:
  "fbuf_load t (fbuf_store t (fbuf_bytes_per_pixel t) p (fbuf_process_color t c) m) p = fbuf_visible t c"
proof (cases t)
  case FBUF_32BPP_RGB888_RE
  have "fbuf_store t 4 p v m = store32 m p v" for t v by (simp add: fbuf_store_def)
  then show ?thesis unfolding FBUF_32BPP_RGB888_RE
    by (simp only: fbuf_bytes_per_pixel_def fbuf_load_def fbuf_process_color_def fbuf_visible_def Let_def load32_store32
      fbuf_pixel_type.case pixel32_RE)
next
  case FBUF_32BPP_BGR888
  then show ?thesis unfolding pixel_defs using pixel32(1) [of c]
    by (simp add: load32_store32)
next
  case FBUF_32BPP_BGR888_RE
  then show ?thesis unfolding pixel_defs using pixel32(2) [of c]
    by (simp add: load32_store32)
qed (simp_all add: pixel_defs load16_store16 load32_store32 swap16_swap16 unpack555_pack555 unpack565_pack565 rgb_fields and.assoc)

text \<open>Other pixels are not touched: a pixel is its bytes.\<close>

lemma fbuf_store_other:
  assumes "unat p + unat (fbuf_bytes_per_pixel t) \<le> unat a \<or> unat a < unat p" and "unat p + unat (fbuf_bytes_per_pixel t) \<le> 2 ^ 32"
  shows "fbuf_store t (fbuf_bytes_per_pixel t) p v m a = m a"
proof -
  have a: "a \<noteq> p + of_nat k" if "k < unat (fbuf_bytes_per_pixel t)" for k
    using unat_add_no_wrap [of p k] assms that by auto
  show ?thesis
    using a [of 0] a [of 1] a [of 2] a [of 3]
    by (cases t) (auto simp: fbuf_store_def fbuf_bytes_per_pixel_def store16_def store32_def)
qed

lemma fbuf_load_move:
  assumes "\<And>k. k < unat (fbuf_bytes_per_pixel t) \<Longrightarrow> m' (q + of_nat k) = m (p + of_nat k)"
  shows "fbuf_load t m' q = fbuf_load t m p"
  using assms [of 0] assms [of 1] assms [of 2] assms [of 3]
  by (cases t) (simp_all add: fbuf_load_def fbuf_bytes_per_pixel_def load16_def load32_def)

lemmas fbuf_load_cong = fbuf_load_move [where q = p and p = p for p]

lemma fbuf_load_other:
  fixes t p q
  defines "n \<equiv> unat (fbuf_bytes_per_pixel t)"
  assumes "unat p + n \<le> unat q \<or> unat q + n \<le> unat p" and "unat p + n \<le> 2 ^ 32" and "unat q + n \<le> 2 ^ 32"
  shows "fbuf_load t (fbuf_store t (fbuf_bytes_per_pixel t) p v m) q = fbuf_load t m q"
proof (rule fbuf_load_cong)
  fix k assume "k < unat (fbuf_bytes_per_pixel t)"
  moreover then have "unat (q + of_nat k) = unat q + k" using assms by (intro unat_add_no_wrap) simp
  ultimately show "fbuf_store t (fbuf_bytes_per_pixel t) p v m (q + of_nat k) = m (q + of_nat k)"
    using assms by (intro fbuf_store_other) auto
qed

end
