(* ===== verification/Fbuf.thy ===== *)
theory Fbuf
  imports Pixel Elf
begin

text \<open>
  \<^verbatim>\<open>hal/fbuf.c\<close> and \<^verbatim>\<open>hal/fonts/font8x16.c\<close>: drawing on a linear frame buffer, with an optional back
  buffer that is copied when a frame is committed. The buffers lie in the flat memory \<open>fs_mem\<close>; the
  dirty bits of the pages are in the page tables. Handlers of the driver act on the memory. Fills use
  \<open>memset16\<close> and \<open>memset32\<close>, which are weak symbols: they are the argument \<open>mset\<close>, a pair of functions,
  the portable ones or the ones of the assembler file.
\<close>

type_synonym mset_funs = "(mem \<Rightarrow> u32 \<Rightarrow> u16 \<Rightarrow> u32 \<Rightarrow> mem) \<times> (mem \<Rightarrow> u32 \<Rightarrow> u32 \<Rightarrow> u32 \<Rightarrow> mem)"

text \<open>A null pointer is the address 0.\<close>

record fbuf =
  fb_width :: u32
  fb_height :: u32
  fb_type :: fbuf_pixel_type
  fb_pitch :: u32
  fb_framebuffer :: u32
  fb_backbuffer :: u32
  fb_tick_flip :: u32
  fb_flip_all :: bool
  fb_dbuf_direct_write :: bool
  fb_flip :: "(mem \<Rightarrow> mem) option"
  fb_scroll_up :: "(u32 \<Rightarrow> mem \<Rightarrow> mem) option"
  fb_scroll_down :: "(u32 \<Rightarrow> mem \<Rightarrow> mem) option"
  fb_elf_segments :: "elf_prgload list"
  fb_unload :: "(mem \<Rightarrow> bool \<times> mem) option"

section \<open>Drawing pixels\<close>

text \<open>The loop over the pixels, \<open>n\<close> turns from \<open>(x, y)\<close> at address \<open>p\<close>.\<close>

primrec putpixel_loop :: "fbuf \<Rightarrow> u32 \<Rightarrow> u32 \<Rightarrow> nat \<Rightarrow> u32 \<Rightarrow> u32 \<Rightarrow> u32 \<Rightarrow> mem \<Rightarrow> mem" where
  "putpixel_loop fb bpp color 0 p x y m = m"
| "putpixel_loop fb bpp color (Suc n) p x y m =
     (let m = fbuf_store (fb_type fb) bpp p color m; p = p + bpp; x = x + 1
      in if x = fb_width fb then
           let y = y + 1
           in if y = fb_height fb then m
              else putpixel_loop fb bpp color n (p + (fb_pitch fb - fb_width fb * bpp)) 0 y m
         else putpixel_loop fb bpp color n p x y m)"

definition fbuf_putpixel_stub :: "mset_funs \<Rightarrow> fbuf \<Rightarrow> u32 \<Rightarrow> u32 \<Rightarrow> u32 \<Rightarrow> u32 \<Rightarrow> u32 \<Rightarrow> u32 \<Rightarrow> mem \<Rightarrow> mem" where
  "fbuf_putpixel_stub mset fb ptr x y n color bpp m =
     (let p = ptr + (y * fb_pitch fb + x * bpp); line_offset = fb_pitch fb - fb_width fb * bpp
      in if line_offset = 0 \<and> bpp \<noteq> 3 then
           if bpp = 2 then fst mset m p (ucast color) n
           else if bpp = 4 then snd mset m p color n
           else m
         else putpixel_loop fb bpp color (unat n) p x y m)"

definition fbuf_putpixel :: "mset_funs \<Rightarrow> fbuf option \<Rightarrow> u32 \<Rightarrow> u32 \<Rightarrow> u32 \<Rightarrow> u32 \<Rightarrow> mem \<Rightarrow> mem" where
  "fbuf_putpixel mset impl x y n color m =
     (case impl of
        None \<Rightarrow> m
      | Some fb \<Rightarrow>
          if n = 0 \<or> fb_width fb \<le> x \<or> fb_height fb \<le> y then m
          else
            let bpp = fbuf_bytes_per_pixel (fb_type fb); color = fbuf_process_color (fb_type fb) color;
                m = (if fb_backbuffer fb \<noteq> 0 then fbuf_putpixel_stub mset fb (fb_backbuffer fb) x y n color bpp m else m)
            in if fb_dbuf_direct_write fb \<or> fb_backbuffer fb = 0
               then fbuf_putpixel_stub mset fb (fb_framebuffer fb) x y n color bpp m else m)"

text \<open>The colours of \<open>n\<close> pixels; the caller's array is filled with this list from its start.\<close>

primrec getpixel_loop :: "fbuf \<Rightarrow> u32 \<Rightarrow> mem \<Rightarrow> nat \<Rightarrow> u32 \<Rightarrow> u32 \<Rightarrow> u32 \<Rightarrow> u32 list" where
  "getpixel_loop fb bpp m 0 p x y = []"
| "getpixel_loop fb bpp m (Suc n) p x y =
     fbuf_load (fb_type fb) m p #
     (let p = p + bpp; x = x + 1
      in if x = fb_width fb then
           let y = y + 1
           in if y = fb_height fb then []
              else getpixel_loop fb bpp m n (p + (fb_pitch fb - fb_width fb * bpp)) 0 y
         else getpixel_loop fb bpp m n p x y)"

definition fbuf_getpixel_stub :: "fbuf option \<Rightarrow> u32 \<Rightarrow> u32 \<Rightarrow> u32 \<Rightarrow> mem \<Rightarrow> u32 list" where
  "fbuf_getpixel_stub impl x y n m =
     (case impl of
        None \<Rightarrow> []
      | Some fb \<Rightarrow>
          if n = 0 \<or> fb_width fb \<le> x \<or> fb_height fb \<le> y then []
          else
            let bpp = fbuf_bytes_per_pixel (fb_type fb);
                ptr = (if fb_backbuffer fb \<noteq> 0 then fb_backbuffer fb else fb_framebuffer fb)
            in getpixel_loop fb bpp m (unat n) (ptr + (y * fb_pitch fb + x * bpp)) x y)"

section \<open>Filling and scrolling\<close>

text \<open>Filling by whole lines, \<open>memset\<close> once for each line.\<close>

primrec fill_lines :: "(u32 \<Rightarrow> mem \<Rightarrow> mem) \<Rightarrow> u32 \<Rightarrow> nat \<Rightarrow> u32 \<Rightarrow> mem \<Rightarrow> mem" where
  "fill_lines f pitch 0 p m = m"
| "fill_lines f pitch (Suc n) p m = fill_lines f pitch n (p + pitch) (f p m)"

definition fbuf_fill_stub :: "mset_funs \<Rightarrow> fbuf \<Rightarrow> u32 \<Rightarrow> u32 \<Rightarrow> u32 \<Rightarrow> u32 \<Rightarrow> mem \<Rightarrow> mem" where
  "fbuf_fill_stub mset fb ptr y_start lines color m =
     (if lines = 0 then m
      else
        let bpp = fbuf_bytes_per_pixel (fb_type fb); color = fbuf_process_color (fb_type fb) color
        in if bpp = 3 then
             fbuf_putpixel_stub mset fb ptr 0 y_start (fb_width fb * lines) (fbuf_process_color (fb_type fb) color) bpp m
           else
             let p = ptr + y_start * fb_pitch fb; pitch = fb_pitch fb
             in if pitch mod bpp = 0 then
                  (if bpp = 2 then fst mset m p (ucast color) (pitch * lines div 2)
                   else if bpp = 4 then snd mset m p color (pitch * lines div 4) else m)
                else
                  fill_lines (\<lambda>p m. if bpp = 2 then fst mset m p (ucast color) (pitch div 2)
                                    else if bpp = 4 then snd mset m p color (pitch div 4) else m)
                    pitch (unat lines) p m)"

definition fbuf_fill :: "mset_funs \<Rightarrow> fbuf option \<Rightarrow> u32 \<Rightarrow> mem \<Rightarrow> mem" where
  "fbuf_fill mset impl color m =
     (case impl of
        None \<Rightarrow> m
      | Some fb \<Rightarrow>
          let m = (if fb_backbuffer fb \<noteq> 0 then fbuf_fill_stub mset fb (fb_backbuffer fb) 0 (fb_height fb) color m else m)
          in if fb_dbuf_direct_write fb \<or> fb_backbuffer fb = 0
             then fbuf_fill_stub mset fb (fb_framebuffer fb) 0 (fb_height fb) color m else m)"

text \<open>The source of a scroll is the back buffer, also when there is none and its address is 0.\<close>

definition fbuf_scroll_up_stub :: "mset_funs \<Rightarrow> fbuf \<Rightarrow> u32 \<Rightarrow> u32 \<Rightarrow> u32 \<Rightarrow> u32 \<Rightarrow> mem \<Rightarrow> mem" where
  "fbuf_scroll_up_stub mset fb dst src lines color m =
     fbuf_fill_stub mset fb dst (fb_height fb - lines) lines color
       (memmove m dst (src + lines * fb_pitch fb) ((fb_height fb - lines) * fb_pitch fb))"

definition fbuf_scroll_up :: "mset_funs \<Rightarrow> fbuf option \<Rightarrow> u32 \<Rightarrow> u32 \<Rightarrow> mem \<Rightarrow> fbuf option \<times> mem" where
  "fbuf_scroll_up mset impl lines color m =
     (case impl of
        None \<Rightarrow> (impl, m)
      | Some fb \<Rightarrow>
          if lines = 0 then (impl, m)
          else
            let lines = (if fb_height fb < lines then fb_height fb else lines); back = fb_backbuffer fb
            in case fb_scroll_up fb of
                 Some scroll \<Rightarrow>
                   (impl, fbuf_fill_stub mset fb (if back \<noteq> 0 then back else fb_framebuffer fb) (fb_height fb - lines) lines color
                      (scroll lines m))
               | None \<Rightarrow>
                   let m = (if fb_dbuf_direct_write fb \<or> back = 0
                            then fbuf_scroll_up_stub mset fb (fb_framebuffer fb) back lines color m else m)
                   in if back \<noteq> 0 then (Some (fb\<lparr>fb_flip_all := True\<rparr>), fbuf_scroll_up_stub mset fb back back lines color m)
                      else (impl, m))"

definition fbuf_scroll_down_stub :: "mset_funs \<Rightarrow> fbuf \<Rightarrow> u32 \<Rightarrow> u32 \<Rightarrow> u32 \<Rightarrow> u32 \<Rightarrow> mem \<Rightarrow> mem" where
  "fbuf_scroll_down_stub mset fb dst src lines color m =
     fbuf_fill_stub mset fb dst 0 lines color
       (memmove m (dst + lines * fb_pitch fb) src ((fb_height fb - lines) * fb_pitch fb))"

definition fbuf_scroll_down :: "mset_funs \<Rightarrow> fbuf option \<Rightarrow> u32 \<Rightarrow> u32 \<Rightarrow> mem \<Rightarrow> fbuf option \<times> mem" where
  "fbuf_scroll_down mset impl lines color m =
     (case impl of
        None \<Rightarrow> (impl, m)
      | Some fb \<Rightarrow>
          if lines = 0 then (impl, m)
          else
            let lines = (if fb_height fb < lines then fb_height fb else lines); back = fb_backbuffer fb
            in case fb_scroll_down fb of
                 Some scroll \<Rightarrow>
                   (impl, fbuf_fill_stub mset fb (if back \<noteq> 0 then back else fb_framebuffer fb) 0 lines color (scroll lines m))
               | None \<Rightarrow>
                   let m = (if fb_dbuf_direct_write fb \<or> back = 0
                            then fbuf_scroll_down_stub mset fb (fb_framebuffer fb) back lines color m else m)
                   in if back \<noteq> 0 then (Some (fb\<lparr>fb_flip_all := True\<rparr>), fbuf_scroll_down_stub mset fb back back lines color m)
                      else (impl, m))"

section \<open>Committing\<close>

text \<open>
  The loops over the pages of the back buffer, with interrupts masked. \<open>kassert\<close> on a page that is not mapped stops the
  kernel, a page size of 0 makes the loop stay: both are \<open>None\<close>.
\<close>

partial_function (option) flip_all_loop :: "u32 \<Rightarrow> u32 \<Rightarrow> u32 \<Rightarrow> vm \<Rightarrow> vm option" where
  "flip_all_loop sz off back vm =
     (if off < sz then
        case vmm_get_pgsz (vmm_kernel vm) back (vmm_set_dirty (vmm_kernel vm) back False vm) of (pg, vm) \<Rightarrow>
          (case pg of
             None \<Rightarrow> None
           | Some i \<Rightarrow> flip_all_loop sz (off + vmm_pgsz i) (back + vmm_pgsz i) vm)
      else Some vm)"

partial_function (option) flip_dirty_loop :: "u32 \<Rightarrow> u32 \<Rightarrow> u32 \<Rightarrow> u32 \<Rightarrow> u32 \<Rightarrow> mem \<Rightarrow> vm \<Rightarrow> (mem \<times> vm) option" where
  "flip_dirty_loop front sz off back pgsz m vm =
     (if off < sz then
        case vmm_get_dirty (vmm_kernel vm) back vm of (dirty, vm) \<Rightarrow>
          if dirty then
            case vmm_get_pgsz (vmm_kernel vm) back (vmm_set_dirty (vmm_kernel vm) back False vm) of (pg, vm') \<Rightarrow>
              (case pg of
                 None \<Rightarrow> None
               | Some i \<Rightarrow> flip_dirty_loop front sz (off + vmm_pgsz i) (back + vmm_pgsz i) (vmm_pgsz i)
                   (memcpy m (front + off) back (if sz - off < pgsz then sz - off else pgsz)) vm')
          else flip_dirty_loop front sz (off + pgsz) (back + pgsz) pgsz m vm
      else Some (m, vm))"

record fbs =
  fs_impl :: "fbuf option"
  fs_mem :: mem
  fs_vm :: vm
  fs_tick :: u32

definition fbuf_commit :: "fbs \<Rightarrow> fbs option" where
  "fbuf_commit st =
     do { fb \<leftarrow> fs_impl st;
          if fb_dbuf_direct_write fb \<or> fb_backbuffer fb = 0 then Some st
          else
            do { let sz = fb_pitch fb * fb_height fb;
                 (fb, m, vm) \<leftarrow>
                   (case fb_flip fb of
                      Some flip \<Rightarrow> Some (fb, flip (fs_mem st), fs_vm st)
                    | None \<Rightarrow>
                        if fb_flip_all fb then
                          map_option (\<lambda>vm. (fb\<lparr>fb_flip_all := False\<rparr>, memcpy (fs_mem st) (fb_framebuffer fb) (fb_backbuffer fb) sz, vm))
                            (flip_all_loop sz 0 (fb_backbuffer fb) (fs_vm st))
                        else
                          map_option (\<lambda>(m, vm). (fb, m, vm))
                            (flip_dirty_loop (fb_framebuffer fb) sz 0 (fb_backbuffer fb) 0 (fs_mem st) (fs_vm st)));
                 Some (st\<lparr>fs_impl := Some (fb\<lparr>fb_tick_flip := fs_tick st\<rparr>), fs_mem := m, fs_vm := vm\<rparr>) } }"

section \<open>Text\<close>

record fbuf_font =
  fo_width :: u32
  fo_height :: u32
  fo_draw :: "(fbuf option \<Rightarrow> u32 \<Rightarrow> u32 \<Rightarrow> u8 \<Rightarrow> u32 \<Rightarrow> u32 \<Rightarrow> bool \<Rightarrow> mem \<Rightarrow> mem) option"

text \<open>
  \<open>font8x16_draw\<close>: row by row, the high bit of the row is the leftmost of 8 pixels. \<open>bitmap\<close> is the
  table of the file.
\<close>

primrec font_cols :: "mset_funs \<Rightarrow> fbuf option \<Rightarrow> u32 \<Rightarrow> u32 \<Rightarrow> u32 \<Rightarrow> u32 \<Rightarrow> bool \<Rightarrow> nat \<Rightarrow> u32 \<Rightarrow> u8 \<Rightarrow> mem \<Rightarrow> mem" where
  "font_cols mset impl x y fg bg transparent 0 col rbm m = m"
| "font_cols mset impl x y fg bg transparent (Suc n) col rbm m =
     font_cols mset impl x y fg bg transparent n (col + 1) (push_bit 1 rbm)
       (if rbm AND 0x80 \<noteq> 0 then fbuf_putpixel mset impl (x + col) y 1 fg m
        else if \<not> transparent then fbuf_putpixel mset impl (x + col) y 1 bg m
        else m)"

definition font8x16_draw ::
  "mset_funs \<Rightarrow> u8 list list \<Rightarrow> fbuf option \<Rightarrow> u32 \<Rightarrow> u32 \<Rightarrow> u8 \<Rightarrow> u32 \<Rightarrow> u32 \<Rightarrow> bool \<Rightarrow> mem \<Rightarrow> mem" where
  "font8x16_draw mset bitmap impl x y c fg bg transparent m =
     fold (\<lambda>row. font_cols mset impl x (y + of_nat row) fg bg transparent 8 0 (bitmap ! unat c ! row)) [0..<16] m"

definition font8x16 :: "mset_funs \<Rightarrow> u8 list list \<Rightarrow> fbuf_font" where
  "font8x16 mset bitmap = \<lparr>fo_width = 8, fo_height = 16, fo_draw = Some (font8x16_draw mset bitmap)\<rparr>"

text \<open>
  The checks of the text functions: \<open>None\<close> is the early return. (The source reads the size of the frame
  buffer without a test that there is one; a caller without a frame buffer is outside of the model.)
\<close>

definition text_draw :: "fbuf_font option \<Rightarrow> fbs \<Rightarrow> u32 \<Rightarrow> u32 \<Rightarrow>
    (fbuf_font \<times> fbuf \<times> (fbuf option \<Rightarrow> u32 \<Rightarrow> u32 \<Rightarrow> u8 \<Rightarrow> u32 \<Rightarrow> u32 \<Rightarrow> bool \<Rightarrow> mem \<Rightarrow> mem)) option" where
  "text_draw font st x y =
     do { fo \<leftarrow> font; draw \<leftarrow> fo_draw fo; fb \<leftarrow> fs_impl st;
          if fb_width fb \<le> x \<or> fb_height fb \<le> y then None else Some (fo, fb, draw) }"

definition fbuf_putc_stub :: "fbuf_font option \<Rightarrow> u32 \<Rightarrow> u32 \<Rightarrow> u8 \<Rightarrow> u32 \<Rightarrow> u32 \<Rightarrow> bool \<Rightarrow> fbs \<Rightarrow> fbs" where
  "fbuf_putc_stub font x y c fg bg transparent st =
     (case text_draw font st x y of
        None \<Rightarrow> st
      | Some (fo, fb, draw) \<Rightarrow> st\<lparr>fs_mem := draw (Some fb) x y c fg bg transparent (fs_mem st)\<rparr>)"

definition fbuf_putc :: "fbuf_font option \<Rightarrow> u32 \<Rightarrow> u32 \<Rightarrow> u8 \<Rightarrow> u32 \<Rightarrow> u32 \<Rightarrow> bool \<Rightarrow> fbs \<Rightarrow> fbs option" where
  "fbuf_putc font x y c fg bg transparent st =
     (case text_draw font st x y of
        None \<Rightarrow> Some st
      | Some (fo, fb, draw) \<Rightarrow> fbuf_commit (st\<lparr>fs_mem := draw (Some fb) x y c fg bg transparent (fs_mem st)\<rparr>))"

fun puts_loop :: "fbuf \<Rightarrow> fbuf_font \<Rightarrow> (u32 \<Rightarrow> u32 \<Rightarrow> u8 \<Rightarrow> mem \<Rightarrow> mem) \<Rightarrow> u32 \<Rightarrow> u32 \<Rightarrow> u8 list \<Rightarrow> mem \<Rightarrow> mem" where
  "puts_loop fb fo draw x y [] m = m"
| "puts_loop fb fo draw x y (c # s) m =
     (let m = draw x y c m; x = x + fo_width fo
      in if fb_width fb \<le> x then
           let y = y + fo_height fo
           in if fb_height fb \<le> y then m else puts_loop fb fo draw 0 y s m
         else puts_loop fb fo draw x y s m)"

definition fbuf_puts_stub :: "fbuf_font option \<Rightarrow> u32 \<Rightarrow> u32 \<Rightarrow> u8 list \<Rightarrow> u32 \<Rightarrow> u32 \<Rightarrow> bool \<Rightarrow> fbs \<Rightarrow> fbs" where
  "fbuf_puts_stub font x y s fg bg transparent st =
     (case text_draw font st x y of
        None \<Rightarrow> st
      | Some (fo, fb, draw) \<Rightarrow>
          st\<lparr>fs_mem := puts_loop fb fo (\<lambda>x y c. draw (Some fb) x y c fg bg transparent) x y s (fs_mem st)\<rparr>)"

definition fbuf_puts :: "fbuf_font option \<Rightarrow> u32 \<Rightarrow> u32 \<Rightarrow> u8 list \<Rightarrow> u32 \<Rightarrow> u32 \<Rightarrow> bool \<Rightarrow> fbs \<Rightarrow> fbs option" where
  "fbuf_puts font x y s fg bg transparent st =
     (case text_draw font st x y of
        None \<Rightarrow> Some st
      | Some _ \<Rightarrow> fbuf_commit (fbuf_puts_stub font x y s fg bg transparent st))"

definition fbuf_unload :: "fbs \<Rightarrow> fbs option" where
  "fbuf_unload st =
     (case fs_impl st of
        None \<Rightarrow> Some st
      | Some fb \<Rightarrow>
          let st = st\<lparr>fs_impl := None\<rparr>;
              (unload_seg, m) = (case fb_unload fb of None \<Rightarrow> (True, fs_mem st) | Some unload \<Rightarrow> unload (fs_mem st));
              st = st\<lparr>fs_mem := m\<rparr>
          in if unload_seg
             then map_option (\<lambda>vm. st\<lparr>fs_vm := vm\<rparr>) (elf_unload_prg (vmm_kernel (fs_vm st)) (fb_elf_segments fb) (fs_vm st))
             else Some st)"

section \<open>The interface of a drawing surface\<close>

text \<open>
  A surface of pixels: a pixel that is drawn is read back as it is seen, all others stay. \<open>inside\<close> are
  the coordinates of the surface.
\<close>

locale surface =
  fixes put :: "'c \<Rightarrow> 'v \<Rightarrow> 's \<Rightarrow> 's"
    and get :: "'c \<Rightarrow> 's \<Rightarrow> 'v"
    and see :: "'s \<Rightarrow> 'v \<Rightarrow> 'v"
    and inside :: "'s \<Rightarrow> 'c \<Rightarrow> bool"
  assumes put_inside: "inside s c \<Longrightarrow> inside (put c v s) d = inside s d"
    and put_see: "see (put c v s) = see s"
    and get_put: "inside s c \<Longrightarrow> inside s d \<Longrightarrow> get d (put c v s) = (if d = c then see s v else get d s)"
begin

text \<open>After many pixels with consistent colours, those that were drawn show their colour.\<close>

lemma get_fold_put:
  assumes "\<forall>(c, w)\<in>set ps. inside s c \<and> (c = d \<longrightarrow> w = v)" and "inside s d"
  shows "get d (fold (\<lambda>(c, w). put c w) ps s) = (if d \<in> fst ` set ps then see s v else get d s)"
  using assms
proof (induction ps arbitrary: s)
  case Nil
  then show ?case by simp
next
  case (Cons p ps)
  obtain c w where p: "p = (c, w)" by (cases p)
  have c: "inside s c" and w: "c = d \<longrightarrow> w = v" using Cons.prems(1) p by auto
  have "\<forall>(c', w')\<in>set ps. inside (put c w s) c' \<and> (c' = d \<longrightarrow> w' = v)"
    using Cons.prems(1) put_inside [OF c] by auto
  moreover have "inside (put c w s) d" using put_inside [OF c] Cons.prems(2) by simp
  ultimately have "get d (fold (\<lambda>(c, w). put c w) ps (put c w s)) = (if d \<in> fst ` set ps then see s v else get d (put c w s))"
    using Cons.IH [of "put c w s"] put_see by simp
  then show ?case using get_put [OF c Cons.prems(2), of w] w p by auto
qed

end

text \<open>
  The frame buffer as a surface: the pixels are inside of the buffer, which does not wrap around, and
  drawing writes one buffer only, the one that is read.
\<close>

definition fb_active :: "fbuf \<Rightarrow> u32" where
  "fb_active fb = (if fb_backbuffer fb \<noteq> 0 then fb_backbuffer fb else fb_framebuffer fb)"

definition fb_ok :: "fbuf \<Rightarrow> bool" where
  "fb_ok fb \<longleftrightarrow> unat (fb_width fb) * unat (fbuf_bytes_per_pixel (fb_type fb)) \<le> unat (fb_pitch fb) \<and>
     unat (fb_active fb) + unat (fb_pitch fb) * unat (fb_height fb) \<le> 2 ^ 32 \<and>
     (fb_backbuffer fb = 0 \<or> \<not> fb_dbuf_direct_write fb)"

text \<open>A fill of one unit is one store, for both versions of the fills.\<close>

definition mset_unit :: "mset_funs \<Rightarrow> bool" where
  "mset_unit mset \<longleftrightarrow> (\<forall>m p c. fst mset m p c 1 = store16 m p c) \<and> (\<forall>m p c. snd mset m p c 1 = store32 m p c)"

lemma mset_unit_versions: "mset_unit (memset16, memset32)" "mset_unit (asm_memset16, asm_memset32)"
  by (simp_all add: mset_unit_def memset16_def memset32_def asm_memset16_def asm_memset32_def)

definition fb_addr :: "fbuf \<Rightarrow> u32 \<times> u32 \<Rightarrow> u32" where
  "fb_addr fb = (\<lambda>(x, y). fb_active fb + (y * fb_pitch fb + x * fbuf_bytes_per_pixel (fb_type fb)))"

definition fb_inside :: "fbuf \<Rightarrow> u32 \<times> u32 \<Rightarrow> bool" where
  "fb_inside fb = (\<lambda>(x, y). x < fb_width fb \<and> y < fb_height fb)"

definition fb_offset :: "fbuf \<Rightarrow> u32 \<times> u32 \<Rightarrow> nat" where
  "fb_offset fb = (\<lambda>(x, y). unat y * unat (fb_pitch fb) + unat x * unat (fbuf_bytes_per_pixel (fb_type fb)))"

lemma fb_offset_bound:
  assumes "fb_ok fb" and "fb_inside fb (x, y)"
  shows "fb_offset fb (x, y) + unat (fbuf_bytes_per_pixel (fb_type fb)) \<le> Suc (unat y) * unat (fb_pitch fb)"
    and "unat (fb_active fb) + Suc (unat y) * unat (fb_pitch fb) \<le> 2 ^ 32"
proof -
  let ?b = "unat (fbuf_bytes_per_pixel (fb_type fb))"
  have "Suc (unat x) * ?b \<le> unat (fb_width fb) * ?b"
    using assms(2) by (intro mult_le_mono1) (simp add: fb_inside_def word_less_nat_alt)
  then show "fb_offset fb (x, y) + ?b \<le> Suc (unat y) * unat (fb_pitch fb)"
    using assms(1) by (simp add: fb_ok_def fb_offset_def)
  have "Suc (unat y) * unat (fb_pitch fb) \<le> unat (fb_height fb) * unat (fb_pitch fb)"
    using assms(2) by (intro mult_le_mono1) (simp add: fb_inside_def word_less_nat_alt)
  then show "unat (fb_active fb) + Suc (unat y) * unat (fb_pitch fb) \<le> 2 ^ 32"
    using assms(1) by (simp add: fb_ok_def mult.commute)
qed

lemma fbuf_bytes_pos [simp]: "0 < unat (fbuf_bytes_per_pixel t)"
  by (cases t) (simp_all add: fbuf_bytes_per_pixel_def)

lemma fb_addr_offset:
  assumes "fb_ok fb" and "fb_inside fb c"
  shows "unat (fb_addr fb c) = unat (fb_active fb) + fb_offset fb c"
    and "unat (fb_addr fb c) + unat (fbuf_bytes_per_pixel (fb_type fb)) \<le> 2 ^ 32"
proof -
  obtain x y where c: "c = (x, y)" by (cases c)
  have bound: "unat (fb_active fb) + fb_offset fb c + unat (fbuf_bytes_per_pixel (fb_type fb)) \<le> 2 ^ 32"
    using fb_offset_bound [of fb x y] assms c by simp
  have less: "unat (fb_active fb) + fb_offset fb c < 2 ^ 32"
    using bound fbuf_bytes_pos [of "fb_type fb"] by linarith
  have "fb_addr fb c = fb_active fb + of_nat (fb_offset fb c)"
    by (simp add: fb_addr_def fb_offset_def c)
  then show "unat (fb_addr fb c) = unat (fb_active fb) + fb_offset fb c"
    using unat_add_no_wrap [of "fb_active fb" "fb_offset fb c"] less by simp
  then show "unat (fb_addr fb c) + unat (fbuf_bytes_per_pixel (fb_type fb)) \<le> 2 ^ 32" using bound by simp
qed

lemma fb_offset_apart:
  assumes "fb_ok fb" and "fb_inside fb c" and "fb_inside fb d" and "c \<noteq> d"
  defines "b \<equiv> unat (fbuf_bytes_per_pixel (fb_type fb))"
  shows "fb_offset fb c + b \<le> fb_offset fb d \<or> fb_offset fb d + b \<le> fb_offset fb c"
proof -
  have row: "fb_offset fb (x, y) + b \<le> fb_offset fb (x', y')"
    if "fb_inside fb (x, y)" "unat y < unat y'" for x y x' y'
  proof -
    have "Suc (unat y) * unat (fb_pitch fb) \<le> unat y' * unat (fb_pitch fb)" using that(2) by (intro mult_le_mono1) simp
    then show ?thesis
      using fb_offset_bound(1) [OF assms(1) that(1)] by (simp add: fb_offset_def b_def)
  qed
  have col: "fb_offset fb (x, y) + b \<le> fb_offset fb (x', y)" if "unat x < unat x'" for x x' y
  proof -
    have "Suc (unat x) * b \<le> unat x' * b" using that by (intro mult_le_mono1) simp
    then show ?thesis by (simp add: fb_offset_def b_def)
  qed
  obtain x y x' y' where cd: "c = (x, y)" "d = (x', y')" by (cases c, cases d)
  then have "x \<noteq> x' \<or> y \<noteq> y'" using assms(4) by simp
  then have "unat y < unat y' \<or> unat y' < unat y \<or> (y = y' \<and> (unat x < unat x' \<or> unat x' < unat x))"
    by (auto simp: word_unat_eq_iff)
  then show ?thesis using row [of x y y' x'] row [of x' y' y x] col assms(2,3) cd by blast
qed

text \<open>Drawing and reading one pixel.\<close>

lemma fbuf_putpixel_stub_one:
  assumes "mset_unit mset"
  shows "fbuf_putpixel_stub mset fb ptr x y 1 color (fbuf_bytes_per_pixel (fb_type fb)) m =
    fbuf_store (fb_type fb) (fbuf_bytes_per_pixel (fb_type fb)) (ptr + (y * fb_pitch fb + x * fbuf_bytes_per_pixel (fb_type fb))) color m"
  using assms
  by (cases "fb_type fb") (simp_all add: fbuf_putpixel_stub_def mset_unit_def fbuf_store_def fbuf_bytes_per_pixel_def Let_def)

lemma fbuf_putpixel_one:
  assumes "mset_unit mset" and "fb_ok fb"
  shows "fbuf_putpixel mset (Some fb) x y 1 c m =
    (if fb_inside fb (x, y)
     then fbuf_store (fb_type fb) (fbuf_bytes_per_pixel (fb_type fb)) (fb_addr fb (x, y)) (fbuf_process_color (fb_type fb) c) m
     else m)"
  using assms(2)
  by (auto simp: fbuf_putpixel_def fb_inside_def fbuf_putpixel_stub_one [OF assms(1)] fb_addr_def fb_active_def fb_ok_def Let_def not_le)

lemma fbuf_getpixel_one:
  "fb_inside fb (x, y) \<Longrightarrow> fbuf_getpixel_stub (Some fb) x y 1 m = [fbuf_load (fb_type fb) m (fb_addr fb (x, y))]"
  by (simp add: fbuf_getpixel_stub_def fb_inside_def fb_addr_def fb_active_def Let_def not_le [symmetric])

text \<open>The surface of a frame buffer, with the fills that are used and the memory.\<close>

type_synonym fb_surface = "mset_funs \<times> fbuf \<times> mem"

definition surf_put :: "u32 \<times> u32 \<Rightarrow> u32 \<Rightarrow> fb_surface \<Rightarrow> fb_surface" where
  "surf_put = (\<lambda>(x, y) c (mset, fb, m). (mset, fb, fbuf_putpixel mset (Some fb) x y 1 c m))"

definition surf_get :: "u32 \<times> u32 \<Rightarrow> fb_surface \<Rightarrow> u32" where
  "surf_get = (\<lambda>(x, y) (mset, fb, m). hd (fbuf_getpixel_stub (Some fb) x y 1 m))"

definition surf_see :: "fb_surface \<Rightarrow> u32 \<Rightarrow> u32" where
  "surf_see = (\<lambda>(mset, fb, m). fbuf_visible (fb_type fb))"

definition surf_inside :: "fb_surface \<Rightarrow> u32 \<times> u32 \<Rightarrow> bool" where
  "surf_inside = (\<lambda>(mset, fb, m) c. mset_unit mset \<and> fb_ok fb \<and> fb_inside fb c)"

interpretation fb: surface surf_put surf_get surf_see surf_inside
proof unfold_locales
  fix s :: fb_surface and c d :: "u32 \<times> u32" and v :: u32
  obtain mset fb m where s: "s = (mset, fb, m)" by (cases s)
  obtain x y where c: "c = (x, y)" by (cases c)
  show "surf_inside (surf_put c v s) d = surf_inside s d" by (simp add: surf_inside_def surf_put_def s c)
  show "surf_see (surf_put c v s) = surf_see s" by (simp add: surf_see_def surf_put_def s c)
  assume in_c: "surf_inside s c" and in_d: "surf_inside s d"
  obtain x' y' where d: "d = (x', y')" by (cases d)
  have ok: "mset_unit mset" "fb_ok fb" "fb_inside fb c" "fb_inside fb d" using in_c in_d by (simp_all add: surf_inside_def s)
  let ?t = "fb_type fb" and ?v = "fbuf_process_color (fb_type fb) v"
  have "surf_get d (surf_put c v s) = fbuf_load ?t (fbuf_store ?t (fbuf_bytes_per_pixel ?t) (fb_addr fb c) ?v m) (fb_addr fb d)"
    using ok by (simp add: surf_get_def surf_put_def s c d fbuf_putpixel_one fbuf_getpixel_one)
  moreover have "surf_get d s = fbuf_load ?t m (fb_addr fb d)"
    using ok by (simp add: surf_get_def s d fbuf_getpixel_one)
  moreover have "fbuf_load ?t (fbuf_store ?t (fbuf_bytes_per_pixel ?t) (fb_addr fb c) ?v m) (fb_addr fb d) = fbuf_load ?t m (fb_addr fb d)"
    if "c \<noteq> d"
    by (rule fbuf_load_other)
      (use fb_offset_apart [OF ok(2,3,4) that] fb_addr_offset [OF ok(2,3)] fb_addr_offset [OF ok(2,4)] in auto)
  ultimately show "surf_get d (surf_put c v s) = (if d = c then surf_see s v else surf_get d s)"
    by (auto simp: fbuf_load_store surf_see_def s)
qed

section \<open>Glyphs\<close>

text \<open>The pixels of a character, as the loops of \<open>font8x16_draw\<close> visit them.\<close>

definition glyph_row :: "u8 \<Rightarrow> u32 \<Rightarrow> u32 \<Rightarrow> u32 \<Rightarrow> u32 \<Rightarrow> bool \<Rightarrow> ((u32 \<times> u32) \<times> u32) list" where
  "glyph_row rbm x y fg bg transparent =
     concat (map (\<lambda>col. if bit rbm (7 - col) then [((x + of_nat col, y), fg)]
                        else if \<not> transparent then [((x + of_nat col, y), bg)] else []) [0..<8])"

definition glyph :: "u8 list list \<Rightarrow> u32 \<Rightarrow> u32 \<Rightarrow> u8 \<Rightarrow> u32 \<Rightarrow> u32 \<Rightarrow> bool \<Rightarrow> ((u32 \<times> u32) \<times> u32) list" where
  "glyph bitmap x y c fg bg transparent =
     concat (map (\<lambda>row. glyph_row (bitmap ! unat c ! row) x (y + of_nat row) fg bg transparent) [0..<16])"

lemma fold_surf_put:
  "fold (\<lambda>(c, w). surf_put c w) ps (mset, fb, m) = (mset, fb, fold (\<lambda>((x, y), w). fbuf_putpixel mset (Some fb) x y 1 w) ps m)"
  by (induction ps arbitrary: m) (auto simp: surf_put_def)

text \<open>The loop with the shifted row is the list over the bits of the row.\<close>

lemma high_bit: "(w AND 0x80 \<noteq> 0) = bit w 7" for w :: u8
proof -
  have "(0x80 :: u8) = push_bit 7 1" by simp
  then show ?thesis using and_exp_eq_0_iff_not_bit [of w 7] by simp
qed

lemma font_cols_shifted:
  "k + n = 8 \<Longrightarrow> font_cols mset impl x y fg bg transparent n (of_nat k) (push_bit k rbm) m =
     fold (\<lambda>((x, y), w). fbuf_putpixel mset impl x y 1 w)
       (concat (map (\<lambda>col. if bit rbm (7 - col) then [((x + of_nat col, y), fg)]
                        else if \<not> transparent then [((x + of_nat col, y), bg)] else []) [k..<8])) m"
proof (induction n arbitrary: k m)
  case 0
  then show ?case by simp
next
  case (Suc n)
  then have k: "k < 8" by simp
  have bit: "bit (push_bit k rbm) 7 = bit rbm (7 - k)" using k by (simp add: bit_simps)
  have upt: "[k..<8] = k # [Suc k..<8]" using k by (simp add: upt_conv_Cons)
  have IH: "font_cols mset impl x y fg bg transparent n (of_nat k + 1) (push_bit 1 (push_bit k rbm)) m' =
     fold (\<lambda>((x, y), w). fbuf_putpixel mset impl x y 1 w)
       (concat (map (\<lambda>col. if bit rbm (7 - col) then [((x + of_nat col, y), fg)]
                        else if \<not> transparent then [((x + of_nat col, y), bg)] else []) [Suc k..<8])) m'" for m'
    using Suc.IH [of "Suc k" m'] Suc.prems by (simp add: add.commute)
  show ?case
    unfolding font_cols.simps high_bit bit IH upt by simp
qed

lemma font8x16_draw_glyph:
  "font8x16_draw mset bitmap impl x y c fg bg transparent m =
     fold (\<lambda>((x, y), w). fbuf_putpixel mset impl x y 1 w) (glyph bitmap x y c fg bg transparent) m"
proof -
  have row: "font_cols mset impl x y fg bg transparent 8 0 rbm = fold (\<lambda>((x, y), w). fbuf_putpixel mset impl x y 1 w) (glyph_row rbm x y fg bg transparent)" for rbm y
    using font_cols_shifted [where k = 0 and n = 8 and rbm = rbm] by (simp add: glyph_row_def fun_eq_iff)
  have "fold (\<lambda>row. fold f (g row)) rs m = fold f (concat (map g rs)) m" for f :: "(u32 \<times> u32) \<times> u32 \<Rightarrow> mem \<Rightarrow> mem" and g and rs :: "nat list"
    by (induction rs arbitrary: m) simp_all
  then show ?thesis by (simp add: font8x16_draw_def glyph_def row)
qed

lemma glyph_pixel:
  "((p, q), w) \<in> set (if b then [((u, v), fg)] else if t then [((u, v), bg)] else []) \<longleftrightarrow>
     p = u \<and> q = v \<and> (if b then w = fg else t \<and> w = bg)"
  by auto

lemma glyph_mem:
  "((p, q), w) \<in> set (glyph bitmap x y c fg bg transparent) \<longleftrightarrow>
     (\<exists>row<16. \<exists>col<8. p = x + of_nat col \<and> q = y + of_nat row \<and>
        (if bit (bitmap ! unat c ! row) (7 - col) then w = fg else \<not> transparent \<and> w = bg))"
  by (simp only: glyph_def glyph_row_def set_concat set_map set_upt image_image UN_iff glyph_pixel) (simp add: Bex_def)

text \<open>
  drawing a character in the 8 by 16 font on a frame buffer that has room for it shows its bitmap:
  afterwards, pixel \<open>(col, row)\<close> of the character reads as the foreground colour where the bit
  \<open>7 - col\<close> of the row is set, and as the background colour, or unchanged when drawn transparently,
  where it is not; every other pixel of the frame buffer reads as before. Colours are seen in the
  precision of the pixel format. This holds for the portable and the assembler fills.
\<close>

lemma font8x16_draw_shows:
  assumes "mset_unit mset" and "fb_ok fb" and "unat x + 8 \<le> unat (fb_width fb)" and "unat y + 16 \<le> unat (fb_height fb)"
    and "p < fb_width fb" and "q < fb_height fb"
  shows "fbuf_getpixel_stub (Some fb) p q 1 (font8x16_draw mset bitmap (Some fb) x y c fg bg transparent m) =
    (if unat (p - x) < 8 \<and> unat (q - y) < 16 then
       if bit (bitmap ! unat c ! unat (q - y)) (7 - unat (p - x)) then [fbuf_visible (fb_type fb) fg]
       else if transparent then fbuf_getpixel_stub (Some fb) p q 1 m else [fbuf_visible (fb_type fb) bg]
     else fbuf_getpixel_stub (Some fb) p q 1 m)"
proof -
  let ?ps = "glyph bitmap x y c fg bg transparent" and ?s = "(mset, fb, m)"
  let ?b = "bit (bitmap ! unat c ! unat (q - y)) (7 - unat (p - x))"
  have inside: "surf_inside ?s (p, q)" using assms by (simp add: surf_inside_def fb_inside_def)
  have glyph: "surf_inside ?s (a, b) \<and> ((a, b) = (p, q) \<longrightarrow> w = (if ?b then fg else bg))"
    if "((a, b), w) \<in> set ?ps" for a b w
  proof -
    from that obtain row col where rc: "row < 16" "col < 8" "a = x + of_nat col" "b = y + of_nat row"
      "if bit (bitmap ! unat c ! row) (7 - col) then w = fg else w = bg"
      unfolding glyph_mem by (auto split: if_splits)
    have "unat x + col < 4294967296" "unat y + row < 4294967296"
      using rc(1,2) assms(3,4) unat_u32_less [of "fb_width fb"] unat_u32_less [of "fb_height fb"] by linarith+
    then have "unat a = unat x + col" "unat b = unat y + row"
      unfolding rc(3,4) by (simp_all add: unat_add_no_wrap)
    moreover have "unat (a - x) = col" "unat (b - y) = row" using rc by (simp_all add: unat_of_nat_u32)
    ultimately show ?thesis
      using rc assms by (auto simp: surf_inside_def fb_inside_def word_less_nat_alt)
  qed
  have drawn: "(p, q) \<in> fst ` set ?ps \<longleftrightarrow> unat (p - x) < 8 \<and> unat (q - y) < 16 \<and> (?b \<or> \<not> transparent)"
  proof
    assume "(p, q) \<in> fst ` set ?ps"
    then obtain w where "((p, q), w) \<in> set ?ps" by auto
    then show "unat (p - x) < 8 \<and> unat (q - y) < 16 \<and> (?b \<or> \<not> transparent)"
      unfolding glyph_mem by (auto simp: unat_of_nat_u32 split: if_splits)
  next
    assume "unat (p - x) < 8 \<and> unat (q - y) < 16 \<and> (?b \<or> \<not> transparent)"
    then have "((p, q), if ?b then fg else bg) \<in> set ?ps"
      unfolding glyph_mem by (intro exI [of _ "unat (q - y)"] exI [of _ "unat (p - x)"] conjI) auto
    then show "(p, q) \<in> fst ` set ?ps" by (force simp: image_iff)
  qed
  have "surf_get (p, q) (fold (\<lambda>(c, w). surf_put c w) ?ps ?s) =
      (if (p, q) \<in> fst ` set ?ps then surf_see ?s (if ?b then fg else bg) else surf_get (p, q) ?s)"
    by (rule fb.get_fold_put [OF _ inside]) (use glyph in auto)
  then show ?thesis
    using assms(2,5,6) unfolding drawn fold_surf_put font8x16_draw_glyph [symmetric]
    by (auto simp: surf_get_def surf_see_def fbuf_getpixel_one fb_inside_def)
qed

text \<open>
  C22: drawing a pixel and reading a pixel: the pixel that was drawn has the colour in the precision of
  the format (and with the defects of \<open>fbuf_visible\<close>), every other pixel is unchanged. This holds for
  all 14 formats, with and without a back buffer, for the portable and the assembler fills.
\<close>

theorem fbuf_putpixel_getpixel:
  assumes "mset_unit mset" and "fb_ok fb" and "fb_inside fb (x, y)" and "fb_inside fb (p, q)"
  shows "fbuf_getpixel_stub (Some fb) p q 1 (fbuf_putpixel mset (Some fb) x y 1 c m) =
    (if (p, q) = (x, y) then [fbuf_visible (fb_type fb) c] else fbuf_getpixel_stub (Some fb) p q 1 m)"
  using fb.get_put [of "(mset, fb, m)" "(x, y)" "(p, q)" c] assms
  by (auto simp: surf_inside_def surf_get_def surf_put_def surf_see_def fbuf_getpixel_one)

section \<open>Scrolling\<close>

text \<open>The bytes of a stored pixel, and fills as stores of the same pixel.\<close>

definition pix_byte :: "u32 \<Rightarrow> u32 \<Rightarrow> nat \<Rightarrow> u8" where
  "pix_byte bpp color = (if bpp = 2 then byte16 (ucast color) else byte32 color)"

definition mset_asm :: mset_funs where
  "mset_asm = (asm_memset16, asm_memset32)"

lemma fbuf_store_unit:
  "bpp = fbuf_bytes_per_pixel t \<Longrightarrow> bpp \<noteq> 3 \<Longrightarrow> fbuf_store t bpp p color m = unit_fill (unat bpp) (pix_byte bpp color) 1 p m"
  by (cases t) (simp_all add: fbuf_store_def fbuf_bytes_per_pixel_def pix_byte_def store16_unit store32_unit)

lemma unat_mult_no_wrap: "unat a * unat b < 2 ^ 32 \<Longrightarrow> unat (a * b) = unat a * unat b" for a b :: u32
  by (simp add: unat_word_ariths)

lemma fbuf_fill_stub_asm:
  assumes "bpp = fbuf_bytes_per_pixel (fb_type fb)" and "bpp \<noteq> 3" and "lines \<noteq> 0" and "fb_pitch fb mod bpp = 0"
    and "unat (fb_pitch fb) * unat lines < 2 ^ 32"
  shows "fbuf_fill_stub mset_asm fb ptr y lines color m =
    unit_fill (unat bpp) (pix_byte bpp (fbuf_process_color (fb_type fb) color)) (unat (fb_pitch fb) * unat lines div unat bpp)
      (ptr + y * fb_pitch fb) m"
proof -
  have bpp: "bpp = 2 \<or> bpp = 4" using assms(1,2) by (cases "fb_type fb") (simp_all add: fbuf_bytes_per_pixel_def)
  note sz = unat_mult_no_wrap [OF assms(5)]
  have "2 * (unat (fb_pitch fb) * unat lines div 2) \<le> 2 ^ 32" "4 * (unat (fb_pitch fb) * unat lines div 4) \<le> 2 ^ 32"
    using assms(5) by simp_all
  then show ?thesis
    using bpp assms(1-4) sz
    by (auto simp: fbuf_fill_stub_def mset_asm_def pix_byte_def asm_memset16_def asm_memset32_def rep_stosw_fill rep_stosd_fill unat_div Let_def)
qed

text \<open>A pixel inside of a fill.\<close>

lemma fbuf_load_fill:
  assumes "bpp = fbuf_bytes_per_pixel t" and "bpp \<noteq> 3" and "unat (q - p) mod unat bpp = 0" and "unat (q - p) + unat bpp \<le> unat bpp * n"
    and "unat (q - p) + unat bpp \<le> 2 ^ 32"
  shows "fbuf_load t (unit_fill (unat bpp) (pix_byte bpp (fbuf_process_color t c)) n p m) q = fbuf_visible t c"
proof -
  have "fbuf_load t (unit_fill (unat bpp) (pix_byte bpp (fbuf_process_color t c)) n p m) q =
      fbuf_load t (fbuf_store t bpp q (fbuf_process_color t c) m) q"
  proof (rule fbuf_load_cong)
    fix k assume k: "k < unat (fbuf_bytes_per_pixel t)"
    have "unat (q - p + of_nat k) = unat (q - p) + k" using k assms(1,5) by (intro unat_add_no_wrap) simp
    then have "unat (q + of_nat k - p) = unat (q - p) + k" by (simp add: algebra_simps)
    moreover have "(unat (q - p) + k) mod unat bpp = k" using assms(1,3) k by (simp add: mod_add_eq [symmetric])
    moreover have "unat (q + of_nat k - q) = k" using k assms(1,5) by (simp add: unat_of_nat_u32)
    ultimately show "unit_fill (unat bpp) (pix_byte bpp (fbuf_process_color t c)) n p m (q + of_nat k) =
        fbuf_store t bpp q (fbuf_process_color t c) m (q + of_nat k)"
      using k assms(1,2,4) by (simp add: fbuf_store_unit unit_fill_def)
  qed
  then show ?thesis using assms(1) by (simp add: fbuf_load_store)
qed

text \<open>A pixel before a fill.\<close>

lemma fbuf_load_before:
  assumes "bpp = fbuf_bytes_per_pixel t" and "unat q + unat bpp \<le> unat p" and "unat p + w * n \<le> 2 ^ 32"
  shows "fbuf_load t (unit_fill w b n p m) q = fbuf_load t m q"
proof (rule fbuf_load_cong)
  fix k assume k: "k < unat (fbuf_bytes_per_pixel t)"
  have lt: "unat q + k < unat p" using k assms(2) unfolding assms(1) by linarith
  then have "unat q + k < 4294967296" using unat_u32_less [of p] by linarith
  then have q: "unat (q + of_nat k) = unat q + k" by (simp add: unat_add_no_wrap)
  then have "unat (q + of_nat k - p) = unat q + k + 2 ^ 32 - unat p" using lt by (simp add: unat_sub_if_size word_size word_le_nat_alt)
  then have "\<not> unat (q + of_nat k - p) < w * n" using assms(3) by simp
  then show "unit_fill w b n p m (q + of_nat k) = m (q + of_nat k)" by (simp add: unit_fill_def)
qed

lemma fbuf_load_copy:
  assumes "n = unat (fbuf_bytes_per_pixel t)" and "unat (q - d) + n \<le> len" and "unat (q - d) + n \<le> 2 ^ 32"
  shows "fbuf_load t (blk_copy d s len m) q = fbuf_load t m (s + (q - d))"
proof (rule fbuf_load_move)
  fix k assume k: "k < unat (fbuf_bytes_per_pixel t)"
  then have "unat (q - d + of_nat k) = unat (q - d) + k" using assms(1,3) by (intro unat_add_no_wrap) simp
  then have "unat (q + of_nat k - d) < len" using k assms(1,2) by (simp add: algebra_simps)
  then show "blk_copy d s len m (q + of_nat k) = m (s + (q - d) + of_nat k)"
    by (simp add: blk_copy_def algebra_simps)
qed

text \<open>
  The conditions of a scroll by whole pixels: a back buffer, a format of 2 or 4 bytes, lines that are whole
  pixels and a picture of at most \<open>2 ^ 31\<close> bytes.
\<close>

definition scroll_ok :: "fbuf \<Rightarrow> u32 \<Rightarrow> bool" where
  "scroll_ok fb lines \<longleftrightarrow> fb_ok fb \<and> fb_backbuffer fb \<noteq> 0 \<and> fb_scroll_up fb = None \<and>
     fbuf_bytes_per_pixel (fb_type fb) \<noteq> 3 \<and> fb_pitch fb mod fbuf_bytes_per_pixel (fb_type fb) = 0 \<and>
     unat (fb_pitch fb) * unat (fb_height fb) \<le> 2 ^ 31 \<and> 0 < lines \<and> lines \<le> fb_height fb"

text \<open>The sizes in bytes of the part that is kept and of the part that comes in.\<close>

definition kept_bytes :: "fbuf \<Rightarrow> u32 \<Rightarrow> nat" where
  "kept_bytes fb lines = unat (fb_pitch fb) * (unat (fb_height fb) - unat lines)"

definition new_bytes :: "fbuf \<Rightarrow> u32 \<Rightarrow> nat" where
  "new_bytes fb lines = unat (fb_pitch fb) * unat lines"

lemma scroll_active: "scroll_ok fb lines \<Longrightarrow> fb_active fb = fb_backbuffer fb"
  by (simp add: scroll_ok_def fb_active_def)

lemma scroll_sizes:
  assumes "scroll_ok fb lines"
  shows "kept_bytes fb lines + new_bytes fb lines = unat (fb_pitch fb) * unat (fb_height fb)"
    and "unat (fb_backbuffer fb) + kept_bytes fb lines + new_bytes fb lines \<le> 2 ^ 32"
    and "kept_bytes fb lines + new_bytes fb lines \<le> 2 ^ 31" and "0 < unat (fb_backbuffer fb)"
    and "unat ((fb_height fb - lines) * fb_pitch fb) = kept_bytes fb lines" and "unat (lines * fb_pitch fb) = new_bytes fb lines"
proof -
  have le: "unat lines \<le> unat (fb_height fb)" using assms by (simp add: scroll_ok_def word_le_nat_alt)
  then show split: "kept_bytes fb lines + new_bytes fb lines = unat (fb_pitch fb) * unat (fb_height fb)"
    by (simp add: kept_bytes_def new_bytes_def diff_mult_distrib2)
  show "kept_bytes fb lines + new_bytes fb lines \<le> 2 ^ 31" "0 < unat (fb_backbuffer fb)"
    "unat (fb_backbuffer fb) + kept_bytes fb lines + new_bytes fb lines \<le> 2 ^ 32"
    using assms split scroll_active [OF assms] by (simp_all add: scroll_ok_def fb_ok_def unat_gt_0)
  have bound: "unat (fb_pitch fb) * unat (fb_height fb) \<le> 2 ^ 31" using assms by (simp add: scroll_ok_def)
  have "unat (fb_height fb - lines) = unat (fb_height fb) - unat lines" using assms by (simp add: scroll_ok_def unat_sub)
  then show "unat ((fb_height fb - lines) * fb_pitch fb) = kept_bytes fb lines"
    using split bound by (subst unat_mult_no_wrap) (simp_all add: kept_bytes_def new_bytes_def mult.commute)
  show "unat (lines * fb_pitch fb) = new_bytes fb lines"
    using split bound by (subst unat_mult_no_wrap) (simp_all add: kept_bytes_def new_bytes_def mult.commute)
qed

lemma scroll_pitch_pos:
  assumes "fb_ok fb" and "fb_inside fb (x, y)"
  shows "0 < unat (fb_pitch fb)"
proof -
  have "0 < unat (fb_width fb) * unat (fbuf_bytes_per_pixel (fb_type fb))"
    using assms(2) by (simp add: fb_inside_def word_less_nat_alt)
  also have "\<dots> \<le> unat (fb_pitch fb)" using assms(1) by (simp add: fb_ok_def)
  finally show ?thesis .
qed

lemma scroll_copy:
  assumes "scroll_ok fb lines"
  shows "memmove m (fb_backbuffer fb) (fb_backbuffer fb + lines * fb_pitch fb) ((fb_height fb - lines) * fb_pitch fb) =
    blk_copy (fb_backbuffer fb) (fb_backbuffer fb + lines * fb_pitch fb) (kept_bytes fb lines) m"
proof (cases "kept_bytes fb lines = 0")
  case True
  then have "(fb_height fb - lines) * fb_pitch fb = 0" using scroll_sizes(5) [OF assms] by (simp only: unat_eq_0)
  then show ?thesis unfolding True by (simp add: memmove_def blk_copy_def)
next
  case False
  note s = scroll_sizes [OF assms]
  have "of_nat (new_bytes fb lines) = lines * fb_pitch fb"
    using arg_cong [OF s(6), of "of_nat :: nat \<Rightarrow> u32"] by simp
  moreover have "unat (fb_backbuffer fb) + new_bytes fb lines < 4294967296" using s(2) False by simp
  ultimately have "unat (fb_backbuffer fb + lines * fb_pitch fb) = unat (fb_backbuffer fb) + new_bytes fb lines"
    using unat_add_no_wrap [of "fb_backbuffer fb" "new_bytes fb lines"] by simp
  then show ?thesis using s by (subst memmove_blk) simp_all
qed

text \<open>What a scroll does to the memory: a copy and a fill.\<close>

definition scrolled :: "fbuf \<Rightarrow> u32 \<Rightarrow> u32 \<Rightarrow> mem \<Rightarrow> mem" where
  "scrolled fb lines color m =
     unit_fill (unat (fbuf_bytes_per_pixel (fb_type fb))) (pix_byte (fbuf_bytes_per_pixel (fb_type fb)) (fbuf_process_color (fb_type fb) color))
       (new_bytes fb lines div unat (fbuf_bytes_per_pixel (fb_type fb))) (fb_backbuffer fb + (fb_height fb - lines) * fb_pitch fb)
       (blk_copy (fb_backbuffer fb) (fb_backbuffer fb + lines * fb_pitch fb) (kept_bytes fb lines) m)"

lemma fbuf_scroll_up_scrolled:
  assumes "scroll_ok fb lines"
  shows "fbuf_scroll_up mset_asm (Some fb) lines c m = (Some (fb\<lparr>fb_flip_all := True\<rparr>), scrolled fb lines c m)"
proof -
  have cond: "lines \<noteq> 0" "\<not> fb_height fb < lines" "\<not> fb_dbuf_direct_write fb" "fb_backbuffer fb \<noteq> 0" "fb_scroll_up fb = None"
    "fbuf_bytes_per_pixel (fb_type fb) \<noteq> 3" "fb_pitch fb mod fbuf_bytes_per_pixel (fb_type fb) = 0"
    using assms by (auto simp: scroll_ok_def fb_ok_def)
  have "unat (fb_pitch fb) * unat lines < 2 ^ 32" using scroll_sizes(3) [OF assms] by (simp add: new_bytes_def)
  then have "fbuf_scroll_up_stub mset_asm fb (fb_backbuffer fb) (fb_backbuffer fb) lines c m = scrolled fb lines c m"
    using fbuf_fill_stub_asm [OF refl cond(6,1,7)] scroll_copy [OF assms]
    by (simp add: fbuf_scroll_up_stub_def scrolled_def new_bytes_def)
  then show ?thesis using cond(1-5) by (simp add: fbuf_scroll_up_def Let_def)
qed

lemma scroll_bottom:
  assumes "scroll_ok fb lines" and "fb_inside fb (x, y)"
  shows "unat (fb_backbuffer fb + (fb_height fb - lines) * fb_pitch fb) = unat (fb_backbuffer fb) + kept_bytes fb lines"
proof -
  note s = scroll_sizes [OF assms(1)]
  have "0 < new_bytes fb lines"
    using assms scroll_pitch_pos [of fb x y] by (simp add: scroll_ok_def new_bytes_def unat_gt_0 word_neq_0_conv)
  then have "unat (fb_backbuffer fb) + kept_bytes fb lines < 4294967296" using s(2) by simp
  moreover have "of_nat (kept_bytes fb lines) = (fb_height fb - lines) * fb_pitch fb"
    using arg_cong [OF s(5), of "of_nat :: nat \<Rightarrow> u32"] by simp
  ultimately show ?thesis using unat_add_no_wrap [of "fb_backbuffer fb" "kept_bytes fb lines"] by simp
qed

lemma scroll_pixel:
  assumes "scroll_ok fb lines" and "fb_inside fb (x, y)"
  shows "unat (fb_addr fb (x, y)) = unat (fb_backbuffer fb) + fb_offset fb (x, y)"
    and "unat (fb_addr fb (x, y) - fb_backbuffer fb) = fb_offset fb (x, y)"
    and "fb_offset fb (x, y) + unat (fbuf_bytes_per_pixel (fb_type fb)) \<le> Suc (unat y) * unat (fb_pitch fb)"
proof -
  have ok: "fb_ok fb" using assms(1) by (simp add: scroll_ok_def)
  show q: "unat (fb_addr fb (x, y)) = unat (fb_backbuffer fb) + fb_offset fb (x, y)"
    using fb_addr_offset(1) [OF ok assms(2)] scroll_active [OF assms(1)] by simp
  then have "fb_backbuffer fb \<le> fb_addr fb (x, y)" by (simp add: word_le_nat_alt)
  then show "unat (fb_addr fb (x, y) - fb_backbuffer fb) = fb_offset fb (x, y)" using q by (simp add: unat_sub)
  show "fb_offset fb (x, y) + unat (fbuf_bytes_per_pixel (fb_type fb)) \<le> Suc (unat y) * unat (fb_pitch fb)"
    using fb_offset_bound(1) [OF ok assms(2)] by simp
qed

lemma scroll_whole:
  assumes "scroll_ok fb lines"
  shows "unat (fbuf_bytes_per_pixel (fb_type fb)) dvd unat (fb_pitch fb)"
    and "unat (fbuf_bytes_per_pixel (fb_type fb)) * (new_bytes fb lines div unat (fbuf_bytes_per_pixel (fb_type fb))) = new_bytes fb lines"
proof -
  have "unat (fb_pitch fb mod fbuf_bytes_per_pixel (fb_type fb)) = 0" using assms by (simp only: scroll_ok_def unat_0)
  then show "unat (fbuf_bytes_per_pixel (fb_type fb)) dvd unat (fb_pitch fb)"
    by (simp only: unat_mod dvd_eq_mod_eq_0)
  then show "unat (fbuf_bytes_per_pixel (fb_type fb)) * (new_bytes fb lines div unat (fbuf_bytes_per_pixel (fb_type fb))) = new_bytes fb lines"
    by (simp add: new_bytes_def)
qed

lemma scrolled_kept:
  assumes "scroll_ok fb lines" and "fb_inside fb (x, y)" and "unat y + unat lines < unat (fb_height fb)"
  shows "fbuf_load (fb_type fb) (scrolled fb lines c m) (fb_addr fb (x, y)) = fbuf_load (fb_type fb) m (fb_addr fb (x, y + lines))"
proof -
  note s = scroll_sizes [OF assms(1)] and q = scroll_pixel [OF assms(1,2)]
  have "Suc (unat y) \<le> unat (fb_height fb) - unat lines" using assms(3) by linarith
  then have "Suc (unat y) * unat (fb_pitch fb) \<le> kept_bytes fb lines"
    unfolding kept_bytes_def by (simp only: mult.commute [of "unat (fb_pitch fb)"] mult_le_mono1)
  then have before: "fb_offset fb (x, y) + unat (fbuf_bytes_per_pixel (fb_type fb)) \<le> kept_bytes fb lines" using q(3) by simp
  have "fbuf_load (fb_type fb) (scrolled fb lines c m) (fb_addr fb (x, y)) =
      fbuf_load (fb_type fb) (blk_copy (fb_backbuffer fb) (fb_backbuffer fb + lines * fb_pitch fb) (kept_bytes fb lines) m) (fb_addr fb (x, y))"
    unfolding scrolled_def
    by (rule fbuf_load_before [OF refl]) (use before q(1) scroll_bottom [OF assms(1,2)] scroll_whole(2) [OF assms(1)] s(2) in simp_all)
  also have "\<dots> = fbuf_load (fb_type fb) m (fb_backbuffer fb + lines * fb_pitch fb + (fb_addr fb (x, y) - fb_backbuffer fb))"
    by (rule fbuf_load_copy [OF refl]) (use before q(2) s(3) in simp_all)
  also have "fb_backbuffer fb + lines * fb_pitch fb + (fb_addr fb (x, y) - fb_backbuffer fb) = fb_addr fb (x, y + lines)"
    by (simp add: fb_addr_def scroll_active [OF assms(1)] algebra_simps)
  finally show ?thesis .
qed

lemma scrolled_new:
  assumes "scroll_ok fb lines" and "fb_inside fb (x, y)" and "\<not> unat y + unat lines < unat (fb_height fb)"
  shows "fbuf_load (fb_type fb) (scrolled fb lines c m) (fb_addr fb (x, y)) = fbuf_visible (fb_type fb) c"
proof -
  note s = scroll_sizes [OF assms(1)] and q = scroll_pixel [OF assms(1,2)] and p0 = scroll_bottom [OF assms(1,2)]
  let ?rest = "fb_offset fb (x, y) - kept_bytes fb lines" and ?bpp = "fbuf_bytes_per_pixel (fb_type fb)"
  have "lines \<le> fb_height fb" using assms(1) by (simp add: scroll_ok_def)
  then obtain r where r: "unat y = (unat (fb_height fb) - unat lines) + r"
    using assms(3) by (auto simp: le_iff_add not_less word_le_nat_alt)
  have off: "fb_offset fb (x, y) = kept_bytes fb lines + (r * unat (fb_pitch fb) + unat x * unat ?bpp)"
    unfolding fb_offset_def case_prod_conv kept_bytes_def by (subst r) (simp add: add_mult_distrib2 mult.commute)
  then have "fb_backbuffer fb + (fb_height fb - lines) * fb_pitch fb \<le> fb_addr fb (x, y)" using q(1) p0 by (simp add: word_le_nat_alt)
  then have qp0: "unat (fb_addr fb (x, y) - (fb_backbuffer fb + (fb_height fb - lines) * fb_pitch fb)) = ?rest"
    using q(1) p0 by (simp add: unat_sub)
  have "Suc (unat y) * unat (fb_pitch fb) \<le> unat (fb_height fb) * unat (fb_pitch fb)"
    using assms(2) by (intro mult_le_mono1) (simp add: fb_inside_def word_less_nat_alt)
  then have last: "?rest + unat ?bpp \<le> new_bytes fb lines"
    using q(3) s(1) off by (simp add: mult.commute)
  have "?rest mod unat ?bpp = 0" unfolding off using scroll_whole(1) [OF assms(1)] by simp
  moreover have "?bpp \<noteq> 3" using assms(1) by (simp add: scroll_ok_def)
  ultimately show ?thesis
    unfolding scrolled_def
    by (intro fbuf_load_fill [OF refl]) (use qp0 last scroll_whole(2) [OF assms(1)] s(3) in simp_all)
qed

text \<open>
  C23: scrolling a frame buffer with a back buffer up by some lines: every pixel then reads as the one
  that many lines below did, and the lines that come in at the bottom have the given colour. (Formats of
  2 and 4 bytes whose lines are whole pixels, up to \<open>2 ^ 31\<close> bytes, with the assembler fills; with the
  portable fills the bottom is not filled, and without a back buffer the picture is read from address 0
  on.)
\<close>

theorem fbuf_scroll_up_shifts:
  assumes "scroll_ok fb lines" and "fb_inside fb (x, y)"
  shows "\<exists>m'. fbuf_scroll_up mset_asm (Some fb) lines c m = (Some (fb\<lparr>fb_flip_all := True\<rparr>), m') \<and>
    fbuf_getpixel_stub (Some fb) x y 1 m' =
      (if unat y + unat lines < unat (fb_height fb) then fbuf_getpixel_stub (Some fb) x (y + lines) 1 m
       else [fbuf_visible (fb_type fb) c])"
proof -
  have "fb_inside fb (x, y + lines)" if "unat y + unat lines < unat (fb_height fb)"
  proof -
    have "unat y + unat lines < 4294967296" using that unat_u32_less [of "fb_height fb"] by linarith
    then have "unat (y + lines) = unat y + unat lines" using unat_add_no_wrap [of y "unat lines"] by simp
    then show ?thesis using that assms(2) by (simp add: fb_inside_def word_less_nat_alt)
  qed
  then show ?thesis
    using fbuf_scroll_up_scrolled [OF assms(1)] scrolled_kept [OF assms] scrolled_new [OF assms] assms(2)
    by (simp add: fbuf_getpixel_one)
qed

section \<open>Commits\<close>

lemma flip_dirty_loop_stays:
  assumes "vmm_get_dirty (vmm_kernel vm) back vm = (False, vm)" and "0 < sz"
  shows "flip_dirty_loop front sz 0 back 0 m vm = None"
proof -
  have no_result: "\<not> (fr = front \<and> s = sz \<and> off = 0 \<and> b = back \<and> pgsz = 0 \<and> m' = m \<and> v = vm)"
    if "flip_dirty_loop fr s off b pgsz m' v = Some r" for fr s off b pgsz m' v r
    using that
  proof (rule flip_dirty_loop.raw_induct [rotated])
    fix loop fr s off b pgsz m' v r
    assume IH: "\<And>fr s off b pgsz m' v r. loop fr s off b pgsz m' v = Some r \<Longrightarrow>
        \<not> (fr = front \<and> s = sz \<and> off = 0 \<and> b = back \<and> pgsz = 0 \<and> m' = m \<and> v = vm)"
      and step: "(if off < s then
        case vmm_get_dirty (vmm_kernel v) b v of (dirty, v) \<Rightarrow>
          if dirty then
            case vmm_get_pgsz (vmm_kernel v) b (vmm_set_dirty (vmm_kernel v) b False v) of (pg, v') \<Rightarrow>
              (case pg of
                 None \<Rightarrow> None
               | Some i \<Rightarrow> loop fr s (off + vmm_pgsz i) (b + vmm_pgsz i) (vmm_pgsz i)
                   (memcpy m' (fr + off) b (if s - off < pgsz then s - off else pgsz)) v')
          else loop fr s (off + pgsz) (b + pgsz) pgsz m' v
      else Some (m', v)) = Some r"
    show "\<not> (fr = front \<and> s = sz \<and> off = 0 \<and> b = back \<and> pgsz = 0 \<and> m' = m \<and> v = vm)"
    proof
      assume "fr = front \<and> s = sz \<and> off = 0 \<and> b = back \<and> pgsz = 0 \<and> m' = m \<and> v = vm"
      then have "loop front sz 0 back 0 m vm = Some r" using step assms by simp
      from IH [OF this] show False by simp
    qed
  qed
  then show ?thesis using no_result [of front sz 0 "back" 0 m vm] by (cases "flip_dirty_loop front sz 0 back 0 m vm") blast+
qed

text \<open>
  C24: committing the back buffer of a frame buffer whose driver has no flip function, when not
  everything is to be copied: if the first page is clean, the call never returns; if it is dirty and
  holds the whole buffer, nothing is copied although the page is marked as clean. The size of the first
  page is taken to be 0 until a dirty page has been seen.
\<close>

theorem fbuf_commit_first_page:
  assumes "fs_impl st = Some fb" and "\<not> fb_dbuf_direct_write fb" and "fb_backbuffer fb \<noteq> 0" and "fb_flip fb = None"
    and "\<not> fb_flip_all fb" and "0 < fb_pitch fb * fb_height fb"
    and "vmm_get_dirty (vmm_kernel (fs_vm st)) (fb_backbuffer fb) (fs_vm st) = (dirty, fs_vm st)"
    and "vmm_get_pgsz (vmm_kernel (fs_vm st)) (fb_backbuffer fb)
      (vmm_set_dirty (vmm_kernel (fs_vm st)) (fb_backbuffer fb) False (fs_vm st)) = (Some i, vm')"
    and "fb_pitch fb * fb_height fb \<le> vmm_pgsz i"
  shows "if dirty then \<exists>st'. fbuf_commit st = Some st' \<and> fs_mem st' = fs_mem st \<and> fs_vm st' = vm'
    else fbuf_commit st = None"
proof (cases dirty)
  case True
  have "memcpy m d s 0 = m" for m d s by (simp add: memcpy_def)
  then have "flip_dirty_loop (fb_framebuffer fb) (fb_pitch fb * fb_height fb) 0 (fb_backbuffer fb) 0 (fs_mem st) (fs_vm st) = Some (fs_mem st, vm')"
    using assms(6-9) True flip_dirty_loop.simps [of "fb_framebuffer fb" _ "vmm_pgsz i"]
    by (subst flip_dirty_loop.simps) (simp add: not_less [symmetric])
  then show ?thesis using assms(1-5) True by (simp add: fbuf_commit_def)
next
  case False
  then show ?thesis
    using assms flip_dirty_loop_stays [of "fs_vm st" "fb_backbuffer fb"] by (simp add: fbuf_commit_def)
qed

section \<open>A concrete frame buffer\<close>

text \<open>16 by 16 pixels of 4 bytes at 3M, with a back buffer at 1M in a page of 4M; the kernel's page is clean.\<close>

definition fb_example :: fbuf where
  "fb_example = \<lparr>fb_width = 16, fb_height = 16, fb_type = FBUF_32BPP_RGB888, fb_pitch = 64, fb_framebuffer = 0x300000,
     fb_backbuffer = 0x100000, fb_tick_flip = 0, fb_flip_all = False, fb_dbuf_direct_write = False, fb_flip = None,
     fb_scroll_up = None, fb_scroll_down = None, fb_elf_segments = [], fb_unload = None\<rparr>"

lemma fb_example_ok: "fb_ok fb_example"
  by (simp add: fb_ok_def fb_example_def fbuf_bytes_per_pixel_def fb_active_def)

theorem fbuf_putpixel_getpixel_witness:
  "fbuf_getpixel_stub (Some fb_example) 3 4 1 (fbuf_putpixel (memset16, memset32) (Some fb_example) 3 4 1 0x00123456 (\<lambda>_. 0)) = [0x00123456]"
  using fbuf_putpixel_getpixel [OF mset_unit_versions(1) fb_example_ok, of 3 4 3 4 "0x00123456" "\<lambda>_. 0"]
  by (simp add: fb_inside_def fb_example_def fbuf_visible_def)

lemma font8x16_draw_shows_witness:
  "fbuf_getpixel_stub (Some fb_example) 5 0 1
     (font8x16_draw (asm_memset16, asm_memset32) (replicate 256 (replicate 16 0x80)) (Some fb_example) 5 0 65 0xFF 0x11 False (\<lambda>_. 0)) = [0xFF]"
proof -
  have "bit (0x80 :: u8) 7" by simp
  then show ?thesis
    using font8x16_draw_shows [OF mset_unit_versions(2) fb_example_ok, of 5 0 5 0 "replicate 256 (replicate 16 0x80)" 65 "0xFF" "0x11" False "\<lambda>_. 0"]
    by (simp add: fb_example_def fbuf_visible_def)
qed

theorem fbuf_scroll_up_shifts_witness:
  "fbuf_getpixel_stub (Some fb_example) 3 12 1 (snd (fbuf_scroll_up mset_asm (Some fb_example) 4 0xFF (\<lambda>_. 0))) = [0xFF]"
proof -
  have "scroll_ok fb_example 4" using fb_example_ok by (simp add: scroll_ok_def fb_example_def fbuf_bytes_per_pixel_def)
  then show ?thesis
    using fbuf_scroll_up_shifts [of fb_example 4 3 12 "0xFF" "\<lambda>_. 0"]
    by (auto simp: fb_inside_def fb_example_def fbuf_visible_def)
qed

theorem fbuf_commit_first_page_witness:
  "fbuf_commit \<lparr>fs_impl = Some fb_example, fs_mem = (\<lambda>_. 0), fs_vm = vm_example, fs_tick = 0\<rparr> = None"
proof -
  have "vmm_get_dirty 0x1000 0x100000 vm_example = (False, vm_example)"
    using vm_example_wf(1) by (simp add: vmm_get_dirty_def vm_walk_direct Let_def pde_of_def vm_read_def)
  moreover have "fst (vmm_get_pgsz 0x1000 0x100000 (vmm_set_dirty 0x1000 0x100000 False vm_example)) = Some 1"
    by code_simp
  then have "vmm_get_pgsz 0x1000 0x100000 (vmm_set_dirty 0x1000 0x100000 False vm_example) =
      (Some 1, snd (vmm_get_pgsz 0x1000 0x100000 (vmm_set_dirty 0x1000 0x100000 False vm_example)))"
    by (simp add: prod_eq_iff)
  moreover have "vmm_kernel vm_example = 0x1000" by (simp add: vm_example_def)
  ultimately show ?thesis
    using fbuf_commit_first_page [of "\<lparr>fs_impl = Some fb_example, fs_mem = (\<lambda>_. 0), fs_vm = vm_example, fs_tick = 0\<rparr>" fb_example False 1]
    by (simp add: fb_example_def vmm_pgsz_def)
qed

end
