(* ===== verification/FbTerm.thy ===== *)
theory FbTerm
  imports Fbuf Keyboard
begin

text \<open>
  \<^verbatim>\<open>hal/term_fbuf.c\<close>: the terminal on the frame buffer, in its default configuration. The cursor is in
  cells of the size of the font; colours are RGB only, so \<^verbatim>\<open>hal/terminal.c\<close> emulates the indexed ones
  with its palette. Input comes from the keyboards. All arithmetic on coordinates is that of \<open>size_t\<close>,
  also where the source has casts to \<open>int\<close>. A division by a font width or height of 0 is \<open>None\<close>.
\<close>

record fbterm =
  tf_x :: u32
  tf_y :: u32
  tf_fg :: u32
  tf_bg :: u32
  tf_fbs :: fbs
  tf_font :: "fbuf_font option"
  tf_kbds :: kbds

section \<open>Output\<close>

text \<open>No room for another cell in a row, or column, of \<open>sz\<close> pixels.\<close>

definition cell_outside :: "u32 \<Rightarrow> u32 \<Rightarrow> u32 \<Rightarrow> bool" where
  "cell_outside sz pos fsz \<longleftrightarrow> sz - pos * fsz < fsz"

definition fbterm_newline :: "mset_funs \<Rightarrow> fbuf \<Rightarrow> fbuf_font \<Rightarrow> fbterm \<Rightarrow> fbterm" where
  "fbterm_newline mset fb fo st =
     (let st = st\<lparr>tf_x := 0, tf_y := tf_y st + 1\<rparr>
      in if cell_outside (fb_height fb) (tf_y st) (fo_height fo) then
           let s = tf_fbs st;
               (impl, m) = fbuf_scroll_up mset (fs_impl s) (fo_height fo) (tf_bg st) (fs_mem s)
           in st\<lparr>tf_y := tf_y st - 1, tf_fbs := s\<lparr>fs_impl := impl, fs_mem := m\<rparr>\<rparr>
         else st)"

text \<open>A character at the cursor, and the cursor one cell to the right.\<close>

definition fbterm_draw :: "u8 \<Rightarrow> fbuf_font \<Rightarrow> fbterm \<Rightarrow> fbterm" where
  "fbterm_draw c fo st =
     st\<lparr>tf_fbs := fbuf_putc_stub (tf_font st) (tf_x st * fo_width fo) (tf_y st * fo_height fo) c (tf_fg st) (tf_bg st) False (tf_fbs st),
        tf_x := tf_x st + 1\<rparr>"

function fbterm_tab_loop :: "fbuf \<Rightarrow> fbuf_font \<Rightarrow> fbterm \<Rightarrow> fbterm" where
  "fbterm_tab_loop fb fo st =
     (let st' = fbterm_draw 32 fo st
      in if \<not> cell_outside (fb_width fb) (tf_x st') (fo_width fo) \<and> tf_x st' mod 4 \<noteq> 0 then fbterm_tab_loop fb fo st' else st')"
  by pat_completeness auto
termination
proof (relation "measure (\<lambda>(fb, fo, st). 3 - unat (tf_x st) mod 4)", goal_cases)
  case (2 fb fo st st')
  then have x: "tf_x st' = tf_x st + 1" "tf_x st' mod 4 \<noteq> 0" by (simp_all add: fbterm_draw_def)
  have "unat (tf_x st' mod 4) \<noteq> 0" using x(2) unfolding unat_eq_0 .
  then have "unat (tf_x st') mod 4 \<noteq> 0" by (simp add: unat_mod)
  moreover have "unat (tf_x st') mod 4 = (unat (tf_x st) + 1) mod 4"
    unfolding x(1) unat_word_ariths by (simp add: mod_mod_cancel)
  ultimately have "3 - unat (tf_x st') mod 4 < 3 - unat (tf_x st) mod 4" by presburger
  then show ?case by simp
qed simp

declare fbterm_tab_loop.simps [simp del]

definition fbterm_putc_stub :: "mset_funs \<Rightarrow> fbuf \<Rightarrow> fbuf_font \<Rightarrow> u8 \<Rightarrow> fbterm \<Rightarrow> fbterm option" where
  "fbterm_putc_stub mset fb fo c st =
     (if c = 8 then
        if tf_x st \<noteq> 0 then Some (st\<lparr>tf_x := tf_x st - 1\<rparr>)
        else if tf_y st \<noteq> 0 then
          if fo_width fo = 0 then None
          else Some (st\<lparr>tf_x := fb_width fb div fo_width fo - 1, tf_y := tf_y st - 1\<rparr>)
        else Some st
      else if c = 13 then Some (st\<lparr>tf_x := 0\<rparr>)
      else if c = 10 then Some (fbterm_newline mset fb fo st)
      else
        let st = (if c = 9 then fbterm_tab_loop fb fo st else fbterm_draw c fo st)
        in Some (if cell_outside (fb_width fb) (tf_x st) (fo_width fo) then fbterm_newline mset fb fo st else st))"

text \<open>The frame buffer and the font, when there are both.\<close>

definition fbterm_ready :: "fbterm \<Rightarrow> (fbuf \<times> fbuf_font) option" where
  "fbterm_ready st = do { fb \<leftarrow> fs_impl (tf_fbs st); fo \<leftarrow> tf_font st; Some (fb, fo) }"

definition fbterm_putc :: "mset_funs \<Rightarrow> u8 \<Rightarrow> fbterm \<Rightarrow> fbterm option" where
  "fbterm_putc mset c st =
     (case fbterm_ready st of None \<Rightarrow> Some st | Some (fb, fo) \<Rightarrow> fbterm_putc_stub mset fb fo c st)"

primrec fbterm_puts_loop :: "mset_funs \<Rightarrow> fbuf \<Rightarrow> fbuf_font \<Rightarrow> u8 list \<Rightarrow> fbterm \<Rightarrow> fbterm option" where
  "fbterm_puts_loop mset fb fo [] st = Some st"
| "fbterm_puts_loop mset fb fo (c # s) st = Option.bind (fbterm_putc_stub mset fb fo c st) (fbterm_puts_loop mset fb fo s)"

definition fbterm_puts :: "mset_funs \<Rightarrow> u8 list \<Rightarrow> fbterm \<Rightarrow> fbterm option" where
  "fbterm_puts mset s st =
     (case fbterm_ready st of None \<Rightarrow> Some st | Some (fb, fo) \<Rightarrow> fbterm_puts_loop mset fb fo s st)"

definition fbterm_clear :: "mset_funs \<Rightarrow> fbterm \<Rightarrow> fbterm" where
  "fbterm_clear mset st =
     (let s = tf_fbs st
      in st\<lparr>tf_x := 0, tf_y := 0, tf_fbs := s\<lparr>fs_mem := fbuf_fill mset (fs_impl s) (tf_bg st) (fs_mem s)\<rparr>\<rparr>)"

definition fbterm_get_dimensions :: "fbterm \<Rightarrow> (u32 \<times> u32) option" where
  "fbterm_get_dimensions st =
     (case fbterm_ready st of
        None \<Rightarrow> Some (0, 0)
      | Some (fb, fo) \<Rightarrow>
          if fo_width fo = 0 \<or> fo_height fo = 0 then None else Some (fb_width fb div fo_width fo, fb_height fb div fo_height fo))"

definition fbterm_set_xy :: "u32 \<Rightarrow> u32 \<Rightarrow> fbterm \<Rightarrow> fbterm" where
  "fbterm_set_xy x y st = st\<lparr>tf_x := x, tf_y := y\<rparr>"

definition fbterm_get_xy :: "fbterm \<Rightarrow> u32 \<times> u32" where
  "fbterm_get_xy st = (tf_x st, tf_y st)"

definition fbterm_setfg_rgb :: "u32 \<Rightarrow> fbterm \<Rightarrow> bool \<times> fbterm" where
  "fbterm_setfg_rgb color st = (True, st\<lparr>tf_fg := color\<rparr>)"

definition fbterm_setbg_rgb :: "u32 \<Rightarrow> fbterm \<Rightarrow> bool \<times> fbterm" where
  "fbterm_setbg_rgb color st = (True, st\<lparr>tf_bg := color\<rparr>)"

definition fbterm_hook :: "mset_funs \<Rightarrow> fbterm term_hook" where
  "fbterm_hook mset = \<lparr>
     th_putc = Some (fbterm_putc mset), th_puts = Some (fbterm_puts mset),
     th_available = Some (\<lambda>d. map_option (\<lambda>n. (of_nat n, d)) (kbd_term_available (tf_kbds d))),
     th_getc = Some (\<lambda>d. map_option (\<lambda>(c, k). (c, d\<lparr>tf_kbds := k\<rparr>)) (kbd_term_getc (tf_kbds d))),
     th_clear = Some (\<lambda>d. Some (fbterm_clear mset d)),
     th_get_dimensions = Some (\<lambda>d. map_option (\<lambda>r. (r, d)) (fbterm_get_dimensions d)),
     th_set_xy = Some (\<lambda>x y d. Some (fbterm_set_xy x y d)),
     th_get_xy = Some (\<lambda>d. Some (fbterm_get_xy d, d)),
     th_setfg_indexed = None, th_getfg_indexed = None, th_setbg_indexed = None, th_getbg_indexed = None,
     th_setfg_rgb = Some (\<lambda>c d. Some (fbterm_setfg_rgb c d)), th_getfg_rgb = Some (\<lambda>d. Some (tf_fg d, d)),
     th_setbg_rgb = Some (\<lambda>c d. Some (fbterm_setbg_rgb c d)), th_getbg_rgb = Some (\<lambda>d. Some (tf_bg d, d)),
     th_out_irq = False\<rparr>"

section \<open>The terminal as a console\<close>

definition fbterm_ok :: "fbterm \<Rightarrow> bool" where
  "fbterm_ok d \<longleftrightarrow> kbd_ok (tf_kbds d) \<and> (\<forall>fo \<in> set_option (tf_font d). fo_width fo \<noteq> 0)"

definition fbterm_pending :: "fbterm \<Rightarrow> u8 list" where
  "fbterm_pending d = kbd_chars (tf_kbds d)"

definition fbterm_getc :: "fbterm \<Rightarrow> (u8 \<times> fbterm) option" where
  "fbterm_getc d = map_option (\<lambda>(c, k). (c, d\<lparr>tf_kbds := k\<rparr>)) (kbd_term_getc (tf_kbds d))"

text \<open>Output touches neither the keyboards nor the font and the colours.\<close>

definition fbterm_config :: "fbterm \<Rightarrow> kbds \<times> fbuf_font option \<times> u32 \<times> u32" where
  "fbterm_config d = (tf_kbds d, tf_font d, tf_fg d, tf_bg d)"

lemma fbterm_config_newline [simp]: "fbterm_config (fbterm_newline mset fb fo d) = fbterm_config d"
  by (simp add: fbterm_config_def fbterm_newline_def Let_def split: prod.split)

lemma fbterm_config_draw [simp]: "fbterm_config (fbterm_draw c fo d) = fbterm_config d"
  by (simp add: fbterm_config_def fbterm_draw_def)

lemma fbterm_config_tab [simp]: "fbterm_config (fbterm_tab_loop fb fo d) = fbterm_config d"
proof (induction fb fo d rule: fbterm_tab_loop.induct)
  case (1 fb fo st)
  then show ?case by (subst fbterm_tab_loop.simps) (simp add: Let_def)
qed

lemma fbterm_config_xy [simp]:
  "fbterm_config (d\<lparr>tf_x := x\<rparr>) = fbterm_config d" "fbterm_config (d\<lparr>tf_y := y\<rparr>) = fbterm_config d"
  by (simp_all add: fbterm_config_def)

lemma fbterm_putc_stub_config:
  "fo_width fo \<noteq> 0 \<Longrightarrow> \<exists>d'. fbterm_putc_stub mset fb fo c d = Some d' \<and> fbterm_config d' = fbterm_config d"
  by (simp add: fbterm_putc_stub_def Let_def)

lemma fbterm_puts_loop_config:
  assumes "fo_width fo \<noteq> 0"
  shows "\<exists>d'. fbterm_puts_loop mset fb fo s d = Some d' \<and> fbterm_config d' = fbterm_config d"
proof (induction s arbitrary: d)
  case Nil
  then show ?case by simp
next
  case (Cons c s)
  from fbterm_putc_stub_config [OF assms, of mset fb c d] obtain d1 where
    d1: "fbterm_putc_stub mset fb fo c d = Some d1" "fbterm_config d1 = fbterm_config d" by blast
  from Cons.IH [of d1] d1 show ?case by simp
qed

lemma fbterm_config_ok:
  "fbterm_config d' = fbterm_config d \<Longrightarrow> fbterm_ok d \<Longrightarrow> fbterm_ok d' \<and> fbterm_pending d' = fbterm_pending d"
  by (simp add: fbterm_config_def fbterm_ok_def fbterm_pending_def)

lemma fbterm_ready_Some: "fbterm_ready d = Some (fb, fo) \<longleftrightarrow> fs_impl (tf_fbs d) = Some fb \<and> tf_font d = Some fo"
  by (auto simp: fbterm_ready_def bind_eq_Some_conv)

lemma fbterm_putc_config:
  assumes "fbterm_ok d"
  shows "\<exists>d'. fbterm_putc mset c d = Some d' \<and> fbterm_config d' = fbterm_config d"
  using assms fbterm_putc_stub_config by (auto simp: fbterm_putc_def fbterm_ready_Some fbterm_ok_def split: option.split)

lemma fbterm_puts_config:
  assumes "fbterm_ok d"
  shows "\<exists>d'. fbterm_puts mset s d = Some d' \<and> fbterm_config d' = fbterm_config d"
  using assms fbterm_puts_loop_config by (auto simp: fbterm_puts_def fbterm_ready_Some fbterm_ok_def split: option.split)

lemma fbterm_getc_next:
  assumes "fbterm_ok d" and "fbterm_pending d = c # cs"
  shows "\<exists>d'. fbterm_getc d = Some (c, d') \<and> fbterm_ok d' \<and> fbterm_pending d' = cs"
  using kbd_term.getc_next [of "tf_kbds d" c cs] assms
  by (auto simp: fbterm_ok_def fbterm_pending_def fbterm_getc_def)

lemma fbterm_hook_input:
  "th_getc (fbterm_hook mset) = Some fbterm_getc"
  "th_available (fbterm_hook mset) = Some (\<lambda>d. map_option (\<lambda>n. (of_nat n, d)) (kbd_term_available (tf_kbds d)))"
  by (simp_all add: fbterm_hook_def fbterm_getc_def fun_eq_iff)

lemma fbterm_hook_output:
  "th_putc (fbterm_hook mset) = Some (fbterm_putc mset)" "th_puts (fbterm_hook mset) = Some (fbterm_puts mset)"
  by (simp_all add: fbterm_hook_def)

lemma fbterm_available:
  assumes "fbterm_ok d" and "fbterm_pending d \<noteq> []"
  shows "\<exists>n d'. map_option (\<lambda>n. (of_nat n, d)) (kbd_term_available (tf_kbds d)) = Some (n, d') \<and> n \<noteq> (0 :: u32) \<and>
    fbterm_ok d' \<and> fbterm_pending d' = fbterm_pending d"
proof -
  have "0 < length (kbd_chars (tf_kbds d))" using assms(2) by (simp add: fbterm_pending_def)
  then have "(of_nat (length (kbd_chars (tf_kbds d))) :: u32) \<noteq> 0"
    using of_nat_inj_no_wrap [of "length (kbd_chars (tf_kbds d))" 0, where ?'a = 32] length_kbd_chars [of "tf_kbds d"] by simp
  then show ?thesis using assms(1) by (simp add: fbterm_ok_def kbd_term_available_def kbd_char_available_count)
qed

lemma fbterm_output:
  assumes "fbterm_ok d"
  shows "\<exists>d'. fbterm_putc mset c d = Some d' \<and> fbterm_ok d' \<and> fbterm_pending d' = fbterm_pending d"
    and "\<exists>d'. fbterm_puts mset s d = Some d' \<and> fbterm_ok d' \<and> fbterm_pending d' = fbterm_pending d"
  using fbterm_putc_config [OF assms] fbterm_puts_config [OF assms] fbterm_config_ok [OF _ assms] by blast+

interpretation fbt: term_console fbterm_getc fbterm_pending fbterm_ok "fbterm_hook mset" for mset
proof (unfold_locales, goal_cases)
  case (1 d c cs)
  then show ?case by (rule fbterm_getc_next)
next
  case 2
  show ?case by (rule fbterm_hook_input)
next
  case (3 d available)
  have "available = (\<lambda>d. map_option (\<lambda>n. (of_nat n, d)) (kbd_term_available (tf_kbds d)))"
    using 3(3) unfolding fbterm_hook_input option.inject by (rule sym)
  then show ?case using fbterm_available [OF 3(1,2)] by simp
next
  case (4 d putc c)
  have "putc = fbterm_putc mset" using 4(2) unfolding fbterm_hook_output option.inject by (rule sym)
  then show ?case using fbterm_output(1) [OF 4(1)] by simp
next
  case (5 d puts str)
  have "puts = fbterm_puts mset" using 5(2) unfolding fbterm_hook_output option.inject by (rule sym)
  then show ?case using fbterm_output(2) [OF 5(1)] by simp
qed

section \<open>Colours\<close>

interpretation fbt_fg: attribute fbterm_setfg_rgb tf_fg "\<lambda>_. True" "\<lambda>st. st\<lparr>tf_fg := 0\<rparr>"
  by unfold_locales (simp_all add: fbterm_setfg_rgb_def)

interpretation fbt_bg: attribute fbterm_setbg_rgb tf_bg "\<lambda>_. True" "\<lambda>st. st\<lparr>tf_bg := 0\<rparr>"
  by unfold_locales (simp_all add: fbterm_setbg_rgb_def)

text \<open>
  indexed colours on the frame buffer terminal, which the palette emulates: an index of the palette is
  accepted, and the index that is then read is the lowest one with the same colour, not always the one
  that was set; the background stays. Other indices are refused.
\<close>

lemma fbterm_palette:
  assumes "tm_impl st = Some (fbterm_hook mset)" and "\<not> tm_mutex_out st"
  shows "if idx \<le> 255 then
      \<exists>st' i. term_setfg_indexed idx st = Some (True, st') \<and> term_getfg_indexed st' = Some (i, st') \<and> i \<le> idx \<and>
        term_color_palette ! unat i = term_color_palette ! unat idx \<and> tf_bg (tm_dev st') = tf_bg (tm_dev st) \<and> \<not> tm_mutex_out st'
    else term_setfg_indexed idx st = Some (False, st)"
proof (cases "idx \<le> 255")
  case True
  let ?c = "term_color_palette ! unat idx"
  have idx: "unat idx < 256" using True by (simp add: word_le_nat_alt)
  let ?st = "st\<lparr>tm_dev := (tm_dev st)\<lparr>tf_fg := ?c\<rparr>\<rparr>"
  have "term_setfg_indexed idx st = Some (True, ?st)"
    using assms True by (simp add: term_setfg_indexed_def fbterm_hook_def fbterm_setfg_rgb_def term_guarded_run not_less [symmetric])
  moreover have "term_getfg_indexed ?st = Some (term_palette_index ?c, ?st)"
    using assms by (simp add: term_getfg_indexed_def fbterm_hook_def term_guarded_run)
  ultimately show ?thesis
    using term_palette_index_lowest [OF idx] True assms(2) by simp
next
  case False
  then show ?thesis using assms(1) by (simp add: term_setfg_indexed_def fbterm_hook_def not_le)
qed

section \<open>The screen as a grid of cells\<close>

text \<open>
  The specification of the output with the font of 8 by 16 pixels: a grid of cells, each blank or with a
  character in its colours, and a cursor inside.
\<close>

datatype cell = Blank u32 | Glyph u8 u32 u32

fun cell_colour :: "u8 list list \<Rightarrow> cell \<Rightarrow> nat \<Rightarrow> nat \<Rightarrow> u32" where
  "cell_colour bitmap (Blank bg) row col = bg"
| "cell_colour bitmap (Glyph c fg bg) row col = (if bit (bitmap ! unat c ! row) (7 - col) then fg else bg)"

record tgrid =
  tg_cell :: "nat \<Rightarrow> nat \<Rightarrow> cell"
  tg_x :: nat
  tg_y :: nat

definition fb_cols :: "fbuf \<Rightarrow> nat" where
  "fb_cols fb = unat (fb_width fb) div 8"

definition fb_rows :: "fbuf \<Rightarrow> nat" where
  "fb_rows fb = unat (fb_height fb) div 16"

definition tgrid_newline :: "nat \<Rightarrow> u32 \<Rightarrow> tgrid \<Rightarrow> tgrid" where
  "tgrid_newline rows bg g =
     (if Suc (tg_y g) = rows
      then g\<lparr>tg_cell := (\<lambda>r. if Suc r < rows then tg_cell g (Suc r) else (\<lambda>_. Blank bg)), tg_x := 0\<rparr>
      else g\<lparr>tg_x := 0, tg_y := Suc (tg_y g)\<rparr>)"

definition tgrid_advance :: "nat \<Rightarrow> nat \<Rightarrow> u32 \<Rightarrow> tgrid \<Rightarrow> tgrid" where
  "tgrid_advance cols rows bg g = (if tg_x g = cols then tgrid_newline rows bg g else g)"

definition tgrid_put :: "cell \<Rightarrow> tgrid \<Rightarrow> tgrid" where
  "tgrid_put c g = g\<lparr>tg_cell := (tg_cell g)(tg_y g := (tg_cell g (tg_y g))(tg_x g := c)), tg_x := Suc (tg_x g)\<rparr>"

text \<open>Tabs write blanks up to the next multiple of four, or to the end of the row.\<close>

definition tgrid_putc :: "nat \<Rightarrow> nat \<Rightarrow> u32 \<Rightarrow> u32 \<Rightarrow> u8 \<Rightarrow> tgrid \<Rightarrow> tgrid" where
  "tgrid_putc cols rows fg bg c g =
     (if c = 8 then
        if 0 < tg_x g then g\<lparr>tg_x := tg_x g - 1\<rparr>
        else if 0 < tg_y g then g\<lparr>tg_x := cols - 1, tg_y := tg_y g - 1\<rparr> else g
      else if c = 13 then g\<lparr>tg_x := 0\<rparr>
      else if c = 10 then tgrid_newline rows bg g
      else tgrid_advance cols rows bg
        (if c = 9 then (tgrid_put (Glyph 32 fg bg) ^^ min (4 - tg_x g mod 4) (cols - tg_x g)) g
         else tgrid_put (Glyph c fg bg) g))"

text \<open>The pixels show the cells.\<close>

definition fb_shows :: "u8 list list \<Rightarrow> fbuf \<Rightarrow> mem \<Rightarrow> (nat \<Rightarrow> nat \<Rightarrow> cell) \<Rightarrow> bool" where
  "fb_shows bitmap fb m g \<longleftrightarrow>
     (\<forall>cy<fb_rows fb. \<forall>cx<fb_cols fb. \<forall>row<16. \<forall>col<8.
        fbuf_getpixel_stub (Some fb) (of_nat (cx * 8 + col)) (of_nat (cy * 16 + row)) 1 m =
          [fbuf_visible (fb_type fb) (cell_colour bitmap (g cy cx) row col)])"

text \<open>
  The terminal on a frame buffer with a back buffer and whole rows of cells. The flag \<open>flip_all\<close> is the
  only field of the frame buffer that output changes.
\<close>

definition fbterm_grid :: "u8 list list \<Rightarrow> fbuf \<Rightarrow> fbterm \<Rightarrow> tgrid \<Rightarrow> bool" where
  "fbterm_grid bitmap fb st g \<longleftrightarrow>
     tf_font st = Some (font8x16 mset_asm bitmap) \<and> (\<exists>b. fs_impl (tf_fbs st) = Some (fb\<lparr>fb_flip_all := b\<rparr>)) \<and>
     fb_shows bitmap fb (fs_mem (tf_fbs st)) (tg_cell g) \<and> tg_x g = unat (tf_x st) \<and> tg_y g = unat (tf_y st)"

definition fbterm_screen :: "fbuf \<Rightarrow> bool" where
  "fbterm_screen fb \<longleftrightarrow> scroll_ok fb 16 \<and> unat (fb_height fb) mod 16 = 0 \<and> 8 \<le> unat (fb_width fb)"

lemma flip_all_simps [simp]:
  "fb_addr (fb\<lparr>fb_flip_all := b\<rparr>) = fb_addr fb" "fb_inside (fb\<lparr>fb_flip_all := b\<rparr>) = fb_inside fb"
  "fb_ok (fb\<lparr>fb_flip_all := b\<rparr>) = fb_ok fb" "scroll_ok (fb\<lparr>fb_flip_all := b\<rparr>) n = scroll_ok fb n"
  "scrolled (fb\<lparr>fb_flip_all := b\<rparr>) n c m = scrolled fb n c m"
  "fbuf_getpixel_stub (Some (fb\<lparr>fb_flip_all := b\<rparr>)) x y 1 m = fbuf_getpixel_stub (Some fb) x y 1 m"
  by (simp_all add: fb_addr_def fb_active_def fb_inside_def fb_ok_def scroll_ok_def scrolled_def kept_bytes_def new_bytes_def
      fbuf_getpixel_stub_def Let_def fun_eq_iff)

text \<open>The pixels of a cell.\<close>

lemma cell_bounds:
  assumes "cx < fb_cols fb" and "cy < fb_rows fb" and "row < 16" and "col < 8"
  shows "cx * 8 + col < unat (fb_width fb)" and "cy * 16 + row < unat (fb_height fb)"
    and "cx * 8 + 8 \<le> unat (fb_width fb)" and "cy * 16 + 16 \<le> unat (fb_height fb)"
  using assms by (simp_all add: fb_cols_def fb_rows_def)

lemma unat_pixel:
  assumes "p < unat (w :: u32)"
  shows "unat (of_nat p :: u32) = p" and "(of_nat p :: u32) < w"
proof -
  have "p < 4294967296" using assms unat_u32_less [of w] by linarith
  then show "unat (of_nat p :: u32) = p" by (simp add: unat_of_nat_u32)
  then show "(of_nat p :: u32) < w" using assms by (simp add: word_less_nat_alt)
qed

lemma pixel_in_cell:
  assumes "X + k \<le> unat (w :: u32)" and "P < unat w" and "0 < k"
  shows "unat (of_nat P - of_nat X :: u32) < k \<longleftrightarrow> X \<le> P \<and> P < X + k"
    and "X \<le> P \<Longrightarrow> unat (of_nat P - of_nat X :: u32) = P - X"
proof -
  have P: "unat (of_nat P :: u32) = P" using unat_pixel [OF assms(2)] by simp
  have "X < unat w" using assms by linarith
  then have X: "unat (of_nat X :: u32) = X" using unat_pixel by blast
  have w: "unat w < 4294967296" using unat_u32_less [of w] by simp
  show sub: "X \<le> P \<Longrightarrow> unat (of_nat P - of_nat X :: u32) = P - X"
    using P X by (simp add: unat_sub word_le_nat_alt)
  show "unat (of_nat P - of_nat X :: u32) < k \<longleftrightarrow> X \<le> P \<and> P < X + k"
  proof (cases "X \<le> P")
    case True
    then show ?thesis using sub by auto
  next
    case False
    then have "unat (of_nat P - of_nat X :: u32) = P + 4294967296 - X"
      using P X by (simp add: unat_sub_if_size word_size word_le_nat_alt)
    then show ?thesis using False assms(1) w by linarith
  qed
qed

lemma same_cell: "col < k \<Longrightarrow> c * k \<le> d * k + col \<and> d * k + col < c * k + k \<longleftrightarrow> d = c" for col k c d :: nat
proof -
  assume "col < k"
  show ?thesis
  proof
    assume "c * k \<le> d * k + col \<and> d * k + col < c * k + k"
    then have "d * k < Suc c * k" "c * k < Suc d * k" using \<open>col < k\<close> by simp_all
    then show "d = c" using mult_less_cancel2 by (metis less_Suc_eq_le le_antisym)
  qed (use \<open>col < k\<close> in simp)
qed

lemma fb_shows_draw:
  assumes "fb_ok fb" and "cx < fb_cols fb" and "cy < fb_rows fb" and "fb_shows bitmap fb m g"
  shows "fb_shows bitmap fb
    (font8x16_draw mset_asm bitmap (Some (fb\<lparr>fb_flip_all := b\<rparr>)) (of_nat (cx * 8)) (of_nat (cy * 16)) c fg bg False m)
    (g(cy := (g cy)(cx := Glyph c fg bg)))"
  unfolding fb_shows_def
proof (intro allI impI)
  fix cy' cx' row col
  assume cell: "cy' < fb_rows fb" "cx' < fb_cols fb" "row < (16 :: nat)" "col < (8 :: nat)"
  let ?p = "of_nat (cx' * 8 + col) :: u32" and ?q = "of_nat (cy' * 16 + row) :: u32"
  let ?x = "of_nat (cx * 8) :: u32" and ?y = "of_nat (cy * 16) :: u32"
  note here = cell_bounds [OF cell(2,1,3,4)] and there = cell_bounds [OF assms(2,3), of 0 0]
  have xy: "unat ?x + 8 \<le> unat (fb_width fb)" "unat ?y + 16 \<le> unat (fb_height fb)"
    using there unat_pixel [of "cx * 8" "fb_width fb"] unat_pixel [of "cy * 16" "fb_height fb"] by simp_all
  have px: "unat (?p - ?x) < 8 \<longleftrightarrow> cx' = cx"
    using pixel_in_cell(1) [OF there(3) here(1)] same_cell [OF cell(4)] by simp
  have py: "unat (?q - ?y) < 16 \<longleftrightarrow> cy' = cy"
    using pixel_in_cell(1) [OF there(4) here(2)] same_cell [OF cell(3)] by simp
  have off: "cx' = cx \<Longrightarrow> unat (?p - ?x) = col" "cy' = cy \<Longrightarrow> unat (?q - ?y) = row"
    using pixel_in_cell(2) [OF there(3) here(1)] pixel_in_cell(2) [OF there(4) here(2)] by simp_all
  have mset: "mset_unit mset_asm" unfolding mset_asm_def by (rule mset_unit_versions)
  have old: "fbuf_getpixel_stub (Some fb) ?p ?q 1 m = [fbuf_visible (fb_type fb) (cell_colour bitmap (g cy' cx') row col)]"
    using assms(4) cell unfolding fb_shows_def by blast
  show "fbuf_getpixel_stub (Some fb) ?p ?q 1 (font8x16_draw mset_asm bitmap (Some (fb\<lparr>fb_flip_all := b\<rparr>)) ?x ?y c fg bg False m) =
      [fbuf_visible (fb_type fb) (cell_colour bitmap ((g(cy := (g cy)(cx := Glyph c fg bg))) cy' cx') row col)]"
    using font8x16_draw_shows [OF mset, of "fb\<lparr>fb_flip_all := b\<rparr>" ?x ?y ?p ?q bitmap c fg bg False m] assms(1) xy
      unat_pixel(2) [OF here(1)] unat_pixel(2) [OF here(2)] px py off old
    by auto
qed

lemma fb_shows_scroll:
  assumes "fbterm_screen fb" and "fb_shows bitmap fb m g"
  shows "fb_shows bitmap fb (scrolled fb 16 bg m) (\<lambda>r. if Suc r < fb_rows fb then g (Suc r) else (\<lambda>_. Blank bg))"
  unfolding fb_shows_def
proof (intro allI impI)
  fix cy cx row col
  assume cell: "cy < fb_rows fb" "cx < fb_cols fb" "row < (16 :: nat)" "col < (8 :: nat)"
  let ?p = "of_nat (cx * 8 + col) :: u32" and ?q = "of_nat (cy * 16 + row) :: u32"
  have ok: "scroll_ok fb 16" and whole: "unat (fb_height fb) = 16 * fb_rows fb"
    using assms(1) by (auto simp: fbterm_screen_def fb_rows_def)
  note here = cell_bounds [OF cell(2,1,3,4)]
  have q: "unat ?q = cy * 16 + row" using unat_pixel(1) [OF here(2)] .
  have inside: "fb_inside fb (?p, ?q)"
    using unat_pixel(2) [OF here(1)] unat_pixel(2) [OF here(2)] by (simp add: fb_inside_def)
  have next_row: "unat ?q + unat (16 :: u32) < unat (fb_height fb) \<longleftrightarrow> Suc cy < fb_rows fb"
    using cell(3) unfolding q whole by (intro iffI) simp_all
  show "fbuf_getpixel_stub (Some fb) ?p ?q 1 (scrolled fb 16 bg m) =
      [fbuf_visible (fb_type fb) (cell_colour bitmap ((if Suc cy < fb_rows fb then g (Suc cy) else (\<lambda>_. Blank bg)) cx) row col)]"
  proof (cases "Suc cy < fb_rows fb")
    case True
    have below: "?q + 16 = of_nat (Suc cy * 16 + row)" by simp
    have "fbuf_getpixel_stub (Some fb) ?p (?q + 16) 1 m = [fbuf_visible (fb_type fb) (cell_colour bitmap (g (Suc cy) cx) row col)]"
      using assms(2) True cell unfolding below fb_shows_def by blast
    moreover have "fb_inside fb (?p, ?q + 16)"
      using unat_pixel(2) [OF here(1)] unat_pixel(2) [OF cell_bounds(2) [OF cell(2) True cell(3,4)]]
      unfolding below by (simp only: fb_inside_def case_prod_conv)
    ultimately show ?thesis
      using scrolled_kept [OF ok inside] next_row True inside by (simp add: fbuf_getpixel_one)
  next
    case False
    then show ?thesis using scrolled_new [OF ok inside] next_row inside by (simp add: fbuf_getpixel_one)
  qed
qed

text \<open>One step of the cursor, a character, a newline, and the line break at the end of a row.\<close>

definition grid_inside :: "fbuf \<Rightarrow> tgrid \<Rightarrow> bool" where
  "grid_inside fb g \<longleftrightarrow> tg_x g < fb_cols fb \<and> tg_y g < fb_rows fb"

lemma fbterm_draw_grid:
  assumes "fbterm_screen fb" and "fbterm_grid bitmap fb st g" and "grid_inside fb g"
  shows "fbterm_grid bitmap fb (fbterm_draw c (font8x16 mset_asm bitmap) st) (tgrid_put (Glyph c (tf_fg st) (tf_bg st)) g)"
proof -
  obtain b where b: "fs_impl (tf_fbs st) = Some (fb\<lparr>fb_flip_all := b\<rparr>)" using assms(2) by (auto simp: fbterm_grid_def)
  have xy: "tf_x st = of_nat (tg_x g)" "tf_y st = of_nat (tg_y g)" using assms(2) by (simp_all add: fbterm_grid_def)
  note bounds = cell_bounds [of "tg_x g" fb "tg_y g" 0 0]
  have in_x: "tf_x st * 8 < fb_width fb" and in_y: "tf_y st * 16 < fb_height fb"
    using unat_pixel(2) [of "tg_x g * 8" "fb_width fb"] unat_pixel(2) [of "tg_y g * 16" "fb_height fb"] bounds assms(3)
    by (simp_all add: xy grid_inside_def)
  have "tg_x g < unat (fb_width fb)" using bounds(1) assms(3) by (simp add: grid_inside_def)
  then have "tg_x g + 1 < 4294967296" using unat_u32_less [of "fb_width fb"] by linarith
  then have step: "unat (tf_x st + 1) = Suc (tg_x g)" using unat_add_no_wrap [of "tf_x st" 1] xy assms(2) by (simp add: fbterm_grid_def)
  have "fb_ok fb" using assms(1) by (simp add: fbterm_screen_def scroll_ok_def)
  from fb_shows_draw [OF this, of "tg_x g" "tg_y g" bitmap "fs_mem (tf_fbs st)" "tg_cell g" b c "tf_fg st" "tf_bg st"]
  show ?thesis
    using assms(2,3) b in_x in_y step
    by (simp add: fbterm_grid_def fbterm_draw_def tgrid_put_def fbuf_putc_stub_def text_draw_def font8x16_def grid_inside_def xy
        not_le [symmetric] exI [of _ b])
qed

lemma fbterm_row_end:
  assumes "fbterm_screen fb" and "p \<le> fb_cols fb" and "unat x = p"
  shows "cell_outside (fb_width fb) x 8 \<longleftrightarrow> p = fb_cols fb"
proof -
  have le: "p * 8 \<le> unat (fb_width fb)" using assms(2) by (simp add: fb_cols_def)
  then have "p * 8 < 4294967296" using unat_u32_less [of "fb_width fb"] by linarith
  then have "unat (x * 8) = p * 8" using assms(3) by (subst unat_mult_no_wrap) simp_all
  then have "unat (fb_width fb - x * 8) = unat (fb_width fb) - p * 8" using le by (simp add: unat_sub word_le_nat_alt)
  then show ?thesis using assms(2) le by (auto simp: cell_outside_def word_less_nat_alt fb_cols_def)
qed

lemma fbterm_column_end:
  assumes "fbterm_screen fb" and "p \<le> fb_rows fb" and "unat y = p"
  shows "cell_outside (fb_height fb) y 16 \<longleftrightarrow> p = fb_rows fb"
proof -
  have whole: "unat (fb_height fb) = 16 * fb_rows fb" using assms(1) by (auto simp: fbterm_screen_def fb_rows_def)
  then have le: "p * 16 \<le> unat (fb_height fb)" using assms(2) by simp
  then have "p * 16 < 4294967296" using unat_u32_less [of "fb_height fb"] by linarith
  then have "unat (y * 16) = p * 16" using assms(3) by (subst unat_mult_no_wrap) simp_all
  then have "unat (fb_height fb - y * 16) = unat (fb_height fb) - p * 16" using le by (simp add: unat_sub word_le_nat_alt)
  then show ?thesis using assms(2) whole by (auto simp: cell_outside_def word_less_nat_alt)
qed

lemma fbterm_newline_grid:
  assumes "fbterm_screen fb" and "fbterm_grid bitmap fb st g" and "tg_y g < fb_rows fb"
  shows "fbterm_grid bitmap fb (fbterm_newline mset_asm fb (font8x16 mset_asm bitmap) st) (tgrid_newline (fb_rows fb) (tf_bg st) g)"
    and "grid_inside fb (tgrid_newline (fb_rows fb) (tf_bg st) g)"
proof -
  obtain b where b: "fs_impl (tf_fbs st) = Some (fb\<lparr>fb_flip_all := b\<rparr>)" using assms(2) by (auto simp: fbterm_grid_def)
  have y: "unat (tf_y st) = tg_y g" using assms(2) by (simp add: fbterm_grid_def)
  have "tg_y g < unat (fb_height fb)" using assms(3) by (simp add: fb_rows_def)
  then have "tg_y g + 1 < 4294967296" using unat_u32_less [of "fb_height fb"] by linarith
  then have step: "unat (tf_y st + 1) = Suc (tg_y g)" using unat_add_no_wrap [of "tf_y st" 1] y by simp
  have out: "cell_outside (fb_height fb) (tf_y st + 1) 16 \<longleftrightarrow> Suc (tg_y g) = fb_rows fb"
    using fbterm_column_end [OF assms(1) _ step] assms(3) by simp
  have ok: "scroll_ok (fb\<lparr>fb_flip_all := b\<rparr>) 16" using assms(1) by (simp add: fbterm_screen_def)
  have "fb_shows bitmap fb (fs_mem (tf_fbs st)) (tg_cell g)" using assms(2) by (simp add: fbterm_grid_def)
  from fb_shows_scroll [OF assms(1) this, of "tf_bg st"]
  show "fbterm_grid bitmap fb (fbterm_newline mset_asm fb (font8x16 mset_asm bitmap) st) (tgrid_newline (fb_rows fb) (tf_bg st) g)"
    using assms(2) b out step fbuf_scroll_up_scrolled [OF ok, of "tf_bg st" "fs_mem (tf_fbs st)"]
    by (auto simp: fbterm_grid_def fbterm_newline_def tgrid_newline_def font8x16_def Let_def)
  show "grid_inside fb (tgrid_newline (fb_rows fb) (tf_bg st) g)"
    using assms(1,3) by (simp add: grid_inside_def tgrid_newline_def fbterm_screen_def fb_cols_def div_greater_zero_iff)
qed

lemma fbterm_advance_grid:
  assumes "fbterm_screen fb" and "fbterm_grid bitmap fb st g" and "tg_y g < fb_rows fb" and "tg_x g \<le> fb_cols fb"
  shows "fbterm_grid bitmap fb
      (if cell_outside (fb_width fb) (tf_x st) 8 then fbterm_newline mset_asm fb (font8x16 mset_asm bitmap) st else st)
      (tgrid_advance (fb_cols fb) (fb_rows fb) (tf_bg st) g)"
    and "grid_inside fb (tgrid_advance (fb_cols fb) (fb_rows fb) (tf_bg st) g)"
proof -
  have "unat (tf_x st) = tg_x g" using assms(2) by (simp add: fbterm_grid_def)
  from fbterm_row_end [OF assms(1,4) this] fbterm_newline_grid [OF assms(1-3)] assms(2-4)
  show "fbterm_grid bitmap fb
      (if cell_outside (fb_width fb) (tf_x st) 8 then fbterm_newline mset_asm fb (font8x16 mset_asm bitmap) st else st)
      (tgrid_advance (fb_cols fb) (fb_rows fb) (tf_bg st) g)"
    "grid_inside fb (tgrid_advance (fb_cols fb) (fb_rows fb) (tf_bg st) g)"
    by (simp_all add: tgrid_advance_def grid_inside_def)
qed

lemma font8x16_size [simp]: "fo_width (font8x16 ms bitmap) = 8" "fo_height (font8x16 ms bitmap) = 16"
  by (simp_all add: font8x16_def)

lemma tgrid_put_simps [simp]: "tg_x (tgrid_put c g) = Suc (tg_x g)" "tg_y (tgrid_put c g) = tg_y g"
  by (simp_all add: tgrid_put_def)

lemma tgrid_puts_simps: "tg_x ((tgrid_put c ^^ n) g) = tg_x g + n" "tg_y ((tgrid_put c ^^ n) g) = tg_y g"
  by (induction n) simp_all

lemma mod_4: "unat (w mod 4) = unat w mod 4" for w :: u32
  by (simp add: unat_mod)

lemma fbterm_tab_grid:
  assumes "fbterm_screen fb" and "fbterm_grid bitmap fb st g" and "grid_inside fb g"
  shows "fbterm_grid bitmap fb (fbterm_tab_loop fb (font8x16 mset_asm bitmap) st)
    ((tgrid_put (Glyph 32 (tf_fg st) (tf_bg st)) ^^ min (4 - tg_x g mod 4) (fb_cols fb - tg_x g)) g)"
  using assms
proof (induction fb "font8x16 mset_asm bitmap" st arbitrary: g rule: fbterm_tab_loop.induct)
  case (1 fb st)
  let ?st = "fbterm_draw 32 (font8x16 mset_asm bitmap) st" and ?put = "tgrid_put (Glyph 32 (tf_fg st) (tf_bg st))"
  note draw = fbterm_draw_grid [OF 1(2,3,4), of 32]
  have inside: "tg_x g < fb_cols fb" "tg_y g < fb_rows fb" using 1(4) by (simp_all add: grid_inside_def)
  have x: "unat (tf_x ?st) = Suc (tg_x g)" using draw by (simp add: fbterm_grid_def)
  have out: "cell_outside (fb_width fb) (tf_x ?st) 8 \<longleftrightarrow> Suc (tg_x g) = fb_cols fb"
    using fbterm_row_end [OF 1(2) _ x] inside by simp
  have go: "tf_x ?st mod 4 \<noteq> 0 \<longleftrightarrow> Suc (tg_x g) mod 4 \<noteq> 0"
    using mod_4 [of "tf_x ?st"] x by (simp add: unat_eq_0 [symmetric])
  have same: "tf_fg ?st = tf_fg st" "tf_bg ?st = tf_bg st" by (simp_all add: fbterm_draw_def)
  show ?case
  proof (cases "Suc (tg_x g) \<noteq> fb_cols fb \<and> Suc (tg_x g) mod 4 \<noteq> 0")
    case True
    have "4 - tg_x g mod 4 = Suc (4 - Suc (tg_x g) mod 4)" using True by presburger
    then have n: "min (4 - tg_x g mod 4) (fb_cols fb - tg_x g) = Suc (min (4 - Suc (tg_x g) mod 4) (fb_cols fb - Suc (tg_x g)))"
      using inside True by linarith
    have "grid_inside fb (?put g)" using inside True by (simp add: grid_inside_def)
    from 1(1) [OF refl _ 1(2) draw this] show ?thesis
      using True out go n same by (subst fbterm_tab_loop.simps) (simp add: Let_def funpow_Suc_right del: funpow.simps)
  next
    case False
    then consider "Suc (tg_x g) = fb_cols fb" | "Suc (tg_x g) mod 4 = 0" by blast
    then have "min (4 - tg_x g mod 4) (fb_cols fb - tg_x g) = 1"
    proof cases
      case 1
      then show ?thesis by (simp add: min_def) presburger
    next
      case 2
      then have "4 - tg_x g mod 4 = 1" by presburger
      then show ?thesis using inside by simp
    qed
    then show ?thesis using False out go draw by (subst fbterm_tab_loop.simps) (auto simp: Let_def)
  qed
qed

lemma fbterm_back_grid:
  assumes "fbterm_screen fb" and "fbterm_grid bitmap fb st g" and "grid_inside fb g"
  shows "\<exists>st'. fbterm_putc_stub mset_asm fb (font8x16 mset_asm bitmap) 8 st = Some st' \<and>
    fbterm_grid bitmap fb st' (tgrid_putc (fb_cols fb) (fb_rows fb) fg bg 8 g) \<and>
    grid_inside fb (tgrid_putc (fb_cols fb) (fb_rows fb) fg bg 8 g)"
proof -
  have pos: "w \<noteq> 0 \<longleftrightarrow> 0 < unat w" for w :: u32 by (simp add: unat_gt_0)
  have dec: "w \<noteq> 0 \<Longrightarrow> unat (w - 1) = unat w - 1" for w :: u32 by (simp add: unat_sub word_le_nat_alt unat_gt_0 Suc_le_eq)
  have "8 \<le> unat (fb_width fb)" using assms(1) by (simp add: fbterm_screen_def)
  then have cols: "unat (fb_width fb div 8) = fb_cols fb" "0 < fb_cols fb" by (simp_all add: unat_div fb_cols_def div_greater_zero_iff)
  then have last: "unat (fb_width fb div 8 - 1) = fb_cols fb - 1" using dec [of "fb_width fb div 8"] pos [of "fb_width fb div 8"] by simp
  show ?thesis
    using assms(2,3) pos [of "tf_x st"] pos [of "tf_y st"] dec [of "tf_x st"] dec [of "tf_y st"] cols last
    by (auto simp: fbterm_putc_stub_def tgrid_putc_def fbterm_grid_def grid_inside_def)
qed

lemma fbterm_putc_stub_grid:
  assumes "fbterm_screen fb" and "fbterm_grid bitmap fb st g" and "grid_inside fb g"
  shows "\<exists>st'. fbterm_putc_stub mset_asm fb (font8x16 mset_asm bitmap) c st = Some st' \<and>
    fbterm_grid bitmap fb st' (tgrid_putc (fb_cols fb) (fb_rows fb) (tf_fg st) (tf_bg st) c g) \<and>
    grid_inside fb (tgrid_putc (fb_cols fb) (fb_rows fb) (tf_fg st) (tf_bg st) c g)"
proof -
  consider "c = 8" | "c = 13" | "c = 10" | "c = 9" | "c \<notin> {8, 13, 10, 9}" by blast
  then show ?thesis
  proof cases
    case 1
    then show ?thesis using fbterm_back_grid [OF assms] by simp
  next
    case 2
    then show ?thesis using assms(2,3) by (auto simp: fbterm_putc_stub_def tgrid_putc_def fbterm_grid_def grid_inside_def)
  next
    case 3
    then show ?thesis
      using fbterm_newline_grid [OF assms(1,2)] assms(3) by (simp add: fbterm_putc_stub_def tgrid_putc_def grid_inside_def)
  next
    case 4
    let ?n = "min (4 - tg_x g mod 4) (fb_cols fb - tg_x g)"
    have "tf_bg (fbterm_tab_loop fb (font8x16 mset_asm bitmap) st) = tf_bg st"
      using fbterm_config_tab [of fb "font8x16 mset_asm bitmap" st] by (simp add: fbterm_config_def)
    moreover have "tg_x g + ?n \<le> fb_cols fb" "tg_y g < fb_rows fb" using assms(3) unfolding grid_inside_def by linarith+
    ultimately show ?thesis
      using fbterm_advance_grid [OF assms(1) fbterm_tab_grid [OF assms]] 4
      by (simp add: fbterm_putc_stub_def tgrid_putc_def tgrid_puts_simps Let_def)
  next
    case 5
    have "tf_bg (fbterm_draw c (font8x16 mset_asm bitmap) st) = tf_bg st" by (simp add: fbterm_draw_def)
    then show ?thesis
      using fbterm_advance_grid [OF assms(1) fbterm_draw_grid [OF assms, of c]] assms(3) 5
      by (simp add: fbterm_putc_stub_def tgrid_putc_def grid_inside_def Let_def)
  qed
qed

lemma fbterm_puts_loop_grid:
  assumes "fbterm_screen fb" and "fbterm_grid bitmap fb st g" and "grid_inside fb g"
  shows "\<exists>st'. fbterm_puts_loop mset_asm fb (font8x16 mset_asm bitmap) s st = Some st' \<and>
    fbterm_grid bitmap fb st' (fold (tgrid_putc (fb_cols fb) (fb_rows fb) (tf_fg st) (tf_bg st)) s g) \<and>
    grid_inside fb (fold (tgrid_putc (fb_cols fb) (fb_rows fb) (tf_fg st) (tf_bg st)) s g)"
  using assms(2,3)
proof (induction s arbitrary: st g)
  case Nil
  then show ?case by simp
next
  case (Cons c s)
  let ?g = "tgrid_putc (fb_cols fb) (fb_rows fb) (tf_fg st) (tf_bg st) c g"
  from fbterm_putc_stub_grid [OF assms(1) Cons.prems, of c] obtain st1 where
    st1: "fbterm_putc_stub mset_asm fb (font8x16 mset_asm bitmap) c st = Some st1" "fbterm_grid bitmap fb st1 ?g" "grid_inside fb ?g"
    by blast
  have "fbterm_config st1 = fbterm_config st"
    using fbterm_putc_stub_config [of "font8x16 mset_asm bitmap" mset_asm fb c st] st1(1) by simp
  then have "tf_fg st1 = tf_fg st" "tf_bg st1 = tf_bg st" by (simp_all add: fbterm_config_def)
  then show ?case using Cons.IH [OF st1(2,3)] st1(1) by simp
qed

text \<open>
  C25: writing a string to the frame buffer terminal, with the 8 by 16 font, a back buffer and an integral number of
  rows, implements the grid: when the pixels show a grid of characters before, then afterwards they show the
  grid after writing the characters one by one, in the current colours, with backspace, carriage
  return, newline, tabs and scrolling, and the cursor is that of the grid and inside. The call returns.
\<close>

theorem fbterm_puts_grid:
  assumes "fbterm_screen fb" and "fs_impl (tf_fbs st) = Some fb" and "fbterm_grid bitmap fb st g" and "grid_inside fb g"
  shows "\<exists>st'. fbterm_puts mset_asm s st = Some st' \<and>
    fbterm_grid bitmap fb st' (fold (tgrid_putc (fb_cols fb) (fb_rows fb) (tf_fg st) (tf_bg st)) s g) \<and>
    grid_inside fb (fold (tgrid_putc (fb_cols fb) (fb_rows fb) (tf_fg st) (tf_bg st)) s g)"
  using fbterm_puts_loop_grid [OF assms(1,3,4), of s] assms(2,3)
  by (simp add: fbterm_puts_def fbterm_ready_def fbterm_grid_def)

section \<open>A concrete screen\<close>

text \<open>
  The screen of 16 by 16 pixels is one row of two cells. It is black, the cursor is in the second cell.
\<close>

definition font_example :: "u8 list list" where
  "font_example = replicate 256 (replicate 16 0x80)"

definition fbterm_example :: fbterm where
  "fbterm_example = \<lparr>tf_x = 1, tf_y = 0, tf_fg = 0xC0C0C0, tf_bg = 0,
     tf_fbs = \<lparr>fs_impl = Some fb_example, fs_mem = (\<lambda>_. 0), fs_vm = vm_example, fs_tick = 0\<rparr>,
     tf_font = Some (font8x16 mset_asm font_example),
     tf_kbds = \<lparr>kbd_list = [], kbd_events = [], kbd_rd = 0, kbd_wr = 0\<rparr>\<rparr>"

definition tgrid_example :: tgrid where
  "tgrid_example = \<lparr>tg_cell = (\<lambda>_ _. Blank 0), tg_x = 1, tg_y = 0\<rparr>"

lemma fbterm_example_grid:
  "fbterm_screen fb_example" "fbterm_grid font_example fb_example fbterm_example tgrid_example" "grid_inside fb_example tgrid_example"
proof -
  have "scroll_ok fb_example 16" using fb_example_ok by (simp add: scroll_ok_def fb_example_def fbuf_bytes_per_pixel_def)
  then show "fbterm_screen fb_example" by (simp add: fbterm_screen_def fb_example_def)
  have "fbuf_getpixel_stub (Some fb_example) (of_nat p) (of_nat q) 1 (\<lambda>_. 0) = [0]" if "p < 16" "q < 16" for p q
  proof -
    have "(of_nat p :: u32) < 16" "(of_nat q :: u32) < 16"
      using that unat_pixel(2) [of p "16"] unat_pixel(2) [of q "16"] by simp_all
    then have "fb_inside fb_example (of_nat p, of_nat q)" by (simp add: fb_inside_def fb_example_def)
    then show ?thesis by (simp add: fbuf_getpixel_one fbuf_load_def load32_def fb_example_def)
  qed
  moreover have "fb_cols fb_example = 2" "fb_rows fb_example = 1" by (simp_all add: fb_cols_def fb_rows_def fb_example_def)
  ultimately have "fb_shows font_example fb_example (\<lambda>_. 0) (\<lambda>_ _. Blank 0)"
    unfolding fb_shows_def by (simp add: fbuf_visible_def fb_example_def del: of_nat_add of_nat_mult One_nat_def)
  moreover have "fb_example\<lparr>fb_flip_all := False\<rparr> = fb_example" by (simp add: fb_example_def)
  ultimately show "fbterm_grid font_example fb_example fbterm_example tgrid_example"
    by (auto simp: fbterm_grid_def fbterm_example_def tgrid_example_def intro!: exI [of _ False])
  show "grid_inside fb_example tgrid_example"
    by (simp add: grid_inside_def tgrid_example_def fb_cols_def fb_rows_def fb_example_def)
qed

text \<open>A character in the last cell makes the screen scroll.\<close>

theorem fbterm_puts_grid_witness:
  "\<exists>st g. fbterm_puts mset_asm [97] fbterm_example = Some st \<and> fbterm_grid font_example fb_example st g \<and> tg_x g = 0 \<and> tg_y g = 0"
proof -
  have "fs_impl (tf_fbs fbterm_example) = Some fb_example" by (simp add: fbterm_example_def)
  moreover have "tg_x (tgrid_putc 2 1 fg bg 97 tgrid_example) = 0" "tg_y (tgrid_putc 2 1 fg bg 97 tgrid_example) = 0" for fg bg
    by (simp_all add: tgrid_putc_def tgrid_advance_def tgrid_newline_def tgrid_example_def)
  moreover have "fb_cols fb_example = 2" "fb_rows fb_example = 1" by (simp_all add: fb_cols_def fb_rows_def fb_example_def)
  ultimately show ?thesis
    using fbterm_puts_grid [OF fbterm_example_grid(1) _ fbterm_example_grid(2,3), of "[97]"]
    by (simp del: One_nat_def) blast
qed

definition fbterm_terminal :: "fbterm terminal" where
  "fbterm_terminal = \<lparr>tm_impl = Some (fbterm_hook mset_asm), tm_mutex_in = False, tm_mutex_out = False, tm_irq = True,
     tm_dev = fbterm_example\<rparr>"

lemma fbterm_palette_witness:
  "\<exists>st i. term_setfg_indexed 52 fbterm_terminal = Some (True, st) \<and> term_getfg_indexed st = Some (i, st) \<and> i \<le> 52"
  using fbterm_palette [of fbterm_terminal mset_asm 52] by (auto simp: fbterm_terminal_def)

end
