(* ===== verification/Serial.thy ===== *)
theory Serial
  imports Terminal
begin

text \<open>
  The serial ports, arch/x86/serial.c and hal/serial.c, and the terminal at the other end of one,
  hal/term_serial.c in its default configuration, which is controlled by ANSI sequences.
\<close>

section \<open>The ports\<close>

text \<open>
  A 16550 as its data sheet describes it: the registers that are written, what has been sent, and the
  bytes that will arrive. It gets ready to send after a while; waiting for a byte when none
  arrives any more does not end.
\<close>

record uart =
  ua_present :: bool
  ua_ier :: u8
  ua_fcr :: u8
  ua_lcr :: u8
  ua_mcr :: u8
  ua_scratch :: u8
  ua_div_l :: u8
  ua_div_h :: u8
  ua_in :: "u8 list"
  ua_out :: "u8 list"

definition uart_outb :: "nat \<Rightarrow> u8 \<Rightarrow> uart \<Rightarrow> uart" where
  "uart_outb off v u =
     (if off = 0 then (if bit (ua_lcr u) 7 then u\<lparr>ua_div_l := v\<rparr> else u\<lparr>ua_out := ua_out u @ [v]\<rparr>)
      else if off = 1 then (if bit (ua_lcr u) 7 then u\<lparr>ua_div_h := v\<rparr> else u\<lparr>ua_ier := v\<rparr>)
      else if off = 2 then u\<lparr>ua_fcr := v\<rparr>
      else if off = 3 then u\<lparr>ua_lcr := v\<rparr>
      else if off = 4 then u\<lparr>ua_mcr := v\<rparr>
      else if off = 7 then (if ua_present u then u\<lparr>ua_scratch := v\<rparr> else u)
      else u)"

definition uart_lsr :: "uart \<Rightarrow> u8" where
  "uart_lsr u = (if ua_in u \<noteq> [] then 1 else 0) OR 0x20"

text \<open>The ports, and the colours of the terminal.\<close>

record serterm =
  ser_ports :: "uart list"
  serterm_fgcolor :: u32
  serterm_bgcolor :: u32

definition ser_getports :: u32 where "ser_getports = 4"

text \<open>\<open>ser_iobase\<close> has four entries.\<close>

definition ser_port :: "u32 \<Rightarrow> serterm \<Rightarrow> uart option" where
  "ser_port p st = (if p < 4 then Some (ser_ports st ! unat p) else None)"

definition ser_set :: "u32 \<Rightarrow> uart \<Rightarrow> serterm \<Rightarrow> serterm" where
  "ser_set p u st = st\<lparr>ser_ports := (ser_ports st)[unat p := u]\<rparr>"

definition ser_avail_read :: "u32 \<Rightarrow> serterm \<Rightarrow> bool option" where
  "ser_avail_read p st = map_option (\<lambda>u. uart_lsr u AND 1 \<noteq> 0) (ser_port p st)"

definition ser_avail_write :: "u32 \<Rightarrow> serterm \<Rightarrow> bool option" where
  "ser_avail_write p st = map_option (\<lambda>u. uart_lsr u AND 0x20 \<noteq> 0) (ser_port p st)"

text \<open>Errors are -1 and -2.\<close>

definition ser_init :: "u32 \<Rightarrow> u32 \<Rightarrow> u32 \<Rightarrow> u32 \<Rightarrow> u32 \<Rightarrow> serterm \<Rightarrow> int \<times> serterm" where
  "ser_init p datbits stpbits parity baud st =
     (if 4 \<le> p \<or> datbits < 5 \<or> 8 < datbits \<or> stpbits < 1 \<or> 2 < stpbits \<or> 4 < parity \<or> baud = 0 then (- 1, st)
      else
        let u = uart_outb 7 0x74 (ser_ports st ! unat p)
        in if ua_scratch u \<noteq> 0x74 then (- 2, ser_set p u st)
           else
             let u = uart_outb 1 0 u;
                 u = uart_outb 3 0x80 u;
                 dv = 115200 div baud;
                 u = uart_outb 0 (ucast (dv AND 0xFF)) u;
                 u = uart_outb 1 (ucast (drop_bit 8 dv AND 0xFF)) u;
                 u = uart_outb 3 (ucast ((datbits - 5) OR push_bit 2 (stpbits - 1) OR
                       (if parity \<noteq> 0 then 8 OR push_bit 4 (parity - 1) else 0))) u;
                 u = uart_outb 2 0xC7 u;
                 u = uart_outb 4 0x0F u
             in (0, ser_set p u st))"

definition ser_getc :: "u32 \<Rightarrow> serterm \<Rightarrow> (u8 \<times> serterm) option" where
  "ser_getc p st =
     do { u \<leftarrow> ser_port p st;
          case ua_in u of [] \<Rightarrow> None | c # cs \<Rightarrow> Some (c, ser_set p (u\<lparr>ua_in := cs\<rparr>) st) }"

definition ser_putc :: "u32 \<Rightarrow> u8 \<Rightarrow> serterm \<Rightarrow> serterm option" where
  "ser_putc p c st = do { u \<leftarrow> ser_port p st; Some (ser_set p (uart_outb 0 c u) st) }"

text \<open>A string without its NUL.\<close>

fun ser_puts :: "u32 \<Rightarrow> u8 list \<Rightarrow> serterm \<Rightarrow> serterm option" where
  "ser_puts p [] st = Some st"
| "ser_puts p (c # s) st = do { st \<leftarrow> ser_putc p c st; ser_puts p s st }"

text \<open>The loop reads until the stop character; it does not check the size of the buffer.\<close>

fun ser_getbuf_loop :: "u8 list \<Rightarrow> u8 \<Rightarrow> u8 list \<Rightarrow> (u8 list \<times> u8 list) option" where
  "ser_getbuf_loop [] stop buf = None"
| "ser_getbuf_loop (t # ts) stop buf = (if t = stop then Some (buf, ts) else ser_getbuf_loop ts stop (buf @ [t]))"

definition ser_getbuf :: "u32 \<Rightarrow> u8 \<Rightarrow> serterm \<Rightarrow> (u8 list \<times> serterm) option" where
  "ser_getbuf p stop st =
     do { u \<leftarrow> ser_port p st; (buf, rest) \<leftarrow> ser_getbuf_loop (ua_in u) stop [];
          Some (buf, ser_set p (u\<lparr>ua_in := rest\<rparr>) st) }"

definition ser_gets :: "u32 \<Rightarrow> serterm \<Rightarrow> (u8 list \<times> serterm) option" where
  "ser_gets p st = map_option (\<lambda>(buf, st). (buf @ [0], st)) (ser_getbuf p 10 st)"

text \<open>The device files: the bytes that are read, and those that are written.\<close>

fun ser_devfs_read :: "u32 \<Rightarrow> nat \<Rightarrow> serterm \<Rightarrow> (u8 list \<times> serterm) option" where
  "ser_devfs_read p 0 st = Some ([], st)"
| "ser_devfs_read p (Suc n) st =
     do { (c, st) \<leftarrow> ser_getc p st; (cs, st) \<leftarrow> ser_devfs_read p n st; Some (c # cs, st) }"

fun ser_devfs_write :: "u32 \<Rightarrow> u8 list \<Rightarrow> serterm \<Rightarrow> serterm option" where
  "ser_devfs_write p [] st = Some st"
| "ser_devfs_write p (c # cs) st = do { st \<leftarrow> ser_putc p c st; ser_devfs_write p cs st }"

section \<open>The terminal\<close>

text \<open>Decimal digits, as \<open>%u\<close> prints them, and the escape character with the bracket.\<close>

fun dec_digits :: "nat \<Rightarrow> u8 list" where
  "dec_digits n = (if n < 10 then [48 + of_nat n] else dec_digits (n div 10) @ [48 + of_nat (n mod 10)])"

declare dec_digits.simps [simp del]

abbreviation csi :: "u8 list" where "csi \<equiv> [0x1B, 0x5B]"

text \<open>Sequences are formatted in a buffer of 16 bytes; a longer one is written behind it.\<close>

definition serterm_send :: "u8 list \<Rightarrow> serterm \<Rightarrow> serterm option" where
  "serterm_send s st = (if length s < 16 then ser_puts 0 s st else None)"

definition serterm_putc :: "u8 \<Rightarrow> serterm \<Rightarrow> serterm option" where
  "serterm_putc c st = do { st \<leftarrow> (if c = 10 then ser_putc 0 13 st else Some st); ser_putc 0 c st }"

definition serterm_available :: "serterm \<Rightarrow> (u32 \<times> serterm) option" where
  "serterm_available st = map_option (\<lambda>a. (if a then 1 else 0, st)) (ser_avail_write 0 st)"

definition serterm_getc :: "serterm \<Rightarrow> (u8 \<times> serterm) option" where
  "serterm_getc st = ser_getc 0 st"

definition serterm_clear :: "serterm \<Rightarrow> serterm option" where
  "serterm_clear st = ser_puts 0 (csi @ [50, 74] @ csi @ [72]) st"

definition serterm_set_xy :: "u32 \<Rightarrow> u32 \<Rightarrow> serterm \<Rightarrow> serterm option" where
  "serterm_set_xy x y st = serterm_send (csi @ dec_digits (unat y) @ [59] @ dec_digits (unat x) @ [72]) st"

text \<open>The bytes that arrive, with the state of the loop; \<open>char\<close> is signed.\<close>

fun serterm_xy_loop :: "nat \<Rightarrow> u32 \<Rightarrow> u32 \<Rightarrow> u8 list \<Rightarrow> ((u32 \<times> u32) \<times> u8 list) option" where
  "serterm_xy_loop state x y [] = None"
| "serterm_xy_loop state x y (c # cs) =
     (if state = 0 then serterm_xy_loop (if c = 0x1B then 1 else 0) x y cs
      else if state = 1 then serterm_xy_loop (if c = 0x5B then 2 else 1) x y cs
      else if state = 2 then
        (if c = 59 then serterm_xy_loop 3 x y cs else serterm_xy_loop 2 x (y * 10 + (scast c - 48)) cs)
      else if c = 82 then Some ((x, y), cs) else serterm_xy_loop 3 (x * 10 + (scast c - 48)) y cs)"

definition serterm_get_xy :: "serterm \<Rightarrow> ((u32 \<times> u32) \<times> serterm) option" where
  "serterm_get_xy st =
     do { st \<leftarrow> ser_puts 0 (csi @ [54, 110]) st;
          u \<leftarrow> ser_port 0 st;
          (xy, rest) \<leftarrow> serterm_xy_loop 0 0 0 (ua_in u);
          Some (xy, ser_set 0 (u\<lparr>ua_in := rest\<rparr>) st) }"

text \<open>\<open>1000;1000H\<close>\<close>

definition serterm_get_dimensions :: "serterm \<Rightarrow> ((u32 \<times> u32) \<times> serterm) option" where
  "serterm_get_dimensions st =
     do { ((x, y), st) \<leftarrow> serterm_get_xy st;
          st \<leftarrow> ser_puts 0 (csi @ [49, 48, 48, 48, 59, 49, 48, 48, 48, 72]) st;
          ((width, height), st) \<leftarrow> serterm_get_xy st;
          st \<leftarrow> serterm_set_xy x y st;
          Some ((width + 1, height + 1), st) }"

definition serterm_setfg_idx :: "u32 \<Rightarrow> serterm \<Rightarrow> (bool \<times> serterm) option" where
  "serterm_setfg_idx idx st =
     do { st \<leftarrow> serterm_send
            (if idx < 16 then csi @ dec_digits (unat (if idx < 8 then idx + 30 else idx - 8 + 90)) @ [109]
             else csi @ [51, 56, 59, 53, 59] @ dec_digits (unat idx) @ [109]) st;
          Some (True, st\<lparr>serterm_fgcolor := idx\<rparr>) }"

definition serterm_setbg_idx :: "u32 \<Rightarrow> serterm \<Rightarrow> (bool \<times> serterm) option" where
  "serterm_setbg_idx idx st =
     do { st \<leftarrow> serterm_send
            (if idx < 16 then csi @ dec_digits (unat (if idx < 8 then idx + 40 else idx - 8 + 100)) @ [109]
             else csi @ [52, 56, 59, 53, 59] @ dec_digits (unat idx) @ [109]) st;
          Some (True, st\<lparr>serterm_bgcolor := idx\<rparr>) }"

definition serterm_hook :: "serterm term_hook" where
  "serterm_hook = \<lparr>
     th_putc = Some serterm_putc, th_puts = None, th_available = Some serterm_available, th_getc = Some serterm_getc,
     th_clear = Some serterm_clear, th_get_dimensions = Some serterm_get_dimensions,
     th_set_xy = Some serterm_set_xy, th_get_xy = Some serterm_get_xy,
     th_setfg_indexed = Some serterm_setfg_idx, th_getfg_indexed = Some (\<lambda>d. Some (serterm_fgcolor d, d)),
     th_setbg_indexed = Some serterm_setbg_idx, th_getbg_indexed = Some (\<lambda>d. Some (serterm_bgcolor d, d)),
     th_setfg_rgb = None, th_getfg_rgb = None, th_setbg_rgb = None, th_getbg_rgb = None, th_out_irq = False\<rparr>"

text \<open>\<open>term_init\<close>: port 0 with 8 data bits, 1 stop bit, no parity and 9600 baud.\<close>

definition serterm_init :: "serterm \<Rightarrow> (serterm term_hook \<times> serterm) option" where
  "serterm_init st =
     (let (r, st) = ser_init 0 8 1 0 9600 st
      in do { st \<leftarrow> serterm_clear st;
              (r, st) \<leftarrow> serterm_setfg_idx (serterm_fgcolor st) st;
              (r, st) \<leftarrow> serterm_setbg_idx (serterm_bgcolor st) st;
              Some (serterm_hook, st) })"

section \<open>Digits and coordinates\<close>

definition is_digit :: "u8 \<Rightarrow> bool" where
  "is_digit c \<longleftrightarrow> (\<exists>d<10. c = 48 + of_nat d)"

lemma lt10: "d < 10 \<Longrightarrow> d = 0 \<or> d = 1 \<or> d = 2 \<or> d = 3 \<or> d = 4 \<or> d = 5 \<or> d = 6 \<or> d = 7 \<or> d = 8 \<or> d = (9 :: nat)"
  by arith

lemma digit_value: "d < 10 \<Longrightarrow> scast (48 + of_nat d :: u8) - 48 = (of_nat d :: u32)"
  by (drule lt10) (elim disjE, simp_all)

lemma digit_other: "is_digit c \<Longrightarrow> c \<noteq> 59 \<and> c \<noteq> 82 \<and> c \<noteq> 0x1B"
  unfolding is_digit_def by (elim exE conjE, drule lt10) (elim disjE, simp_all)

lemma dec_digits_digit: "c \<in> set (dec_digits n) \<Longrightarrow> is_digit c"
proof (induction n rule: dec_digits.induct)
  case (1 n)
  have "is_digit (48 + of_nat (n mod 10))" "n < 10 \<Longrightarrow> is_digit (48 + of_nat n)"
    unfolding is_digit_def by (rule exI [of _ "n mod 10"], simp, blast)
  then show ?case using 1 by (subst (asm) (2) dec_digits.simps) (auto split: if_splits)
qed

definition dec_add :: "u8 \<Rightarrow> u32 \<Rightarrow> u32" where
  "dec_add c v = v * 10 + (scast c - 48)"

lemma dec_add_digit: "d < 10 \<Longrightarrow> dec_add (48 + of_nat d) v = v * 10 + of_nat d"
  by (simp only: dec_add_def digit_value)

lemma dec_digits_value: "fold dec_add (dec_digits n) 0 = of_nat n"
proof (induction n rule: dec_digits.induct)
  case (1 n)
  show ?case
  proof (cases "n < 10")
    case True
    then show ?thesis by (subst dec_digits.simps) (simp add: dec_add_digit)
  next
    case False
    have "of_nat (n div 10) * 10 + of_nat (n mod 10) = (of_nat (n div 10 * 10 + n mod 10) :: u32)"
      by (simp only: of_nat_add of_nat_mult of_nat_numeral)
    then have "(of_nat n :: u32) = of_nat (n div 10) * 10 + of_nat (n mod 10)" by (simp only: div_mult_mod_eq)
    then show ?thesis using False 1 by (subst dec_digits.simps) (simp add: dec_add_digit)
  qed
qed

lemma xy_loop_row: "\<forall>c\<in>set ds. is_digit c \<Longrightarrow> serterm_xy_loop 2 x y (ds @ 59 # cs) = serterm_xy_loop 3 x (fold dec_add ds y) cs"
  by (induction ds arbitrary: y) (auto simp: dec_add_def dest: digit_other)

lemma xy_loop_column: "\<forall>c\<in>set ds. is_digit c \<Longrightarrow> serterm_xy_loop 3 x y (ds @ 82 # cs) = Some ((fold dec_add ds x, y), cs)"
  by (induction ds arbitrary: x) (auto simp: dec_add_def dest: digit_other)

definition coords :: "u32 \<Rightarrow> u32 \<Rightarrow> u8 list" where
  "coords x y = dec_digits (unat y) @ [59] @ dec_digits (unat x)"

text \<open>Other input before the report does no harm when no opening bracket comes after an escape in it.\<close>

definition no_csi :: "u8 list \<Rightarrow> bool" where
  "no_csi noise \<longleftrightarrow> 0x5B \<notin> set (dropWhile (\<lambda>c. c \<noteq> 0x1B) noise)"

lemma xy_loop_bracket: "0x5B \<notin> set noise \<Longrightarrow> serterm_xy_loop 1 x y (noise @ csi @ cs) = serterm_xy_loop 2 x y cs"
  by (induction noise) auto

lemma xy_loop_csi: "no_csi noise \<Longrightarrow> serterm_xy_loop 0 x y (noise @ csi @ cs) = serterm_xy_loop 2 x y cs"
proof (induction noise)
  case (Cons c noise)
  then show ?case using xy_loop_bracket [of noise x y cs] by (cases "c = 0x1B") (auto simp: no_csi_def)
qed (simp add: no_csi_def)

lemma xy_loop_reply:
  "no_csi noise \<Longrightarrow> serterm_xy_loop 0 0 0 (noise @ csi @ coords x y @ 82 # rest) = Some ((x, y), rest)"
  using xy_loop_csi [of noise 0 0 "coords x y @ 82 # rest"]
  by (simp add: coords_def xy_loop_row xy_loop_column dec_digits_digit dec_digits_value)

lemma ser_puts_out:
  assumes "ser_ports st = u # us" and "\<not> bit (ua_lcr u) 7"
  shows "ser_puts 0 s st = Some (st\<lparr>ser_ports := u\<lparr>ua_out := ua_out u @ s\<rparr> # us\<rparr>)"
  using assms
proof (induction s arbitrary: st u)
  case (Cons c s)
  then show ?case by (simp add: ser_putc_def ser_port_def ser_set_def uart_outb_def)
qed simp

section \<open>An ANSI terminal\<close>

lemma dec_digits_ex: "dec_digits 5 = [53]" "dec_digits 12 = [49, 50]" "dec_digits 80 = [56, 48]"
  by (simp_all add: dec_digits.simps)

text \<open>
  The other end of the line: an ANSI terminal with \<open>w\<close> columns and \<open>h\<close> rows, counted from 1, moves its cursor to the
  nearest position on its screen, and reports where it is.
\<close>

definition ansi_clamp :: "u32 \<Rightarrow> u32 \<Rightarrow> u32" where
  "ansi_clamp w x = max 1 (min w x)"

definition ansi_report :: "u32 \<Rightarrow> u32 \<Rightarrow> u32 \<Rightarrow> u32 \<Rightarrow> u8 list" where
  "ansi_report w h x y = csi @ coords (ansi_clamp w x) (ansi_clamp h y) @ [82]"

lemma ansi_clamp_on_screen: "1 \<le> x \<Longrightarrow> x \<le> w \<Longrightarrow> ansi_clamp w x = x"
  by (simp add: ansi_clamp_def)

lemma serterm_set_xy_sends:
  assumes "ser_ports st = u # us" and "\<not> bit (ua_lcr u) 7"
  shows "serterm_set_xy x y st =
    (if length (dec_digits (unat y)) + length (dec_digits (unat x)) \<le> 11
     then Some (st\<lparr>ser_ports := u\<lparr>ua_out := ua_out u @ csi @ coords x y @ [72]\<rparr> # us\<rparr>) else None)"
  using ser_puts_out [OF assms, of "csi @ coords x y @ [72]"]
  by (simp add: serterm_set_xy_def serterm_send_def coords_def)

lemma serterm_get_xy_report:
  assumes "ser_ports st = u # us" and "\<not> bit (ua_lcr u) 7"
    and "ua_in u = noise @ ansi_report w h x y @ rest" and "no_csi noise"
  shows "serterm_get_xy st = Some ((ansi_clamp w x, ansi_clamp h y),
    st\<lparr>ser_ports := u\<lparr>ua_in := rest, ua_out := ua_out u @ csi @ [54, 110]\<rparr> # us\<rparr>)"
  using ser_puts_out [OF assms(1,2), of "csi @ [54, 110]"] assms(3)
    xy_loop_reply [OF assms(4), of "ansi_clamp w x" "ansi_clamp h y" rest]
  by (simp add: serterm_get_xy_def ser_port_def ser_set_def ansi_report_def)

text \<open>
  A key that sends a control sequence, such as an arrow key (\<open>ESC [ A\<close>), breaks the report that comes after it: of the
  position 12, 5 the row is read as 15335.
\<close>

lemma serterm_xy_arrow_key:
  "serterm_xy_loop 0 0 0 ([0x1B, 0x5B, 65] @ ansi_report 80 25 12 5) = Some ((12, 15335), [])"
  by (simp add: ansi_report_def ansi_clamp_def coords_def dec_digits_ex min_def max_def)

text \<open>
  The dimensions that the terminal is asked for come out one larger than they are, since ANSI terminals
  count from 1.
\<close>

lemma dec_digits_step: "length (dec_digits n) \<le> Suc (length (dec_digits (n div 10)))"
  by (subst dec_digits.simps) simp

lemma dec_digits_1000: "n \<le> 1000 \<Longrightarrow> length (dec_digits n) \<le> 4"
proof -
  assume "n \<le> 1000"
  then have "n div 1000 < 10" by linarith
  then have "length (dec_digits (n div 1000)) = 1" by (subst dec_digits.simps) simp
  moreover have "n div 10 div 10 = n div 100" "n div 100 div 10 = n div 1000" by (simp_all add: div_mult2_eq [symmetric])
  ultimately show ?thesis
    using dec_digits_step [of n] dec_digits_step [of "n div 10"] dec_digits_step [of "n div 100"] by simp
qed

lemma ansi_clamp_1000: "w \<le> 1000 \<Longrightarrow> unat (ansi_clamp w x) \<le> 1000"
  by (auto simp: ansi_clamp_def word_le_nat_alt max_def min_def)

lemma serterm_get_dimensions_ansi:
  assumes "ser_ports st = u # us" and "\<not> bit (ua_lcr u) 7"
    and "ua_in u = noise @ ansi_report w h x y @ noise2 @ ansi_report w h 1000 1000 @ rest" and "no_csi noise" and "no_csi noise2"
    and "1 \<le> w" and "w \<le> 1000" and "1 \<le> h" and "h \<le> 1000"
  shows "serterm_get_dimensions st = Some ((w + 1, h + 1), st\<lparr>ser_ports := u\<lparr>ua_in := rest,
    ua_out := ua_out u @ csi @ [54, 110] @ csi @ [49, 48, 48, 48, 59, 49, 48, 48, 48, 72] @ csi @ [54, 110] @
      csi @ coords (ansi_clamp w x) (ansi_clamp h y) @ [72]\<rparr> # us\<rparr>)"
proof -
  let ?home = "csi @ [49, 48, 48, 48, 59, 49, 48, 48, 48, 72]"
  let ?r2 = "noise2 @ ansi_report w h 1000 1000 @ rest"
  let ?u1 = "u\<lparr>ua_in := ?r2, ua_out := ua_out u @ csi @ [54, 110]\<rparr>"
  let ?u2 = "?u1\<lparr>ua_out := ua_out ?u1 @ ?home\<rparr>"
  let ?u3 = "?u2\<lparr>ua_in := rest, ua_out := ua_out ?u2 @ csi @ [54, 110]\<rparr>"
  let ?st = "\<lambda>v. st\<lparr>ser_ports := v # us\<rparr>"
  have "serterm_get_xy st = Some ((ansi_clamp w x, ansi_clamp h y), ?st ?u1)"
    by (rule serterm_get_xy_report [OF assms(1-4)])
  moreover have "ser_puts 0 ?home (?st ?u1) = Some (?st ?u2)"
    using ser_puts_out [of "?st ?u1" ?u1 us ?home] assms(2) by (simp del: ser_puts.simps)
  moreover have "serterm_get_xy (?st ?u2) = Some ((ansi_clamp w 1000, ansi_clamp h 1000), ?st ?u3)"
    using serterm_get_xy_report [of "?st ?u2" ?u2 us noise2 w h 1000 1000 rest] assms(2,5) by simp
  moreover have "ansi_clamp w 1000 = w" "ansi_clamp h 1000 = h"
    using assms(6-9) by (simp_all add: ansi_clamp_def min_def max_def)
  moreover have "serterm_set_xy (ansi_clamp w x) (ansi_clamp h y) (?st ?u3) =
      Some (?st (?u3\<lparr>ua_out := ua_out ?u3 @ csi @ coords (ansi_clamp w x) (ansi_clamp h y) @ [72]\<rparr>))"
    using serterm_set_xy_sends [of "?st ?u3" ?u3 us "ansi_clamp w x" "ansi_clamp h y"] assms(2)
      dec_digits_1000 [OF ansi_clamp_1000 [OF assms(7)], of x] dec_digits_1000 [OF ansi_clamp_1000 [OF assms(9)], of y] by simp
  ultimately show ?thesis by (simp add: serterm_get_dimensions_def del: ser_puts.simps)
qed

text \<open>The terminal is a source of characters for the line editor of the kernel.\<close>

definition serterm_pending :: "serterm \<Rightarrow> u8 list" where
  "serterm_pending st = ua_in (ser_ports st ! 0)"

definition serterm_ok :: "serterm \<Rightarrow> bool" where
  "serterm_ok st \<longleftrightarrow> ser_ports st \<noteq> []"

interpretation ser_source: char_source serterm_getc serterm_pending serterm_ok
  by unfold_locales (auto simp: serterm_getc_def ser_getc_def ser_port_def ser_set_def serterm_pending_def serterm_ok_def)

section \<open>Properties\<close>

text \<open>
  C40: a position is sent to an ANSI terminal of \<open>w\<close> columns and \<open>h\<close> rows, which reports where its cursor is when it is
  asked. The position that is read from the report is the nearest one on the screen; a position on the screen,
  counted from 1, is therefore read back as it was sent. Other input may come before the report if no
  opening bracket comes after an escape in it; an arrow key, for example, may not
  (\<open>serterm_xy_arrow_key\<close>). The rest of the input is left. Coordinates of more than eleven digits together do not fit
  in the buffer.
\<close>

theorem serterm_xy_round_trip:
  assumes "ser_ports st = u # us" and "\<not> bit (ua_lcr u) 7"
    and "ua_in u = noise @ ansi_report w h x y @ rest" and "no_csi noise"
  shows "Option.bind (serterm_set_xy x y st) serterm_get_xy =
      (if length (dec_digits (unat y)) + length (dec_digits (unat x)) \<le> 11
       then Some ((ansi_clamp w x, ansi_clamp h y), st\<lparr>ser_ports :=
         u\<lparr>ua_in := rest, ua_out := ua_out u @ csi @ coords x y @ [72] @ csi @ [54, 110]\<rparr> # us\<rparr>)
       else None) \<and>
    (1 \<le> x \<and> x \<le> w \<and> 1 \<le> y \<and> y \<le> h \<longrightarrow> (ansi_clamp w x, ansi_clamp h y) = (x, y))"
proof -
  let ?u = "u\<lparr>ua_out := ua_out u @ csi @ coords x y @ [72]\<rparr>"
  have "serterm_get_xy (st\<lparr>ser_ports := ?u # us\<rparr>) = Some ((ansi_clamp w x, ansi_clamp h y), st\<lparr>ser_ports :=
      u\<lparr>ua_in := rest, ua_out := ua_out u @ csi @ coords x y @ [72] @ csi @ [54, 110]\<rparr> # us\<rparr>)"
    using serterm_get_xy_report [of "st\<lparr>ser_ports := ?u # us\<rparr>" ?u us noise w h x y rest] assms(2-4) by simp
  then show ?thesis by (simp add: serterm_set_xy_sends [OF assms(1,2)] ansi_clamp_on_screen)
qed

text \<open>The position 12, 5 on a screen of 80 by 25, after a key and the escape key that were pressed before the report.\<close>

definition uart_example :: uart where
  "uart_example = \<lparr>ua_present = True, ua_ier = 0, ua_fcr = 0xC7, ua_lcr = 3, ua_mcr = 15, ua_scratch = 0x74, ua_div_l = 12,
     ua_div_h = 0, ua_in = [97, 0x1B, 0x1B, 0x5B, 53, 59, 49, 50, 82, 98], ua_out = []\<rparr>"

theorem serterm_xy_round_trip_witness:
  "\<exists>st. Option.bind (serterm_set_xy 12 5 \<lparr>ser_ports = [uart_example], serterm_fgcolor = 7, serterm_bgcolor = 0\<rparr>) serterm_get_xy =
     Some ((12, 5), st) \<and> map ua_in (ser_ports st) = [[98]]"
proof -
  have "ua_in uart_example = [97, 0x1B] @ ansi_report 80 25 12 5 @ [98]" "no_csi [97, 0x1B]"
    by (simp_all add: uart_example_def ansi_report_def ansi_clamp_def min_def max_def coords_def dec_digits_ex no_csi_def)
  from serterm_xy_round_trip [OF _ _ this, of "\<lparr>ser_ports = [uart_example], serterm_fgcolor = 7, serterm_bgcolor = 0\<rparr>" "[]"]
  show ?thesis by (simp add: dec_digits_ex uart_example_def)
qed

end
