(* ===== verification/ElfFormat.thy ===== *)
theory ElfFormat
  imports KString
begin

text \<open>
  \<^verbatim>\<open>exec/elf32_types.h\<close> and the header check of \<^verbatim>\<open>exec/elf.c\<close>: the structures of a 32-bit ELF file as
  they are read from a buffer (packed, little-endian), and \<open>elf_check_header\<close> for i386. A buffer is the
  memory from its start on; the fields are widened to \<open>size_t\<close>, as the loader does.
\<close>

section \<open>Structures\<close>

record elf32_ehdr =
  e_type :: u32
  e_machine :: u32
  e_version :: u32
  e_entry :: u32
  e_phoff :: u32
  e_shoff :: u32
  e_phentsize :: u32
  e_phnum :: u32
  e_shentsize :: u32
  e_shnum :: u32
  e_shstrndx :: u32

definition read_ehdr :: "mem \<Rightarrow> elf32_ehdr" where
  "read_ehdr b = \<lparr>e_type = load16 b 16, e_machine = load16 b 18, e_version = load32 b 20, e_entry = load32 b 24,
     e_phoff = load32 b 28, e_shoff = load32 b 32, e_phentsize = load16 b 42, e_phnum = load16 b 44,
     e_shentsize = load16 b 46, e_shnum = load16 b 48, e_shstrndx = load16 b 50\<rparr>"

record elf32_shdr =
  sh_type :: u32
  sh_flags :: u32
  sh_offset :: u32
  sh_size :: u32
  sh_link :: u32
  sh_info :: u32
  sh_entsize :: u32

definition read_shdr :: "mem \<Rightarrow> u32 \<Rightarrow> elf32_shdr" where
  "read_shdr b p = \<lparr>sh_type = load32 b (p + 4), sh_flags = load32 b (p + 8), sh_offset = load32 b (p + 16),
     sh_size = load32 b (p + 20), sh_link = load32 b (p + 24), sh_info = load32 b (p + 28), sh_entsize = load32 b (p + 36)\<rparr>"

record elf32_sym =
  st_name :: u32
  st_value :: u32
  st_info :: u32
  st_other :: u32
  st_shndx :: u32

definition read_sym :: "mem \<Rightarrow> u32 \<Rightarrow> elf32_sym" where
  "read_sym b p = \<lparr>st_name = load32 b p, st_value = load32 b (p + 4), st_info = ucast (b (p + 12)), st_other = ucast (b (p + 13)),
     st_shndx = load16 b (p + 14)\<rparr>"

definition ELF_ST_BIND :: "u32 \<Rightarrow> u32" where "ELF_ST_BIND i = drop_bit 4 i"
definition ELF_ST_TYPE :: "u32 \<Rightarrow> u32" where "ELF_ST_TYPE i = i AND 0xF"

text \<open>The addend is that of a \<open>Elf32_Rela\<close>; the loader takes it to be 0 for a \<open>Elf32_Rel\<close>.\<close>

record elf32_rela =
  r_offset :: u32
  r_info :: u32
  r_addend :: u32

definition read_rela :: "mem \<Rightarrow> u32 \<Rightarrow> elf32_rela" where
  "read_rela b p = \<lparr>r_offset = load32 b p, r_info = load32 b (p + 4), r_addend = load32 b (p + 8)\<rparr>"

definition ELF32_R_SYM :: "u32 \<Rightarrow> u32" where "ELF32_R_SYM i = drop_bit 8 i"
definition ELF32_R_TYPE :: "u32 \<Rightarrow> u32" where "ELF32_R_TYPE i = ucast (ucast i :: u8)"

record elf32_phdr =
  p_type :: u32
  p_offset :: u32
  p_vaddr :: u32
  p_filesz :: u32
  p_memsz :: u32
  p_flags :: u32

definition read_phdr :: "mem \<Rightarrow> u32 \<Rightarrow> elf32_phdr" where
  "read_phdr b p = \<lparr>p_type = load32 b p, p_offset = load32 b (p + 4), p_vaddr = load32 b (p + 8), p_filesz = load32 b (p + 16),
     p_memsz = load32 b (p + 20), p_flags = load32 b (p + 24)\<rparr>"

abbreviation (input) SHT_PROGBITS :: u32 where "SHT_PROGBITS \<equiv> 1"
abbreviation (input) SHT_SYMTAB :: u32 where "SHT_SYMTAB \<equiv> 2"
abbreviation (input) SHT_STRTAB :: u32 where "SHT_STRTAB \<equiv> 3"
abbreviation (input) SHT_RELA :: u32 where "SHT_RELA \<equiv> 4"
abbreviation (input) SHT_NOBITS :: u32 where "SHT_NOBITS \<equiv> 8"
abbreviation (input) SHT_REL :: u32 where "SHT_REL \<equiv> 9"
abbreviation (input) SHN_UNDEF :: u32 where "SHN_UNDEF \<equiv> 0"
abbreviation (input) SHN_ABS :: u32 where "SHN_ABS \<equiv> 0xFFF1"
abbreviation (input) ET_REL :: u32 where "ET_REL \<equiv> 1"
abbreviation (input) ET_EXEC :: u32 where "ET_EXEC \<equiv> 2"
abbreviation (input) EM_386 :: u32 where "EM_386 \<equiv> 3"

section \<open>The header check\<close>

datatype elf_check_result =
  OK_ELF32 | OK_ELF64 | ERR_NULLBUF | ERR_MAGIC | ERR_CLASS | ERR_ENDIAN | ERR_VERSION | ERR_TYPE | ERR_MACHINE

definition elf_check_header :: "mem option \<Rightarrow> elf_check_result" where
  "elf_check_header buf =
     (case buf of
        None \<Rightarrow> ERR_NULLBUF
      | Some b \<Rightarrow>
          let hdr = read_ehdr b; is_elf64 = (b 4 = 2)
          in if b 0 \<noteq> 0x7F then ERR_MAGIC
             else if b 1 \<noteq> 0x45 then ERR_MAGIC
             else if b 2 \<noteq> 0x4C then ERR_MAGIC
             else if b 3 \<noteq> 0x46 then ERR_MAGIC
             else if b 4 \<noteq> 1 \<and> b 4 \<noteq> 2 then ERR_CLASS
             else if b 4 \<noteq> 1 then ERR_CLASS
             else if b 5 \<noteq> 1 then ERR_ENDIAN
             else if b 6 \<noteq> 1 then ERR_VERSION
             else if e_type hdr \<noteq> 0 \<and> e_type hdr \<noteq> 1 \<and> e_type hdr \<noteq> 2 \<and> e_type hdr \<noteq> 3 \<and> e_type hdr \<noteq> 4 \<and> e_type hdr < 0xFF00 \<and>
               \<not> (\<not> is_elf64 \<or> (0xFE00 \<le> e_type hdr \<and> e_type hdr \<le> 0xFEFF)) then ERR_TYPE
             else if e_version hdr \<noteq> 1 then ERR_VERSION
             else if e_machine hdr \<noteq> 0 \<and> e_machine hdr \<noteq> EM_386 then ERR_MACHINE
             else if is_elf64 then OK_ELF64 else OK_ELF32)"

text \<open>
  C28: the result of the header check on i386: the file is accepted as a 32-bit one exactly if it has the
  magic bytes, the class of 32-bit files, little-endian data, version 1 in both places, and the
  machine i386 or none; the type of the file is not looked at, since \<open>ERR_TYPE\<close> is never returned. A file of
  64 bits is never accepted, and a null buffer is reported as such.
\<close>

theorem elf_check_header_accepts:
  "(elf_check_header buf = OK_ELF32 \<longleftrightarrow>
     (\<exists>b. buf = Some b \<and> map b [0, 1, 2, 3, 4, 5, 6] = [0x7F, 0x45, 0x4C, 0x46, 1, 1, 1] \<and> load32 b 20 = 1 \<and> load16 b 18 \<in> {0, 3})) \<and>
   elf_check_header buf \<noteq> OK_ELF64 \<and> elf_check_header buf \<noteq> ERR_TYPE \<and> (elf_check_header buf = ERR_NULLBUF \<longleftrightarrow> buf = None)"
proof (cases buf)
  case None
  then show ?thesis by (simp add: elf_check_header_def)
next
  case (Some b)
  have "(b 4 = 1 \<longrightarrow> b 4 \<noteq> 2)" by auto
  then show ?thesis
    unfolding Some elf_check_header_def option.case Let_def by (auto simp: read_ehdr_def)
qed

end
