(* ===== verification/ElfLoad.thy ===== *)
theory ElfLoad
  imports ElfFormat Elf Syms
begin

text \<open>
  The loader of \<^verbatim>\<open>exec/elf.c\<close> for i386: executables are loaded by their program headers into another
  address space, kernel modules by their sections into the current one, and relocated. A file is what
  \<open>vfs_read\<close> delivers for an offset and a length; the rest of a fresh buffer is whatever the heap left
  there. Answers of the heap are taken from \<open>vm_heap\<close>. Loaded bytes go through the page tables of the
  current address space to the words of the physical frames. \<open>None\<close> is a call that does not return:
  a page fault, a NULL pointer, a division by zero, or a loop that stays.
\<close>

datatype elf_load_result = LOAD_OK | ERR_CHECK | ERR_ALLOC | ERR_UNSUPPORTED_TYPE | ERR_INVALID_DATA | ERR_ENTRY

record elf_file =
  ef_read :: "u32 \<Rightarrow> u32 \<Rightarrow> u8 list"
  ef_junk :: "u32 \<Rightarrow> u32 \<Rightarrow> mem"

definition elf_bytes :: "elf_file \<Rightarrow> u32 \<Rightarrow> u32 \<Rightarrow> u8 list" where
  "elf_bytes f off n = take (unat n) (ef_read f off n)"

definition elf_buf :: "elf_file \<Rightarrow> u32 \<Rightarrow> u32 \<Rightarrow> mem" where
  "elf_buf f off n =
     (let bs = elf_bytes f off n in (\<lambda>i. if unat i < length bs then bs ! unat i else ef_junk f off n i))"

section \<open>Memory\<close>

text \<open>A byte of a frame, and of an address that the current address space maps.\<close>

definition phys_get :: "u32 \<Rightarrow> vm \<Rightarrow> u8" where
  "phys_get pa st = ucast (drop_bit (8 * (unat pa mod 4)) (vm_read st (unat pa div 4096) (unat pa mod 4096 div 4)))"

definition phys_put :: "u32 \<Rightarrow> u8 \<Rightarrow> vm \<Rightarrow> vm" where
  "phys_put pa b st =
     (let f = unat pa div 4096; i = unat pa mod 4096 div 4
      in vm_write f i (put_field (8 * (unat pa mod 4)) 8 (ucast b) (vm_read st f i)) st)"

definition virt_addr :: "vm \<Rightarrow> u32 \<Rightarrow> u32 option" where
  "virt_addr st va =
     (let d = vm_pde st (vmm_current st) (pde_of va)
      in if \<not> e_present d then None
         else if e_pgsz d then Some (huge_addr d va)
         else let e = vm_read st (e_frame d) (pte_of va) in if e_present e then Some (small_addr e va) else None)"

definition virt_get :: "u32 \<Rightarrow> vm \<Rightarrow> u8 option" where
  "virt_get va st = map_option (\<lambda>pa. phys_get pa st) (virt_addr st va)"

primrec virt_write :: "u32 \<Rightarrow> u8 list \<Rightarrow> vm \<Rightarrow> vm option" where
  "virt_write va [] st = Some st"
| "virt_write va (b # bs) st = do { pa \<leftarrow> virt_addr st va; virt_write (va + 1) bs (phys_put pa b st) }"

text \<open>\<open>n\<close> bytes, little-endian, as the word they form, and back.\<close>

primrec virt_load :: "nat \<Rightarrow> u32 \<Rightarrow> vm \<Rightarrow> u32 option" where
  "virt_load 0 va st = Some 0"
| "virt_load (Suc n) va st = do { b \<leftarrow> virt_get va st; w \<leftarrow> virt_load n (va + 1) st; Some (ucast b OR push_bit 8 w) }"

primrec le_bytes :: "nat \<Rightarrow> u32 \<Rightarrow> u8 list" where
  "le_bytes 0 w = []"
| "le_bytes (Suc n) w = ucast w # le_bytes n (drop_bit 8 w)"

definition virt_store :: "nat \<Rightarrow> u32 \<Rightarrow> u32 \<Rightarrow> vm \<Rightarrow> vm option" where
  "virt_store n va w = virt_write va (le_bytes n w)"

section \<open>Headers\<close>

definition elf_read_header :: "elf_file \<Rightarrow> vm \<Rightarrow> (elf_load_result + mem \<times> bool) \<times> vm" where
  "elf_read_header f st =
     (let (ok, st) = vm_realloc st; hdr = elf_buf f 0 64
      in if \<not> ok then (Inl ERR_ALLOC, st)
         else (case elf_check_header (Some hdr) of
                 OK_ELF32 \<Rightarrow> Inr (hdr, False)
               | OK_ELF64 \<Rightarrow> Inr (hdr, True)
               | _ \<Rightarrow> Inl ERR_CHECK, st))"

text \<open>The section headers, the string table of their names, the size and the number of the headers.\<close>

definition elf_read_shdr :: "elf_file \<Rightarrow> mem \<Rightarrow> vm \<Rightarrow> (elf_load_result + mem \<times> mem \<times> u32 \<times> u32) \<times> vm" where
  "elf_read_shdr f hdr st =
     (let h = read_ehdr hdr; (ok, st) = vm_realloc st
      in if \<not> ok then (Inl ERR_ALLOC, st)
         else let shdr = elf_buf f (e_shoff h) (e_shentsize h * e_shnum h); strtab = read_shdr shdr (e_shstrndx h * e_shentsize h)
              in if sh_type strtab \<noteq> SHT_STRTAB then (Inl ERR_INVALID_DATA, st)
                 else let (ok, st) = vm_realloc st
                      in if \<not> ok then (Inl ERR_ALLOC, st)
                         else (Inr (shdr, elf_buf f (sh_offset strtab) (sh_size strtab), e_shentsize h, e_shnum h), st))"

section \<open>Sections of a relocatable file\<close>

text \<open>
  The frames of a section, \<open>n\<close> turns from page \<open>j\<close> on. When a frame is missing, the loop that should
  free the frames so far frees that of the first page in every turn.
\<close>

definition rel_free :: "u32 \<Rightarrow> u32 \<Rightarrow> vm \<Rightarrow> vm" where
  "rel_free alloc_vmm va st =
     (case vmm_get_paddr alloc_vmm va st of (pa, st) \<Rightarrow> st\<lparr>vm_pmm := pmm_free (vm_pmm st) (unat (pa div 4096))\<rparr>)"

primrec rel_alloc :: "u32 \<Rightarrow> u32 \<Rightarrow> nat \<Rightarrow> nat \<Rightarrow> vm \<Rightarrow> (bool \<times> vm) option" where
  "rel_alloc alloc_vmm vaddr j 0 st = Some (True, st)"
| "rel_alloc alloc_vmm vaddr j (Suc n) st =
     do { (pmm, frame) \<leftarrow> pmm_alloc_free (vm_pmm st) 1;
          let st = st\<lparr>vm_pmm := pmm\<rparr>;
          case frame of
            None \<Rightarrow>
              let st = (rel_free alloc_vmm vaddr ^^ j) st
              in map_option (Pair False) (vmm_unmap (vmm_current st) vaddr (of_nat j * 4096) st)
          | Some frame \<Rightarrow>
              do { st \<leftarrow> vmm_pgmap (vmm_current st) (of_nat frame * 4096) (vaddr + of_nat j * 4096) 0 0x1B st;
                   rel_alloc alloc_vmm vaddr (Suc j) n st } }"

definition rel_section ::
  "elf_file \<Rightarrow> u32 \<Rightarrow> u32 \<Rightarrow> nat \<Rightarrow> elf32_shdr \<Rightarrow> elf_prgload list \<Rightarrow> vm \<Rightarrow> ((elf_load_result + elf_prgload list) \<times> vm) option" where
  "rel_section f alloc_vmm kernel_end i sh segs st =
     (if bit (sh_flags sh) 1 \<and> sh_size sh \<noteq> 0 \<and> (sh_type sh = SHT_PROGBITS \<or> sh_type sh = SHT_NOBITS) then
        do { (vaddr, st) \<leftarrow> vmm_first_free alloc_vmm kernel_end 0xFFFFFFFF (sh_size sh) 0 False st;
             if vaddr = 0 then Some (Inl ERR_ALLOC, st)
             else
               do { let n = (sh_size sh + 4096 - 1) div 4096;
                    (ok, st) \<leftarrow> rel_alloc alloc_vmm vaddr 0 (unat n) st;
                    if \<not> ok then Some (Inl ERR_ALLOC, st)
                    else
                      do { st \<leftarrow> virt_write vaddr
                             (if sh_type sh \<noteq> SHT_NOBITS then elf_bytes f (sh_offset sh) (sh_size sh) else replicate (unat (sh_size sh)) 0) st;
                           let (ok, st) = vm_realloc st;
                           if ok then Some (Inr (segs @ [\<lparr>pl_idx = i, pl_vaddr = vaddr, pl_size = sh_size sh\<rparr>]), st)
                           else
                             let st = fold (\<lambda>j. rel_free alloc_vmm (vaddr + of_nat j * 4096)) [0..<unat n] st
                             in map_option (Pair (Inl ERR_ALLOC)) (vmm_unmap (vmm_current st) vaddr (n * 4096) st) } } }
      else Some (Inr segs, st))"

fun rel_loop ::
  "elf_file \<Rightarrow> mem \<Rightarrow> u32 \<Rightarrow> u32 \<Rightarrow> u32 \<Rightarrow> nat list \<Rightarrow> elf_prgload list \<Rightarrow> vm \<Rightarrow> ((elf_load_result + elf_prgload list) \<times> vm) option" where
  "rel_loop f shdr shentsize alloc_vmm kernel_end [] segs st = Some (Inr segs, st)"
| "rel_loop f shdr shentsize alloc_vmm kernel_end (i # is) segs st =
     do { (r, st) \<leftarrow> rel_section f alloc_vmm kernel_end i (read_shdr shdr (of_nat i * shentsize)) segs st;
          case r of
            Inl e \<Rightarrow> Some (Inl e, st)
          | Inr segs \<Rightarrow> rel_loop f shdr shentsize alloc_vmm kernel_end is segs st }"

definition elf_load_rel ::
  "elf_file \<Rightarrow> mem \<Rightarrow> u32 \<Rightarrow> u32 \<Rightarrow> u32 \<Rightarrow> u32 \<Rightarrow> vm \<Rightarrow> ((elf_load_result + elf_prgload list) \<times> vm) option" where
  "elf_load_rel f shdr shentsize shnum alloc_vmm kernel_end st =
     rel_loop f shdr shentsize alloc_vmm kernel_end [0..<unat shnum] [] st"

section \<open>Relocation\<close>

text \<open>A string of a buffer.\<close>

definition buf_str :: "mem \<Rightarrow> u32 \<Rightarrow> u8 list option" where
  "buf_str b p = map_option (\<lambda>n. map (\<lambda>i. b (p + of_nat i)) [0..<unat n]) (strlen b p)"

text \<open>The tables that are kept from one relocation section to the next: \<open>None\<close> is a null pointer.\<close>

record reloc_tabs =
  rt_shdr :: "elf32_shdr option"
  rt_symtab :: "mem option"
  rt_symtab_idx :: u32
  rt_strtab :: "mem option"
  rt_strtab_idx :: u32

definition reloc_symtab ::
  "elf_file \<Rightarrow> mem \<Rightarrow> u32 \<Rightarrow> u32 \<Rightarrow> reloc_tabs \<Rightarrow> vm \<Rightarrow> (elf_load_result + reloc_tabs) \<times> vm" where
  "reloc_symtab f shdr shentsize link t st =
     (if link = rt_symtab_idx t then (Inr t, st)
      else let h = read_shdr shdr (shentsize * link)
           in if sh_type h \<noteq> SHT_SYMTAB then (Inl ERR_INVALID_DATA, st)
              else let (ok, st) = vm_realloc st
                   in if \<not> ok then (Inl ERR_ALLOC, st)
                      else (Inr (t\<lparr>rt_shdr := Some h, rt_symtab := Some (elf_buf f (sh_offset h) (sh_size h)), rt_symtab_idx := link\<rparr>), st))"

definition reloc_strtab ::
  "elf_file \<Rightarrow> mem \<Rightarrow> u32 \<Rightarrow> u32 \<Rightarrow> reloc_tabs \<Rightarrow> vm \<Rightarrow> (elf_load_result + reloc_tabs) \<times> vm" where
  "reloc_strtab f shdr shentsize link t st =
     (if link = rt_strtab_idx t then (Inr t, st)
      else let h = read_shdr shdr (shentsize * link)
           in if sh_type h \<noteq> SHT_STRTAB then (Inl ERR_INVALID_DATA, st)
              else let (ok, st) = vm_realloc st
                   in if \<not> ok then (Inl ERR_INVALID_DATA, st)
                      else (Inr (t\<lparr>rt_strtab := Some (elf_buf f (sh_offset h) (sh_size h)), rt_strtab_idx := link\<rparr>), st))"

text \<open>The value of a symbol: absolute, of the kernel, or relative to a section that was loaded.\<close>

definition reloc_symbol :: "sym_table \<Rightarrow> elf_prgload list \<Rightarrow> mem option \<Rightarrow> elf32_sym \<Rightarrow> u32 option" where
  "reloc_symbol kernel_syms segs strtab sy =
     (if st_shndx sy = SHN_ABS then Some (st_value sy)
      else if st_shndx sy = SHN_UNDEF then
        do { s \<leftarrow> strtab; name \<leftarrow> buf_str s (st_name sy);
             Some (case sym_resolve kernel_syms name of None \<Rightarrow> st_value sy | Some i \<Rightarrow> sym_addr (syms kernel_syms ! i)) }
      else Some (fold (\<lambda>s v. if pl_idx s = unat (st_shndx sy) then v + pl_vaddr s else v) segs (st_value sy)))"

text \<open>The relocations of i386, at the address \<open>ref\<close>, with symbol value \<open>s\<close> and addend \<open>a\<close>.\<close>

definition reloc_386 :: "u32 \<Rightarrow> u32 \<Rightarrow> u32 \<Rightarrow> u32 \<Rightarrow> vm \<Rightarrow> vm option" where
  "reloc_386 r_type s a ref st =
     (if r_type = 0 then Some st
      else if r_type = 1 then do { w \<leftarrow> virt_load 4 ref st; virt_store 4 ref (s + w + a) st }
      else if r_type = 2 then do { w \<leftarrow> virt_load 4 ref st; virt_store 4 ref (s + w - ref + a) st }
      else if r_type = 5 \<or> r_type = 7 then virt_store 4 ref (s + a) st
      else if r_type = 20 then do { w \<leftarrow> virt_load 2 ref st; virt_store 2 ref (s + w + a) st }
      else if r_type = 21 then do { w \<leftarrow> virt_load 2 ref st; virt_store 2 ref (s + w - ref + a) st }
      else if r_type = 22 then do { w \<leftarrow> virt_load 1 ref st; virt_store 1 ref (s + w + a) st }
      else if r_type = 23 then do { w \<leftarrow> virt_load 1 ref st; virt_store 1 ref (s + w - ref + a) st }
      else Some st)"

definition reloc_entry ::
  "u32 \<Rightarrow> sym_table \<Rightarrow> elf_prgload list \<Rightarrow> reloc_tabs \<Rightarrow> elf_prgload \<Rightarrow> u32 \<Rightarrow> mem \<Rightarrow> u32 \<Rightarrow> vm \<Rightarrow> vm option" where
  "reloc_entry machine kernel_syms segs t target type rel p st =
     do { h \<leftarrow> rt_shdr t; symtab \<leftarrow> rt_symtab t;
          let r = read_rela rel p;
          let a = (if type = SHT_RELA then r_addend r else 0);
          s \<leftarrow> reloc_symbol kernel_syms segs (rt_strtab t) (read_sym symtab (sh_entsize h * ELF32_R_SYM (r_info r)));
          if machine = EM_386 then reloc_386 (ELF32_R_TYPE (r_info r)) s a (pl_vaddr target + r_offset r) st else Some st }"

definition reloc_section ::
  "elf_file \<Rightarrow> u32 \<Rightarrow> mem \<Rightarrow> u32 \<Rightarrow> sym_table \<Rightarrow> elf_prgload list \<Rightarrow> elf32_shdr \<Rightarrow> reloc_tabs \<Rightarrow> vm \<Rightarrow>
   ((elf_load_result + reloc_tabs) \<times> vm) option" where
  "reloc_section f machine shdr shentsize kernel_syms segs sh t st =
     (if sh_type sh = SHT_REL \<or> sh_type sh = SHT_RELA then
        (case find (\<lambda>s. pl_idx s = unat (sh_info sh)) segs of
           None \<Rightarrow> Some (Inr t, st)
         | Some target \<Rightarrow>
             (case reloc_symtab f shdr shentsize (sh_link sh) t st of
                (Inl e, st) \<Rightarrow> Some (Inl e, st)
              | (Inr t, st) \<Rightarrow>
                  do { h \<leftarrow> rt_shdr t;
                       case reloc_strtab f shdr shentsize (sh_link h) t st of
                         (Inl e, st) \<Rightarrow> Some (Inl e, st)
                       | (Inr t, st) \<Rightarrow>
                           let (ok, st) = vm_realloc st; rel = elf_buf f (sh_offset sh) (sh_size sh)
                           in if \<not> ok then Some (Inl ERR_ALLOC, st)
                              else if sh_entsize sh = 0 then None
                              else map_option (Pair (Inr t))
                                (fold_opt (\<lambda>j. reloc_entry machine kernel_syms segs t target (sh_type sh) rel (of_nat j * sh_entsize sh))
                                   [0..<unat (sh_size sh div sh_entsize sh)] st) }))
      else Some (Inr t, st))"

fun reloc_loop ::
  "elf_file \<Rightarrow> u32 \<Rightarrow> mem \<Rightarrow> u32 \<Rightarrow> sym_table \<Rightarrow> elf_prgload list \<Rightarrow> nat list \<Rightarrow> reloc_tabs \<Rightarrow> vm \<Rightarrow> (elf_load_result \<times> vm) option" where
  "reloc_loop f machine shdr shentsize kernel_syms segs [] t st = Some (LOAD_OK, st)"
| "reloc_loop f machine shdr shentsize kernel_syms segs (i # is) t st =
     do { (r, st) \<leftarrow> reloc_section f machine shdr shentsize kernel_syms segs (read_shdr shdr (of_nat i * shentsize)) t st;
          case r of
            Inl e \<Rightarrow> Some (e, st)
          | Inr t \<Rightarrow> reloc_loop f machine shdr shentsize kernel_syms segs is t st }"

definition elf_do_reloc ::
  "elf_file \<Rightarrow> mem \<Rightarrow> mem \<Rightarrow> u32 \<Rightarrow> u32 \<Rightarrow> elf_prgload list \<Rightarrow> sym_table \<Rightarrow> vm \<Rightarrow> (elf_load_result \<times> vm) option" where
  "elf_do_reloc f hdr shdr shentsize shnum segs kernel_syms st =
     reloc_loop f (e_machine (read_ehdr hdr)) shdr shentsize kernel_syms segs [0..<unat shnum]
       \<lparr>rt_shdr = None, rt_symtab = None, rt_symtab_idx = 0, rt_strtab = None, rt_strtab_idx = 0\<rparr> st"

section \<open>Symbols\<close>

text \<open>
  One symbol: the first one with the name \<open>want\<close> gives the entry point and is not added to the table; \<open>0\<close>
  stands for no entry point yet.
\<close>

definition load_sym ::
  "bool \<Rightarrow> elf_prgload list \<Rightarrow> u8 list option \<Rightarrow> mem \<Rightarrow> sym_entry list option \<Rightarrow> elf32_sym \<Rightarrow> u32 \<times> sym_table option \<Rightarrow>
   (u32 \<times> sym_table option) option" where
  "load_sym is_rel segs want strtab grow s r =
     (case r of (entry, tab) \<Rightarrow>
        if st_other s \<noteq> 2 \<and> st_shndx s \<noteq> SHN_UNDEF \<and> st_shndx s \<noteq> SHN_ABS \<and> ELF_ST_TYPE (st_info s) \<noteq> 4 \<and> ELF_ST_TYPE (st_info s) \<noteq> 3 then
          let v = (if is_rel then case find (\<lambda>p. pl_idx p = unat (st_shndx s)) segs of None \<Rightarrow> st_value s | Some p \<Rightarrow> st_value s + pl_vaddr p
                   else st_value s)
          in do { is_entry \<leftarrow> (case want of None \<Rightarrow> Some False
                                 | Some nm \<Rightarrow> if entry \<noteq> 0 then Some False else map_option (\<lambda>name. name = nm) (buf_str strtab (st_name s)));
                  if is_entry then Some (v, tab)
                  else if ELF_ST_BIND (st_info s) = 1 \<or> ELF_ST_BIND (st_info s) = 2 then
                    (case tab of
                       None \<Rightarrow> Some (entry, tab)
                     | Some t \<Rightarrow> map_option (\<lambda>name. (entry, Some (fst (sym_add_entry grow t name v)))) (buf_str strtab (st_name s)))
                  else Some (entry, tab) }
        else Some (entry, tab))"

definition load_syms_section ::
  "elf_file \<Rightarrow> mem \<Rightarrow> u32 \<Rightarrow> bool \<Rightarrow> elf_prgload list \<Rightarrow> u8 list option \<Rightarrow> (nat \<Rightarrow> sym_entry list option) \<Rightarrow> elf32_shdr \<Rightarrow>
   u32 \<times> sym_table option \<Rightarrow> vm \<Rightarrow> (elf_load_result \<times> (u32 \<times> sym_table option) \<times> vm) option" where
  "load_syms_section f shdr shentsize is_rel segs want grow sh r st =
     (if sh_type sh = SHT_SYMTAB then
        let str = read_shdr shdr (shentsize * sh_link sh)
        in if sh_type str \<noteq> SHT_STRTAB then Some (ERR_INVALID_DATA, r, st)
           else let (ok, st) = vm_realloc st
                in if \<not> ok then Some (ERR_ALLOC, r, st)
                   else let strtab = elf_buf f (sh_offset str) (sh_size str); (ok, st) = vm_realloc st
                        in if \<not> ok then Some (ERR_ALLOC, r, st)
                           else if sh_entsize sh = 0 then None
                           else map_option (\<lambda>r. (LOAD_OK, r, st))
                             (fold_opt (\<lambda>j. load_sym is_rel segs want strtab (grow j)
                                  (read_sym (elf_buf f (sh_offset sh) (sh_size sh)) (of_nat j * sh_entsize sh)))
                                [0..<unat (sh_size sh div sh_entsize sh)] r)
      else Some (LOAD_OK, r, st))"

fun load_syms_loop ::
  "elf_file \<Rightarrow> mem \<Rightarrow> u32 \<Rightarrow> bool \<Rightarrow> elf_prgload list \<Rightarrow> u8 list option \<Rightarrow> (nat \<Rightarrow> nat \<Rightarrow> sym_entry list option) \<Rightarrow> nat list \<Rightarrow>
   u32 \<times> sym_table option \<Rightarrow> vm \<Rightarrow> (elf_load_result \<times> (u32 \<times> sym_table option) \<times> vm) option" where
  "load_syms_loop f shdr shentsize is_rel segs want grow [] r st = Some (LOAD_OK, r, st)"
| "load_syms_loop f shdr shentsize is_rel segs want grow (i # is) r st =
     do { (res, r, st) \<leftarrow> load_syms_section f shdr shentsize is_rel segs want (grow i) (read_shdr shdr (of_nat i * shentsize)) r st;
          if res = LOAD_OK then load_syms_loop f shdr shentsize is_rel segs want grow is r st else Some (res, r, st) }"

definition elf_load_syms ::
  "elf_file \<Rightarrow> mem \<Rightarrow> bool \<Rightarrow> u32 \<Rightarrow> u32 \<Rightarrow> elf_prgload list \<Rightarrow> sym_table option \<Rightarrow> u8 list option \<Rightarrow>
   (nat \<Rightarrow> nat \<Rightarrow> sym_entry list option) \<Rightarrow> vm \<Rightarrow> (elf_load_result \<times> (u32 \<times> sym_table option) \<times> vm) option" where
  "elf_load_syms f shdr is_rel shentsize shnum segs tab want grow st =
     load_syms_loop f shdr shentsize is_rel segs want grow [0..<unat shnum] (0, tab) st"

section \<open>Segments of an executable\<close>

text \<open>The page of turn \<open>j\<close>.\<close>

definition phdr_page :: "elf32_phdr \<Rightarrow> nat \<Rightarrow> u32" where
  "phdr_page ph j = p_vaddr ph - p_vaddr ph mod 4096 + of_nat j * 4096"

primrec phdr_pages :: "u32 \<Rightarrow> bool \<Rightarrow> elf32_phdr \<Rightarrow> nat \<Rightarrow> nat \<Rightarrow> vm \<Rightarrow> (bool \<times> vm) option" where
  "phdr_pages alloc_vmm user ph j 0 st = Some (True, st)"
| "phdr_pages alloc_vmm user ph j (Suc n) st =
     (case vmm_get_paddr alloc_vmm (phdr_page ph j) st of (pa, st) \<Rightarrow>
        if pa = 0 then
          do { (pmm, frame) \<leftarrow> pmm_alloc_free (vm_pmm st) 1;
               case frame of
                 None \<Rightarrow> Some (False, st\<lparr>vm_pmm := pmm\<rparr>)
               | Some frame \<Rightarrow>
                   do { st \<leftarrow> vmm_pgmap alloc_vmm (of_nat frame * 4096) (phdr_page ph j) 0
                          (0x11 OR (if user then 4 else 0) OR (if bit (p_flags ph) 1 then 2 else 0)) (st\<lparr>vm_pmm := pmm\<rparr>);
                        phdr_pages alloc_vmm user ph (Suc j) n st } }
        else if bit (p_flags ph) 1 then
          (case vmm_get_flags alloc_vmm (phdr_page ph j) st of (fl, st) \<Rightarrow>
             phdr_pages alloc_vmm user ph (Suc j) n
               (if \<not> fl_rw fl then vmm_set_flags alloc_vmm (phdr_page ph j) (fl OR 2) st else st))
        else phdr_pages alloc_vmm user ph (Suc j) n st)"

text \<open>How many of the \<open>sz\<close> bytes at an offset come from the file, and how many are cleared.\<close>

definition phdr_split :: "elf32_phdr \<Rightarrow> u32 \<Rightarrow> u32 \<Rightarrow> u32 \<times> u32" where
  "phdr_split ph offset sz =
     (if p_filesz ph \<le> offset then (0, sz)
      else if offset + sz \<le> p_filesz ph then (sz, 0)
      else (p_filesz ph - offset, sz - (p_filesz ph - offset)))"

definition phdr_chunk :: "elf32_phdr \<Rightarrow> u32 \<Rightarrow> u32 \<Rightarrow> u32" where
  "phdr_chunk ph offset paddr =
     (let sz = 4096 - paddr mod 4096 in if p_memsz ph < offset + sz then p_memsz ph - offset else sz)"

partial_function (option) phdr_copy :: "elf_file \<Rightarrow> u32 \<Rightarrow> u32 \<Rightarrow> elf32_phdr \<Rightarrow> u32 \<Rightarrow> vm \<Rightarrow> vm option" where
  "phdr_copy f alloc_vmm copy_dst ph offset st =
     (if offset < p_memsz ph then
        case vmm_get_paddr alloc_vmm (p_vaddr ph + offset) st of (paddr, st) \<Rightarrow>
        case phdr_split ph offset (phdr_chunk ph offset paddr) of (sz_read, sz_set) \<Rightarrow>
          Option.bind (virt_write (copy_dst + paddr mod 4096) (elf_bytes f (p_offset ph + offset) sz_read)
              (vmm_set_paddr (vmm_current st) copy_dst paddr st)) (\<lambda>st.
            Option.bind (virt_write (copy_dst + paddr mod 4096 + sz_read) (replicate (unat sz_set) 0) st) (\<lambda>st.
              phdr_copy f alloc_vmm copy_dst ph (offset + phdr_chunk ph offset paddr) st))
      else Some st)"

text \<open>The loop over the program headers: the page used for copying, 0 when there is none yet, and the segments.\<close>

definition phdr_segment ::
  "elf_file \<Rightarrow> u32 \<Rightarrow> u32 \<Rightarrow> bool \<Rightarrow> nat \<Rightarrow> elf32_phdr \<Rightarrow> u32 \<Rightarrow> elf_prgload list \<Rightarrow> vm \<Rightarrow>
   ((elf_load_result + u32 \<times> elf_prgload list) \<times> vm) option" where
  "phdr_segment f alloc_vmm kernel_end user i ph copy_dst segs st =
     (if p_type ph \<noteq> 1 then Some (Inr (copy_dst, segs), st)
      else
        do { (copy_dst, st) \<leftarrow> (if copy_dst = 0 then vmm_alloc_map (vmm_current st) 0 4096 kernel_end 0xFFFFFFFF 0 0 False 3 st
                                else Some (copy_dst, st));
             if copy_dst = 0 then map_option (Pair (Inl ERR_ALLOC)) (elf_unload_prg alloc_vmm segs st)
             else
               do { (ok, st) \<leftarrow> phdr_pages alloc_vmm user ph 0 (unat ((p_memsz ph + p_vaddr ph mod 4096 + 4096 - 1) div 4096)) st;
                    if \<not> ok then map_option (Pair (Inl ERR_ALLOC)) (elf_unload_prg alloc_vmm segs st)
                    else
                      do { st \<leftarrow> phdr_copy f alloc_vmm copy_dst ph 0 st;
                           let (ok, st) = vm_realloc st;
                           if \<not> ok then map_option (Pair (Inl ERR_ALLOC)) (elf_unload_prg alloc_vmm segs st)
                           else Some (Inr (copy_dst, segs @ [\<lparr>pl_idx = i, pl_vaddr = p_vaddr ph, pl_size = p_memsz ph\<rparr>]), st) } } })"

fun phdr_loop ::
  "elf_file \<Rightarrow> mem \<Rightarrow> u32 \<Rightarrow> u32 \<Rightarrow> u32 \<Rightarrow> bool \<Rightarrow> nat list \<Rightarrow> u32 \<Rightarrow> elf_prgload list \<Rightarrow> vm \<Rightarrow>
   ((elf_load_result + u32 \<times> elf_prgload list) \<times> vm) option" where
  "phdr_loop f phdr phentsize alloc_vmm kernel_end user [] copy_dst segs st = Some (Inr (copy_dst, segs), st)"
| "phdr_loop f phdr phentsize alloc_vmm kernel_end user (i # is) copy_dst segs st =
     do { (r, st) \<leftarrow> phdr_segment f alloc_vmm kernel_end user i (read_phdr phdr (of_nat i * phentsize)) copy_dst segs st;
          case r of
            Inl e \<Rightarrow> Some (Inl e, st)
          | Inr (copy_dst, segs) \<Rightarrow> phdr_loop f phdr phentsize alloc_vmm kernel_end user is copy_dst segs st }"

definition elf_load_phdr ::
  "elf_file \<Rightarrow> mem \<Rightarrow> u32 \<Rightarrow> u32 \<Rightarrow> bool \<Rightarrow> vm \<Rightarrow> ((elf_load_result + elf_prgload list) \<times> vm) option" where
  "elf_load_phdr f hdr alloc_vmm kernel_end user st =
     (let h = read_ehdr hdr; (ok, st) = vm_realloc st
      in if \<not> ok then Some (Inl ERR_ALLOC, st)
         else
           do { (r, st) \<leftarrow> phdr_loop f (elf_buf f (e_phoff h) (e_phentsize h * e_phnum h)) (e_phentsize h) alloc_vmm kernel_end user
                  [0..<unat (e_phnum h)] 0 [] st;
                case r of
                  Inl e \<Rightarrow> Some (Inl e, st)
                | Inr (copy_dst, segs) \<Rightarrow>
                    map_option (Pair (Inr segs)) (if copy_dst \<noteq> 0 then vmm_pgunmap (vmm_current st) copy_dst 0 st else Some st) })"

section \<open>Files\<close>

text \<open>Loading returns the segments and the entry point.\<close>

definition elf_load_exec ::
  "elf_file \<Rightarrow> bool \<Rightarrow> u32 \<Rightarrow> u32 \<Rightarrow> vm \<Rightarrow> ((elf_load_result + elf_prgload list \<times> u32) \<times> vm) option" where
  "elf_load_exec f user alloc_vmm kernel_end st =
     (case elf_read_header f st of
        (Inl e, st) \<Rightarrow> Some (Inl e, st)
      | (Inr (hdr, is_elf64), st) \<Rightarrow>
          if e_type (read_ehdr hdr) \<noteq> ET_EXEC then Some (Inl ERR_UNSUPPORTED_TYPE, st)
          else map_option (\<lambda>(r, st). (map_sum id (\<lambda>segs. (segs, e_entry (read_ehdr hdr))) r, st))
            (elf_load_phdr f hdr alloc_vmm kernel_end user st))"

definition elf_load_ksym ::
  "elf_file \<Rightarrow> sym_table \<Rightarrow> (nat \<Rightarrow> nat \<Rightarrow> sym_entry list option) \<Rightarrow> vm \<Rightarrow> (elf_load_result \<times> sym_table option \<times> vm) option" where
  "elf_load_ksym f kernel_syms grow st =
     (case elf_read_header f st of
        (Inl e, st) \<Rightarrow> Some (e, Some kernel_syms, st)
      | (Inr (hdr, is_elf64), st) \<Rightarrow>
          if e_type (read_ehdr hdr) \<noteq> ET_EXEC then Some (ERR_UNSUPPORTED_TYPE, Some kernel_syms, st)
          else (case elf_read_shdr f hdr st of
              (Inl e, st) \<Rightarrow> Some (e, Some kernel_syms, st)
            | (Inr (shdr, shstrtab, shentsize, shnum), st) \<Rightarrow>
                map_option (\<lambda>(res, (entry, tab), st). (res, tab, st))
                  (elf_load_syms f shdr True shentsize shnum [] (Some kernel_syms) None grow st)))"

text \<open>\<open>ELF_KMOD_INIT_FUNC\<close> is "kmod_init".\<close>

definition kmod_init :: "u8 list" where
  "kmod_init = [107, 109, 111, 100, 95, 105, 110, 105, 116]"

definition elf_load_kmod ::
  "elf_file \<Rightarrow> u32 \<Rightarrow> bool \<Rightarrow> sym_table \<Rightarrow> (nat \<Rightarrow> nat \<Rightarrow> sym_entry list option) \<Rightarrow> vm \<Rightarrow>
   ((elf_load_result + elf_prgload list \<times> u32) \<times> sym_table option \<times> vm) option" where
  "elf_load_kmod f kernel_end want_entry kernel_syms grow st =
     (case elf_read_header f st of
        (Inl e, st) \<Rightarrow> Some (Inl e, Some kernel_syms, st)
      | (Inr (hdr, is_elf64), st) \<Rightarrow>
          if e_type (read_ehdr hdr) \<noteq> ET_REL then Some (Inl ERR_UNSUPPORTED_TYPE, Some kernel_syms, st)
          else (case elf_read_shdr f hdr st of
              (Inl e, st) \<Rightarrow> Some (Inl e, Some kernel_syms, st)
            | (Inr (shdr, shstrtab, shentsize, shnum), st) \<Rightarrow>
                do { (r, st) \<leftarrow> elf_load_rel f shdr shentsize shnum (vmm_kernel st) kernel_end st;
                     case r of
                       Inl e \<Rightarrow> Some (Inl e, Some kernel_syms, st)
                     | Inr segs \<Rightarrow>
                         do { (res, st) \<leftarrow> elf_do_reloc f hdr shdr shentsize shnum segs kernel_syms st;
                              if res \<noteq> LOAD_OK then Some (Inl res, Some kernel_syms, st)
                              else
                                do { (res, (entry, tab), st) \<leftarrow>
                                       elf_load_syms f shdr True shentsize shnum segs (Some kernel_syms)
                                         (if want_entry then Some kmod_init else None) grow st;
                                     Some (if res \<noteq> LOAD_OK then Inl res else Inr (segs, entry), tab, st) } } }))"

end
