(* ===== verification/ElfMem.thy ===== *)
theory ElfMem
  imports ElfLoad
begin

text \<open>
  What the loader of \<^verbatim>\<open>exec/elf.c\<close> leaves in memory: bytes written through a mapping, the copy of a
  segment through the page that is mapped for copying, and relocations.
\<close>

section \<open>Bytes of physical memory\<close>

lemma byte_of_field:
  assumes "i < 4" and "j < 4"
  shows "(ucast (drop_bit (8 * j) (put_field (8 * i) 8 (ucast b) w)) :: u8) = (if j = i then b else ucast (drop_bit (8 * j) w))"
proof (rule bit_word_eqI)
  fix n
  assume "n < LENGTH(8)"
  then have n: "n < 8" by simp
  have "8 * j + n < 32" using assms n by linarith
  moreover have "8 * i \<le> 8 * j + n \<and> 8 * j + n < 8 * i + 8 \<longleftrightarrow> j = i" using n by presburger
  ultimately show "bit (ucast (drop_bit (8 * j) (put_field (8 * i) 8 (ucast b) w)) :: u8) n =
      bit (if j = i then b else ucast (drop_bit (8 * j) w)) n"
    using n assms by (auto simp: bit_simps)
qed

lemma byte_position_nat:
  fixes n m :: nat
  assumes "n div 4096 = m div 4096" and "n mod 4096 div 4 = m mod 4096 div 4" and "n mod 4 = m mod 4"
  shows "n = m"
proof -
  have split: "k mod 4096 = k mod 4096 div 4 * 4 + k mod 4" for k :: nat
  proof -
    have four: "k mod 4096 mod 4 = k mod 4" by (rule mod_mod_cancel) simp
    show ?thesis using div_mult_mod_eq [of "k mod 4096" 4] unfolding four by (rule sym)
  qed
  have "n mod 4096 = m mod 4096"
    by (rule trans [OF split [of n]], rule trans [OF _ split [of m, symmetric]]) (simp only: assms(2,3))
  then have "n div 4096 * 4096 + n mod 4096 = m div 4096 * 4096 + m mod 4096" unfolding assms(1) by (rule arg_cong)
  then show ?thesis unfolding div_mult_mod_eq .
qed

lemma byte_position:
  "pa = qa \<longleftrightarrow> unat pa div 4096 = unat qa div 4096 \<and> unat pa mod 4096 div 4 = unat qa mod 4096 div 4 \<and> unat pa mod 4 = unat qa mod 4"
  for pa qa :: u32
  using byte_position_nat [of "unat pa" "unat qa"] by (auto simp: word_unat_eq_iff)

lemma phys_get_put: "phys_get qa (phys_put pa b st) = (if qa = pa then b else phys_get qa st)"
  using byte_position [of pa qa] byte_of_field [of "unat pa mod 4" "unat qa mod 4" b]
  by (auto simp: phys_get_def phys_put_def vm_read_def Let_def)

lemma phys_put_fields [simp]:
  "vm_win (phys_put pa b st) = vm_win st" "vmm_current (phys_put pa b st) = vmm_current st"
  by (simp_all add: phys_put_def Let_def)

lemma phys_put_other: "F \<noteq> unat pa div 4096 \<Longrightarrow> vm_phys (phys_put pa b st) F = vm_phys st F"
  by (simp add: phys_put_def Let_def)

section \<open>Writing through a mapping\<close>

text \<open>The frames of the tables by which the processor translates an address.\<close>

definition virt_tables :: "vm \<Rightarrow> u32 \<Rightarrow> nat set" where
  "virt_tables st va = {pd_frame (vmm_current st), e_frame (vm_phys st (pd_frame (vmm_current st)) (pde_of va))}"

lemma virt_addr_cong:
  assumes "\<forall>F\<in>virt_tables st va. vm_phys st' F = vm_phys st F" and "vmm_current st' = vmm_current st"
  shows "virt_addr st' va = virt_addr st va"
  using assms by (simp add: virt_addr_def virt_tables_def vm_read_def Let_def)

lemma virt_tables_cong:
  assumes "\<forall>F\<in>virt_tables st va. vm_phys st' F = vm_phys st F" and "vmm_current st' = vmm_current st"
  shows "virt_tables st' va = virt_tables st va"
  using assms by (simp add: virt_tables_def)

text \<open>The bytes of a range go to the frame \<open>G\<close>, which holds no table of these addresses.\<close>

definition virt_range :: "vm \<Rightarrow> u32 \<Rightarrow> nat \<Rightarrow> u32 \<Rightarrow> nat \<Rightarrow> bool" where
  "virt_range st va n pa G \<longleftrightarrow>
     (\<forall>i<n. virt_addr st (va + of_nat i) = Some (pa + of_nat i) \<and> unat (pa + of_nat i) div 4096 = G \<and>
        G \<notin> virt_tables st (va + of_nat i))"

lemma virt_range_Suc:
  assumes "virt_range st va (Suc n) pa G"
  shows "virt_addr st va = Some pa" and "unat pa div 4096 = G" and "virt_range (phys_put pa b st) (va + 1) n (pa + 1) G"
proof -
  show *: "virt_addr st va = Some pa" "unat pa div 4096 = G" using assms by (auto simp: virt_range_def dest: spec [of _ 0])
  show "virt_range (phys_put pa b st) (va + 1) n (pa + 1) G"
    unfolding virt_range_def
  proof (intro allI impI)
    fix i
    assume "i < n"
    then have i: "virt_addr st (va + 1 + of_nat i) = Some (pa + 1 + of_nat i)" "unat (pa + 1 + of_nat i) div 4096 = G"
      "G \<notin> virt_tables st (va + 1 + of_nat i)"
      using assms unfolding virt_range_def by (auto dest!: spec [of _ "Suc i"] simp: algebra_simps)
    have "\<forall>F\<in>virt_tables st (va + 1 + of_nat i). vm_phys (phys_put pa b st) F = vm_phys st F"
      using i(3) *(2) by (intro ballI phys_put_other) auto
    then show "virt_addr (phys_put pa b st) (va + 1 + of_nat i) = Some (pa + 1 + of_nat i) \<and> unat (pa + 1 + of_nat i) div 4096 = G \<and>
        G \<notin> virt_tables (phys_put pa b st) (va + 1 + of_nat i)"
      using i virt_addr_cong [of st _ "phys_put pa b st"] virt_tables_cong [of st _ "phys_put pa b st"] by simp
  qed
qed

lemma virt_write_range:
  assumes "virt_range st va (length bs) pa G" and "length bs \<le> 2 ^ 32"
  shows "\<exists>st'. virt_write va bs st = Some st' \<and> vm_win st' = vm_win st \<and> vmm_current st' = vmm_current st \<and>
    (\<forall>F. F \<noteq> G \<longrightarrow> vm_phys st' F = vm_phys st F) \<and>
    (\<forall>q. phys_get q st' = (if unat (q - pa) < length bs then bs ! unat (q - pa) else phys_get q st))"
  using assms
proof (induction bs arbitrary: va pa st)
  case Nil
  then show ?case by simp
next
  case (Cons b bs)
  have "virt_range st va (Suc (length bs)) pa G" using Cons.prems(1) by simp
  note first = virt_range_Suc [OF this]
  from Cons.IH [OF first(3), of b] Cons.prems(2) obtain st' where st':
    "virt_write (va + 1) bs (phys_put pa b st) = Some st'" "vm_win st' = vm_win st" "vmm_current st' = vmm_current st"
    "\<forall>F. F \<noteq> G \<longrightarrow> vm_phys st' F = vm_phys (phys_put pa b st) F"
    "\<forall>q. phys_get q st' = (if unat (q - (pa + 1)) < length bs then bs ! unat (q - (pa + 1)) else phys_get q (phys_put pa b st))"
    by (simp add: Suc_le_eq) blast
  have "phys_get q st' = (if unat (q - pa) < length (b # bs) then (b # bs) ! unat (q - pa) else phys_get q st)" for q
  proof (cases "q = pa")
    case True
    have "unat (- 1 :: u32) = 4294967295" by (simp add: unsigned_minus_1_eq_mask mask_eq_exp_minus_1)
    then have "\<not> unat (pa - (pa + 1)) < length bs" using Cons.prems(2) by simp
    then show ?thesis using st'(5) True by (simp add: phys_get_put)
  next
    case False
    then have "unat (q - pa) = Suc (unat (q - (pa + 1)))" using unatSuc [of "q - (pa + 1)"] by simp
    then show ?thesis using st'(5) False by (simp add: phys_get_put)
  qed
  then show ?case using first(1,2) st' phys_put_other by (auto simp: first(2) [symmetric])
qed

section \<open>Pages\<close>

lemma unat_drop_12: "unat (drop_bit 12 w) = unat w div 4096" for w :: u32
  by (simp add: drop_bit_eq_div unat_div)

lemma same_page:
  assumes "unat a div 4096 = unat b div 4096"
  shows "pde_of a = pde_of b" and "pte_of a = pte_of b"
proof -
  have "drop_bit 12 a = drop_bit 12 b" using assms by (simp add: word_unat_eq_iff unat_drop_12)
  then show "pde_of a = pde_of b" "pte_of a = pte_of b" using same_page_iff by blast+
qed

lemma take_12: "unat (take_bit 12 w) = unat w mod 4096" for w :: u32
  by (simp add: take_bit_eq_mod unat_mod)

lemma unat_small_addr: "unat (small_addr e a) = e_frame e * 4096 + unat a mod 4096"
proof -
  have "drop_bit 12 (small_addr e a) = drop_bit 12 e"
    by (rule bit_word_eqI) (simp add: bit_small_addr bit_simps)
  then have div: "unat (small_addr e a) div 4096 = e_frame e" by (simp add: e_frame_def flip: unat_drop_12)
  have "take_bit 12 (small_addr e a) = take_bit 12 a"
    by (rule bit_word_eqI) (simp add: bit_small_addr bit_simps)
  then have "unat (small_addr e a) mod 4096 = unat a mod 4096" by (simp flip: take_12)
  then show ?thesis using div div_mult_mod_eq [of "unat (small_addr e a)" 4096] by simp
qed

lemma div_mod_add:
  fixes m i :: nat
  assumes "m mod 4096 + i < 4096"
  shows "(m + i) div 4096 = m div 4096" and "(m + i) mod 4096 = m mod 4096 + i"
proof -
  have "m + i = m mod 4096 + i + m div 4096 * 4096" using div_mult_mod_eq [of m 4096] by linarith
  moreover have "(x + q * 4096) div 4096 = q" "(x + q * 4096) mod 4096 = x" if "x < 4096" for x q :: nat
    using that by simp_all
  ultimately show "(m + i) div 4096 = m div 4096" "(m + i) mod 4096 = m mod 4096 + i" using assms by metis+
qed

section \<open>The page for copying\<close>

text \<open>The page at \<open>dst\<close> is mapped by an entry of the table in frame \<open>pt\<close> of the current address space.\<close>

definition copy_page :: "vm \<Rightarrow> u32 \<Rightarrow> nat \<Rightarrow> bool" where
  "copy_page st dst pt \<longleftrightarrow> dst mod 4096 = 0 \<and> pt \<noteq> pd_frame (vmm_current st) \<and>
     (let d = vm_phys st (pd_frame (vmm_current st)) (pde_of dst) in e_present d \<and> \<not> e_pgsz d \<and> e_frame d = pt) \<and>
     e_present (vm_phys st pt (pte_of dst))"

lemma copy_page_set:
  fixes pa :: u32
  assumes "copy_page st dst pt"
  defines "e \<equiv> put_field 12 20 (drop_bit 12 pa) (vm_phys st pt (pte_of dst))"
  shows "vm_phys (vmm_set_paddr (vmm_current st) dst pa st) = (vm_phys st)(pt := (vm_phys st pt)(pte_of dst := e))"
    and "vmm_current (vmm_set_paddr (vmm_current st) dst pa st) = vmm_current st"
    and "vm_win (vmm_set_paddr (vmm_current st) dst pa st) = vm_win st"
    and "e_frame e = unat pa div 4096" and "e_present e"
proof -
  have direct: "vm_direct (vmm_current st) st" by (simp add: vm_direct_def)
  have d: "vm_phys st (pd_frame (vmm_current st)) (pde_of dst) \<noteq> 0" "vm_phys st pt (pte_of dst) \<noteq> 0"
    using assms(1) by (auto simp: copy_page_def Let_def)
  show "vm_phys (vmm_set_paddr (vmm_current st) dst pa st) = (vm_phys st)(pt := (vm_phys st pt)(pte_of dst := e))"
    "vmm_current (vmm_set_paddr (vmm_current st) dst pa st) = vmm_current st"
    "vm_win (vmm_set_paddr (vmm_current st) dst pa st) = vm_win st"
    using assms(1) d by (simp_all add: vmm_set_paddr_def vm_walk_direct [OF direct] copy_page_def vm_read_def e_def Let_def)
  have "drop_bit 12 e = drop_bit 12 pa" unfolding e_def by (rule bit_word_eqI) (auto simp: bit_simps dest: bit_imp_le_length)
  then show "e_frame e = unat pa div 4096" by (simp add: e_frame_def flip: unat_drop_12)
  show "e_present e" using assms(1) by (simp add: e_def copy_page_def)
qed

text \<open>After the entry is set to the page of \<open>pa\<close>, the bytes of this page from \<open>pa\<close> on are at \<open>dst + pa % 4096\<close>.\<close>

lemma copy_page_range:
  assumes "copy_page st dst pt" and "unat pa mod 4096 + n \<le> 4096" and "unat pa div 4096 \<notin> {pt, pd_frame (vmm_current st)}"
  shows "virt_range (vmm_set_paddr (vmm_current st) dst pa st) (dst + pa mod 4096) n pa (unat pa div 4096)"
  unfolding virt_range_def
proof (intro allI impI)
  fix i
  assume i: "i < n"
  let ?st = "vmm_set_paddr (vmm_current st) dst pa st" and ?va = "dst + pa mod 4096 + of_nat i"
  note set = copy_page_set [OF assms(1), of pa]
  have dst: "unat dst mod 4096 = 0" using assms(1) by (auto simp: copy_page_def unat_eq_0 [symmetric] unat_mod)
  define off where "off = unat pa mod 4096 + i"
  have off_less: "off < 4096" using assms(2) i by (simp add: off_def)
  have "pa mod 4096 = of_nat (unat pa mod 4096)" by (simp add: word_unat_eq_iff unat_mod unat_of_nat_u32)
  then have va: "?va = dst + of_nat off" by (simp add: off_def add.assoc)
  have "unat dst + off < 4294967296"
  proof -
    have "unat dst = unat dst div 4096 * 4096" using dst div_mult_mod_eq [of "unat dst" 4096] by simp
    moreover have "unat dst div 4096 < 1048576" using unat_u32_less [of dst] by (simp add: less_mult_imp_div_less)
    ultimately show ?thesis using off_less by linarith
  qed
  then have uva: "unat ?va = unat dst + off" unfolding va using unat_add_no_wrap [of dst off] by simp
  then have page: "unat ?va div 4096 = unat dst div 4096" "unat ?va mod 4096 = off"
    using dst off_less by (simp_all add: div_add1_eq mod_add_eq [symmetric])
  note same = same_page [OF page(1)]
  have pt: "pt \<noteq> pd_frame (vmm_current st)" using assms(1) by (simp add: copy_page_def)
  have "unat pa + i < 4294967296"
  proof -
    have "unat pa div 4096 < 1048576" using unat_u32_less [of pa] by (simp add: less_mult_imp_div_less)
    then show ?thesis using off_less div_mult_mod_eq [of "unat pa" 4096] unfolding off_def by linarith
  qed
  then have upa: "unat (pa + of_nat i) = unat pa + i" using unat_add_no_wrap [of pa i] by simp
  have upa': "unat pa + i = unat pa div 4096 * 4096 + off" using div_mult_mod_eq [of "unat pa" 4096] unfolding off_def by linarith
  let ?e = "put_field 12 20 (drop_bit 12 pa) (vm_phys st pt (pte_of dst))"
  have addr: "virt_addr ?st ?va = Some (small_addr ?e ?va)"
    using assms(1) set(5) pt by (simp add: virt_addr_def vm_read_def set(1,2) same copy_page_def Let_def)
  have "small_addr ?e ?va = pa + of_nat i"
    unfolding word_unat_eq_iff unat_small_addr set(4) upa upa' page(2) ..
  moreover have "unat (pa + of_nat i) div 4096 = unat pa div 4096" using off_less unfolding upa upa' by simp
  moreover have "virt_tables ?st ?va = {pd_frame (vmm_current st), pt}"
    using assms(1) pt by (simp add: virt_tables_def set(1,2) same copy_page_def Let_def)
  ultimately show "virt_addr ?st ?va = Some (pa + of_nat i) \<and> unat (pa + of_nat i) div 4096 = unat pa div 4096 \<and>
      unat pa div 4096 \<notin> virt_tables ?st ?va"
    using addr assms(3) by auto
qed

section \<open>The copy of a segment\<close>

text \<open>
  The segment at \<open>va\<close>, of \<open>n\<close> bytes, is mapped by tables that the copy does not write: its frames, which are
  different for different pages, hold none of the tables involved, and the entry of the page for copying
  does not map a part of the segment.
\<close>

definition seg_pa :: "vm \<Rightarrow> u32 \<Rightarrow> u32 \<Rightarrow> nat \<Rightarrow> u32" where
  "seg_pa st alloc_vmm va k = ptw (vm_phys st) (pd_frame alloc_vmm) (va + of_nat k)"

definition seg_pde :: "vm \<Rightarrow> u32 \<Rightarrow> u32 \<Rightarrow> nat \<Rightarrow> u32" where
  "seg_pde st alloc_vmm va k = vm_phys st (pd_frame alloc_vmm) (pde_of (va + of_nat k))"

definition seg_frames :: "vm \<Rightarrow> u32 \<Rightarrow> u32 \<Rightarrow> nat \<Rightarrow> nat set" where
  "seg_frames st alloc_vmm va n = (\<lambda>k. unat (seg_pa st alloc_vmm va k) div 4096) ` {..<n}"

definition seg_mapped :: "vm \<Rightarrow> u32 \<Rightarrow> u32 \<Rightarrow> nat \<Rightarrow> u32 \<Rightarrow> nat \<Rightarrow> bool" where
  "seg_mapped st alloc_vmm dst pt va n \<longleftrightarrow>
     vm_direct alloc_vmm st \<and> copy_page st dst pt \<and> unat va + n \<le> 2 ^ 31 \<and>
     {pt, pd_frame (vmm_current st), pd_frame alloc_vmm} \<inter> seg_frames st alloc_vmm va n = {} \<and>
     (\<forall>k<n. seg_pde st alloc_vmm va k \<noteq> 0 \<and> \<not> e_pgsz (seg_pde st alloc_vmm va k) \<and>
        e_frame (seg_pde st alloc_vmm va k) \<notin> seg_frames st alloc_vmm va n \<and>
        (pd_frame alloc_vmm, pde_of (va + of_nat k)) \<noteq> (pt, pte_of dst) \<and>
        (e_frame (seg_pde st alloc_vmm va k), pte_of (va + of_nat k)) \<noteq> (pt, pte_of dst) \<and>
        vm_phys st (e_frame (seg_pde st alloc_vmm va k)) (pte_of (va + of_nat k)) \<noteq> 0) \<and>
     inj_on (seg_pa st alloc_vmm va) {..<n}"

text \<open>
  The state \<open>st'\<close> after the bytes \<open>c 0\<close>, \<open>c 1\<close>, ... up to \<open>c (m - 1)\<close> were copied: only they and the entry of the page for
  copying are different.
\<close>

definition seg_copied :: "vm \<Rightarrow> u32 \<Rightarrow> u32 \<Rightarrow> nat \<Rightarrow> u32 \<Rightarrow> nat \<Rightarrow> (nat \<Rightarrow> u8) \<Rightarrow> nat \<Rightarrow> vm \<Rightarrow> bool" where
  "seg_copied st alloc_vmm dst pt va n c m st' \<longleftrightarrow>
     vm_win st' = vm_win st \<and> vmm_current st' = vmm_current st \<and> e_present (vm_phys st' pt (pte_of dst)) \<and>
     (\<forall>F I. F \<notin> seg_frames st alloc_vmm va n \<longrightarrow> (F, I) \<noteq> (pt, pte_of dst) \<longrightarrow> vm_phys st' F I = vm_phys st F I) \<and>
     (\<forall>k<m. phys_get (seg_pa st alloc_vmm va k) st' = c k)"

lemma seg_copied_stable:
  assumes "seg_mapped st alloc_vmm dst pt va n" and "seg_copied st alloc_vmm dst pt va n c m st'"
  shows "copy_page st' dst pt" and "vm_direct alloc_vmm st'"
    and "k < n \<Longrightarrow> vmm_get_paddr alloc_vmm (va + of_nat k) st' = (seg_pa st alloc_vmm va k, st')"
proof -
  have kept: "vm_phys st' F I = vm_phys st F I" if "F \<notin> seg_frames st alloc_vmm va n" "(F, I) \<noteq> (pt, pte_of dst)" for F I
    using assms(2) that by (simp add: seg_copied_def)
  have fr: "pt \<notin> seg_frames st alloc_vmm va n" "pd_frame (vmm_current st) \<notin> seg_frames st alloc_vmm va n"
    "pd_frame alloc_vmm \<notin> seg_frames st alloc_vmm va n" and page: "copy_page st dst pt"
    using assms(1) by (auto simp: seg_mapped_def)
  have same: "vm_win st' = vm_win st" "vmm_current st' = vmm_current st" "e_present (vm_phys st' pt (pte_of dst))"
    using assms(2) by (simp_all add: seg_copied_def)
  show "copy_page st' dst pt"
    using page same kept [OF fr(2)] by (auto simp: copy_page_def Let_def)
  show direct: "vm_direct alloc_vmm st'" using assms(1) same by (simp add: seg_mapped_def vm_direct_def)
  assume k: "k < n"
  let ?d = "seg_pde st alloc_vmm va k"
  have d: "e_frame ?d \<notin> seg_frames st alloc_vmm va n" "(e_frame ?d, pte_of (va + of_nat k)) \<noteq> (pt, pte_of dst)"
    "(pd_frame alloc_vmm, pde_of (va + of_nat k)) \<noteq> (pt, pte_of dst)"
    using assms(1) k unfolding seg_mapped_def by blast+
  have "vm_phys st' (pd_frame alloc_vmm) (pde_of (va + of_nat k)) = vm_phys st (pd_frame alloc_vmm) (pde_of (va + of_nat k))"
    by (rule kept [OF fr(3) d(3)])
  moreover have "vm_phys st' (e_frame ?d) (pte_of (va + of_nat k)) = vm_phys st (e_frame ?d) (pte_of (va + of_nat k))"
    by (rule kept [OF d(1,2)])
  ultimately show "vmm_get_paddr alloc_vmm (va + of_nat k) st' = (seg_pa st alloc_vmm va k, st')"
    by (simp add: vmm_get_paddr_ptw [OF direct] seg_pa_def ptw_def seg_pde_def Let_def)
qed

text \<open>Within a page, physical addresses follow each other.\<close>

lemma seg_pa_page:
  assumes "seg_mapped st alloc_vmm dst pt va n" and "k < n"
  shows "unat (seg_pa st alloc_vmm va k) mod 4096 = (unat va + k) mod 4096"
    and "k + i < n \<Longrightarrow> (unat va + k) mod 4096 + i < 4096 \<Longrightarrow> seg_pa st alloc_vmm va (k + i) = seg_pa st alloc_vmm va k + of_nat i"
proof -
  have no_wrap: "unat (va + of_nat j) = unat va + j" if "j < n" for j
    using assms(1) that unat_add_no_wrap [of va j] by (simp add: seg_mapped_def)
  have pa: "seg_pa st alloc_vmm va j =
      small_addr (vm_phys st (e_frame (seg_pde st alloc_vmm va j)) (pte_of (va + of_nat j))) (va + of_nat j)" if "j < n" for j
    using assms(1) that by (simp add: seg_mapped_def seg_pa_def seg_pde_def ptw_def Let_def)
  show mod: "unat (seg_pa st alloc_vmm va k) mod 4096 = (unat va + k) mod 4096"
    using pa [OF assms(2)] no_wrap [OF assms(2)] by (simp add: unat_small_addr)
  assume i: "k + i < n" "(unat va + k) mod 4096 + i < 4096"
  have "(unat va + (k + i)) div 4096 = (unat va + k) div 4096" "(unat va + (k + i)) mod 4096 = (unat va + k) mod 4096 + i"
    using div_mod_add [OF i(2)] by (simp_all only: add.assoc)
  then have same: "unat (va + of_nat (k + i)) div 4096 = unat (va + of_nat k) div 4096"
    "unat (va + of_nat (k + i)) mod 4096 = unat (va + of_nat k) mod 4096 + i"
    using no_wrap [OF i(1)] no_wrap [OF assms(2)] by simp_all
  let ?e = "vm_phys st (e_frame (seg_pde st alloc_vmm va k)) (pte_of (va + of_nat k))"
  have ki: "seg_pa st alloc_vmm va (k + i) = small_addr ?e (va + of_nat (k + i))"
    unfolding pa [OF i(1)] seg_pde_def same_page [OF same(1)] ..
  have u: "unat (seg_pa st alloc_vmm va (k + i)) = unat (seg_pa st alloc_vmm va k) + i"
    unfolding ki pa [OF assms(2)] unat_small_addr same(2) by simp
  then have "unat (seg_pa st alloc_vmm va k) + i < 4294967296" using unat_u32_less [of "seg_pa st alloc_vmm va (k + i)"] by simp
  then show "seg_pa st alloc_vmm va (k + i) = seg_pa st alloc_vmm va k + of_nat i"
    unfolding word_unat_eq_iff u by (simp add: unat_add_no_wrap)
qed

lemma virt_write_append:
  "virt_write va (xs @ ys) st = Option.bind (virt_write va xs st) (virt_write (va + of_nat (length xs)) ys)"
  by (induction xs arbitrary: va st) (auto simp: algebra_simps split: bind_splits)

text \<open>One turn of the loop, for \<open>s\<close> bytes.\<close>

lemma seg_copy_step:
  assumes "seg_mapped st alloc_vmm dst pt va n" and "seg_copied st alloc_vmm dst pt va n c m st'"
    and "m < n" and "m + s \<le> n" and "(unat va + m) mod 4096 + s \<le> 4096"
  defines "pa \<equiv> seg_pa st alloc_vmm va m"
  shows "\<exists>st2. virt_write (dst + pa mod 4096) (map c [m..<m + s]) (vmm_set_paddr (vmm_current st') dst pa st') = Some st2 \<and>
    seg_copied st alloc_vmm dst pt va n c (m + s) st2"
proof -
  note mapped = assms(1) [unfolded seg_mapped_def] and copied = assms(2) [unfolded seg_copied_def]
  have page: "copy_page st' dst pt" by (rule seg_copied_stable(1) [OF assms(1,2)])
  note set = copy_page_set [OF page, of pa]
  let ?st1 = "vmm_set_paddr (vmm_current st') dst pa st'" and ?G = "unat pa div 4096"
  have G: "?G \<in> seg_frames st alloc_vmm va n" using assms(3) by (simp add: seg_frames_def pa_def)
  then have apart: "?G \<notin> {pt, pd_frame (vmm_current st')}" using mapped copied by auto
  have "unat pa mod 4096 + s \<le> 4096" using seg_pa_page(1) [OF assms(1,3)] assms(5) by (simp add: pa_def)
  from copy_page_range [OF page this apart]
  have "virt_range ?st1 (dst + pa mod 4096) (length (map c [m..<m + s])) pa ?G" by simp
  from virt_write_range [OF this] assms(5) obtain st2 where st2:
    "virt_write (dst + pa mod 4096) (map c [m..<m + s]) ?st1 = Some st2"
    "vm_win st2 = vm_win ?st1" "vmm_current st2 = vmm_current ?st1" "\<forall>F. F \<noteq> ?G \<longrightarrow> vm_phys st2 F = vm_phys ?st1 F"
    "\<forall>q. phys_get q st2 = (if unat (q - pa) < s then c (m + unat (q - pa)) else phys_get q ?st1)"
    by (auto simp del: upt_Suc)
  have next_pa: "seg_pa st alloc_vmm va (m + i) = pa + of_nat i" if "i < s" for i
    unfolding pa_def using seg_pa_page(2) [OF assms(1,3), of i] that assms(4,5) by simp
  have "phys_get (seg_pa st alloc_vmm va k) st2 = c k" if k: "k < m + s" for k
  proof (cases "unat (seg_pa st alloc_vmm va k - pa) < s")
    case True
    let ?i = "unat (seg_pa st alloc_vmm va k - pa)"
    have "seg_pa st alloc_vmm va (m + ?i) = seg_pa st alloc_vmm va k" using next_pa [OF True] by simp
    then have "m + ?i = k" using mapped k True assms(4) by (auto simp: inj_on_def)
    then show ?thesis using st2(5) True by simp
  next
    case False
    have "k < m"
    proof (rule ccontr)
      assume "\<not> k < m"
      then obtain i where i: "k = m + i" by (auto simp: not_less le_iff_add)
      then have "i < s" using k by simp
      then have "unat (seg_pa st alloc_vmm va k - pa) = i" using next_pa [of i] i assms(5) by (simp add: unat_of_nat_u32)
      then show False using False \<open>i < s\<close> by simp
    qed
    have "unat (seg_pa st alloc_vmm va k) div 4096 \<in> seg_frames st alloc_vmm va n" using \<open>k < m\<close> assms(3) by (auto simp: seg_frames_def)
    then have "unat (seg_pa st alloc_vmm va k) div 4096 \<noteq> pt" using mapped by auto
    then have "phys_get (seg_pa st alloc_vmm va k) ?st1 = phys_get (seg_pa st alloc_vmm va k) st'"
      by (simp add: phys_get_def vm_read_def set(1))
    then show ?thesis using st2(5) False copied \<open>k < m\<close> by simp
  qed
  moreover have "vm_phys st2 pt = vm_phys ?st1 pt" using st2(4) apart by auto
  then have "e_present (vm_phys st2 pt (pte_of dst))" using set(1,5) by simp
  moreover have "vm_phys st2 F I = vm_phys st F I" if "F \<notin> seg_frames st alloc_vmm va n" "(F, I) \<noteq> (pt, pte_of dst)" for F I
  proof -
    have "F \<noteq> ?G" using that(1) G by metis
    then have "vm_phys st2 F = vm_phys ?st1 F" using st2(4) by simp
    moreover have "vm_phys ?st1 F I = vm_phys st' F I" using that(2) by (auto simp: set(1))
    ultimately show ?thesis using copied that by simp
  qed
  ultimately show ?thesis using st2(1-3) set(2,3) copied by (auto simp: seg_copied_def)
qed

text \<open>The sizes of one turn.\<close>

lemma phdr_chunk_size:
  assumes "m < unat (p_memsz ph)" and "unat (p_memsz ph) \<le> 2 ^ 31"
  shows "unat (phdr_chunk ph (of_nat m) pa) = min (4096 - unat pa mod 4096) (unat (p_memsz ph) - m)"
proof -
  have pg: "unat (4096 - pa mod 4096) = 4096 - unat pa mod 4096"
    by (subst unat_sub) (simp_all add: unat_mod word_le_nat_alt mod_less_divisor less_imp_le)
  have m: "unat (of_nat m :: u32) = m" using assms by (simp add: unat_of_nat_u32)
  have sum: "unat (of_nat m + (4096 - pa mod 4096) :: u32) = m + (4096 - unat pa mod 4096)"
    using assms pg m by (simp add: unat_word_ariths)
  have rest: "unat (p_memsz ph - of_nat m) = unat (p_memsz ph) - m"
    using assms(1) m by (subst unat_sub) (simp_all add: word_le_nat_alt)
  show ?thesis
    using assms(1) by (auto simp: phdr_chunk_def Let_def word_less_nat_alt sum pg rest)
qed

lemma phdr_split_size:
  assumes "m + unat s \<le> 2 ^ 31"
  shows "unat (fst (phdr_split ph (of_nat m) s)) = min (unat s) (unat (p_filesz ph) - m)"
    and "unat (snd (phdr_split ph (of_nat m) s)) = unat s - min (unat s) (unat (p_filesz ph) - m)"
proof -
  have m: "unat (of_nat m :: u32) = m" using assms by (simp add: unat_of_nat_u32)
  have sum: "unat (of_nat m + s) = m + unat s" using assms m by (simp add: unat_word_ariths)
  have rest: "unat (p_filesz ph - of_nat m) = unat (p_filesz ph) - m" if "m < unat (p_filesz ph)"
    using that m by (subst unat_sub) (simp_all add: word_le_nat_alt)
  have clear: "unat (s - (p_filesz ph - of_nat m)) = unat s - (unat (p_filesz ph) - m)"
    if "m < unat (p_filesz ph)" "unat (p_filesz ph) < m + unat s"
    using that rest by (subst unat_sub) (simp_all add: word_le_nat_alt)
  consider "unat (p_filesz ph) \<le> m" | "m < unat (p_filesz ph)" "m + unat s \<le> unat (p_filesz ph)"
    | "m < unat (p_filesz ph)" "unat (p_filesz ph) < m + unat s"
    by linarith
  then have "unat (fst (phdr_split ph (of_nat m) s)) = min (unat s) (unat (p_filesz ph) - m) \<and>
      unat (snd (phdr_split ph (of_nat m) s)) = unat s - min (unat s) (unat (p_filesz ph) - m)"
  proof cases
    case 1
    then show ?thesis by (simp add: phdr_split_def word_le_nat_alt m)
  next
    case 2
    then show ?thesis by (simp add: phdr_split_def word_le_nat_alt m sum)
  next
    case 3
    then show ?thesis by (simp add: phdr_split_def word_le_nat_alt m sum rest clear)
  qed
  then show "unat (fst (phdr_split ph (of_nat m) s)) = min (unat s) (unat (p_filesz ph) - m)"
    "unat (snd (phdr_split ph (of_nat m) s)) = unat s - min (unat s) (unat (p_filesz ph) - m)" by simp_all
qed

text \<open>
  The contents of a segment: the file's bytes from the offset of the segment on, and zeros behind them. The file delivers
  every byte it is asked for up to \<open>p_filesz\<close>.
\<close>

definition seg_byte :: "elf32_phdr \<Rightarrow> (nat \<Rightarrow> u8) \<Rightarrow> nat \<Rightarrow> u8" where
  "seg_byte ph content k = (if k < unat (p_filesz ph) then content k else 0)"

definition file_holds :: "elf_file \<Rightarrow> elf32_phdr \<Rightarrow> (nat \<Rightarrow> u8) \<Rightarrow> bool" where
  "file_holds f ph content \<longleftrightarrow>
     (\<forall>m n. m + n \<le> unat (p_filesz ph) \<longrightarrow> elf_bytes f (p_offset ph + of_nat m) (of_nat n) = map content [m..<m + n])"

lemma seg_bytes_split:
  assumes "r = min s (unat (p_filesz ph) - m)"
  shows "map (seg_byte ph content) [m..<m + s] = map content [m..<m + r] @ replicate (s - r) 0"
proof (rule nth_equalityI)
  fix i
  assume "i < length (map (seg_byte ph content) [m..<m + s])"
  then have "i < s" by simp
  moreover have "i < r \<longleftrightarrow> m + i < unat (p_filesz ph)" using calculation assms by linarith
  moreover have "\<not> i < r \<Longrightarrow> i - r < s - r" using calculation(1) by linarith
  ultimately show "map (seg_byte ph content) [m..<m + s] ! i = (map content [m..<m + r] @ replicate (s - r) 0) ! i"
    by (simp add: nth_append seg_byte_def)
qed (use assms in simp)

lemma elf_bytes_empty [simp]: "elf_bytes f p 0 = []"
  by (simp add: elf_bytes_def)

lemma seg_copy_loop:
  assumes "seg_mapped st alloc_vmm dst pt (p_vaddr ph) (unat (p_memsz ph))" and "file_holds f ph content"
    and "seg_copied st alloc_vmm dst pt (p_vaddr ph) (unat (p_memsz ph)) (seg_byte ph content) m st'" and "m \<le> unat (p_memsz ph)"
  shows "\<exists>st2. phdr_copy f alloc_vmm dst ph (of_nat m) st' = Some st2 \<and>
    seg_copied st alloc_vmm dst pt (p_vaddr ph) (unat (p_memsz ph)) (seg_byte ph content) (unat (p_memsz ph)) st2"
  using assms(3,4)
proof (induction "unat (p_memsz ph) - m" arbitrary: m st' rule: less_induct)
  case less
  let ?n = "unat (p_memsz ph)"
  have n: "?n \<le> 2 ^ 31" using assms(1) by (simp add: seg_mapped_def)
  have um: "unat (of_nat m :: u32) = m" using less.prems(2) n by (simp add: unat_of_nat_u32)
  show ?case
  proof (cases "m < ?n")
    case False
    then show ?thesis
      using less.prems um by (subst phdr_copy.simps) (auto simp: word_less_nat_alt)
  next
    case True
    define pa where "pa = seg_pa st alloc_vmm (p_vaddr ph) m"
    define s where "s = phdr_chunk ph (of_nat m) pa"
    define r where "r = min (unat s) (unat (p_filesz ph) - m)"
    have pa_mod: "unat pa mod 4096 = (unat (p_vaddr ph) + m) mod 4096"
      unfolding pa_def by (rule seg_pa_page(1) [OF assms(1) True])
    have us: "unat s = min (4096 - unat pa mod 4096) (?n - m)"
      unfolding s_def by (rule phdr_chunk_size [OF True n])
    have "unat pa mod 4096 < 4096" by simp
    then have s: "0 < unat s" "m + unat s \<le> ?n" "unat pa mod 4096 + unat s \<le> 4096" using us True by linarith+
    obtain sz_read sz_set where sz: "phdr_split ph (of_nat m) s = (sz_read, sz_set)" by (cases "phdr_split ph (of_nat m) s")
    have "m + unat s \<le> 2 ^ 31" using s(2) n by linarith
    from phdr_split_size [OF this, of ph] sz have rd: "unat sz_read = r" "unat sz_set = unat s - r" by (simp_all add: r_def)
    have read: "of_nat r = sz_read" unfolding rd(1) [symmetric] by simp
    have bs: "elf_bytes f (p_offset ph + of_nat m) sz_read = map content [m..<m + r]"
    proof (cases "r = 0")
      case True
      then have "sz_read = 0" using rd(1) by (simp add: unat_eq_0)
      then show ?thesis using True by simp
    next
      case False
      have "m + r \<le> unat (p_filesz ph)" using False r_def by linarith
      then show ?thesis using assms(2) unfolding file_holds_def read [symmetric] by blast
    qed
    have bytes: "map (seg_byte ph content) [m..<m + unat s] = elf_bytes f (p_offset ph + of_nat m) sz_read @ replicate (unat sz_set) 0"
      unfolding bs rd(2) by (rule seg_bytes_split [OF r_def])
    have len: "of_nat (length (elf_bytes f (p_offset ph + of_nat m) sz_read)) = sz_read"
      unfolding bs by (simp add: read)
    have fit: "(unat (p_vaddr ph) + m) mod 4096 + unat s \<le> 4096" using s(3) pa_mod by simp
    from seg_copy_step [OF assms(1) less.prems(1) True s(2) fit] obtain st2 where st2:
      "virt_write (dst + pa mod 4096) (map (seg_byte ph content) [m..<m + unat s]) (vmm_set_paddr (vmm_current st') dst pa st') = Some st2"
      "seg_copied st alloc_vmm dst pt (p_vaddr ph) ?n (seg_byte ph content) (m + unat s) st2"
      unfolding pa_def by blast
    obtain st1 where st1: "virt_write (dst + pa mod 4096) (elf_bytes f (p_offset ph + of_nat m) sz_read) (vmm_set_paddr (vmm_current st') dst pa st') = Some st1"
      "virt_write (dst + pa mod 4096 + sz_read) (replicate (unat sz_set) 0) st1 = Some st2"
      using st2(1) unfolding bytes virt_write_append len by (auto simp: bind_eq_Some_conv)
    have next_off: "of_nat m + s = of_nat (m + unat s)" by simp
    have "?n - (m + unat s) < ?n - m" using s True by linarith
    from less.hyps [OF this st2(2) s(2)] obtain st3 where st3: "phdr_copy f alloc_vmm dst ph (of_nat (m + unat s)) st2 = Some st3"
      "seg_copied st alloc_vmm dst pt (p_vaddr ph) ?n (seg_byte ph content) ?n st3" by blast
    have get: "vmm_get_paddr alloc_vmm (p_vaddr ph + of_nat m) st' = (pa, st')"
      unfolding pa_def by (rule seg_copied_stable(3) [OF assms(1) less.prems(1) True])
    have "(of_nat m :: u32) < p_memsz ph" using True um by (simp add: word_less_nat_alt)
    then have "phdr_copy f alloc_vmm dst ph (of_nat m) st' = phdr_copy f alloc_vmm dst ph (of_nat m + s) st2"
      by (subst phdr_copy.simps) (simp add: get sz s_def [symmetric] st1)
    then show ?thesis using st3 unfolding next_off by simp
  qed
qed

text \<open>
  C26: the copy of a segment of an executable returns, and then every byte of the segment in the physical memory behind
  its addresses is that of the file, or 0 behind the part that the file has; nothing else changes in
  the physical memory but the page table entry that maps the page for copying. The segment has to be mapped to different
  frames that hold no tables, and the file has to deliver the bytes it is asked for.
\<close>

theorem phdr_copy_segment:
  assumes "seg_mapped st alloc_vmm dst pt (p_vaddr ph) (unat (p_memsz ph))" and "file_holds f ph content"
  shows "\<exists>st'. phdr_copy f alloc_vmm dst ph 0 st = Some st' \<and>
    (\<forall>k<unat (p_memsz ph). vmm_get_paddr alloc_vmm (p_vaddr ph + of_nat k) st' = (seg_pa st alloc_vmm (p_vaddr ph) k, st') \<and>
       phys_get (seg_pa st alloc_vmm (p_vaddr ph) k) st' = (if k < unat (p_filesz ph) then content k else 0)) \<and>
    (\<forall>F I. F \<notin> seg_frames st alloc_vmm (p_vaddr ph) (unat (p_memsz ph)) \<longrightarrow> (F, I) \<noteq> (pt, pte_of dst) \<longrightarrow> vm_phys st' F I = vm_phys st F I)"
proof -
  have "seg_copied st alloc_vmm dst pt (p_vaddr ph) (unat (p_memsz ph)) (seg_byte ph content) 0 st"
    using assms(1) by (simp add: seg_copied_def seg_mapped_def copy_page_def)
  from seg_copy_loop [OF assms this] obtain st' where st': "phdr_copy f alloc_vmm dst ph 0 st = Some st'"
    "seg_copied st alloc_vmm dst pt (p_vaddr ph) (unat (p_memsz ph)) (seg_byte ph content) (unat (p_memsz ph)) st'" by auto
  then show ?thesis
    using seg_copied_stable(3) [OF assms(1) st'(2)] by (auto simp: seg_copied_def seg_byte_def)
qed

section \<open>Relocations\<close>

primrec le_word :: "u8 list \<Rightarrow> u32" where
  "le_word [] = 0"
| "le_word (b # bs) = ucast b OR push_bit 8 (le_word bs)"

lemma le_word_bytes: "le_word (le_bytes n w) = take_bit (8 * n) w"
proof (induction n arbitrary: w)
  case 0
  then show ?case by simp
next
  case (Suc n)
  show ?case
    by (rule bit_word_eqI) (auto simp: Suc bit_simps dest: bit_imp_le_length)
qed

lemma length_le_bytes [simp]: "length (le_bytes n w) = n"
  by (induction n arbitrary: w) simp_all

lemma virt_load_range:
  assumes "virt_range st va n pa G"
  shows "virt_load n va st = Some (le_word (map (\<lambda>i. phys_get (pa + of_nat i) st) [0..<n]))"
  using assms
proof (induction n arbitrary: va pa)
  case 0
  then show ?case by simp
next
  case (Suc n)
  have tail: "virt_range st (va + 1) n (pa + 1) G"
    unfolding virt_range_def
  proof (intro allI impI)
    fix i
    assume "i < n"
    then show "virt_addr st (va + 1 + of_nat i) = Some (pa + 1 + of_nat i) \<and> unat (pa + 1 + of_nat i) div 4096 = G \<and>
        G \<notin> virt_tables st (va + 1 + of_nat i)"
      using Suc.prems unfolding virt_range_def by (auto dest!: spec [of _ "Suc i"] simp: algebra_simps)
  qed
  have "map (\<lambda>i. phys_get (pa + of_nat i) st) [0..<Suc n] = phys_get pa st # map (\<lambda>i. phys_get (pa + 1 + of_nat i) st) [0..<n]"
    by (simp add: upt_conv_Cons map_Suc_upt [symmetric] comp_def algebra_simps del: upt_Suc)
  then show ?case
    using Suc.IH [OF tail] virt_range_Suc(1) [OF Suc.prems] by (simp add: virt_get_def del: upt_Suc)
qed

lemma virt_store_range:
  assumes "virt_range st va n pa G" and "n \<le> 4"
  shows "\<exists>st'. virt_store n va w st = Some st' \<and> virt_load n va st' = Some (take_bit (8 * n) w) \<and> (\<forall>F. F \<noteq> G \<longrightarrow> vm_phys st' F = vm_phys st F)"
proof -
  from virt_write_range [of st va "le_bytes n w" pa G] assms obtain st' where st':
    "virt_write va (le_bytes n w) st = Some st'" "vmm_current st' = vmm_current st" "\<forall>F. F \<noteq> G \<longrightarrow> vm_phys st' F = vm_phys st F"
    "\<forall>q. phys_get q st' = (if unat (q - pa) < n then le_bytes n w ! unat (q - pa) else phys_get q st)" by auto
  have "virt_range st' va n pa G"
    unfolding virt_range_def
  proof (intro allI impI)
    fix i
    assume "i < n"
    then have i: "virt_addr st (va + of_nat i) = Some (pa + of_nat i)" "unat (pa + of_nat i) div 4096 = G" "G \<notin> virt_tables st (va + of_nat i)"
      using assms(1) by (simp_all add: virt_range_def)
    have "\<forall>F\<in>virt_tables st (va + of_nat i). vm_phys st' F = vm_phys st F" using i(3) st'(3) by auto
    from virt_addr_cong [OF this st'(2)] virt_tables_cong [OF this st'(2)] i
    show "virt_addr st' (va + of_nat i) = Some (pa + of_nat i) \<and> unat (pa + of_nat i) div 4096 = G \<and> G \<notin> virt_tables st' (va + of_nat i)"
      by simp
  qed
  from virt_load_range [OF this]
  have "virt_load n va st' = Some (le_word (map (\<lambda>i. phys_get (pa + of_nat i) st') [0..<n]))" .
  moreover have "map (\<lambda>i. phys_get (pa + of_nat i) st') [0..<n] = le_bytes n w"
    by (rule nth_equalityI) (use st'(4) assms(2) in \<open>simp_all add: unat_of_nat_u32\<close>)
  ultimately show ?thesis using st'(1,3) by (simp add: virt_store_def le_word_bytes)
qed

text \<open>
  C27: relocations of 32 bits, at an address whose word \<open>w\<close> is mapped: afterwards the word is \<open>S + A\<close> for \<open>R_386_32\<close>; for
  \<open>R_386_PC32\<close> it is the distance from the place to \<open>S + A\<close>, where \<open>A\<close> is the word plus the explicit
  addend; for \<open>R_386_JMP_SLOT\<close> the word before does not count, but the explicit addend does: the word is \<open>S\<close> plus the
  addend, where the comments in elf.c and elf_reloc.h say \<open>S\<close>, which agrees only for the addend 0. Types that
  are not supported leave the memory as it is. No other frame is written.
\<close>

theorem reloc_386_word:
  assumes "virt_range st ref 4 pa G" and "virt_load 4 ref st = Some w"
  shows "\<exists>st1 st2 st7.
    reloc_386 1 s a ref st = Some st1 \<and> virt_load 4 ref st1 = Some (s + (w + a)) \<and> (\<forall>F. F \<noteq> G \<longrightarrow> vm_phys st1 F = vm_phys st F) \<and>
    reloc_386 2 s a ref st = Some st2 \<and> map_option (\<lambda>v. ref + v) (virt_load 4 ref st2) = Some (s + (w + a)) \<and> (\<forall>F. F \<noteq> G \<longrightarrow> vm_phys st2 F = vm_phys st F) \<and>
    reloc_386 7 s a ref st = Some st7 \<and> virt_load 4 ref st7 = Some (s + a) \<and> (\<forall>F. F \<noteq> G \<longrightarrow> vm_phys st7 F = vm_phys st F) \<and>
    (\<forall>t. t \<notin> {1, 2, 5, 7, 20, 21, 22, 23} \<longrightarrow> reloc_386 t s a ref st = Some st)"
proof -
  have "take_bit 32 x = x" for x :: u32 by (rule take_bit_word_eq_self) simp
  then have store: "\<exists>st'. virt_store 4 ref x st = Some st' \<and> virt_load 4 ref st' = Some x \<and> (\<forall>F. F \<noteq> G \<longrightarrow> vm_phys st' F = vm_phys st F)" for x
    using virt_store_range [OF assms(1), of x] by simp
  from store [of "s + w + a"] obtain st1 where st1: "virt_store 4 ref (s + w + a) st = Some st1" "virt_load 4 ref st1 = Some (s + w + a)"
    "\<forall>F. F \<noteq> G \<longrightarrow> vm_phys st1 F = vm_phys st F" by auto
  from store [of "s + w - ref + a"] obtain st2 where st2: "virt_store 4 ref (s + w - ref + a) st = Some st2"
    "virt_load 4 ref st2 = Some (s + w - ref + a)" "\<forall>F. F \<noteq> G \<longrightarrow> vm_phys st2 F = vm_phys st F" by auto
  from store [of "s + a"] obtain st7 where st7: "virt_store 4 ref (s + a) st = Some st7" "virt_load 4 ref st7 = Some (s + a)"
    "\<forall>F. F \<noteq> G \<longrightarrow> vm_phys st7 F = vm_phys st F" by auto
  have "reloc_386 1 s a ref st = Some st1" "reloc_386 2 s a ref st = Some st2" "reloc_386 7 s a ref st = Some st7"
    using assms(2) st1(1) st2(1) st7(1) by (simp_all add: reloc_386_def)
  moreover have "\<forall>t. t \<notin> {1, 2, 5, 7, 20, 21, 22, 23} \<longrightarrow> reloc_386 t s a ref st = Some st" by (simp add: reloc_386_def)
  ultimately show ?thesis using st1(2,3) st2(2,3) st7(2,3) by (auto simp: add.assoc)
qed

section \<open>Frames that are lost\<close>

text \<open>
  When the memory for a section runs out after \<open>j\<close> pages, only the frame of the first page is freed; the
  frames of the others stay marked as used although nothing refers to them any more.
\<close>

lemma rel_free_first_only:
  assumes "vm_direct alloc_vmm st" and "F \<noteq> unat (ptw (vm_phys st) (pd_frame alloc_vmm) va div 4096)"
  shows "pmm_used (vm_pmm ((rel_free alloc_vmm va ^^ j) st)) F = pmm_used (vm_pmm st) F"
proof -
  have "vm_direct alloc_vmm ((rel_free alloc_vmm va ^^ j) st) \<and> vm_phys ((rel_free alloc_vmm va ^^ j) st) = vm_phys st \<and>
      pmm_used (vm_pmm ((rel_free alloc_vmm va ^^ j) st)) F = pmm_used (vm_pmm st) F"
  proof (induction j)
    case 0
    then show ?case using assms(1) by simp
  next
    case (Suc j)
    then show ?case using assms(2) by (simp add: rel_free_def vmm_get_paddr_ptw vm_direct_def)
  qed
  then show ?thesis by simp
qed

section \<open>A concrete segment\<close>

text \<open>
  Frame 1 is the directory, frame 2 the table of the first 4M: \<open>0x10000\<close> and \<open>0x11000\<close> are in frames 5 and 6, the
  page for copying is at \<open>0x20000\<close>. The segment of four bytes lies across the two pages; three bytes are
  in the file.
\<close>

definition elf_vm :: vm where
  "elf_vm = vm_example\<lparr>vm_phys := (\<lambda>f i. if f = 1 \<and> i = 0 then 0x2003
     else if f = 2 then (if i = 0x10 then 0x5003 else if i = 0x11 then 0x6003 else if i = 0x20 then 3 else 0) else 0)\<rparr>"

definition elf_ph :: elf32_phdr where
  "elf_ph = \<lparr>p_type = 1, p_offset = 0, p_vaddr = 0x10FFE, p_filesz = 3, p_memsz = 4, p_flags = 6\<rparr>"

definition elf_ex :: elf_file where
  "elf_ex = \<lparr>ef_read = (\<lambda>off n. map (\<lambda>i. of_nat (i + 1)) [unat off..<unat off + unat n]), ef_junk = (\<lambda>_ _ _. 0)\<rparr>"

lemma all_4: "(\<forall>k<4. P k) \<longleftrightarrow> P 0 \<and> P 1 \<and> P 2 \<and> P (3 :: nat)"
  by (auto simp: numeral_eq_Suc less_Suc_eq)

lemma elf_vm_pa:
  "seg_pa elf_vm 0x1000 0x10FFE 0 = 0x5FFE" "seg_pa elf_vm 0x1000 0x10FFE 1 = 0x5FFF"
  "seg_pa elf_vm 0x1000 0x10FFE 2 = 0x6000" "seg_pa elf_vm 0x1000 0x10FFE 3 = 0x6001"
  by code_simp+

lemma elf_vm_frames: "seg_frames elf_vm 0x1000 0x10FFE 4 = {5, 6}"
proof -
  have "{..<4} = {0, 1, 2, 3 :: nat}" by auto
  then show ?thesis by (simp add: seg_frames_def elf_vm_pa del: One_nat_def)
qed

lemma elf_vm_mapped: "seg_mapped elf_vm 0x1000 0x20000 2 0x10FFE 4"
proof -
  have "copy_page elf_vm 0x20000 2" by code_simp
  moreover have "vm_direct 0x1000 elf_vm" by code_simp
  moreover have "vmm_current elf_vm = 0x1000" "pd_frame 0x1000 = 1" by code_simp+
  moreover have "\<forall>k<4. seg_pde elf_vm 0x1000 0x10FFE k \<noteq> 0 \<and> \<not> e_pgsz (seg_pde elf_vm 0x1000 0x10FFE k) \<and>
      e_frame (seg_pde elf_vm 0x1000 0x10FFE k) = 2 \<and> (1, pde_of (0x10FFE + of_nat k)) \<noteq> (2 :: nat, pte_of 0x20000) \<and>
      (2, pte_of (0x10FFE + of_nat k)) \<noteq> (2 :: nat, pte_of 0x20000) \<and> vm_phys elf_vm 2 (pte_of (0x10FFE + of_nat k)) \<noteq> 0"
    unfolding all_4 by code_simp
  moreover have "inj_on (seg_pa elf_vm 0x1000 0x10FFE) {..<4}"
  proof -
    have "{..<4} = {0, 1, 2, 3 :: nat}" by auto
    then show ?thesis by (simp add: elf_vm_pa del: One_nat_def)
  qed
  ultimately show ?thesis by (auto simp: seg_mapped_def elf_vm_frames)
qed

theorem phdr_copy_segment_witness:
  "\<exists>st. phdr_copy elf_ex 0x1000 0x20000 elf_ph 0 elf_vm = Some st \<and> phys_get 0x6000 st = 3 \<and> phys_get 0x6001 st = 0"
proof -
  have ph: "p_vaddr elf_ph = 0x10FFE" "unat (p_memsz elf_ph) = 4" "unat (p_filesz elf_ph) = 3" by (simp_all add: elf_ph_def)
  have "elf_bytes elf_ex (p_offset elf_ph + of_nat m) (of_nat n) = map (\<lambda>i. of_nat (i + 1)) [m..<m + n]" if "m + n \<le> 3" for m n
  proof -
    have "unat (of_nat m :: u32) = m" "unat (of_nat n :: u32) = n" using that by (simp_all add: unat_of_nat_u32)
    then show ?thesis by (simp add: elf_bytes_def elf_ex_def elf_ph_def)
  qed
  then have "file_holds elf_ex elf_ph (\<lambda>i. of_nat (i + 1))" unfolding file_holds_def ph by blast
  from phdr_copy_segment [of elf_vm "0x1000" "0x20000" 2 elf_ph, unfolded ph, OF elf_vm_mapped this] obtain st where
    st: "phdr_copy elf_ex 0x1000 0x20000 elf_ph 0 elf_vm = Some st"
    "\<forall>k<4. phys_get (seg_pa elf_vm 0x1000 0x10FFE k) st = (if k < 3 then of_nat (k + 1) else 0)"
    unfolding ph by blast
  from st(2) show ?thesis using st(1) unfolding all_4 elf_vm_pa by simp
qed

text \<open>A word of the first page.\<close>

lemma elf_vm_word:
  "virt_range elf_vm 0x10100 4 0x5100 5" "virt_load 4 0x10100 elf_vm = Some 0"
proof -
  have "\<forall>i<4. virt_addr elf_vm (0x10100 + of_nat i) = Some (0x5100 + of_nat i)" unfolding all_4 by code_simp
  moreover have frame: "\<forall>i<4. unat (0x5100 + of_nat i :: u32) div 4096 = 5" unfolding all_4 by simp
  moreover have "\<forall>i<4. e_frame (vm_phys elf_vm 1 (pde_of (0x10100 + of_nat i))) = 2" unfolding all_4 by code_simp
  moreover have "pd_frame (vmm_current elf_vm) = 1" by code_simp
  ultimately show range: "virt_range elf_vm 0x10100 4 0x5100 5" unfolding virt_range_def virt_tables_def by simp
  have "phys_get pa elf_vm = 0" if "unat pa div 4096 = 5" for pa
    using that by (simp add: phys_get_def vm_read_def elf_vm_def)
  then have "\<forall>i<4. phys_get (0x5100 + of_nat i) elf_vm = 0" using frame by blast
  then show "virt_load 4 0x10100 elf_vm = Some 0"
    unfolding virt_load_range [OF range] all_4 by (simp add: numeral_eq_Suc)
qed

theorem reloc_386_word_witness:
  "\<exists>st. reloc_386 2 0x400000 0 0x10100 elf_vm = Some st \<and> virt_load 4 0x10100 st = Some (0x400000 - 0x10100)"
proof -
  from reloc_386_word [OF elf_vm_word, of "0x400000" 0] obtain st where
    st: "reloc_386 2 0x400000 0 0x10100 elf_vm = Some st" "map_option (\<lambda>v. 0x10100 + v) (virt_load 4 0x10100 st) = Some (0x400000 + (0 + 0))"
    by blast
  then obtain v where v: "virt_load 4 0x10100 st = Some v" "0x10100 + v = 0x400000" by auto
  from v(2) have "v = 0x400000 - 0x10100" by (metis add_diff_cancel_left')
  then show ?thesis using st(1) v(1) by simp
qed

end
