(* ===== verification/Mptab.thy ===== *)
theory Mptab
  imports ElfMem
begin

text \<open>
  The multiprocessor tables of the firmware, arch/x86/bios.c and arch/x86/mptab.c: a signature is
  searched for in ranges of physical memory, which are mapped for that, and the kinds of the buses are
  collected from the entries of the configuration table. All memory is read through the page tables.
\<close>

section \<open>Searching for a table\<close>

text \<open>\<open>!memcmp(va, s, strlen(s))\<close>, which stops at the first difference.\<close>

fun virt_is :: "u32 \<Rightarrow> u8 list \<Rightarrow> vm \<Rightarrow> bool option" where
  "virt_is va [] st = Some True"
| "virt_is va (c # cs) st = do { b \<leftarrow> virt_get va st; if b = c then virt_is (va + 1) cs st else Some False }"

text \<open>The offset at which the signature is found; the loop does not end when \<open>boundary\<close> is 0.\<close>

partial_function (option) bios_scan :: "u8 list \<Rightarrow> u32 \<Rightarrow> u32 \<Rightarrow> u32 \<Rightarrow> u32 \<Rightarrow> vm \<Rightarrow> u32 option option" where
  "bios_scan sig base range_len boundary i st =
     (if i < range_len then
        Option.bind (virt_is (base + i) sig st)
          (\<lambda>r. if r then Some (Some i) else bios_scan sig base range_len boundary (i + boundary) st)
      else Some None)"

definition bios_find_tab ::
  "u8 list \<Rightarrow> u32 \<Rightarrow> u32 \<Rightarrow> u32 \<Rightarrow> u32 \<Rightarrow> vm \<Rightarrow> (u32 \<times> vm) option" where
  "bios_find_tab sig range_paddr range_len boundary va_start st =
     do { (base, st) \<leftarrow> vmm_alloc_map (vmm_kernel st) range_paddr range_len va_start 0xFFFFFFFF 0 0 False 1 st;
          if base = 0 then Some (0, st)
          else do { r \<leftarrow> bios_scan sig base range_len boundary 0 st;
                    st \<leftarrow> vmm_unmap (vmm_kernel st) base range_len st;
                    Some (case r of None \<Rightarrow> 0 | Some i \<Rightarrow> range_paddr + i, st) } }"

text \<open>\<open>mp_busid\<close> is the table of the kinds of the buses, \<open>mp_busid_cnt\<close> its length.\<close>

record mps =
  mp_vm :: vm
  bios_ebda_paddr :: u32
  mp_fptr :: u32
  mp_cfg :: u32
  mp_busid :: "u8 list"
  mp_busid_cnt :: int

definition bios_get_ebda_paddr :: "u32 \<Rightarrow> mps \<Rightarrow> (u32 \<times> mps) option" where
  "bios_get_ebda_paddr kernel_end st =
     do { (bda, vm) \<leftarrow> vmm_alloc_map (vmm_kernel (mp_vm st)) 0x40E 2 kernel_end 0xFFFFFFFF 0 0 False 1 (mp_vm st);
          if bda = 0 then Some (0, st\<lparr>mp_vm := vm\<rparr>)
          else do { w \<leftarrow> virt_load 2 bda vm;
                    vm \<leftarrow> vmm_unmap (vmm_kernel vm) bda 2 vm;
                    Some (push_bit 4 w, st\<lparr>mp_vm := vm, bios_ebda_paddr := push_bit 4 w\<rparr>) } }"

section \<open>The floating pointer and the configuration table\<close>

text \<open>\<open>_MP_\<close>\<close>

definition mp_signature :: "u8 list" where "mp_signature = [95, 77, 80, 95]"

text \<open>16 is the size of \<open>mp_fptr_t\<close>; \<open>mem_lower\<close> is the field of the information of the boot loader.\<close>

definition mp_find_fptr :: "u32 \<Rightarrow> u32 \<Rightarrow> mps \<Rightarrow> (u32 \<times> mps) option" where
  "mp_find_fptr kernel_end mem_lower st =
     do { (ret, vm) \<leftarrow> bios_find_tab mp_signature (bios_ebda_paddr st) 1024 16 kernel_end (mp_vm st);
          (ret, vm) \<leftarrow> (if ret = 0 then bios_find_tab mp_signature (push_bit 10 mem_lower) 1024 16 kernel_end vm else Some (ret, vm));
          (ret, vm) \<leftarrow> (if ret = 0 then bios_find_tab mp_signature 0xF0000 0x10000 16 kernel_end vm else Some (ret, vm));
          if ret = 0 then Some (0, st\<lparr>mp_vm := vm\<rparr>)
          else do { (ret, vm) \<leftarrow> vmm_alloc_map (vmm_kernel vm) ret 16 kernel_end 0xFFFFFFFF 0 0 False 1 vm;
                    Some (ret, st\<lparr>mp_vm := vm\<rparr>) } }"

text \<open>44 is the size of the header; the lengths are at 4 and 40.\<close>

definition mp_map_cfgtab :: "u32 \<Rightarrow> u32 \<Rightarrow> vm \<Rightarrow> (u32 \<times> vm) option" where
  "mp_map_cfgtab kernel_end fptr st =
     do { cfg_table \<leftarrow> virt_load 4 (fptr + 4) st;
          (ret, st) \<leftarrow> vmm_alloc_map (vmm_kernel st) cfg_table 44 kernel_end 0xFFFFFFFF 0 0 False 1 st;
          if ret = 0 then Some (0, st)
          else do { base_len \<leftarrow> virt_load 2 (ret + 4) st;
                    ext_len \<leftarrow> virt_load 2 (ret + 40) st;
                    st \<leftarrow> vmm_unmap (vmm_kernel st) ret 44 st;
                    vmm_alloc_map (vmm_kernel st) cfg_table (base_len + ext_len) (ret AND NOT 0xFFF) 0xFFFFFFFF 0 0 False 1 st } }"

section \<open>The buses\<close>

text \<open>An entry begins with its type and is 20 bytes long for a processor, type 0, and otherwise 8.\<close>

definition mp_next :: "u32 \<Rightarrow> u8 \<Rightarrow> u32" where
  "mp_next entry type = entry + (if type \<noteq> 0 then 8 else 20)"

text \<open>
  The size of the table of buses, type 1. What is compared is the field \<open>bus_src\<close> of another kind of entry,
  which is the third character of the name of a bus.
\<close>

fun mp_bus_count :: "nat \<Rightarrow> u32 \<Rightarrow> int \<Rightarrow> vm \<Rightarrow> int option" where
  "mp_bus_count 0 entry cnt st = Some cnt"
| "mp_bus_count (Suc n) entry cnt st =
     do { ty \<leftarrow> virt_get entry st;
          cnt \<leftarrow> (if ty = 1 then do { b \<leftarrow> virt_get (entry + 4) st; Some (if cnt < uint b then uint b else cnt) } else Some cnt);
          mp_bus_count n (mp_next entry ty) cnt st }"

text \<open>The names of the kinds of buses in the order in which they are compared, and their numbers.\<close>

definition mp_bus_kinds :: "(u8 list \<times> u8) list" where
  "mp_bus_kinds = map (\<lambda>(s, k). (map of_char s, k))
     [(''PCI'', 13), (''ISA'', 6), (''PCMCIA'', 14), (''EISA'', 3), (''INTERN'', 5), (''VL'', 16), (''MCA'', 9),
      (''CBUS'', 1), (''CBUSII'', 2), (''FUTURE'', 4), (''MBII'', 8), (''MBI'', 7), (''MPI'', 10), (''MPSA'', 11),
      (''NUBUS'', 12), (''TC'', 15), (''VME'', 17), (''XPRESS'', 18)]"

fun mp_bus_kind :: "(u8 list \<times> u8) list \<Rightarrow> u32 \<Rightarrow> vm \<Rightarrow> u8 option option" where
  "mp_bus_kind [] va st = Some None"
| "mp_bus_kind ((s, k) # kinds) va st =
     do { r \<leftarrow> virt_is va s st; if r then Some (Some k) else mp_bus_kind kinds va st }"

text \<open>The loop that fills the table, \<open>None\<close> if it writes beyond it.\<close>

fun mp_bus_fill :: "nat \<Rightarrow> u32 \<Rightarrow> u8 list \<Rightarrow> vm \<Rightarrow> u8 list option" where
  "mp_bus_fill 0 entry tab st = Some tab"
| "mp_bus_fill (Suc n) entry tab st =
     do { ty \<leftarrow> virt_get entry st;
          tab \<leftarrow> (if ty = 1 then
                  do { kind \<leftarrow> mp_bus_kind mp_bus_kinds (entry + 2) st;
                       case kind of None \<Rightarrow> Some tab
                       | Some k \<Rightarrow> do { bus \<leftarrow> virt_get (entry + 1) st;
                                        if unat bus < length tab then Some (tab[unat bus := k]) else None } }
                else Some tab);
          mp_bus_fill n (mp_next entry ty) tab st }"

definition mp_init_buses :: "mps \<Rightarrow> (bool \<times> mps) option" where
  "mp_init_buses st =
     do { base_cnt \<leftarrow> virt_load 2 (mp_cfg st + 34) (mp_vm st);
          cnt \<leftarrow> mp_bus_count (unat base_cnt) (mp_cfg st + 44) (- 1) (mp_vm st);
          let cnt = cnt + 1;
          let st = st\<lparr>mp_busid_cnt := cnt\<rparr>;
          if cnt = 0 then Some (True, st)
          else
            let (ok, vm) = vm_realloc (mp_vm st); st = st\<lparr>mp_vm := vm\<rparr>
            in if \<not> ok then Some (False, st\<lparr>mp_busid := [], mp_busid_cnt := 0\<rparr>)
               else do { tab \<leftarrow> mp_bus_fill (unat base_cnt) (mp_cfg st + 44) (replicate (nat cnt) 0) vm;
                         Some (True, st\<lparr>mp_busid := tab\<rparr>) } }"

text \<open>The default configuration is at 11 of the floating pointer.\<close>

definition mp_init :: "u32 \<Rightarrow> u32 \<Rightarrow> mps \<Rightarrow> (bool \<times> mps) option" where
  "mp_init kernel_end mem_lower st =
     do { (fptr, st) \<leftarrow> mp_find_fptr kernel_end mem_lower st;
          let st = st\<lparr>mp_fptr := fptr\<rparr>;
          if fptr = 0 then Some (False, st)
          else do {
            default_cfg \<leftarrow> virt_get (fptr + 11) (mp_vm st);
            if default_cfg \<noteq> 0 then Some (True, st)
            else do {
              (cfg, vm) \<leftarrow> mp_map_cfgtab kernel_end fptr (mp_vm st);
              if cfg = 0 then do { vm \<leftarrow> vmm_unmap (vmm_kernel vm) fptr 16 vm; Some (False, st\<lparr>mp_vm := vm, mp_cfg := 0\<rparr>) }
              else mp_init_buses (st\<lparr>mp_vm := vm, mp_cfg := cfg\<rparr>) } } }"

section \<open>Entries\<close>

text \<open>Bytes that can be read at an address, and the entries of a table as lists of bytes.\<close>

definition virt_bytes :: "vm \<Rightarrow> u32 \<Rightarrow> u8 list \<Rightarrow> bool" where
  "virt_bytes st a bs \<longleftrightarrow> (\<forall>i<length bs. virt_get (a + of_nat i) st = Some (bs ! i))"

fun mp_entries :: "vm \<Rightarrow> u32 \<Rightarrow> u8 list list \<Rightarrow> bool" where
  "mp_entries st a [] \<longleftrightarrow> True"
| "mp_entries st a (e # es) \<longleftrightarrow>
     length e = (if e ! 0 \<noteq> 0 then 8 else 20) \<and> virt_bytes st a e \<and> mp_entries st (mp_next a (e ! 0)) es"

lemma virt_is_prefix:
  "virt_bytes st a bs \<Longrightarrow> length s \<le> length bs \<Longrightarrow> virt_is a s st = Some (take (length s) bs = s)"
proof (induction s arbitrary: a bs)
  case (Cons c s)
  then obtain b bs' where bs: "bs = b # bs'" by (cases bs) auto
  have "virt_get a st = Some b" using Cons.prems(1) by (force simp: virt_bytes_def bs)
  moreover have "virt_bytes st (a + 1) bs'"
    using Cons.prems(1) unfolding virt_bytes_def bs by (auto simp: add.assoc dest: spec [of _ "Suc _"])
  ultimately show ?case using Cons.IH [of "a + 1" bs'] Cons.prems(2) by (auto simp: bs)
qed simp

text \<open>The kind of a bus of a given name: that of the first name of the list that it begins with.\<close>

definition bus_kind :: "u8 list \<Rightarrow> u8 option" where
  "bus_kind name = map_option snd (find (\<lambda>(s, k). take (length s) name = s) mp_bus_kinds)"

lemma mp_bus_kind_find:
  "virt_bytes st a name \<Longrightarrow> \<forall>(s, k)\<in>set kinds. length s \<le> length name \<Longrightarrow>
   mp_bus_kind kinds a st = Some (map_option snd (find (\<lambda>(s, k). take (length s) name = s) kinds))"
  by (induction kinds) (auto simp: virt_is_prefix)

text \<open>The kind of a \<open>CBUSII\<close> is never found, since \<open>CBUS\<close> is compared first.\<close>

lemma bus_kind_cbus2: "bus_kind (map of_char ''CBUSII'') = Some 1"
  by code_simp

text \<open>The buses that the loops see: what stands for the size, and the identifier and kind of the known ones.\<close>

definition bus_marks :: "u8 list list \<Rightarrow> int list" where
  "bus_marks es = map (\<lambda>e. uint (e ! 4)) (filter (\<lambda>e. e ! 0 = 1) es)"

definition known_buses :: "u8 list list \<Rightarrow> (u8 \<times> u8) list" where
  "known_buses es = concat (map (\<lambda>e. if e ! 0 = 1 then (case bus_kind (drop 2 e) of None \<Rightarrow> [] | Some k \<Rightarrow> [(e ! 1, k)]) else []) es)"

lemma virt_bytes_nth: "virt_bytes st a bs \<Longrightarrow> i < length bs \<Longrightarrow> virt_get (a + of_nat i) st = Some (bs ! i)"
  by (simp add: virt_bytes_def)

lemma entry_bytes:
  assumes "mp_entries st a (e # es)"
  shows "virt_get a st = Some (e ! 0)" and "virt_get (a + 1) st = Some (e ! 1)" and "virt_get (a + 4) st = Some (e ! 4)"
    and "virt_bytes st (a + 2) (drop 2 e)" and "8 \<le> length e"
proof -
  have e: "virt_bytes st a e" "8 \<le> length e" using assms by (auto split: if_splits)
  have len: "0 < length e" "1 < length e" "4 < length e" using e(2) by linarith+
  show "virt_get a st = Some (e ! 0)" "virt_get (a + 1) st = Some (e ! 1)" "virt_get (a + 4) st = Some (e ! 4)"
    using virt_bytes_nth [OF e(1) len(1)] virt_bytes_nth [OF e(1) len(2)] virt_bytes_nth [OF e(1) len(3)] by simp_all
  show "virt_bytes st (a + 2) (drop 2 e)"
    unfolding virt_bytes_def
  proof (intro allI impI)
    fix i assume "i < length (drop 2 e)"
    then show "virt_get (a + 2 + of_nat i) st = Some (drop 2 e ! i)"
      using virt_bytes_nth [OF e(1), of "2 + i"] by (simp add: add.assoc)
  qed
  show "8 \<le> length e" by (rule e(2))
qed

lemma mp_bus_count_marks:
  "mp_entries st a es \<Longrightarrow> mp_bus_count (length es) a cnt st = Some (fold max (bus_marks es) cnt)"
proof (induction es arbitrary: a cnt)
  case (Cons e es)
  note bytes = entry_bytes [OF Cons.prems]
  have "mp_entries st (mp_next a (e ! 0)) es" using Cons.prems by simp
  note IH = Cons.IH [OF this]
  show ?case by (simp add: bytes IH bus_marks_def max_def)
qed (simp add: bus_marks_def)

lemma bus_kinds_short: "\<forall>(s, k)\<in>set mp_bus_kinds. length s \<le> 6"
  by (simp add: mp_bus_kinds_def)

definition bus_store :: "u8 \<times> u8 \<Rightarrow> u8 list \<Rightarrow> u8 list option" where
  "bus_store b tab = (if unat (fst b) < length tab then Some (tab[unat (fst b) := snd b]) else None)"

lemma mp_bus_fill_known:
  "mp_entries st a es \<Longrightarrow> mp_bus_fill (length es) a tab st = fold_opt bus_store (known_buses es) tab"
proof (induction es arbitrary: a tab)
  case (Cons e es)
  note bytes = entry_bytes [OF Cons.prems]
  have "mp_entries st (mp_next a (e ! 0)) es" using Cons.prems by simp
  note IH = Cons.IH [OF this]
  have "mp_bus_kind mp_bus_kinds (a + 2) st = Some (bus_kind (drop 2 e))"
    unfolding bus_kind_def by (rule mp_bus_kind_find [OF bytes(4)]) (use bytes(5) bus_kinds_short in fastforce)
  then show ?case
    by (auto simp: bytes(1,2) IH known_buses_def bus_store_def fold_opt_append split: option.splits)
qed (simp add: known_buses_def)

definition bus_table :: "(u8 \<times> u8) list \<Rightarrow> u8 list \<Rightarrow> u8 list" where
  "bus_table bs tab = map (\<lambda>i. case map_of (rev bs) (of_nat i) of None \<Rightarrow> tab ! i | Some k \<Rightarrow> k) [0..<length tab]"

lemma bus_table_Cons:
  assumes "length tab \<le> 256" and "unat (fst b) < length tab"
  shows "bus_table bs (tab[unat (fst b) := snd b]) = bus_table (b # bs) tab"
proof -
  obtain u k where b: "b = (u, k)" by (cases b)
  have eq: "(of_nat i = u) = (i = unat u)" if "i < length tab" for i
  proof -
    have "unat (of_nat i :: u8) = i" using that assms(1) by (simp add: unat_of_nat take_bit_nat_eq_self)
    then show ?thesis by auto
  qed
  show ?thesis
    by (rule nth_equalityI) (auto simp: bus_table_def b eq map_add_def nth_list_update split: option.splits)
qed

lemma fold_bus_store:
  "length tab \<le> 256 \<Longrightarrow> fold_opt bus_store bs tab =
     (if \<forall>b\<in>set bs. unat (fst b) < length tab then Some (bus_table bs tab) else None)"
proof (induction bs arbitrary: tab)
  case Nil
  then show ?case by (simp add: bus_table_def map_nth)
next
  case (Cons b bs)
  then show ?case using bus_table_Cons [of tab b bs] by (auto simp: bus_store_def)
qed

lemma fold_max: "fold max xs (a :: int) = Max (set (a # xs))"
  by (rule Max.set_eq_fold [symmetric])

text \<open>The answer of the heap does not matter for what can be read.\<close>

lemma mp_entries_realloc:
  assumes "vm_realloc st = (ok, st')"
  shows "mp_entries st' a es = mp_entries st a es"
proof -
  have "virt_get va st' = virt_get va st" for va
    using assms
    by (auto simp: vm_realloc_def virt_get_def virt_addr_def phys_get_def vm_read_def Let_def split: list.splits)
  then show ?thesis by (induction es arbitrary: a) (auto simp: virt_bytes_def)
qed

section \<open>Properties\<close>

text \<open>
  C39: the table of buses has one entry more than the greatest third character of the name of a bus says,
  since that is what is read for the identifier. The buses whose kind is known are entered in the table,
  the last one of an identifier, if all of their identifiers are below that size; otherwise memory
  behind the table is written.
\<close>

theorem mp_init_buses_bounds:
  assumes "virt_load 2 (mp_cfg st + 34) (mp_vm st) = Some (of_nat (length es))" and "length es < 2 ^ 16"
    and "mp_entries (mp_vm st) (mp_cfg st + 44) es" and "\<exists>e\<in>set es. e ! 0 = 1"
    and "vm_realloc (mp_vm st) = (True, vm)"
  shows "let lim = Max (set (bus_marks es))
    in mp_init_buses st =
      (if \<forall>b\<in>set (known_buses es). uint (fst b) \<le> lim
       then Some (True, st\<lparr>mp_vm := vm, mp_busid_cnt := lim + 1,
         mp_busid := bus_table (known_buses es) (replicate (nat (lim + 1)) 0)\<rparr>)
       else None)"
proof -
  let ?lim = "Max (set (bus_marks es))"
  have "bus_marks es \<noteq> []" using assms(4) by (auto simp: bus_marks_def filter_empty_conv)
  then have "?lim \<in> set (bus_marks es)" by simp
  then have lim: "0 \<le> ?lim" "?lim < 256" by (auto simp: bus_marks_def uint_lt2p [where ?'a = 8, simplified])
  have "Max (set (- 1 # bus_marks es)) = ?lim"
    using \<open>bus_marks es \<noteq> []\<close> lim(1) by simp
  then have "fold max (bus_marks es) (- 1) = ?lim" unfolding fold_max .
  moreover have unat_len: "unat (of_nat (length es) :: u32) = length es" using assms(2) by (simp add: unat_of_nat_u32)
  ultimately have count: "mp_bus_count (unat (of_nat (length es) :: u32)) (mp_cfg st + 44) (- 1) (mp_vm st) = Some ?lim"
    using mp_bus_count_marks [OF assms(3), of "- 1"] by simp
  have entries: "mp_entries vm (mp_cfg st + 44) es"
    using assms(3,5) by (simp add: mp_entries_realloc)
  have fill: "mp_bus_fill (unat (of_nat (length es) :: u32)) (mp_cfg st + 44) (replicate (nat (?lim + 1)) 0) vm =
      (if \<forall>b\<in>set (known_buses es). uint (fst b) \<le> ?lim
       then Some (bus_table (known_buses es) (replicate (nat (?lim + 1)) 0)) else None)"
  proof -
    have "unat (fst b) < nat (?lim + 1) \<longleftrightarrow> uint (fst b) \<le> ?lim" for b :: "u8 \<times> u8"
    proof -
      have "int (unat (fst b)) = uint (fst b)" by simp
      then show ?thesis using lim(1) by linarith
    qed
    moreover have "length (replicate (nat (?lim + 1)) (0 :: u8)) \<le> 256" using lim by simp
    ultimately show ?thesis
      unfolding unat_len mp_bus_fill_known [OF entries]
      using fold_bus_store [of "replicate (nat (?lim + 1)) 0" "known_buses es"] by (simp only: length_replicate)
  qed
  show ?thesis
    using lim(1) by (simp add: mp_init_buses_def assms(1,5) count fill Let_def)
qed

text \<open>A table with one bus, number 0 of the kind \<open>ISA\<close>, in the memory of the example of \<open>ElfMem\<close>.\<close>

definition mp_example :: mps where
  "mp_example =
     \<lparr>mp_vm = elf_vm\<lparr>vm_phys := (\<lambda>f i. if f = 5 then (if i = 8 then 0x10000 else if i = 11 then 0x53490001
        else if i = 12 then 0x20202041 else 0) else vm_phys elf_vm f i)\<rparr>,
      bios_ebda_paddr = 0, mp_fptr = 0, mp_cfg = 0x10000, mp_busid = [], mp_busid_cnt = 0\<rparr>"

abbreviation isa_entry :: "u8 list" where "isa_entry \<equiv> [1, 0, 73, 83, 65, 32, 32, 32]"

lemma all_8: "(\<forall>i<8. P i) \<longleftrightarrow> P 0 \<and> P 1 \<and> P 2 \<and> P 3 \<and> P 4 \<and> P 5 \<and> P 6 \<and> P (7 :: nat)"
  by (simp add: numeral_eq_Suc All_less_Suc) blast

theorem mp_init_buses_bounds_witness:
  "\<exists>st. mp_init_buses mp_example = Some (True, st) \<and> mp_busid_cnt st = 66 \<and> mp_busid st ! 0 = 6"
proof -
  have phys: "phys_get 0x5022 (mp_vm mp_example) = 1" "phys_get 0x5023 (mp_vm mp_example) = 0"
      "phys_get 0x502C (mp_vm mp_example) = 1" "phys_get 0x502D (mp_vm mp_example) = 0" "phys_get 0x502E (mp_vm mp_example) = 73"
      "phys_get 0x502F (mp_vm mp_example) = 83" "phys_get 0x5030 (mp_vm mp_example) = 65" "phys_get 0x5031 (mp_vm mp_example) = 32"
      "phys_get 0x5032 (mp_vm mp_example) = 32" "phys_get 0x5033 (mp_vm mp_example) = 32"
    by (simp_all add: phys_get_def vm_read_def mp_example_def elf_vm_def)
  have "virt_addr (mp_vm mp_example) 0x10022 = Some 0x5022" "virt_addr (mp_vm mp_example) 0x10023 = Some 0x5023" by code_simp+
  then have "virt_load (Suc (Suc 0)) 0x10022 (mp_vm mp_example) = Some 1" by (simp add: virt_get_def phys)
  then have cnt: "virt_load 2 (mp_cfg mp_example + 34) (mp_vm mp_example) = Some (of_nat (length [isa_entry]))"
    by (simp add: numeral_2_eq_2 mp_example_def)
  have "\<forall>i<8. virt_addr (mp_vm mp_example) (0x1002C + of_nat i) = Some (0x502C + of_nat i)" unfolding all_8 by code_simp
  then have "\<forall>i<8. virt_get (0x1002C + of_nat i) (mp_vm mp_example) = Some (isa_entry ! i)"
    unfolding all_8 virt_get_def by (simp add: phys)
  then have entries: "mp_entries (mp_vm mp_example) (mp_cfg mp_example + 44) [isa_entry]"
    by (simp add: virt_bytes_def mp_example_def)
  have heap: "vm_realloc (mp_vm mp_example) = (True, mp_vm mp_example)" by (simp add: vm_realloc_def mp_example_def elf_vm_def vm_example_def)
  have kind: "bus_kind [73, 83, 65, 32, 32, 32] = Some 6" by code_simp
  have "bus_marks [isa_entry] = [65]" "known_buses [isa_entry] = [(0, 6)]"
    by (simp_all add: bus_marks_def known_buses_def kind)
  then show ?thesis
    using mp_init_buses_bounds [OF cnt _ entries _ heap] by (simp add: bus_table_def)
qed

end
