(* ===== verification/Devtree.thy ===== *)
theory Devtree
  imports Helpers KString
begin

text \<open>
  The device tree, hal/devtree.c. Nodes are named by index, node 0 is \<open>devtree_root\<close>; the children
  of a node form a list linked through \<open>dt_sibling\<close>. The record can be extended, as the C structure
  is by the drivers (\<open>pci_devtree_t\<close> begins with a \<open>devtree_t\<close>). The name is the part of the 16
  byte field before its NUL.
\<close>

section \<open>Nodes\<close>

datatype devtree_node_type = DEVTREE_NODE_ROOT | DEVTREE_NODE_BUS | DEVTREE_NODE_DEVICE

record devtree =
  dt_size :: u32
  dt_name :: "u8 list"
  dt_type :: devtree_node_type
  dt_parent :: "nat option"
  dt_child :: "nat option"
  dt_sibling :: "nat option"
  dt_in_use :: bool

text \<open>The static root: its own parent, without siblings, its mutex taken. 40 is its size.\<close>

definition devtree_root :: devtree where
  "devtree_root = \<lparr>dt_size = 40, dt_name = [], dt_type = DEVTREE_NODE_ROOT, dt_parent = Some 0,
     dt_child = None, dt_sibling = None, dt_in_use = True\<rparr>"

definition devtree_add_child ::
  "nat \<Rightarrow> nat \<Rightarrow> (nat \<Rightarrow> 'a devtree_scheme) \<Rightarrow> nat \<Rightarrow> 'a devtree_scheme" where
  "devtree_add_child parent child nodes =
     (let nodes = nodes(child := (nodes child)\<lparr>dt_sibling := dt_child (nodes parent)\<rparr>);
          nodes = nodes(parent := (nodes parent)\<lparr>dt_child := Some child\<rparr>)
      in nodes(child := (nodes child)\<lparr>dt_parent := Some parent\<rparr>))"

definition devtree_add_sibling ::
  "nat \<Rightarrow> nat \<Rightarrow> (nat \<Rightarrow> 'a devtree_scheme) \<Rightarrow> nat \<Rightarrow> 'a devtree_scheme" where
  "devtree_add_sibling sib_existing sib_new nodes =
     (let nodes = nodes(sib_new := (nodes sib_new)\<lparr>dt_sibling := dt_sibling (nodes sib_existing)\<rparr>);
          nodes = nodes(sib_existing := (nodes sib_existing)\<lparr>dt_sibling := Some sib_new\<rparr>)
      in nodes(sib_new := (nodes sib_new)\<lparr>dt_parent := dt_parent (nodes sib_existing)\<rparr>))"

section \<open>Path traversal\<close>

text \<open>
  The inner loop over the siblings. \<open>strncmp(ret->name, e, len)\<close> is 0 when the first \<open>len\<close> bytes of
  the two strings agree (\<open>strncmp_eq_0_iff\<close>). A loop over a cyclic list without a match does not end:
  \<open>None\<close>.
\<close>

partial_function (option) devtree_find_loop ::
  "(nat \<Rightarrow> 'a devtree_scheme) \<Rightarrow> u8 list \<Rightarrow> nat \<Rightarrow> nat option \<Rightarrow> nat option option" where
  "devtree_find_loop nodes e len ret =
     (case ret of
        None \<Rightarrow> Some None
      | Some r \<Rightarrow> if take len (dt_name (nodes r)) = take len e then Some ret
                 else devtree_find_loop nodes e len (dt_sibling (nodes r)))"

text \<open>
  The outer loop, on a path before its NUL; 46 is the dot. Reading a field of a node that is NULL
  (the parent of a detached node) faults: \<open>None\<close>.
\<close>

function devtree_path_loop ::
  "(nat \<Rightarrow> 'a devtree_scheme) \<Rightarrow> u8 list \<Rightarrow> nat option \<Rightarrow> nat option option" where
  "devtree_path_loop nodes path ret =
     (if path = [] then Some ret
      else case path_traverse path of (rest, len) \<Rightarrow>
        if len = 0 \<or> (len = 1 \<and> path ! 0 = 46) then devtree_path_loop nodes rest ret
        else case ret of
          None \<Rightarrow> None
        | Some r \<Rightarrow>
            if take len path = take len [46, 46] then devtree_path_loop nodes rest (dt_parent (nodes r))
            else case devtree_find_loop nodes path len (dt_child (nodes r)) of
              None \<Rightarrow> None
            | Some None \<Rightarrow> Some None
            | Some (Some n) \<Rightarrow> devtree_path_loop nodes rest (Some n))"
  by pat_completeness auto
termination
  by (relation "measure (\<lambda>(nodes, path, ret). length path)")
     (auto, (metis fst_conv path_traverse_shorter)+)

declare devtree_path_loop.simps [simp del]

definition devtree_traverse_path ::
  "(nat \<Rightarrow> 'a devtree_scheme) \<Rightarrow> nat option \<Rightarrow> u8 list \<Rightarrow> nat option option" where
  "devtree_traverse_path nodes curr_node path =
     devtree_path_loop nodes path (if curr_node \<noteq> None then curr_node else Some 0)"

section \<open>Lists of children\<close>

fun dt_chain :: "(nat \<Rightarrow> 'a devtree_scheme) \<Rightarrow> nat option \<Rightarrow> nat list \<Rightarrow> bool" where
  "dt_chain nodes p [] = (p = None)"
| "dt_chain nodes p (n # ns) = (p = Some n \<and> dt_chain nodes (dt_sibling (nodes n)) ns)"

definition dt_children :: "(nat \<Rightarrow> 'a devtree_scheme) \<Rightarrow> nat \<Rightarrow> nat list \<Rightarrow> bool" where
  "dt_children nodes n ns \<longleftrightarrow> dt_chain nodes (dt_child (nodes n)) ns"

lemma dt_chain_cong:
  "(\<And>n. n \<in> set ns \<Longrightarrow> dt_sibling (nodes' n) = dt_sibling (nodes n)) \<Longrightarrow> dt_chain nodes' p ns = dt_chain nodes p ns"
  by (induction ns arbitrary: p) auto

lemma devtree_find_chain:
  "dt_chain nodes p ns \<Longrightarrow>
   devtree_find_loop nodes e len p = Some (List.find (\<lambda>n. take len (dt_name (nodes n)) = take len e) ns)"
  by (induction ns arbitrary: p) (subst devtree_find_loop.simps, auto)+

text \<open>Adding a child puts it before the other children of its parent and changes no other list.\<close>

lemma add_child_simps [simp]:
  "dt_name (devtree_add_child p c nodes n) = dt_name (nodes n)"
  "dt_child (devtree_add_child p c nodes n) = (if n = p then Some c else dt_child (nodes n))"
  "p \<noteq> c \<Longrightarrow> dt_sibling (devtree_add_child p c nodes n) = (if n = c then dt_child (nodes p) else dt_sibling (nodes n))"
  "dt_parent (devtree_add_child p c nodes n) = (if n = c then Some p else dt_parent (nodes n))"
  by (auto simp: devtree_add_child_def Let_def)

lemma add_child_children:
  assumes "p \<noteq> c" and "dt_children nodes p ns" and "c \<notin> set ns"
  shows "dt_children (devtree_add_child p c nodes) p (c # ns)"
proof -
  have "dt_chain (devtree_add_child p c nodes) q ns = dt_chain nodes q ns" for q
    using assms by (intro dt_chain_cong) auto
  with assms show ?thesis by (simp add: dt_children_def)
qed

lemma add_child_others:
  assumes "p \<noteq> c" and "dt_children nodes q ns" and "c \<notin> set ns" and "q \<noteq> p"
  shows "dt_children (devtree_add_child p c nodes) q ns"
proof -
  have "dt_chain (devtree_add_child p c nodes) r ns = dt_chain nodes r ns" for r
    using assms by (intro dt_chain_cong) auto
  with assms show ?thesis by (simp add: dt_children_def)
qed

text \<open>A new sibling comes directly behind the existing node and shares its parent.\<close>

lemma add_sibling_simps [simp]:
  "s \<noteq> c \<Longrightarrow> dt_sibling (devtree_add_sibling s c nodes n) =
     (if n = s then Some c else if n = c then dt_sibling (nodes s) else dt_sibling (nodes n))"
  "dt_parent (devtree_add_sibling s c nodes n) = (if n = c then dt_parent (nodes s) else dt_parent (nodes n))"
  by (auto simp: devtree_add_sibling_def Let_def)

lemma add_sibling_chain:
  assumes "dt_chain nodes p (xs @ s # ys)" and "distinct (xs @ s # ys)" and "n \<notin> set (xs @ s # ys)"
  shows "dt_chain (devtree_add_sibling s n nodes) p (xs @ s # n # ys)
    \<and> dt_parent (devtree_add_sibling s n nodes n) = dt_parent (nodes s)"
  using assms
proof (induction xs arbitrary: p)
  case Nil
  have "dt_chain (devtree_add_sibling s n nodes) q ys = dt_chain nodes q ys" for q
    using Nil by (intro dt_chain_cong) auto
  then show ?case using Nil by auto
qed auto

section \<open>Walks\<close>

text \<open>
  A tree: \<open>kids\<close> are the lists of children of the nodes of \<open>N\<close>, which is closed under children and
  parents.
\<close>

definition dt_tree :: "(nat \<Rightarrow> 'a devtree_scheme) \<Rightarrow> nat set \<Rightarrow> (nat \<Rightarrow> nat list) \<Rightarrow> bool" where
  "dt_tree nodes N kids \<longleftrightarrow>
     (\<forall>n \<in> N. dt_children nodes n (kids n) \<and> set (kids n) \<subseteq> N \<and> (\<exists>p \<in> N. dt_parent (nodes n) = Some p))"

text \<open>One element: the parent for \<^verbatim>\<open>..\<close>, else the first child whose name begins with it.\<close>

definition dt_step :: "(nat \<Rightarrow> 'a devtree_scheme) \<Rightarrow> (nat \<Rightarrow> nat list) \<Rightarrow> u8 list \<Rightarrow> nat \<Rightarrow> nat option" where
  "dt_step nodes kids e n =
     (if e = [46, 46] then dt_parent (nodes n)
      else List.find (\<lambda>c. take (length e) (dt_name (nodes c)) = e) (kids n))"

lemma find_Some_in: "List.find P xs = Some x \<Longrightarrow> x \<in> set xs \<and> P x"
  by (auto simp: find_Some_iff)

lemma dt_step_closed: "dt_tree nodes N kids \<Longrightarrow> n \<in> N \<Longrightarrow> dt_step nodes kids e n = Some m \<Longrightarrow> m \<in> N"
  by (force simp: dt_tree_def dt_step_def dest: find_Some_in split: if_splits)

lemma dot_dot_iff: "0 < len \<Longrightarrow> length e = len \<Longrightarrow> \<not> (len = 1 \<and> e ! 0 = 46) \<Longrightarrow> (e = take len [46, 46 :: u8]) = (e = [46, 46])"
  by (auto simp: take_Cons' length_Suc_conv split: if_splits)

fun dt_walk :: "(nat \<Rightarrow> 'a devtree_scheme) \<Rightarrow> (nat \<Rightarrow> nat list) \<Rightarrow> u8 list list \<Rightarrow> nat \<Rightarrow> nat option" where
  "dt_walk nodes kids [] n = Some n"
| "dt_walk nodes kids (e # es) n = Option.bind (dt_step nodes kids e n) (dt_walk nodes kids es)"

lemma devtree_path_loop_walk:
  assumes "dt_tree nodes N kids" and "n \<in> N"
  shows "devtree_path_loop nodes path (Some n) = Some (dt_walk nodes kids (path_elems path) n)"
  using assms(2)
proof (induction "length path" arbitrary: path n rule: less_induct)
  case less
  show ?case
  proof (cases "path = []")
    case True
    then show ?thesis by (simp add: devtree_path_loop.simps path_elems_def)
  next
    case nonempty: False
    obtain rest len where pt: "path_traverse path = (rest, len)" by fastforce
    have shorter: "length rest < length path" using path_traverse_shorter [OF nonempty] pt by simp
    have len: "length (take len path) = len" using pt by (auto simp: path_traverse_def Let_def)
    note elems = split_slash_step [OF pt nonempty]
    show ?thesis
    proof (cases "len = 0 \<or> (len = 1 \<and> path ! 0 = 46)")
      case True
      then show ?thesis using less shorter elems pt nonempty by (subst devtree_path_loop.simps) simp
    next
      case False
      have elems: "path_elems path = take len path # path_elems rest" using elems False by simp
      have dots: "(take len path = take len [46, 46]) = (take len path = [46, 46])"
        using False len by (intro dot_dot_iff) auto
      have kids: "dt_chain nodes (dt_child (nodes n)) (kids n)"
        using assms(1) less.prems by (auto simp: dt_tree_def dt_children_def)
      obtain p where p: "dt_parent (nodes n) = Some p" using assms(1) less.prems by (auto simp: dt_tree_def)
      have go: "devtree_path_loop nodes rest (Some m) = Some (dt_walk nodes kids (path_elems rest) m)"
        if "dt_step nodes kids (take len path) n = Some m" for m
        using less.hyps [OF shorter] dt_step_closed [OF assms(1) less.prems that] .
      show ?thesis
        using go pt nonempty False dots p devtree_find_chain [OF kids] len
        by (subst devtree_path_loop.simps) (auto simp: dt_step_def elems split: option.splits)
    qed
  qed
qed

section \<open>Properties\<close>

text \<open>
  C29: On a tree whose child lists are finite, \<open>devtree_traverse_path\<close> returns, and what it returns is
  the walk from the given node (the root if there is none) through the elements of the path: up for
  \<^verbatim>\<open>..\<close>, else to the first child whose name begins with the element, so that a prefix of a name is
  enough to find it; NULL if some element has no such child.
\<close>

theorem devtree_traverse_path_walks:
  assumes "dt_tree nodes N kids" and "start \<in> N" and "start = (case node of None \<Rightarrow> 0 | Some n \<Rightarrow> n)"
  shows "devtree_traverse_path nodes node path = Some (dt_walk nodes kids (path_elems path) start)"
  using assms devtree_path_loop_walk [of nodes N kids start path]
  by (auto simp: devtree_traverse_path_def split: option.splits)

text \<open>Two children, \<^verbatim>\<open>ab\<close> and \<^verbatim>\<open>b\<close>, are added to the root; the path \<^verbatim>\<open>b/./../a\<close> leads to the first.\<close>

definition devtree_example :: "nat \<Rightarrow> devtree" where
  "devtree_example =
     (let node = (\<lambda>s. devtree_root\<lparr>dt_name := s, dt_type := DEVTREE_NODE_DEVICE, dt_parent := None\<rparr>)
      in devtree_add_child 0 2 (devtree_add_child 0 1
           ((\<lambda>_. devtree_root)(1 := node [97, 98], 2 := node [98]))))"

theorem devtree_traverse_path_walks_witness:
  "devtree_traverse_path devtree_example None [98, 47, 46, 47, 46, 46, 47, 97] = Some (Some 1)"
proof -
  let ?kids = "\<lambda>n :: nat. if n = 0 then [2, 1] else []"
  have tree: "dt_tree devtree_example {0, 1, 2} ?kids"
    by (auto simp: dt_tree_def dt_children_def devtree_example_def devtree_root_def Let_def)
  show ?thesis
    by (simp add: devtree_traverse_path_walks [OF tree, of 0])
       (simp add: path_elems_def dt_step_def devtree_example_def devtree_root_def)
qed

end
