(* ===== verification/Pci.thy ===== *)
theory Pci
  imports Devtree
begin

text \<open>
  The PCI bus, drivers/pci.c and arch/x86/pci.c: access to the configuration space through the
  ports 0xCF8 and 0xCFC, the scan of the buses into the device tree, and the routing of interrupts
  that the BIOS has set up.
\<close>

section \<open>State\<close>

text \<open>A device node begins with a \<open>devtree_t\<close>.\<close>

record pci_devtree = devtree +
  pd_vid :: u16
  pd_pid :: u16
  pd_class :: u8
  pd_subclass :: u8
  pd_bus :: u8
  pd_dev :: u8
  pd_func :: u8

text \<open>
  \<open>pci_latch\<close> is the configuration address last written to port 0xCF8, \<open>pci_regs\<close> the double words
  that are read and written at such an address through port 0xCFC (mechanism 1 of the PCI
  specification; the registers hold what is written to them). \<open>pci_nodes\<close> is the device tree: 0 is
  its root, 1, 2 and 3 are \<open>pci_devtree_root\<close>, \<open>pci_devtree_geo_root\<close> and \<open>pci_devtree_id_root\<close>,
  \<open>pci_new\<close> is the next node \<open>kcalloc\<close> returns, \<open>pci_heap\<close> whether its next calls succeed (they
  do when the list is empty). \<open>pci_apic\<close> and \<open>pci_gsi\<close> are \<open>apic_enabled\<close> and \<open>ioapic_irq_gsi\<close>.
\<close>

record pci =
  pci_latch :: u32
  pci_regs :: "u32 \<Rightarrow> u32"
  pci_nodes :: "nat \<Rightarrow> pci_devtree"
  pci_new :: nat
  pci_heap :: "bool list"
  pci_apic :: bool
  pci_gsi :: "u8 list"

definition pci_outl :: "u16 \<Rightarrow> u32 \<Rightarrow> pci \<Rightarrow> pci" where
  "pci_outl port val st =
     (if port = 0xCF8 then st\<lparr>pci_latch := val\<rparr>
      else if port = 0xCFC then st\<lparr>pci_regs := (pci_regs st)(pci_latch st := val)\<rparr>
      else st)"

definition pci_inl :: "u16 \<Rightarrow> pci \<Rightarrow> u32" where
  "pci_inl port st = (if port = 0xCF8 then pci_latch st else if port = 0xCFC then pci_regs st (pci_latch st) else - 1)"

section \<open>Configuration space\<close>

definition pci_cfg_address :: "u8 \<Rightarrow> u8 \<Rightarrow> u8 \<Rightarrow> u8 \<Rightarrow> u32" where
  "pci_cfg_address bus dev func offset =
     push_bit 31 1 OR push_bit 16 (ucast bus) OR push_bit 11 (ucast dev) OR push_bit 8 (ucast func) OR (ucast offset AND 0xFC)"

definition pci_cfg_read_dword_aligned :: "u8 \<Rightarrow> u8 \<Rightarrow> u8 \<Rightarrow> u8 \<Rightarrow> pci \<Rightarrow> u32 \<times> pci" where
  "pci_cfg_read_dword_aligned bus dev func offset st =
     (let st = pci_outl 0xCF8 (pci_cfg_address bus dev func offset) st in (pci_inl 0xCFC st, st))"

definition pci_cfg_write_dword_aligned :: "u8 \<Rightarrow> u8 \<Rightarrow> u8 \<Rightarrow> u8 \<Rightarrow> u32 \<Rightarrow> pci \<Rightarrow> pci" where
  "pci_cfg_write_dword_aligned bus dev func offset val st =
     pci_outl 0xCFC val (pci_outl 0xCF8 (pci_cfg_address bus dev func offset) st)"

text \<open>\<open>offset_off\<close> is the position of the access in its double word.\<close>

definition offset_off :: "u8 \<Rightarrow> nat" where
  "offset_off offset = unat (offset AND 3)"

definition offset_base :: "u8 \<Rightarrow> u8" where
  "offset_base offset = offset - (offset AND 3)"

definition pci_cfg_read_dword :: "u8 \<Rightarrow> u8 \<Rightarrow> u8 \<Rightarrow> u8 \<Rightarrow> pci \<Rightarrow> u32 \<times> pci" where
  "pci_cfg_read_dword bus dev func offset st =
     (let k = offset_off offset; offset = offset_base offset
      in if k = 0 then pci_cfg_read_dword_aligned bus dev func offset st
         else let (lo, st) = pci_cfg_read_dword_aligned bus dev func offset st;
                  (hi, st) = pci_cfg_read_dword_aligned bus dev func (offset + 4) st
              in (drop_bit (8 * k) lo OR push_bit (32 - 8 * k) hi, st))"

definition pci_cfg_write_dword :: "u8 \<Rightarrow> u8 \<Rightarrow> u8 \<Rightarrow> u8 \<Rightarrow> u32 \<Rightarrow> pci \<Rightarrow> pci" where
  "pci_cfg_write_dword bus dev func offset val st =
     (let k = offset_off offset; offset = offset_base offset
      in if k = 0 then pci_cfg_write_dword_aligned bus dev func offset val st
         else let mask = [0x00000000, 0x000000FF, 0x0000FFFF, 0x00FFFFFF] ! k;
                  (lo, st) = pci_cfg_read_dword_aligned bus dev func offset st;
                  st = pci_cfg_write_dword_aligned bus dev func offset ((lo AND mask) OR push_bit (8 * k) val) st;
                  (hi, st) = pci_cfg_read_dword_aligned bus dev func (offset + 4) st
              in pci_cfg_write_dword_aligned bus dev func (offset + 4) ((hi AND NOT mask) OR push_bit (32 - 8 * k) val) st)"

definition pci_cfg_read_word :: "u8 \<Rightarrow> u8 \<Rightarrow> u8 \<Rightarrow> u8 \<Rightarrow> pci \<Rightarrow> u16 \<times> pci" where
  "pci_cfg_read_word bus dev func offset st =
     (let k = offset_off offset; offset = offset_base offset;
          (lo, st) = pci_cfg_read_dword_aligned bus dev func offset st;
          ret = ucast (drop_bit (8 * k) lo)
      in if k = 3 then
           let (hi, st) = pci_cfg_read_dword_aligned bus dev func (offset + 4) st
           in (ret OR ucast (push_bit 8 (hi AND 0xFF)), st)
         else (ret, st))"

definition pci_cfg_write_word :: "u8 \<Rightarrow> u8 \<Rightarrow> u8 \<Rightarrow> u8 \<Rightarrow> u16 \<Rightarrow> pci \<Rightarrow> pci" where
  "pci_cfg_write_word bus dev func offset val st =
     (let k = offset_off offset; offset = offset_base offset;
          mask = [0xFFFF0000, 0xFF0000FF, 0x0000FFFF, 0x00FFFFFF] ! k;
          (lo, st) = pci_cfg_read_dword_aligned bus dev func offset st;
          st = pci_cfg_write_dword_aligned bus dev func offset ((lo AND mask) OR push_bit (8 * k) (ucast val)) st
      in if k = 3 then
           let (hi, st) = pci_cfg_read_dword_aligned bus dev func (offset + 4) st
           in pci_cfg_write_dword_aligned bus dev func (offset + 4) ((hi AND 0xFFFFFF00) OR ucast (drop_bit 8 val)) st
         else st)"

definition pci_cfg_read_byte :: "u8 \<Rightarrow> u8 \<Rightarrow> u8 \<Rightarrow> u8 \<Rightarrow> pci \<Rightarrow> u8 \<times> pci" where
  "pci_cfg_read_byte bus dev func offset st =
     (let k = offset_off offset; offset = offset_base offset;
          (v, st) = pci_cfg_read_dword_aligned bus dev func offset st
      in (ucast (drop_bit (8 * k) v), st))"

definition pci_cfg_write_byte :: "u8 \<Rightarrow> u8 \<Rightarrow> u8 \<Rightarrow> u8 \<Rightarrow> u8 \<Rightarrow> pci \<Rightarrow> pci" where
  "pci_cfg_write_byte bus dev func offset val st =
     (let k = offset_off offset; offset = offset_base offset;
          mask = [0xFFFFFF00, 0xFFFF00FF, 0xFF00FFFF, 0x00FFFFFF] ! k;
          (v, st) = pci_cfg_read_dword_aligned bus dev func offset st
      in pci_cfg_write_dword_aligned bus dev func offset ((v AND mask) OR push_bit (8 * k) (ucast val)) st)"

section \<open>Interrupt lines set up by the BIOS\<close>

text \<open>
  The interrupt number and, when there is one, the flags (\<open>PCI_IRQ_EDGE\<close> is 1); 0x3C is
  \<open>PCI_CFG_H0_IRQ_LINE\<close>.
\<close>

definition pci_arch_get_irq_routing :: "u8 \<Rightarrow> u8 \<Rightarrow> u8 \<Rightarrow> u8 \<Rightarrow> pci \<Rightarrow> (u32 \<times> u8 option) \<times> pci" where
  "pci_arch_get_irq_routing bus dev func pin st =
     (let (irq, st) = pci_cfg_read_word bus dev func 0x3C st; line = irq AND 0xFF; cfg_pin = drop_bit 8 irq
      in if ((pin = - 1 \<and> cfg_pin \<noteq> 0 \<and> cfg_pin \<le> 4) \<or> cfg_pin = ucast pin) \<and> line \<le> 15
         then ((if pci_apic st then ucast (pci_gsi st ! unat line) else ucast line, Some 1), st)
         else ((size_max, None), st))"

section \<open>Scan\<close>

definition pci_kcalloc :: "pci \<Rightarrow> nat option \<times> pci" where
  "pci_kcalloc st =
     (let (ok, st) = (case pci_heap st of [] \<Rightarrow> (True, st) | a # as \<Rightarrow> (a, st\<lparr>pci_heap := as\<rparr>))
      in if ok then (Some (pci_new st), st\<lparr>pci_new := pci_new st + 1\<rparr>) else (None, st))"

text \<open>The names are printed with \<^verbatim>\<open>%02x:%02x.%x\<close> and \<^verbatim>\<open>%04x:%04x\<close>.\<close>

definition hexd :: "nat \<Rightarrow> u8" where
  "hexd d = (if d < 10 then 48 + of_nat d else 87 + of_nat d)"

fun hex_digits :: "nat \<Rightarrow> u8 list" where
  "hex_digits n = (if n < 16 then [hexd n] else hex_digits (n div 16) @ [hexd (n mod 16)])"

declare hex_digits.simps [simp del]

definition fmt_x :: "nat \<Rightarrow> nat \<Rightarrow> u8 list" where
  "fmt_x width n = replicate (width - length (hex_digits n)) 48 @ hex_digits n"

definition pci_name_geo :: "u8 \<Rightarrow> u8 \<Rightarrow> u8 \<Rightarrow> u8 list" where
  "pci_name_geo bus dev func = fmt_x 2 (unat bus) @ [58] @ fmt_x 2 (unat dev) @ [46] @ fmt_x 1 (unat func)"

definition pci_name_id :: "u16 \<Rightarrow> u16 \<Rightarrow> u8 list" where
  "pci_name_id vid pid = fmt_x 4 (unat vid) @ [58] @ fmt_x 4 (unat pid)"

text \<open>Allocating, filling in and linking a node; 52 is the size of a \<open>pci_devtree_t\<close>.\<close>

definition pci_add_node ::
  "nat \<Rightarrow> u8 list \<Rightarrow> u16 \<Rightarrow> u16 \<Rightarrow> u8 \<Rightarrow> u8 \<Rightarrow> u8 \<Rightarrow> u8 \<Rightarrow> u8 \<Rightarrow> pci \<Rightarrow> pci" where
  "pci_add_node root name vid pid cls subclass bus dev func st =
     (case pci_kcalloc st of
        (None, st) \<Rightarrow> st
      | (Some n, st) \<Rightarrow>
          let node = \<lparr>dt_size = 52, dt_name = name, dt_type = DEVTREE_NODE_DEVICE, dt_parent = None, dt_child = None,
                dt_sibling = None, dt_in_use = False, pd_vid = vid, pd_pid = pid, pd_class = cls,
                pd_subclass = subclass, pd_bus = bus, pd_dev = dev, pd_func = func\<rparr>
          in st\<lparr>pci_nodes := devtree_add_child root n ((pci_nodes st)(n := node))\<rparr>)"

text \<open>
  One function. The offsets are those of the vendor and product identifiers, of the subclass and
  class, and of the secondary bus of a bridge; class 6 with subclass 4 or 9 is a bridge to another
  PCI bus, which is scanned by \<open>scan_bus\<close>. The value tells whether the function exists.
\<close>

definition pci_scan_func :: "(u8 \<Rightarrow> pci \<Rightarrow> pci option) \<Rightarrow> u8 \<Rightarrow> u8 \<Rightarrow> u8 \<Rightarrow> pci \<Rightarrow> (bool \<times> pci) option" where
  "pci_scan_func scan_bus bus dev func st =
     (let (vp, st) = pci_cfg_read_dword bus dev func 0x00 st; vid = ucast vp; pid = ucast (drop_bit 16 vp)
      in if vid = 0xFFFF then Some (False, st)
         else let (cs, st) = pci_cfg_read_word bus dev func 0x0A st; sub = ucast cs; cls = ucast (drop_bit 8 cs);
                  st = pci_add_node 2 (pci_name_geo bus dev func) vid pid cls sub bus dev func st;
                  st = pci_add_node 3 (pci_name_id vid pid) vid pid cls sub bus dev func st
              in if cls = 0x06 \<and> (sub = 0x04 \<or> sub = 0x09) then
                   let (bus_sec, st) = pci_cfg_read_byte bus dev func 0x19 st
                   in map_option (Pair True) (scan_bus bus_sec st)
                 else Some (True, snd (pci_arch_get_irq_routing bus dev func (- 1) st)))"

text \<open>A device; bit 7 of the header type (offset 0x0E) marks a device with several functions.\<close>

definition pci_scan_dev :: "(u8 \<Rightarrow> pci \<Rightarrow> pci option) \<Rightarrow> u8 \<Rightarrow> u8 \<Rightarrow> pci \<Rightarrow> pci option" where
  "pci_scan_dev scan_bus bus dev st =
     Option.bind (pci_scan_func scan_bus bus dev 0 st) (\<lambda>(found, st).
       if \<not> found then Some st
       else let (hdr, st) = pci_cfg_read_byte bus dev 0 0x0E st
            in if hdr AND 0x80 \<noteq> 0
               then fold_opt (\<lambda>func st. map_option snd (pci_scan_func scan_bus bus dev func st)) (map of_nat [1..<8]) st
               else Some st)"

text \<open>
  A bus. The scans of buses behind bridges are nested; the first argument bounds their depth, and
  \<open>None\<close> is a scan that nests deeper.
\<close>

primrec pci_scan_bus :: "nat \<Rightarrow> u8 \<Rightarrow> pci \<Rightarrow> pci option" where
  "pci_scan_bus 0 = (\<lambda>bus st. None)"
| "pci_scan_bus (Suc depth) = (\<lambda>bus st. fold_opt (pci_scan_dev (pci_scan_bus depth) bus) (map of_nat [0..<32]) st)"

fun pci_init_loop :: "nat \<Rightarrow> u8 list \<Rightarrow> pci \<Rightarrow> pci option" where
  "pci_init_loop depth [] st = Some st"
| "pci_init_loop depth (func # funcs) st =
     (let (vid, st) = pci_cfg_read_word 0 0 func 0x00 st
      in if vid \<noteq> 0xFFFF then Some st
         else Option.bind (pci_scan_bus depth func st) (pci_init_loop depth funcs))"

definition pci_init :: "nat \<Rightarrow> pci \<Rightarrow> pci option" where
  "pci_init depth st =
     (let st = st\<lparr>pci_nodes := devtree_add_child 0 1 (pci_nodes st)\<rparr>;
          (hdr, st) = pci_cfg_read_byte 0 0 0 0x0E st
      in if hdr AND 0x80 = 0 then pci_scan_bus depth 0 st
         else pci_init_loop depth (map of_nat [0..<8]) st)"

section \<open>Bytes of the configuration space\<close>

named_theorems byte_simps \<comment> \<open>bytes of masked, shifted and joined words\<close>

text \<open>Byte \<open>i\<close> of a double word, and of the 256 bytes of configuration space of a function.\<close>

definition byte_of :: "u32 \<Rightarrow> nat \<Rightarrow> u8" where
  "byte_of w i = ucast (drop_bit (8 * i) w)"

definition cfg_byte :: "u8 \<Rightarrow> u8 \<Rightarrow> u8 \<Rightarrow> pci \<Rightarrow> u8 \<Rightarrow> u8" where
  "cfg_byte bus dev func st i = byte_of (pci_regs st (pci_cfg_address bus dev func i)) (offset_off i)"

lemma bit_byte_of: "bit (byte_of w i) n = (n < 8 \<and> bit w (8 * i + n))"
  by (auto simp: byte_of_def bit_simps)

lemma offset_off_less: "offset_off i < 4"
  using word_and_le1 [of i 3] by (auto simp: offset_off_def word_le_nat_alt word_less_nat_alt intro: le_less_trans)

lemma cfg_masks:
  "(3 :: u8) = mask 2" "(252 :: u8) = push_bit 2 (mask 6)" "(252 :: u32) = push_bit 2 (mask 6)"
  by (simp_all add: mask_eq_exp_minus_1 push_bit_eq_mult)

lemma bit_enable: "bit (2147483648 :: u32) n \<longleftrightarrow> n = 31"
proof -
  have "(2147483648 :: u32) = push_bit 31 1" by (simp add: push_bit_eq_mult)
  then show ?thesis by (simp only: bit_simps) auto
qed

lemma bit_enable_int: "bit (2147483648 :: int) n \<longleftrightarrow> n = 31"
proof -
  have "(2147483648 :: int) = push_bit 31 1" by (simp add: push_bit_eq_mult)
  then show ?thesis by (simp only: bit_simps) auto
qed

lemma offset_base_and: "offset_base i = i AND NOT 3"
  unfolding offset_base_def
  by (subst disjunctive_diff_eq_and_not) (auto intro!: bit_word_eqI simp: bit_simps)

lemma pci_cfg_address_base [simp]: "pci_cfg_address bus dev func (offset_base i) = pci_cfg_address bus dev func i"
  unfolding pci_cfg_address_def offset_base_and cfg_masks
  by (rule bit_word_eqI) (auto simp: bit_simps bit_enable bit_enable_int)

lemma ucast_pci_cfg_address: "ucast (pci_cfg_address bus dev func i) = (offset_base i)"
  unfolding pci_cfg_address_def offset_base_and cfg_masks
  by (rule bit_word_eqI) (auto simp: bit_simps bit_enable bit_enable_int)

lemma pci_cfg_address_eq_iff:
  "pci_cfg_address bus dev func i = pci_cfg_address bus dev func j \<longleftrightarrow> offset_base i = offset_base j"
  by (metis pci_cfg_address_base ucast_pci_cfg_address)

lemma unat_offset_off: "offset_off i = unat i mod 4"
  unfolding offset_off_def cfg_masks 
  by (simp only: take_bit_eq_mask [symmetric] unsigned_take_bit_eq) (simp add: take_bit_eq_mod)

lemma unat_offset_base: "unat (offset_base i) = unat i div 4 * 4"
proof -
  have "unat (offset_base i) = unat i - offset_off i"
    unfolding offset_base_def offset_off_def by (rule unat_sub) (rule word_and_le2)
  then show ?thesis by (simp add: unat_offset_off minus_mod_eq_div_mult [symmetric])
qed

text \<open>Where the bytes from an offset on lie.\<close>

lemma nat_div4_add: "j < 4 \<Longrightarrow> (n + j) div 4 = n div 4 + (if n mod 4 + j < 4 then 0 else 1)" for n j :: nat
  using div_add1_eq [of n j 4] div_nat_eqI [of 4 1 "n mod 4 + j"] by auto

lemma offset_step:
  assumes "j < 4"
  shows "offset_off (i + of_nat j) = (offset_off i + j) mod 4"
    and "offset_base (i + of_nat j) = offset_base i + (if offset_off i + j < 4 then 0 else 4)"
proof -
  have u: "unat (i + of_nat j) = (unat i + j) mod 256"
    using assms by (simp add: unat_word_ariths unat_of_nat)
  have "(unat i + j) mod 256 mod 4 = (unat i + j) mod 4" by (rule mod_mod_cancel) simp
  then show "offset_off (i + of_nat j) = (offset_off i + j) mod 4"
    unfolding unat_offset_off u by (simp add: mod_add_left_eq)
  have blocks: "m mod 256 div 4 = m div 4 mod 64" for m :: nat
    using mod_mult2_eq [of m 4 64] by simp
  have "(unat i + j) div 4 = unat i div 4 + (if offset_off i + j < 4 then 0 else 1)"
    using nat_div4_add [OF assms] by (simp add: unat_offset_off)
  moreover have "unat i div 4 < 64" using unat_u8_less [of i] by linarith
  ultimately have "unat (offset_base (i + of_nat j)) = unat (offset_base i + (if offset_off i + j < 4 then 0 else 4))"
    unfolding unat_offset_base u blocks using mod_mult_mult2 [of "Suc (unat i div 4)" 4 64]
    by (auto simp: unat_offset_base unat_word_ariths) (simp add: add.commute)
  then show "offset_base (i + of_nat j) = offset_base i + (if offset_off i + j < 4 then 0 else 4)"
    by (simp add: unsigned_word_eqI)
qed

text \<open>Aligned accesses.\<close>

lemma read_aligned:
  "pci_cfg_read_dword_aligned bus dev func offset st =
     (pci_regs st (pci_cfg_address bus dev func offset), st\<lparr>pci_latch := pci_cfg_address bus dev func offset\<rparr>)"
  by (simp add: pci_cfg_read_dword_aligned_def pci_outl_def pci_inl_def)

lemma write_aligned:
  "pci_cfg_write_dword_aligned bus dev func offset val st =
     st\<lparr>pci_latch := pci_cfg_address bus dev func offset,
        pci_regs := (pci_regs st)(pci_cfg_address bus dev func offset := val)\<rparr>"
  by (simp add: pci_cfg_write_dword_aligned_def pci_outl_def)

lemma cfg_byte_latch [simp]: "cfg_byte bus dev func (st\<lparr>pci_latch := a\<rparr>) = cfg_byte bus dev func st"
  by (rule ext) (simp add: cfg_byte_def)

lemma cfg_byte_write:
  "cfg_byte bus dev func (pci_cfg_write_dword_aligned bus dev func offset val st) i =
     (if offset_base i = offset_base offset then byte_of val (offset_off i) else cfg_byte bus dev func st i)"
  by (auto simp: cfg_byte_def write_aligned pci_cfg_address_eq_iff)

text \<open>The bytes of the double word of an offset, and of the next one.\<close>

lemma cfg_byte_low:
  assumes "offset_off i + j < 4"
  shows "byte_of (pci_regs st (pci_cfg_address bus dev func i)) (offset_off i + j) = cfg_byte bus dev func st (i + of_nat j)"
proof -
  have "j < 4" using assms by simp
  then show ?thesis
    using assms offset_step [of j i] pci_cfg_address_eq_iff [of bus dev func i "i + of_nat j"]
    by (simp add: cfg_byte_def)
qed

lemma cfg_byte_high:
  assumes "4 \<le> offset_off i + j" and "j < 4"
  shows "byte_of (pci_regs st (pci_cfg_address bus dev func (offset_base i + 4))) (offset_off i + j - 4) =
    cfg_byte bus dev func st (i + of_nat j)"
proof -
  have "(offset_off i + j) mod 4 = offset_off i + j - 4"
    using assms offset_off_less [of i] by (simp add: mod_if)
  moreover have "pci_cfg_address bus dev func (i + of_nat j) = pci_cfg_address bus dev func (offset_base i + 4)"
    using pci_cfg_address_base [of bus dev func "i + of_nat j"] assms by (simp add: offset_step(2))
  ultimately show ?thesis using assms offset_step [of j i] by (simp add: cfg_byte_def)
qed

text \<open>Different functions have different registers, so writes to one leave the others alone.\<close>

lemma u8_bits:
  "f < 8 \<Longrightarrow> bit f n \<Longrightarrow> n < 3" "d < 32 \<Longrightarrow> bit d n \<Longrightarrow> n < 5" for f d :: u8
proof -
  assume "f < 8" and "bit f n"
  then have "take_bit 3 f = f" by (simp add: take_bit_eq_mod mod_word_less)
  then show "n < 3" using \<open>bit f n\<close> by (metis bit_take_bit_iff)
next
  assume "d < 32" and "bit d n"
  then have "take_bit 5 d = d" by (simp add: take_bit_eq_mod mod_word_less)
  then show "n < 5" using \<open>bit d n\<close> by (metis bit_take_bit_iff)
qed

lemma pci_cfg_address_bits:
  assumes "d < 32" and "f < 8"
  shows "n < 3 \<Longrightarrow> bit (pci_cfg_address b d f i) (8 + n) = bit f n"
    and "n < 5 \<Longrightarrow> bit (pci_cfg_address b d f i) (11 + n) = bit d n"
    and "n < 8 \<Longrightarrow> bit (pci_cfg_address b d f i) (16 + n) = bit b n"
  using u8_bits(1) [OF assms(2)] u8_bits(2) [OF assms(1)]
  unfolding pci_cfg_address_def cfg_masks
  by (auto simp: bit_simps bit_enable bit_enable_int dest: bit_imp_le_length)

lemma pci_cfg_address_inj:
  assumes eq: "pci_cfg_address b d f i = pci_cfg_address b' d' f' i'" and "d < 32" "f < 8" "d' < 32" "f' < 8"
  shows "b' = b \<and> d' = d \<and> f' = f"
proof (intro conjI bit_word_eqI)
  note bits = pci_cfg_address_bits [OF assms(2,3), of _ b i] pci_cfg_address_bits [OF assms(4,5), of _ b' i']
  fix n
  show "bit f' n = bit f n" using bits(1,4) [of n] eq u8_bits(1) [OF assms(3)] u8_bits(1) [OF assms(5)] by metis
  show "bit d' n = bit d n" using bits(2,5) [of n] eq u8_bits(2) [OF assms(2)] u8_bits(2) [OF assms(4)] by metis
  assume "n < LENGTH(8)"
  then show "bit b' n = bit b n" using bits(3,6) [of n] eq by simp
qed

lemma cfg_byte_write_other:
  assumes "(b', d', f') \<noteq> (b, d, f)" and "d < 32" "f < 8" "d' < 32" "f' < 8"
  shows "cfg_byte b' d' f' (pci_cfg_write_dword_aligned b d f offset val st) = cfg_byte b' d' f' st"
  using pci_cfg_address_inj [of b' d' f' _ b d f offset] assms
  by (intro ext) (auto simp: cfg_byte_def write_aligned)

text \<open>Reads return the bytes from their offset on, the low byte first.\<close>

lemma off_cases: "offset_off i = 0 \<or> offset_off i = 1 \<or> offset_off i = 2 \<or> offset_off i = 3"
  using offset_off_less [of i] by linarith

lemma read_byte_bytes: "fst (pci_cfg_read_byte bus dev func offset st) = cfg_byte bus dev func st offset"
  by (simp add: pci_cfg_read_byte_def Let_def read_aligned cfg_byte_def byte_of_def)

lemma cfg_byte_at:
  assumes "j < 4"
  shows "cfg_byte bus dev func st (i + of_nat j) =
    (if offset_off i + j < 4 then byte_of (pci_regs st (pci_cfg_address bus dev func i)) (offset_off i + j)
     else byte_of (pci_regs st (pci_cfg_address bus dev func (offset_base i + 4))) (offset_off i + j - 4))"
  using cfg_byte_low [of i j st bus dev func] cfg_byte_high [of i j st bus dev func] assms by auto

lemma byte_of_joined:
  assumes "k < 4" and "k \<noteq> 0" and "j < 4"
  shows "byte_of (drop_bit (8 * k) lo OR push_bit (32 - 8 * k) hi) j =
    (if k + j < 4 then byte_of lo (k + j) else byte_of hi (k + j - 4))"
proof (rule bit_word_eqI)
  fix n
  assume "n < LENGTH(8)"
  then have n: "n < 8" by simp
  show "bit (byte_of (drop_bit (8 * k) lo OR push_bit (32 - 8 * k) hi) j) n =
      bit (if k + j < 4 then byte_of lo (k + j) else byte_of hi (k + j - 4)) n"
  proof (cases "k + j < 4")
    case True
    then have "\<not> 32 - 8 * k \<le> 8 * j + n" using n by linarith
    then show ?thesis using True n by (simp add: bit_byte_of bit_simps algebra_simps)
  next
    case False
    then have ge: "32 - 8 * k \<le> 8 * j + n" and lt: "8 * j + n < 32"
      and idx: "8 * j + n - (32 - 8 * k) = 8 * (k + j - 4) + n" using n assms by linarith+
    have "\<not> bit lo (8 * k + (8 * j + n))"
      using False by (auto dest!: bit_imp_le_length)
    then show ?thesis using False n ge lt idx by (simp add: bit_byte_of bit_simps)
  qed
qed

lemma bit_u32_over: "\<not> bit (w :: u32) (32 + n)"
  by (auto dest: bit_imp_le_length)

lemma mask_255: "(255 :: u32) = mask 8"
  by (simp add: mask_eq_exp_minus_1)

lemma read_word_byte:
  assumes "j < 2"
  shows "byte_of (ucast (fst (pci_cfg_read_word bus dev func offset st))) j = cfg_byte bus dev func st (offset + of_nat j)"
proof -
  have "j < 4" using assms by simp
  note at = cfg_byte_at [OF this]
  consider "j = 0" | "j = 1" using assms by linarith
  then show ?thesis
    unfolding at pci_cfg_read_word_def mask_255 using off_cases [of offset]
    by cases (auto intro!: bit_word_eqI simp: Let_def read_aligned bit_byte_of bit_simps bit_u32_over)
qed

lemma read_dword_byte:
  assumes "j < 4"
  shows "byte_of (fst (pci_cfg_read_dword bus dev func offset st)) j = cfg_byte bus dev func st (offset + of_nat j)"
  unfolding cfg_byte_at [OF assms]
  using assms offset_off_less [of offset]
  by (auto simp: pci_cfg_read_dword_def Let_def read_aligned byte_of_joined)

text \<open>Writes change the bytes from their offset on and nothing else.\<close>

lemma offset_ext: "offset_base i = offset_base o' \<Longrightarrow> offset_off i = offset_off o' \<Longrightarrow> i = o'"
  by (metis diff_add_cancel offset_base_def offset_off_def unsigned_word_eqI)

lemma byte_of_ops [byte_simps]:
  "byte_of (v AND w) j = byte_of v j AND byte_of w j"
  "byte_of (v OR w) j = byte_of v j OR byte_of w j"
  "j < 4 \<Longrightarrow> byte_of (NOT w) j = NOT (byte_of w j)"
  "j < 4 \<Longrightarrow> byte_of (push_bit (8 * k) w) j = (if k \<le> j then byte_of w (j - k) else 0)"
  "byte_of (ucast b) j = (if j = 0 then b else 0)"
  by (intro bit_word_eqI, auto simp: bit_byte_of bit_simps diff_mult_distrib2 dest: bit_imp_le_length)+

text \<open>The masks of the writes keep the bytes outside of the access.\<close>

lemma byte_masks:
  assumes "k < 4" and "j < 4"
  shows "byte_of ([0xFFFFFF00, 0xFFFF00FF, 0xFF00FFFF, 0x00FFFFFF] ! k) j = (if j = k then 0 else - 1)"
    and "byte_of ([0xFFFF0000, 0xFF0000FF, 0x0000FFFF, 0x00FFFFFF] ! k) j = (if j = k \<or> j = Suc k then 0 else - 1)"
    and "byte_of ([0x00000000, 0x000000FF, 0x0000FFFF, 0x00FFFFFF] ! k) j = (if j < k then - 1 else 0)"
proof -
  have "k = 0 \<or> k = 1 \<or> k = 2 \<or> k = 3" and "j = 0 \<or> j = 1 \<or> j = 2 \<or> j = 3" using assms by linarith+
  then show "byte_of ([0xFFFFFF00, 0xFFFF00FF, 0xFF00FFFF, 0x00FFFFFF] ! k) j = (if j = k then 0 else - 1)"
    and "byte_of ([0xFFFF0000, 0xFF0000FF, 0x0000FFFF, 0x00FFFFFF] ! k) j = (if j = k \<or> j = Suc k then 0 else - 1)"
    and "byte_of ([0x00000000, 0x000000FF, 0x0000FFFF, 0x00FFFFFF] ! k) j = (if j < k then - 1 else 0)"
    by (elim disjE; simp add: byte_of_def)+
qed

lemma write_byte_bytes:
  "cfg_byte bus dev func (pci_cfg_write_byte bus dev func offset val st) = (cfg_byte bus dev func st)(offset := val)"
proof (rule ext)
  fix i
  let ?w = "pci_regs st (pci_cfg_address bus dev func offset)"
  let ?k = "offset_off offset"
  have "byte_of ((?w AND [0xFFFFFF00, 0xFFFF00FF, 0xFF00FFFF, 0x00FFFFFF] ! ?k) OR push_bit (8 * ?k) (ucast val)) j
      = (if j = ?k then val else byte_of ?w j)" if "j < 4" for j
    using that byte_masks(1) [OF offset_off_less that] by (simp add: byte_simps)
  then show "cfg_byte bus dev func (pci_cfg_write_byte bus dev func offset val st) i = ((cfg_byte bus dev func st)(offset := val)) i"
    using offset_off_less [of i] offset_ext [of i offset] pci_cfg_address_eq_iff [of bus dev func i offset]
    by (auto simp: pci_cfg_write_byte_def Let_def read_aligned write_aligned cfg_byte_def)
qed

lemma offset_at_iff:
  assumes "j < 4"
  shows "i = offset + of_nat j \<longleftrightarrow>
    offset_base i = offset_base offset + (if offset_off offset + j < 4 then 0 else 4) \<and> offset_off i = (offset_off offset + j) mod 4"
  using offset_step [OF assms, of offset] offset_ext [of i "offset + of_nat j"] by metis

lemma offset_base_add4 [simp]: "offset_base (offset_base i + 4) = offset_base i + 4"
proof (rule unsigned_word_eqI)
  let ?q = "unat i div 4 * 4 + 4"
  have "(4 :: nat) dvd ?q" by simp
  then have "4 dvd ?q mod 256" by (simp add: dvd_mod)
  moreover have "unat (offset_base i + 4) = ?q mod 256" by (simp add: unat_offset_base unat_word_ariths)
  ultimately show "unat (offset_base (offset_base i + 4)) = unat (offset_base i + 4)"
    by (simp only: unat_offset_base [of "offset_base i + 4"] dvd_div_mult_self)
qed

lemma offset_base_add4_neq [simp]: "offset_base i + 4 \<noteq> offset_base i"
  by simp

lemma byte_of_half:
  "byte_of (ucast h) j = (if j = 0 then ucast h else if j = 1 then ucast (drop_bit 8 h) else 0)" for h :: u16
  by (intro bit_word_eqI) (auto simp: bit_byte_of bit_simps dest: bit_imp_le_length)

lemma byte_of_high:
  "j < 4 \<Longrightarrow> byte_of (ucast (drop_bit 8 h)) j = (if j = 0 then ucast (drop_bit 8 h) else 0)" for h :: u16
  by (intro bit_word_eqI) (auto simp: bit_byte_of bit_simps dest: bit_imp_le_length)

lemma write_word_bytes:
  "cfg_byte bus dev func (pci_cfg_write_word bus dev func offset val st) =
     (cfg_byte bus dev func st)(offset := ucast val, offset + 1 := ucast (drop_bit 8 val))"
proof (rule ext)
  fix i
  let ?w = "pci_regs st (pci_cfg_address bus dev func offset)"
  let ?w' = "pci_regs st (pci_cfg_address bus dev func (offset_base offset + 4))"
  let ?k = "offset_off offset"
  have low: "byte_of ((?w AND [0xFFFF0000, 0xFF0000FF, 0x0000FFFF, 0x00FFFFFF] ! ?k) OR push_bit (8 * ?k) (ucast val)) j
      = (if j = ?k then ucast val else if j = Suc ?k then ucast (drop_bit 8 val) else byte_of ?w j)" if "j < 4" for j
    using that byte_masks(2) [OF offset_off_less that] by (auto simp: byte_of_ops(1,2,4) byte_of_half)
  have high: "byte_of ((?w' AND 0xFFFFFF00) OR ucast (drop_bit 8 val)) j
      = (if j = 0 then ucast (drop_bit 8 val) else byte_of ?w' j)" if "j < 4" for j
    using that byte_masks(1) [of 0 j] by (auto simp: byte_of_ops(1,2) byte_of_high)
  let ?a = "pci_cfg_address bus dev func offset" and ?a' = "pci_cfg_address bus dev func (offset_base offset + 4)"
  let ?v = "(?w AND [0xFFFF0000, 0xFF0000FF, 0x0000FFFF, 0x00FFFFFF] ! ?k) OR push_bit (8 * ?k) (ucast val)"
  let ?v' = "(?w' AND 0xFFFFFF00) OR ucast (drop_bit 8 val)"
  have neq: "?a' \<noteq> ?a" by (simp add: pci_cfg_address_eq_iff)
  have regs: "pci_regs (pci_cfg_write_word bus dev func offset val st) =
      (if ?k = 3 then (pci_regs st)(?a := ?v, ?a' := ?v') else (pci_regs st)(?a := ?v))"
    using neq by (simp add: pci_cfg_write_word_def Let_def read_aligned write_aligned)
  have here: "i = offset \<longleftrightarrow> offset_base i = offset_base offset \<and> offset_off i = ?k"
    using offset_ext [of i offset] by auto
  have there: "i = offset + 1 \<longleftrightarrow> (if ?k = 3 then offset_base i = offset_base offset + 4 \<and> offset_off i = 0
      else offset_base i = offset_base offset \<and> offset_off i = Suc ?k)"
    using offset_at_iff [of 1 i offset] off_cases [of offset] by (elim disjE; simp)
  have same: "offset_base i = offset_base offset \<Longrightarrow> pci_cfg_address bus dev func i = ?a"
    and same': "offset_base i = offset_base offset + 4 \<Longrightarrow> pci_cfg_address bus dev func i = ?a'"
    by (simp_all add: pci_cfg_address_eq_iff)
  show "cfg_byte bus dev func (pci_cfg_write_word bus dev func offset val st) i =
      ((cfg_byte bus dev func st)(offset := ucast val, offset + 1 := ucast (drop_bit 8 val))) i"
    unfolding cfg_byte_def regs fun_upd_apply here there
    using low [OF offset_off_less, of i] high [OF offset_off_less, of i] offset_off_less [of i] neq
    by (auto simp: pci_cfg_address_eq_iff same same')
qed

text \<open>
  The bytes after a write of a double word. At an offset that is not a multiple of four the part in
  the next double word is wrong: \<open>val\<close> is shifted left where its upper bytes had to be shifted down.
\<close>

definition dword_written :: "u8 \<Rightarrow> u32 \<Rightarrow> (u8 \<Rightarrow> u8) \<Rightarrow> u8 \<Rightarrow> u8" where
  "dword_written offset val old i =
     (let k = offset_off offset; j = offset_off i
      in if offset_base i = offset_base offset then (if j < k then old i else byte_of val (j - k))
         else if offset_base i = offset_base offset + 4 \<and> k \<noteq> 0 then
           (if j < k then 0 else old i) OR (if 4 - k \<le> j then byte_of val (j - (4 - k)) else 0)
         else old i)"

lemma write_dword_bytes:
  "cfg_byte bus dev func (pci_cfg_write_dword bus dev func offset val st) = dword_written offset val (cfg_byte bus dev func st)"
proof (rule ext)
  fix i
  let ?a = "pci_cfg_address bus dev func offset" and ?a' = "pci_cfg_address bus dev func (offset_base offset + 4)"
  let ?k = "offset_off offset" and ?mask = "[0x00000000, 0x000000FF, 0x0000FFFF, 0x00FFFFFF] ! offset_off offset"
  let ?v = "(pci_regs st ?a AND ?mask) OR push_bit (8 * ?k) val"
  let ?v' = "(pci_regs st ?a' AND NOT ?mask) OR push_bit (32 - 8 * ?k) val"
  have low: "byte_of ?v j = (if j < ?k then byte_of (pci_regs st ?a) j else byte_of val (j - ?k))" if "j < 4" for j
    using that byte_masks(3) [OF offset_off_less that, of offset] by (simp add: byte_of_ops(1,2,4))
  have "32 - 8 * ?k = 8 * (4 - ?k)" using offset_off_less [of offset] by (simp add: diff_mult_distrib2)
  then have high: "byte_of ?v' j = (if j < ?k then 0 else byte_of (pci_regs st ?a') j) OR
      (if 4 - ?k \<le> j then byte_of val (j - (4 - ?k)) else 0)" if "j < 4" for j
    using that byte_masks(3) [OF offset_off_less that, of offset] by (simp add: byte_of_ops)
  have neq: "?a' \<noteq> ?a" by (simp add: pci_cfg_address_eq_iff)
  have regs: "pci_regs (pci_cfg_write_dword bus dev func offset val st) =
      (if ?k = 0 then (pci_regs st)(?a := val) else (pci_regs st)(?a := ?v, ?a' := ?v'))"
    using neq by (simp add: pci_cfg_write_dword_def Let_def read_aligned write_aligned)
  have same: "offset_base i = offset_base offset \<Longrightarrow> pci_cfg_address bus dev func i = ?a"
    and same': "offset_base i = offset_base offset + 4 \<Longrightarrow> pci_cfg_address bus dev func i = ?a'"
    by (simp_all add: pci_cfg_address_eq_iff)
  show "cfg_byte bus dev func (pci_cfg_write_dword bus dev func offset val st) i = dword_written offset val (cfg_byte bus dev func st) i"
    unfolding cfg_byte_def regs dword_written_def Let_def fun_upd_apply
    using low [OF offset_off_less, of i] high [OF offset_off_less, of i] neq
    by (auto simp: pci_cfg_address_eq_iff same same')
qed

section \<open>What a scan finds\<close>

text \<open>
  The functions in a configuration space \<open>c\<close>, given as the bytes of each function: which exist,
  which are bridges and to which bus, and which a scan of their bus looks at.
\<close>

type_synonym cfg = "u8 \<Rightarrow> u8 \<Rightarrow> u8 \<Rightarrow> u8 \<Rightarrow> u8"

definition pf_present :: "cfg \<Rightarrow> u8 \<Rightarrow> u8 \<Rightarrow> u8 \<Rightarrow> bool" where
  "pf_present c b d f \<longleftrightarrow> \<not> (c b d f 0 = 0xFF \<and> c b d f 1 = 0xFF)"

definition pf_bridge :: "cfg \<Rightarrow> u8 \<Rightarrow> u8 \<Rightarrow> u8 \<Rightarrow> bool" where
  "pf_bridge c b d f \<longleftrightarrow> c b d f 0x0B = 6 \<and> (c b d f 0x0A = 4 \<or> c b d f 0x0A = 9)"

definition pf_looked_at :: "cfg \<Rightarrow> u8 \<Rightarrow> u8 \<Rightarrow> u8 \<Rightarrow> bool" where
  "pf_looked_at c b d f \<longleftrightarrow>
     d < 32 \<and> pf_present c b d 0 \<and> pf_present c b d f \<and> (f = 0 \<or> c b d 0 0x0E AND 0x80 \<noteq> 0 \<and> f < 8)"

definition pf_leads :: "cfg \<Rightarrow> u8 \<Rightarrow> u8 \<Rightarrow> bool" where
  "pf_leads c b s \<longleftrightarrow> (\<exists>d f. pf_looked_at c b d f \<and> pf_bridge c b d f \<and> s = c b d f 0x19)"

definition pf_found :: "cfg \<Rightarrow> u8 \<Rightarrow> (u8 \<times> u8 \<times> u8) set" where
  "pf_found c b = {(s, d, f). (pf_leads c)\<^sup>*\<^sup>* b s \<and> pf_looked_at c s d f}"

text \<open>The configuration space of a state does not depend on the rest of it.\<close>

definition pci_cfg :: "pci \<Rightarrow> cfg" where
  "pci_cfg st b d f = cfg_byte b d f st"

lemma pci_cfg_regs: "pci_regs st' = pci_regs st \<Longrightarrow> pci_cfg st' = pci_cfg st"
  by (intro ext) (simp add: pci_cfg_def cfg_byte_def)

text \<open>The accesses of the scan in terms of these bytes.\<close>

lemma read_keeps [simp]:
  "pci_regs (snd (pci_cfg_read_dword b d f i st)) = pci_regs st"
  "pci_regs (snd (pci_cfg_read_word b d f i st)) = pci_regs st"
  "pci_regs (snd (pci_cfg_read_byte b d f i st)) = pci_regs st"
  by (simp_all add: pci_cfg_read_dword_def pci_cfg_read_word_def pci_cfg_read_byte_def Let_def read_aligned)

lemma read_latch:
  "\<exists>a. snd (pci_cfg_read_dword b d f i st) = st\<lparr>pci_latch := a\<rparr>"
  "\<exists>a. snd (pci_cfg_read_word b d f i st) = st\<lparr>pci_latch := a\<rparr>"
  "\<exists>a. snd (pci_cfg_read_byte b d f i st) = st\<lparr>pci_latch := a\<rparr>"
  by (auto simp: pci_cfg_read_dword_def pci_cfg_read_word_def pci_cfg_read_byte_def Let_def read_aligned)

lemma half_bytes: "ucast h = byte_of (ucast h) 0" "ucast (drop_bit 8 h) = byte_of (ucast h) (Suc 0)" for h :: u16
  by (intro bit_word_eqI, auto simp: bit_byte_of bit_simps)+

lemma read_word_halves:
  "ucast (fst (pci_cfg_read_word b d f i st)) = cfg_byte b d f st i"
  "ucast (drop_bit 8 (fst (pci_cfg_read_word b d f i st))) = cfg_byte b d f st (i + 1)"
  using read_word_byte [of 0 b d f i st] read_word_byte [of 1 b d f i st]
  by (simp_all add: half_bytes [symmetric])

lemma half_join: "h = ucast (byte_of (ucast h) 0) OR push_bit 8 (ucast (byte_of (ucast h) 1))" for h :: u16
proof (rule bit_word_eqI)
  fix n
  assume "n < LENGTH(16)"
  then show "bit h n = bit (ucast (byte_of (ucast h) 0) OR push_bit 8 (ucast (byte_of (ucast h) 1)) :: u16) n"
    by (cases "n < 8") (auto simp: bit_byte_of bit_simps)
qed

lemma word_ones_iff: "h = 0xFFFF \<longleftrightarrow> byte_of (ucast h) 0 = 0xFF \<and> byte_of (ucast h) 1 = 0xFF" for h :: u16
proof
  assume bytes: "byte_of (ucast h) 0 = 0xFF \<and> byte_of (ucast h) 1 = 0xFF"
  show "h = 0xFFFF" by (subst half_join) (simp only: bytes, simp)
qed (simp add: byte_of_def)

lemma byte_of_ucast_half: "j < 2 \<Longrightarrow> byte_of (ucast (ucast w :: u16)) j = byte_of w j"
  by (intro bit_word_eqI) (auto simp: bit_byte_of bit_simps)

lemma read_vid_ones:
  "(ucast (fst (pci_cfg_read_dword b d f 0 st)) = (0xFFFF :: u16)) = (\<not> pf_present (pci_cfg st) b d f)"
  "(fst (pci_cfg_read_word b d f 0 st) = 0xFFFF) = (\<not> pf_present (pci_cfg st) b d f)"
  using read_dword_byte [of 0 b d f 0 st] read_dword_byte [of 1 b d f 0 st]
    read_word_byte [of 0 b d f 0 st] read_word_byte [of 1 b d f 0 st]
  by (simp_all add: word_ones_iff byte_of_ucast_half pf_present_def pci_cfg_def)

section \<open>The lists of nodes\<close>

text \<open>\<open>gs\<close> and \<open>is\<close> are the nodes listed by position and by identifier.\<close>

definition pci_ok :: "pci \<Rightarrow> nat list \<Rightarrow> nat list \<Rightarrow> bool" where
  "pci_ok st gs is \<longleftrightarrow>
     dt_children (pci_nodes st) 2 gs \<and> dt_children (pci_nodes st) 3 is \<and>
     (\<forall>n \<in> set gs \<union> set is. n < pci_new st) \<and> 3 < pci_new st \<and> pci_heap st = []"

definition pd_geo :: "pci_devtree \<Rightarrow> u8 \<times> u8 \<times> u8" where
  "pd_geo node = (pd_bus node, pd_dev node, pd_func node)"

text \<open>A step that lists the functions \<open>fs\<close>, in this order, in both lists.\<close>

definition pci_lists :: "pci \<Rightarrow> (u8 \<times> u8 \<times> u8) list \<Rightarrow> pci \<Rightarrow> bool" where
  "pci_lists st fs st' \<longleftrightarrow>
     pci_regs st' = pci_regs st \<and> pci_new st \<le> pci_new st' \<and>
     (\<forall>n < pci_new st. pd_geo (pci_nodes st' n) = pd_geo (pci_nodes st n)) \<and>
     (\<forall>gs is. pci_ok st gs is \<longrightarrow>
        (\<exists>ns ms. pci_ok st' (rev ns @ gs) (rev ms @ is) \<and>
           map (\<lambda>n. pd_geo (pci_nodes st' n)) ns = fs \<and> map (\<lambda>n. pd_geo (pci_nodes st' n)) ms = fs))"

lemma pci_lists_latch [simp]: "pci_lists st [] (st\<lparr>pci_latch := a\<rparr>)"
  unfolding pci_lists_def by (auto simp: pci_ok_def intro!: exI [of _ "[]"])

lemma pci_lists_trans:
  assumes "pci_lists st fs st1" and "pci_lists st1 fs' st2"
  shows "pci_lists st (fs @ fs') st2"
proof -
  have keep: "pd_geo (pci_nodes st2 n) = pd_geo (pci_nodes st n)" if "n < pci_new st" for n
    using assms that by (simp add: pci_lists_def)
  have "\<exists>ns ms. pci_ok st2 (rev ns @ gs) (rev ms @ is) \<and>
      map (\<lambda>n. pd_geo (pci_nodes st2 n)) ns = fs @ fs' \<and> map (\<lambda>n. pd_geo (pci_nodes st2 n)) ms = fs @ fs'"
    if ok: "pci_ok st gs is" for gs "is"
  proof -
    obtain ns ms where 1: "pci_ok st1 (rev ns @ gs) (rev ms @ is)"
      "map (\<lambda>n. pd_geo (pci_nodes st1 n)) ns = fs" "map (\<lambda>n. pd_geo (pci_nodes st1 n)) ms = fs"
      using assms(1) ok unfolding pci_lists_def by blast
    obtain ns' ms' where 2: "pci_ok st2 (rev ns' @ rev ns @ gs) (rev ms' @ rev ms @ is)"
      "map (\<lambda>n. pd_geo (pci_nodes st2 n)) ns' = fs'" "map (\<lambda>n. pd_geo (pci_nodes st2 n)) ms' = fs'"
      using assms(2) 1(1) unfolding pci_lists_def by blast
    have "pd_geo (pci_nodes st2 n) = pd_geo (pci_nodes st1 n)" if "n \<in> set ns \<union> set ms" for n
      using assms(2) 1(1) that by (auto simp: pci_lists_def pci_ok_def)
    then have "map (\<lambda>n. pd_geo (pci_nodes st2 n)) ns = fs" "map (\<lambda>n. pd_geo (pci_nodes st2 n)) ms = fs"
      using 1(2,3) by (auto intro: trans [OF map_cong [OF refl]])
    then show ?thesis
      using 2 by (intro exI [of _ "ns @ ns'"] exI [of _ "ms @ ms'"]) simp
  qed
  then show ?thesis using assms keep by (auto simp: pci_lists_def)
qed

text \<open>Adding the nodes of a function.\<close>

lemma add_node_eq:
  "pci_heap st = [] \<Longrightarrow> pci_add_node root name vid pid cls subclass b d f st =
     st\<lparr>pci_nodes := devtree_add_child root (pci_new st) ((pci_nodes st)(pci_new st :=
          \<lparr>dt_size = 52, dt_name = name, dt_type = DEVTREE_NODE_DEVICE, dt_parent = None, dt_child = None,
           dt_sibling = None, dt_in_use = False, pd_vid = vid, pd_pid = pid, pd_class = cls,
           pd_subclass = subclass, pd_bus = b, pd_dev = d, pd_func = f\<rparr>)),
        pci_new := pci_new st + 1\<rparr>"
  by (simp add: pci_add_node_def pci_kcalloc_def Let_def)

lemma add_child_pd [simp]: "pd_geo (devtree_add_child p c nodes n) = pd_geo (nodes n)"
  by (simp add: devtree_add_child_def Let_def pd_geo_def)

lemma dt_children_new:
  assumes "dt_children nodes n ns" and "c \<notin> set ns" and "n \<noteq> c"
  shows "dt_children (nodes(c := v)) n ns"
proof -
  have "dt_chain (nodes(c := v)) p ns = dt_chain nodes p ns" for p
    using assms by (intro dt_chain_cong) auto
  with assms show ?thesis by (simp add: dt_children_def)
qed

lemma add_node_simps:
  assumes "pci_heap st = []"
  shows "pci_new (pci_add_node root name vid pid cls sub b d f st) = pci_new st + 1"
    and "pci_heap (pci_add_node root name vid pid cls sub b d f st) = []"
    and "pci_regs (pci_add_node root name vid pid cls sub b d f st) = pci_regs st"
    and "pd_geo (pci_nodes (pci_add_node root name vid pid cls sub b d f st) n) =
      (if n = pci_new st then (b, d, f) else pd_geo (pci_nodes st n))"
  by (simp_all add: add_node_eq [OF assms] assms) (simp add: pd_geo_def)

lemma add_node_children:
  assumes "pci_heap st = []" and "dt_children (pci_nodes st) q ns" and "\<forall>n \<in> set ns. n < pci_new st"
    and "q < pci_new st" and "root < pci_new st"
  shows "dt_children (pci_nodes (pci_add_node root name vid pid cls sub b d f st)) q (if q = root then pci_new st # ns else ns)"
proof -
  have fresh: "pci_new st \<notin> set ns" "root \<noteq> pci_new st" "q \<noteq> pci_new st" using assms(3-5) by auto
  have old: "dt_children ((pci_nodes st)(pci_new st := v)) q ns" for v
    by (rule dt_children_new [OF assms(2) fresh(1,3)])
  show ?thesis
  proof (cases "q = root")
    case True
    then show ?thesis
      using add_child_children [OF fresh(2) old [unfolded True] fresh(1)] by (simp add: add_node_eq [OF assms(1)])
  next
    case False
    then show ?thesis
      using add_child_others [OF fresh(2) old fresh(1) False] by (simp add: add_node_eq [OF assms(1)])
  qed
qed

lemma add_both_nodes:
  assumes "pci_heap st = []"
  shows "pci_lists st [(b, d, f)]
    (pci_add_node 3 name' vid pid cls sub b d f (pci_add_node 2 name vid pid cls sub b d f st))"
proof -
  let ?n = "pci_new st"
  let ?st = "pci_add_node 2 name vid pid cls sub b d f st"
  let ?st1 = "pci_add_node 3 name' vid pid cls sub b d f ?st"
  note one = add_node_simps [OF assms, of 2 name vid pid cls sub b d f]
  note two = add_node_simps [OF one(2), of 3 name' vid pid cls sub b d f]
  have lists: "pci_ok ?st1 (?n # gs) (Suc ?n # is)" if ok: "pci_ok st gs is" for gs "is"
  proof -
    have ch: "dt_children (pci_nodes st) 2 gs" "dt_children (pci_nodes st) 3 is"
      and lt: "\<forall>n \<in> set gs. n < ?n" "\<forall>n \<in> set is. n < ?n" and three: "3 < ?n"
      using ok by (simp_all add: pci_ok_def)
    have 1: "dt_children (pci_nodes ?st) 2 (?n # gs)" "dt_children (pci_nodes ?st) 3 is"
      using add_node_children [OF assms ch(1) lt(1), of 2] add_node_children [OF assms ch(2) lt(2), of 2] three by simp_all
    have lt': "\<forall>n \<in> set (?n # gs). n < pci_new ?st" "\<forall>n \<in> set is. n < pci_new ?st"
      using lt by (auto simp: one(1) intro: less_SucI)
    have "dt_children (pci_nodes ?st1) 2 (?n # gs)" "dt_children (pci_nodes ?st1) 3 (Suc ?n # is)"
      using add_node_children [OF one(2) 1(1) lt'(1), of 3] add_node_children [OF one(2) 1(2) lt'(2), of 3] three
      by (simp_all add: one(1))
    then show ?thesis using lt three by (auto simp: pci_ok_def two one(1) intro: less_SucI)
  qed
  have "\<exists>ns ms. pci_ok ?st1 (rev ns @ gs) (rev ms @ is) \<and> map (\<lambda>n. pd_geo (pci_nodes ?st1 n)) ns = [(b, d, f)] \<and>
      map (\<lambda>n. pd_geo (pci_nodes ?st1 n)) ms = [(b, d, f)]" if "pci_ok st gs is" for gs "is"
  proof -
    have "pci_ok ?st1 (rev [?n] @ gs) (rev [Suc ?n] @ is)" using lists [OF that] by simp
    moreover have "map (\<lambda>n. pd_geo (pci_nodes ?st1 n)) [?n] = [(b, d, f)]"
      "map (\<lambda>n. pd_geo (pci_nodes ?st1 n)) [Suc ?n] = [(b, d, f)]" by (simp_all add: one two)
    ultimately show ?thesis by (intro exI conjI)
  qed
  then show ?thesis by (simp add: pci_lists_def one two)
qed

section \<open>The scan\<close>

text \<open>A scan of buses that returns with the functions it found in both lists.\<close>

definition scans :: "(u8 \<Rightarrow> pci \<Rightarrow> pci option) \<Rightarrow> cfg \<Rightarrow> u8 \<Rightarrow> bool" where
  "scans scan c b \<longleftrightarrow>
     (\<forall>st. pci_cfg st = c \<and> pci_heap st = [] \<longrightarrow>
        (\<exists>st' fs. scan b st = Some st' \<and> pci_heap st' = [] \<and> pci_lists st fs st' \<and> set fs = pf_found c b))"

lemma pci_lists_cfg: "pci_lists st fs st' \<Longrightarrow> pci_cfg st' = pci_cfg st"
  unfolding pci_lists_def by (rule pci_cfg_regs) (rule conjunct1)

lemma irq_routing_snd: "snd (pci_arch_get_irq_routing b d f pin st) = snd (pci_cfg_read_word b d f 0x3C st)"
  by (cases "pci_cfg_read_word b d f 0x3C st") (simp add: pci_arch_get_irq_routing_def Let_def)

lemma irq_routing_latch: "\<exists>a. snd (pci_arch_get_irq_routing b d f pin st) = st\<lparr>pci_latch := a\<rparr>"
  unfolding irq_routing_snd by (rule read_latch(2))

text \<open>What a function contributes: itself, and what is behind it if it is a bridge.\<close>

definition pf_of :: "cfg \<Rightarrow> u8 \<Rightarrow> u8 \<Rightarrow> u8 \<Rightarrow> (u8 \<times> u8 \<times> u8) set" where
  "pf_of c b d f = (if pf_present c b d f then insert (b, d, f) (if pf_bridge c b d f then pf_found c (c b d f 0x19) else {}) else {})"

text \<open>An existing function: its nodes are made, then the scan looks behind a bridge.\<close>

lemma scan_func_present:
  assumes "pci_cfg st = c" and "pci_heap st = []" and "pf_present c b d f"
  shows "\<exists>st'. pci_heap st' = [] \<and> pci_lists st [(b, d, f)] st' \<and> pci_scan_func scan b d f st =
    (if pf_bridge c b d f then map_option (Pair True) (scan (c b d f 0x19) st')
     else Some (True, st'))"
proof -
  obtain vp st1 where 1: "pci_cfg_read_dword b d f 0 st = (vp, st1)" by fastforce
  then obtain a1 where st1: "st1 = st\<lparr>pci_latch := a1\<rparr>" using read_latch(1) [of b d f 0 st] by auto
  have vid: "ucast vp \<noteq> (0xFFFF :: u16)" using read_vid_ones(1) [of b d f st] 1 assms(1,3) by simp
  obtain cs st2 where 2: "pci_cfg_read_word b d f 0x0A st1 = (cs, st2)" by fastforce
  then obtain a2 where st2: "st2 = st\<lparr>pci_latch := a2\<rparr>" using read_latch(2) [of b d f "0x0A" st1] st1 by auto
  have sub: "ucast cs = c b d f 0x0A" and cls: "ucast (drop_bit 8 cs) = c b d f 0x0B"
    using read_word_halves [of b d f "0x0A" st1] 2 assms(1) by (auto simp: st1 pci_cfg_def)
  define st3 where "st3 = pci_add_node 3 (pci_name_id (ucast vp) (ucast (drop_bit 16 vp))) (ucast vp) (ucast (drop_bit 16 vp)) (c b d f 0x0B) (c b d f 0x0A) b d f
    (pci_add_node 2 (pci_name_geo b d f) (ucast vp) (ucast (drop_bit 16 vp)) (c b d f 0x0B) (c b d f 0x0A) b d f st2)"
  have step: "pci_scan_func scan b d f st =
      (if pf_bridge c b d f then
         (let (sec, st) = pci_cfg_read_byte b d f 0x19 st3 in map_option (Pair True) (scan sec st))
       else Some (True, snd (pci_arch_get_irq_routing b d f (- 1) st3)))"
    using vid by (auto simp: pci_scan_func_def 1 2 sub cls st3_def pf_bridge_def Let_def)
  have heap2: "pci_heap st2 = []" using assms(2) st2 by simp
  have "pci_lists st2 [(b, d, f)] st3" unfolding st3_def by (rule add_both_nodes [OF heap2])
  then have lists3: "pci_lists st [(b, d, f)] st3"
    using pci_lists_trans [of st "[]" st2 "[(b, d, f)]" st3] st2 by simp
  have heap3: "pci_heap st3 = []" by (simp add: st3_def add_node_simps(2) heap2)
  have cfg3: "pci_cfg st3 = c" using pci_lists_cfg [OF lists3] assms(1) by simp
  have latched: "pci_heap (st3\<lparr>pci_latch := a\<rparr>) = [] \<and> pci_lists st [(b, d, f)] (st3\<lparr>pci_latch := a\<rparr>)" for a
    using pci_lists_trans [OF lists3 pci_lists_latch] heap3 by simp
  show ?thesis
  proof (cases "pf_bridge c b d f")
    case True
    obtain sec st4 where 4: "pci_cfg_read_byte b d f 0x19 st3 = (sec, st4)" by fastforce
    then obtain a4 where st4: "st4 = st3\<lparr>pci_latch := a4\<rparr>" using read_latch(3) [of b d f "0x19" st3] by auto
    have sec: "sec = c b d f 0x19" using read_byte_bytes [of b d f "0x19" st3] 4 cfg3 by (auto simp: pci_cfg_def)
    then show ?thesis using latched [of a4] step True st4 by (intro exI [of _ st4]) (simp add: 4)
  next
    case False
    obtain a5 where a5: "snd (pci_arch_get_irq_routing b d f (- 1) st3) = st3\<lparr>pci_latch := a5\<rparr>"
      using irq_routing_latch by blast
    then show ?thesis using latched [of a5] step False by (intro exI [of _ "st3\<lparr>pci_latch := a5\<rparr>"]) simp
  qed
qed

lemma scan_func_lists:
  assumes "pci_cfg st = c" and "pci_heap st = []"
    and "pf_present c b d f \<Longrightarrow> pf_bridge c b d f \<Longrightarrow> scans scan c (c b d f 0x19)"
  shows "\<exists>st' fs. pci_scan_func scan b d f st = Some (pf_present c b d f, st') \<and> pci_heap st' = [] \<and>
    pci_lists st fs st' \<and> set fs = pf_of c b d f"
proof (cases "pf_present c b d f")
  case False
  obtain vp st1 where 1: "pci_cfg_read_dword b d f 0 st = (vp, st1)" by fastforce
  then obtain a1 where st1: "st1 = st\<lparr>pci_latch := a1\<rparr>" using read_latch(1) [of b d f 0 st] by auto
  have "ucast vp = (0xFFFF :: u16)" using read_vid_ones(1) [of b d f st] 1 assms(1) False by simp
  then have "pci_scan_func scan b d f st = Some (False, st1)" by (simp add: pci_scan_func_def 1)
  then show ?thesis using False assms(2) by (auto simp: st1 pf_of_def)
next
  case True
  obtain st3 where 3: "pci_heap st3 = []" "pci_lists st [(b, d, f)] st3" "pci_scan_func scan b d f st =
      (if pf_bridge c b d f then map_option (Pair True) (scan (c b d f 0x19) st3) else Some (True, st3))"
    using scan_func_present [OF assms(1,2) True, of scan] by metis
  have cfg3: "pci_cfg st3 = c" using pci_lists_cfg [OF 3(2)] assms(1) by simp
  show ?thesis
  proof (cases "pf_bridge c b d f")
    case bridge: True
    obtain st5 fs where 5: "scan (c b d f 0x19) st3 = Some st5" "pci_heap st5 = []" "pci_lists st3 fs st5"
        "set fs = pf_found c (c b d f 0x19)"
      using assms(3) [OF True bridge] cfg3 3(1) unfolding scans_def by metis
    have "pci_lists st ((b, d, f) # fs) st5" using pci_lists_trans [OF 3(2) 5(3)] by simp
    then show ?thesis
      using True bridge 5 3(3) by (intro exI [of _ st5] exI [of _ "(b, d, f) # fs"]) (simp add: pf_of_def)
  next
    case False
    then show ?thesis
      using True 3 by (intro exI [of _ st3] exI [of _ "[(b, d, f)]"]) (simp add: pf_of_def)
  qed
qed

lemma pci_scan_funcs:
  assumes "pci_cfg st = c" and "pci_heap st = []"
    and "\<And>f. f \<in> set fs \<Longrightarrow> pf_present c b d f \<Longrightarrow> pf_bridge c b d f \<Longrightarrow> scans scan c (c b d f 0x19)"
  shows "\<exists>st' gs. fold_opt (\<lambda>f st. map_option snd (pci_scan_func scan b d f st)) fs st = Some st' \<and> pci_heap st' = [] \<and>
    pci_lists st gs st' \<and> set gs = (\<Union>f \<in> set fs. pf_of c b d f)"
  using assms
proof (induction fs arbitrary: st)
  case Nil
  have "pci_lists st [] st" using pci_lists_latch [of st "pci_latch st"] by simp
  then show ?case using Nil by auto
next
  case (Cons f fs)
  obtain st1 gs where 1: "pci_scan_func scan b d f st = Some (pf_present c b d f, st1)" "pci_heap st1 = []"
      "pci_lists st gs st1" "set gs = pf_of c b d f"
    using scan_func_lists [OF Cons.prems(1,2), of b d f scan] Cons.prems(3) by auto
  have "pci_cfg st1 = c" using pci_lists_cfg [OF 1(3)] Cons.prems(1) by simp
  then obtain st2 gs' where 2: "fold_opt (\<lambda>f st. map_option snd (pci_scan_func scan b d f st)) fs st1 = Some st2"
      "pci_heap st2 = []" "pci_lists st1 gs' st2" "set gs' = (\<Union>f \<in> set fs. pf_of c b d f)"
    using Cons.IH [OF _ 1(2)] Cons.prems(3) by auto
  show ?case
    using 1 2 pci_lists_trans [OF 1(3) 2(3)] by (intro exI [of _ st2] exI [of _ "gs @ gs'"]) simp
qed

text \<open>What a device contributes.\<close>

definition pf_dev :: "cfg \<Rightarrow> u8 \<Rightarrow> u8 \<Rightarrow> (u8 \<times> u8 \<times> u8) set" where
  "pf_dev c b d = (\<Union>f \<in> {f. f = 0 \<or> pf_present c b d 0 \<and> c b d 0 0x0E AND 0x80 \<noteq> 0 \<and> f < 8}. pf_of c b d f)"

lemma u8_list: "set (map of_nat [1..<8]) = {f :: u8. f \<noteq> 0 \<and> f < 8}" "set (map of_nat [0..<32]) = {d :: u8. d < 32}"
proof -
  have "f \<in> set (map of_nat [1..<8])" if "f \<noteq> 0" "f < 8" for f :: u8
    using that by (auto simp: word_less_nat_alt unat_gt_0 Suc_le_eq intro!: image_eqI [of _ _ "unat f"])
  moreover have "d \<in> set (map of_nat [0..<32])" if "d < 32" for d :: u8
    using that by (auto simp: word_less_nat_alt intro!: image_eqI [of _ _ "unat d"])
  ultimately show "set (map of_nat [1..<8]) = {f :: u8. f \<noteq> 0 \<and> f < 8}" "set (map of_nat [0..<32]) = {d :: u8. d < 32}"
    by (auto simp: word_less_nat_alt unat_of_nat word_of_nat_eq_0_iff take_bit_eq_mod dest!: dvd_imp_le)
qed

lemma pf_of_0: "\<not> pf_present c b d 0 \<Longrightarrow> pf_dev c b d = {}"
  by (simp add: pf_dev_def pf_of_def)

lemma scan_dev_lists:
  assumes "pci_cfg st = c" and "pci_heap st = []"
    and "\<And>f. pf_looked_at c b d f \<Longrightarrow> pf_bridge c b d f \<Longrightarrow> scans scan c (c b d f 0x19)" and "d < 32"
  shows "\<exists>st' fs. pci_scan_dev scan b d st = Some st' \<and> pci_heap st' = [] \<and> pci_lists st fs st' \<and> set fs = pf_dev c b d"
proof -
  define fl :: "u8 list" where "fl = map of_nat [1..<8]"
  have fl: "set fl = {f. f \<noteq> 0 \<and> f < 8}" unfolding fl_def by (rule u8_list(1))
  have first: "scans scan c (c b d 0 0x19)" if "pf_present c b d 0" "pf_bridge c b d 0"
    by (rule assms(3)) (use that assms(4) in \<open>simp_all add: pf_looked_at_def\<close>)
  note dev = pci_scan_dev_def [of scan b d st, folded fl_def]
  obtain st1 fs where 1: "pci_scan_func scan b d 0 st = Some (pf_present c b d 0, st1)" "pci_heap st1 = []"
      "pci_lists st fs st1" "set fs = pf_of c b d 0"
    using scan_func_lists [OF assms(1,2) first] by blast
  show ?thesis
  proof (cases "pf_present c b d 0")
    case False
    then have "pci_scan_dev scan b d st = Some st1" using 1(1) by (simp add: dev)
    moreover have "set fs = pf_dev c b d" using False 1(4) by (simp add: pf_of_0) (simp add: pf_of_def)
    ultimately show ?thesis using 1(2,3) by blast
  next
    case present: True
    obtain hdr st2 where 2: "pci_cfg_read_byte b d 0 0x0E st1 = (hdr, st2)" by fastforce
    then obtain a where st2: "st2 = st1\<lparr>pci_latch := a\<rparr>" using read_latch(3) [of b d 0 "0x0E" st1] by auto
    have cfg1: "pci_cfg st1 = c" using pci_lists_cfg [OF 1(3)] assms(1) by simp
    have hdr: "hdr = c b d 0 0x0E" using read_byte_bytes [of b d 0 "0x0E" st1] 2 cfg1 by (auto simp: pci_cfg_def)
    have lists2: "pci_lists st fs st2" using pci_lists_trans [OF 1(3), of "[]" st2] st2 by simp
    have cfg2: "pci_cfg st2 = c" "pci_heap st2 = []" using st2 cfg1 1(2) pci_cfg_regs [of st2 st1] by simp_all
    show ?thesis
    proof (cases "hdr AND 0x80 = 0")
      case True
      have "pci_scan_dev scan b d st = Some st2" using 1(1) 2 present True by (simp add: dev)
      moreover have "pf_dev c b d = pf_of c b d 0" using True unfolding pf_dev_def hdr by simp
      ultimately show ?thesis using lists2 cfg2(2) 1(4) by blast
    next
      case False
      have funcs: "scans scan c (c b d f 0x19)"
        if "f \<in> set fl" "pf_present c b d f" "pf_bridge c b d f" for f
        by (rule assms(3)) (use that assms(4) present False hdr fl in \<open>simp_all add: pf_looked_at_def\<close>)
      obtain st3 gs where 3: "fold_opt (\<lambda>f st. map_option snd (pci_scan_func scan b d f st)) fl st2 = Some st3"
          "pci_heap st3 = []" "pci_lists st2 gs st3" "set gs = (\<Union>f \<in> set fl. pf_of c b d f)"
        using pci_scan_funcs [OF cfg2, of fl b d scan] funcs by metis
      have "pci_scan_dev scan b d st = Some st3" using 1(1) 2 present False 3(1) by (simp add: dev)
      moreover have "pf_dev c b d = pf_of c b d 0 \<union> (\<Union>f \<in> {f. f \<noteq> 0 \<and> f < 8}. pf_of c b d f)"
        using present False unfolding pf_dev_def hdr by blast
      ultimately show ?thesis
        using pci_lists_trans [OF lists2 3(3)] 1(4) 3(2,4)
        by (intro exI [of _ st3] exI [of _ "fs @ gs"]) (simp only: set_append fl simp_thms)
    qed
  qed
qed

lemma scan_devs_lists:
  assumes "pci_cfg st = c" and "pci_heap st = []" and "\<And>d. d \<in> set ds \<Longrightarrow> d < 32"
    and "\<And>d f. d \<in> set ds \<Longrightarrow> pf_looked_at c b d f \<Longrightarrow> pf_bridge c b d f \<Longrightarrow> scans scan c (c b d f 0x19)"
  shows "\<exists>st' fs. fold_opt (pci_scan_dev scan b) ds st = Some st' \<and> pci_heap st' = [] \<and> pci_lists st fs st' \<and>
    set fs = (\<Union>d \<in> set ds. pf_dev c b d)"
  using assms
proof (induction ds arbitrary: st)
  case Nil
  have "pci_lists st [] st" using pci_lists_latch [of st "pci_latch st"] by simp
  then show ?case using Nil by auto
next
  case (Cons d ds)
  obtain st1 fs where 1: "pci_scan_dev scan b d st = Some st1" "pci_heap st1 = []"
      "pci_lists st fs st1" "set fs = pf_dev c b d"
    using scan_dev_lists [OF Cons.prems(1,2), of b d scan] Cons.prems(3,4) by auto
  have "pci_cfg st1 = c" using pci_lists_cfg [OF 1(3)] Cons.prems(1) by simp
  then obtain st2 gs where 2: "fold_opt (pci_scan_dev scan b) ds st1 = Some st2"
      "pci_heap st2 = []" "pci_lists st1 gs st2" "set gs = (\<Union>d \<in> set ds. pf_dev c b d)"
    using Cons.IH [OF _ 1(2)] Cons.prems(3,4) by auto
  show ?case
    using 1 2 pci_lists_trans [OF 1(3) 2(3)] by (intro exI [of _ st2] exI [of _ "fs @ gs"]) simp
qed

text \<open>The functions found from a bus on: its own, and those found from the buses its bridges lead to.\<close>

lemma pf_found_unfold: "pf_found c b = (\<Union>d \<in> {d. d < 32}. pf_dev c b d)"
proof (intro set_eqI iffI)
  fix x
  assume "x \<in> pf_found c b"
  then obtain s d f where x: "x = (s, d, f)" "(pf_leads c)\<^sup>*\<^sup>* b s" "pf_looked_at c s d f" by (auto simp: pf_found_def)
  show "x \<in> (\<Union>d \<in> {d. d < 32}. pf_dev c b d)"
    using x(2)
  proof (cases rule: converse_rtranclpE)
    case base
    then show ?thesis using x by (auto simp: pf_dev_def pf_of_def pf_looked_at_def)
  next
    case (step t)
    then obtain d' f' where "pf_looked_at c b d' f'" "pf_bridge c b d' f'" "t = c b d' f' 0x19" by (auto simp: pf_leads_def)
    then show ?thesis using x step(2) by (force simp: pf_dev_def pf_of_def pf_looked_at_def pf_found_def)
  qed
next
  fix x
  assume "x \<in> (\<Union>d \<in> {d. d < 32}. pf_dev c b d)"
  then obtain d f where d: "d < 32" "f = 0 \<or> pf_present c b d 0 \<and> c b d 0 0x0E AND 0x80 \<noteq> 0 \<and> f < 8" "x \<in> pf_of c b d f"
    by (auto simp: pf_dev_def)
  then have look: "pf_looked_at c b d f" by (auto simp: pf_of_def pf_looked_at_def split: if_splits)
  show "x \<in> pf_found c b"
  proof (cases "x = (b, d, f)")
    case True
    then show ?thesis using look by (simp add: pf_found_def)
  next
    case False
    then have bridge: "pf_bridge c b d f" and x: "x \<in> pf_found c (c b d f 0x19)" using d(3) by (auto simp: pf_of_def split: if_splits)
    have "pf_leads c b (c b d f 0x19)" using look bridge by (auto simp: pf_leads_def)
    then show ?thesis using x by (auto simp: pf_found_def intro: converse_rtranclp_into_rtranclp)
  qed
qed

text \<open>Bridges that lead to buses of larger number only, as the specification numbers them.\<close>

definition pci_ascending :: "cfg \<Rightarrow> u8 \<Rightarrow> bool" where
  "pci_ascending c b \<longleftrightarrow> (\<forall>s t. (pf_leads c)\<^sup>*\<^sup>* b s \<longrightarrow> pf_leads c s t \<longrightarrow> s < t)"

lemma scan_bus_scans:
  "pci_ascending c b \<Longrightarrow> 256 - unat b \<le> depth \<Longrightarrow> scans (pci_scan_bus depth) c b"
proof (induction depth arbitrary: b)
  case 0
  then show ?case using unat_u8_less [of b] by simp
next
  case (Suc depth)
  have behind: "scans (pci_scan_bus depth) c (c b d f 0x19)" if "pf_looked_at c b d f" "pf_bridge c b d f" for d f
  proof -
    have leads: "pf_leads c b (c b d f 0x19)" using that by (auto simp: pf_leads_def)
    then have "b < c b d f 0x19" using Suc.prems(1) by (auto simp: pci_ascending_def)
    then have "256 - unat (c b d f 0x19) \<le> depth" using Suc.prems(2) by (simp add: word_less_nat_alt)
    moreover have "pci_ascending c (c b d f 0x19)"
      using Suc.prems(1) leads by (auto simp: pci_ascending_def intro: converse_rtranclp_into_rtranclp)
    ultimately show ?thesis using Suc.IH by blast
  qed
  show ?case
    unfolding scans_def
  proof (intro allI impI)
    fix st
    assume st: "pci_cfg st = c \<and> pci_heap st = []"
    have small: "d < 32" if "d \<in> set (map of_nat [0..<32])" for d :: u8 using that unfolding u8_list(2) by simp
    show "\<exists>st' fs. pci_scan_bus (Suc depth) b st = Some st' \<and> pci_heap st' = [] \<and> pci_lists st fs st' \<and> set fs = pf_found c b"
      using scan_devs_lists [of st c "map of_nat [0..<32]" b "pci_scan_bus depth"] st small behind
      unfolding pf_found_unfold u8_list(2) [symmetric] by (simp del: set_map list.map)
  qed
qed

text \<open>
  A bridge in the first position whose secondary bus number is that of its own bus (the number is 0
  until somebody sets it, and the scan does not) makes the scan call itself for ever.
\<close>

lemma pci_scan_bus_loops:
  assumes "pci_cfg st = c" and "pci_heap st = []"
    and "pf_present c b 0 0" and "pf_bridge c b 0 0" and "c b 0 0 0x19 = b"
  shows "pci_scan_bus depth b st = None"
  using assms
proof (induction depth arbitrary: st)
  case (Suc depth)
  obtain st' where st': "pci_heap st' = []" "pci_lists st [(b, 0, 0)] st'" "pci_scan_func (pci_scan_bus depth) b 0 0 st =
      map_option (Pair True) (pci_scan_bus depth b st')"
    using scan_func_present [OF Suc.prems(1-3), of "pci_scan_bus depth"] Suc.prems(4,5) by auto
  have "pci_cfg st' = c" using pci_lists_cfg [OF st'(2)] Suc.prems(1) by simp
  then have "pci_scan_func (pci_scan_bus depth) b 0 0 st = None" using Suc.IH st'(1,3) Suc.prems(3-5) by simp
  then show ?case by (simp add: pci_scan_dev_def upt_conv_Cons)
qed simp

text \<open>With several host controllers the first one that exists ends the scan before it begins.\<close>

lemma pci_init_multiple:
  assumes "pf_present (pci_cfg st) 0 0 0" and "pci_cfg st 0 0 0 0x0E AND 0x80 \<noteq> 0"
  shows "\<exists>a. pci_init depth st = Some (st\<lparr>pci_nodes := devtree_add_child 0 1 (pci_nodes st), pci_latch := a\<rparr>)"
proof -
  let ?st = "st\<lparr>pci_nodes := devtree_add_child 0 1 (pci_nodes st)\<rparr>"
  have cfg: "pci_cfg ?st = pci_cfg st" by (rule pci_cfg_regs) simp
  have bytes: "cfg_byte 0 0 0 ?st = cfg_byte 0 0 0 st" by (rule ext) (simp add: cfg_byte_def)
  obtain hdr st1 where 1: "pci_cfg_read_byte 0 0 0 0x0E ?st = (hdr, st1)" by fastforce
  then obtain a1 where st1: "st1 = ?st\<lparr>pci_latch := a1\<rparr>" using read_latch(3) [of 0 0 0 "0x0E" ?st] by auto
  have hdr: "hdr = pci_cfg st 0 0 0 0x0E" using read_byte_bytes [of 0 0 0 "0x0E" ?st] 1 bytes by (simp add: pci_cfg_def)
  obtain vid st2 where 2: "pci_cfg_read_word 0 0 0 0 st1 = (vid, st2)" by fastforce
  then obtain a2 where st2: "st2 = ?st\<lparr>pci_latch := a2\<rparr>" using read_latch(2) [of 0 0 0 0 st1] st1 by auto
  have "pci_cfg st1 = pci_cfg st" using cfg pci_cfg_regs [of st1 ?st] st1 by simp
  then have "vid \<noteq> 0xFFFF" using read_vid_ones(2) [of 0 0 0 st1] 2 assms(1) by simp
  then have "pci_init depth st = Some st2"
    using assms(2) hdr 1 by (simp add: pci_init_def Let_def upt_conv_Cons 2 del: One_nat_def)
  then show ?thesis using st2 by auto
qed

section \<open>Properties\<close>

text \<open>
  C30: The accessors of the configuration space work on its 256 bytes at any offset: reads return the
  bytes from the offset on, low byte first, and writes of bytes and words change these bytes only. A
  double word is written correctly at multiples of four; elsewhere its upper bytes are lost and bytes
  of the next double word are damaged.
\<close>

theorem pci_cfg_bytes:
  "fst (pci_cfg_read_byte bus dev func offset st) = cfg_byte bus dev func st offset \<and>
   map (byte_of (ucast (fst (pci_cfg_read_word bus dev func offset st)))) [0..<2] =
     map (\<lambda>j. cfg_byte bus dev func st (offset + of_nat j)) [0..<2] \<and>
   map (byte_of (fst (pci_cfg_read_dword bus dev func offset st))) [0..<4] =
     map (\<lambda>j. cfg_byte bus dev func st (offset + of_nat j)) [0..<4] \<and>
   cfg_byte bus dev func (pci_cfg_write_byte bus dev func offset b st) = (cfg_byte bus dev func st)(offset := b) \<and>
   cfg_byte bus dev func (pci_cfg_write_word bus dev func offset h st) =
     (cfg_byte bus dev func st)(offset := ucast h, offset + 1 := ucast (drop_bit 8 h)) \<and>
   cfg_byte bus dev func (pci_cfg_write_dword bus dev func offset w st) = dword_written offset w (cfg_byte bus dev func st)"
proof (intro conjI)
  show "map (byte_of (ucast (fst (pci_cfg_read_word bus dev func offset st)))) [0..<2] =
      map (\<lambda>j. cfg_byte bus dev func st (offset + of_nat j)) [0..<2]"
    by (rule map_cong [OF refl]) (simp only: set_upt atLeastLessThan_iff read_word_byte)
  show "map (byte_of (fst (pci_cfg_read_dword bus dev func offset st))) [0..<4] =
      map (\<lambda>j. cfg_byte bus dev func st (offset + of_nat j)) [0..<4]"
    by (rule map_cong [OF refl]) (simp only: set_upt atLeastLessThan_iff read_dword_byte)
qed (simp_all only: read_byte_bytes write_byte_bytes write_word_bytes write_dword_bytes)

text \<open>
  C31: When every bridge that can be reached leads to a bus of larger number, the scan of a bus returns
  (nested at most 256 deep) and has added to the lists of devices by position and by identifier, in
  the same order, exactly the functions that exist on the buses reached from it.
\<close>

theorem pci_scan_bus_finds:
  assumes "pci_ascending (pci_cfg st) b" and "pci_ok st gs is"
  shows "\<exists>st' ns ms. pci_scan_bus 256 b st = Some st' \<and> pci_ok st' (rev ns @ gs) (rev ms @ is) \<and>
    map (\<lambda>n. pd_geo (pci_nodes st' n)) ns = map (\<lambda>n. pd_geo (pci_nodes st' n)) ms \<and>
    (\<lambda>n. pd_geo (pci_nodes st' n)) ` set ns = pf_found (pci_cfg st) b"
proof -
  have "scans (pci_scan_bus 256) (pci_cfg st) b" by (rule scan_bus_scans [OF assms(1)]) simp
  moreover have "pci_heap st = []" using assms(2) by (simp add: pci_ok_def)
  ultimately obtain st' fs where run: "pci_scan_bus 256 b st = Some st'"
      and lists: "pci_lists st fs st'" and found: "set fs = pf_found (pci_cfg st) b"
    unfolding scans_def by metis
  obtain ns ms where ok: "pci_ok st' (rev ns @ gs) (rev ms @ is)" and ns: "map (\<lambda>n. pd_geo (pci_nodes st' n)) ns = fs"
      and ms: "map (\<lambda>n. pd_geo (pci_nodes st' n)) ms = fs"
    using lists assms(2) unfolding pci_lists_def by metis
  have "(\<lambda>n. pd_geo (pci_nodes st' n)) ` set ns = pf_found (pci_cfg st) b" using arg_cong [OF ns, of set] found by simp
  then show ?thesis by (intro exI conjI) (rule run ok trans [OF ns ms [symmetric]] | assumption)+
qed

text \<open>A bus with the single function 0:1.0 of vendor 0x8086; all other registers read as ones.\<close>

definition pci_example :: pci where
  "pci_example =
     (let node = (\<lambda>_ :: nat. \<lparr>dt_size = 40, dt_name = [], dt_type = DEVTREE_NODE_BUS, dt_parent = Some 1,
            dt_child = None, dt_sibling = None, dt_in_use = True, pd_vid = 0, pd_pid = 0, pd_class = 0,
            pd_subclass = 0, pd_bus = 0, pd_dev = 0, pd_func = 0\<rparr>)
      in \<lparr>pci_latch = 0, pci_regs = (\<lambda>_. - 1)(pci_cfg_address 0 1 0 0 := 0x12378086), pci_nodes = node,
          pci_new = 4, pci_heap = [], pci_apic = False, pci_gsi = []\<rparr>)"

lemma pci_example_regs: "pci_regs pci_example = (\<lambda>_. - 1)(pci_cfg_address 0 1 0 0 := 0x12378086)"
  by (simp add: pci_example_def Let_def)

lemma byte_of_ones: "j < 4 \<Longrightarrow> byte_of (- 1) j = 0xFF"
proof -
  assume "j < 4"
  then have "byte_of (- 1) j = - 1" by (intro bit_word_eqI) (auto simp: bit_byte_of)
  then show ?thesis by simp
qed

lemma pci_example_bytes: "pci_cfg pci_example b d f i = 0xFF" if "offset_base i \<noteq> 0 \<or> pci_cfg_address b d f 0 \<noteq> pci_cfg_address 0 1 0 0"
proof -
  have "pci_cfg_address b d f i \<noteq> pci_cfg_address 0 1 0 0"
  proof (cases "offset_base i = 0")
    case False
    then show ?thesis
      using ucast_pci_cfg_address [of b d f i] ucast_pci_cfg_address [of 0 1 0 0] by (auto simp: offset_base_def)
  next
    case True
    then have "pci_cfg_address b d f i = pci_cfg_address b d f 0" by (simp add: pci_cfg_address_eq_iff offset_base_def)
    then show ?thesis using True that by simp
  qed
  then show ?thesis using byte_of_ones [OF offset_off_less [of i]] by (simp add: pci_cfg_def cfg_byte_def pci_example_regs)
qed

lemma pci_example_no_bridge: "\<not> pf_leads (pci_cfg pci_example) b s"
  by (simp add: pf_leads_def pf_bridge_def pci_example_bytes offset_base_def)

lemma pci_example_id: "pci_cfg pci_example 0 1 0 0 = 0x86"
  by (simp add: pci_cfg_def cfg_byte_def pci_example_regs byte_of_def offset_off_def)

lemma pci_example_present:
  assumes "d < 32" and "f < 8"
  shows "pf_present (pci_cfg pci_example) 0 d f \<longleftrightarrow> d = 1 \<and> f = 0"
proof
  assume present: "pf_present (pci_cfg pci_example) 0 d f"
  show "d = 1 \<and> f = 0"
  proof (rule ccontr)
    assume "\<not> (d = 1 \<and> f = 0)"
    then have "pci_cfg_address 0 d f 0 \<noteq> pci_cfg_address 0 1 0 0"
      using pci_cfg_address_inj [of 0 d f 0 0 1 0 0] assms by auto
    then show False using present by (simp add: pf_present_def pci_example_bytes)
  qed
qed (simp add: pf_present_def pci_example_id)

lemma pci_example_found: "pf_found (pci_cfg pci_example) 0 = {(0, 1, 0)}"
proof -
  have reach: "(pf_leads (pci_cfg pci_example))\<^sup>*\<^sup>* 0 s \<longleftrightarrow> s = 0" for s
    using pci_example_no_bridge by (metis converse_rtranclpE rtranclp.rtrancl_refl)
  have "pf_looked_at (pci_cfg pci_example) 0 d f \<longleftrightarrow> d = 1 \<and> f = 0" for d f
    using pci_example_present [of d f] pci_example_present [of d 0] by (auto simp: pf_looked_at_def)
  then show ?thesis by (auto simp: pf_found_def reach)
qed

theorem pci_scan_bus_finds_witness:
  "\<exists>st' ns ms. pci_scan_bus 256 0 pci_example = Some st' \<and> pci_ok st' ns ms \<and>
     (\<lambda>n. pd_geo (pci_nodes st' n)) ` set ns = {(0, 1, 0)}"
proof -
  have asc: "pci_ascending (pci_cfg pci_example) 0"
    by (simp add: pci_ascending_def pci_example_no_bridge)
  have ok: "pci_ok pci_example [] []" by (simp add: pci_ok_def pci_example_def Let_def dt_children_def)
  obtain st' ns ms where "pci_scan_bus 256 0 pci_example = Some st'" "pci_ok st' (rev ns @ []) (rev ms @ [])"
      "(\<lambda>n. pd_geo (pci_nodes st' n)) ` set ns = {(0, 1, 0)}"
    using pci_scan_bus_finds [OF asc ok] unfolding pci_example_found by (elim exE conjE) (rule that)
  then show ?thesis by (intro exI [of _ st'] exI [of _ "rev ns"] exI [of _ "rev ms"]) simp
qed

end
