(* ===== verification/Timer.thy ===== *)
theory Timer
  imports Task Fbuf
begin

text \<open>
  The system timer, hal/timer.c: the handler of the timer interrupt drives the clock, the flipping of
  the frame buffer and the scheduler; delays wait for the clock. \<open>timer_tick_t\<close> is \<open>size_t\<close>, as in
  the default configuration.
\<close>

section \<open>The timer interrupt\<close>

text \<open>The state of the tasks, and the frame buffer (\<open>fbuf_impl\<close>) with the memory it is copied in.\<close>

record ('h, 'z) timer = "('h, 'z) kern" +
  k_fb :: "fbuf option"
  k_mem :: mem

definition timer_commit :: "('h, 'z) timer \<Rightarrow> ('h, 'z) timer option" where
  "timer_commit st =
     map_option (\<lambda>s. st\<lparr>k_fb := fs_impl s, k_mem := fs_mem s, k_vm := fs_vm s\<rparr>)
       (fbuf_commit \<lparr>fs_impl = k_fb st, fs_mem = k_mem st, fs_vm = k_vm st, fs_tick = k_tick st\<rparr>)"

text \<open>20000 is \<open>FBUF_FLIP_PERIOD\<close>, 1000 is \<open>TASK_QUANTUM\<close>, both in microseconds.\<close>

definition flip_due :: "('h, 'z) timer \<Rightarrow> bool" where
  "flip_due st \<longleftrightarrow>
     (case k_fb st of
        None \<Rightarrow> False
      | Some fb \<Rightarrow> fb_backbuffer fb \<noteq> 0 \<and> \<not> fb_dbuf_direct_write fb \<and> 20000 \<le> k_tick st - fb_tick_flip fb)"

text \<open>As for \<open>task_yield\<close>, the first value is the context that continues instead of the interrupted one.\<close>

definition timer_handler :: "u32 \<Rightarrow> regs \<Rightarrow> ('h, 'z) timer \<Rightarrow> (regs option \<times> ('h, 'z) timer) option" where
  "timer_handler delta ctx st =
     (let st = st\<lparr>k_tick := k_tick st + delta\<rparr>
      in do { st \<leftarrow> (if flip_due st then timer_commit st else Some st);
              if k_task_kernel st \<noteq> None \<and> (k_task_current st = None \<or> 1000 \<le> k_tick st - k_yield_tick st)
              then task_yield ctx st else Some (None, st) })"

section \<open>Delays\<close>

text \<open>
  The loop of \<open>timer_delay_us\<close>. Between two tests of its condition other tasks run and the clock goes
  on; \<open>readings\<close> are the values of \<open>timer_tick\<close> at the tests. The value is the number of calls of
  \<open>task_yield_noirq\<close>, or \<open>None\<close> if the loop still runs after the last reading.
\<close>

fun timer_delay_loop :: "u32 \<Rightarrow> u64 \<Rightarrow> u32 list \<Rightarrow> nat option" where
  "timer_delay_loop t_start us [] = None"
| "timer_delay_loop t_start us (tick # readings) =
     (if ucast (tick - t_start) < us then map_option Suc (timer_delay_loop t_start us readings) else Some 0)"

definition timer_delay_us :: "u64 \<Rightarrow> u32 \<Rightarrow> u32 list \<Rightarrow> nat option" where
  "timer_delay_us us t_start readings = timer_delay_loop t_start us readings"

definition timer_delay_ms :: "u64 \<Rightarrow> u32 \<Rightarrow> u32 list \<Rightarrow> nat option" where
  "timer_delay_ms ms t_start readings = timer_delay_us (ms * 1000) t_start readings"

lemma timer_delay_loop_find:
  "timer_delay_loop t0 us readings =
     (let i = find_idx (\<lambda>t. us \<le> ucast (t - t0)) readings in if i < length readings then Some i else None)"
  by (induction readings) (auto simp: Let_def not_less)

lemma unat_ucast_u64: "unat (ucast (t :: u32) :: u64) = unat t"
proof -
  have "take_bit 64 (unat t) = unat t" by (rule take_bit_nat_eq_self, rule less_trans [OF unat_u32_less]) simp
  then show ?thesis by (simp add: unsigned_ucast_eq)
qed

lemma elapsed_bound: "ucast (t :: u32) < (0x100000000 :: u64)"
  by (simp add: word_less_nat_alt unat_ucast_u64 unat_u32_less)

lemma elapsed_le_iff: "us \<le> ucast (t :: u32) \<longleftrightarrow> unat us \<le> unat t" for us :: u64
  by (simp add: word_le_nat_alt unat_ucast_u64)

section \<open>Properties\<close>

lemma timer_commit_keeps:
  assumes "timer_commit st = Some st1"
  shows "k_tasks st1 = k_tasks st" "k_task_current st1 = k_task_current st" "k_task_kernel st1 = k_task_kernel st"
    "k_block st1 = k_block st" "k_pidtab st1 = k_pidtab st" "k_tick st1 = k_tick st" "k_yield_tick st1 = k_yield_tick st"
    "k_procs st1 = k_procs st"
  using assms by (auto simp: timer_commit_def)

text \<open>
  C32: a timer interrupt that arrives while a task runs. It advances the clock and flips the frame
  buffer when that is due. The running task is preempted exactly when there is a kernel task,
  switching is not blocked, its quantum of 1000 microseconds is used up, and another task is ready
  that has waited: then the one that has waited longest continues, the quantum starts again, and
  the interrupted context is kept (with the user stack pointer of before, when the interrupt came from the kernel).
  Otherwise the interrupted task goes on. This holds provided that the flip, which can hang
  (\<open>fbuf_commit_first_page\<close>), and the clean-up of address spaces return, that the running task is not waiting
  to be deleted, and that the processes of the other tasks exist.
\<close>

theorem timer_handler_preempts:
  assumes tick: "t = st\<lparr>k_tick := k_tick st + delta\<rparr>" and flip: "(if flip_due t then timer_commit t else Some t) = Some st1"
    and "task_ring (k_tasks st) cur xs" and "k_task_current st = Some cur"
    and "vmm_do_cleanup (k_vm st1) = Some vm"
    and "t_type (k_tasks st cur) \<noteq> TASK_TYPE_DELETE_PENDING"
    and "\<forall>t\<in>set xs. k_pidtab st ! t_pid (k_tasks st t) \<noteq> None"
  shows "if k_task_kernel st \<noteq> None \<and> 1000 \<le> k_tick t - k_yield_tick st \<and> k_block st = 0 then
      (if \<exists>x\<in>set xs. t_ready (k_tasks st x) \<and> task_wait t x \<noteq> 0
       then \<exists>s st'. s \<in> set xs \<and> t_ready (k_tasks st s) \<and>
         (\<forall>x\<in>set xs. t_ready (k_tasks st x) \<longrightarrow> task_wait t x \<le> task_wait t s) \<and>
         timer_handler delta ctx st = Some (Some (t_regs (k_tasks st s)), st') \<and> k_task_current st' = Some s \<and>
         t_regs (k_tasks st' cur) = saved_regs ctx (t_regs (k_tasks st cur)) \<and>
         t_switch (k_tasks st' s) = k_tick t \<and> k_yield_tick st' = k_tick t
       else timer_handler delta ctx st = Some (None, st1\<lparr>k_vm := vm\<rparr>))
    else timer_handler delta ctx st = Some (None, st1)"
proof -
  have keeps: "k_tasks st1 = k_tasks st" "k_task_current st1 = Some cur" "k_task_kernel st1 = k_task_kernel st"
    "k_block st1 = k_block st" "k_pidtab st1 = k_pidtab st" "k_tick st1 = k_tick t" "k_yield_tick st1 = k_yield_tick st"
    using flip assms(4) timer_commit_keeps [of t st1] by (auto simp: tick split: if_splits)
  have wait: "task_wait st1 = task_wait t" by (rule ext) (simp add: task_wait_def keeps tick)
  have handler: "timer_handler delta ctx st =
      (if k_task_kernel st \<noteq> None \<and> 1000 \<le> k_tick t - k_yield_tick st then task_yield ctx st1 else Some (None, st1))"
    using keeps(2,3,6,7) by (simp add: timer_handler_def Let_def tick [symmetric] flip)
  show ?thesis
  proof (cases "k_task_kernel st \<noteq> None \<and> k_block st = 0")
    case False
    then show ?thesis by (auto simp: handler task_yield_def keeps)
  next
    case True
    then have "k_task_kernel st1 \<noteq> None" "k_block st1 = 0" by (simp_all add: keeps)
    moreover have "task_ring (k_tasks st1) cur xs" "t_type (k_tasks st1 cur) \<noteq> TASK_TYPE_DELETE_PENDING"
      "\<forall>t\<in>set xs. k_pidtab st1 ! t_pid (k_tasks st1 t) \<noteq> None"
      using assms(3,6,7) by (simp_all add: keeps)
    ultimately show ?thesis
      using task_yield_longest_wait [of st1 cur xs vm ctx] keeps(2) assms(5) True
      unfolding handler wait keeps(1) keeps(6) by (auto split: if_splits)
  qed
qed

text \<open>
  C33: a delay ends at the first reading of the clock by which the given time has passed, provided that
  it is below 2^32 microseconds; a longer delay never ends, since the time that has passed is counted
  in 32 bits.
\<close>

theorem timer_delay_us_ends:
  "timer_delay_us us t_start readings =
     (if 0x100000000 \<le> us then None
      else let i = find_idx (\<lambda>tick. unat us \<le> unat (tick - t_start)) readings
           in if i < length readings then Some i else None)"
proof (cases "0x100000000 \<le> us")
  case True
  then have "\<not> us \<le> ucast (tick - t_start)" for tick using elapsed_bound [of "tick - t_start"] by (simp add: not_le)
  then have "find_idx (\<lambda>tick. us \<le> ucast (tick - t_start)) readings = length readings"
    by (simp add: find_idx_none_iff)
  then show ?thesis using True by (simp add: timer_delay_us_def timer_delay_loop_find)
next
  case False
  then show ?thesis by (simp add: timer_delay_us_def timer_delay_loop_find elapsed_le_iff)
qed

text \<open>A kernel task is interrupted after its quantum; the other task of the example continues.\<close>

definition timer_example :: "(nat, unit) timer" where
  "timer_example = kern.extend task_example \<lparr>k_fb = None, k_mem = (\<lambda>_. 0)\<rparr>"

theorem timer_handler_preempts_witness:
  "\<exists>st'. timer_handler 1000 (t_regs (blank_task True)) timer_example = Some (Some (t_regs (k_tasks task_example 2)), st') \<and>
     k_task_current st' = Some 2"
proof -
  note ex = timer_example_def kern.defs task_example_def
  have ring: "task_ring (k_tasks timer_example) 1 [2]" by (simp add: task_ring_def ex)
  have clean: "vmm_do_cleanup (k_vm (timer_example\<lparr>k_tick := k_tick timer_example + 1000\<rparr>)) = Some vm_example"
    by (simp add: ex vmm_do_cleanup_def vm_example_def mutex_test_def mutex_release_def)
  have flip: "(if flip_due (timer_example\<lparr>k_tick := k_tick timer_example + 1000\<rparr>)
      then timer_commit (timer_example\<lparr>k_tick := k_tick timer_example + 1000\<rparr>)
      else Some (timer_example\<lparr>k_tick := k_tick timer_example + 1000\<rparr>)) =
      Some (timer_example\<lparr>k_tick := k_tick timer_example + 1000\<rparr>)"
    by (simp add: flip_due_def ex)
  show ?thesis
    using timer_handler_preempts [OF refl flip ring _ clean, of "t_regs (blank_task True)"]
    by (auto simp: ex blank_task_def task_wait_def)
qed

end
