(* ===== verification/Desctabs.thy ===== *)
theory Desctabs
  imports Timer
begin

text \<open>
  The descriptor tables of the i386: segments (arch/x86cpu/gdt.c), interrupt gates and the dispatch of
  interrupts and exceptions (arch/x86cpu/idt.c). Bit fields are words of their width; \<open>gdt_bits\<close> and
  \<open>idt_bits\<close> give the eight bytes that the compiler lays them out in, lowest bit first, which is what
  the processor reads.
\<close>

section \<open>Segments\<close>

record gdt_t =
  g_limit_l :: u16
  g_base_l :: "24 word"
  g_accessed :: bool
  g_rw :: bool
  g_dc :: bool
  g_exec :: bool
  g_type :: bool
  g_privl :: "2 word"
  g_present :: bool
  g_limit_h :: "4 word"
  g_zero :: "2 word"
  g_size :: bool
  g_granularity :: bool
  g_base_h :: u8

definition gdt_bits :: "gdt_t \<Rightarrow> u64" where
  "gdt_bits g =
     ucast (g_limit_l g) OR push_bit 16 (ucast (g_base_l g)) OR push_bit 40 (of_bool (g_accessed g)) OR
     push_bit 41 (of_bool (g_rw g)) OR push_bit 42 (of_bool (g_dc g)) OR push_bit 43 (of_bool (g_exec g)) OR
     push_bit 44 (of_bool (g_type g)) OR push_bit 45 (ucast (g_privl g)) OR push_bit 47 (of_bool (g_present g)) OR
     push_bit 48 (ucast (g_limit_h g)) OR push_bit 52 (ucast (g_zero g)) OR push_bit 54 (of_bool (g_size g)) OR
     push_bit 55 (of_bool (g_granularity g)) OR push_bit 56 (ucast (g_base_h g))"

type_synonym gdt = "u8 \<Rightarrow> gdt_t"

definition gdt_add_entry ::
  "u8 \<Rightarrow> u32 \<Rightarrow> u32 \<Rightarrow> bool \<Rightarrow> bool \<Rightarrow> bool \<Rightarrow> bool \<Rightarrow> u8 \<Rightarrow> bool \<Rightarrow> bool \<Rightarrow> gdt \<Rightarrow> gdt" where
  "gdt_add_entry entry base limit rw dc exec ty privl sz gran gdt_entries =
     gdt_entries(entry :=
       \<lparr>g_limit_l = ucast (limit AND 0xFFFF), g_base_l = ucast (base AND 0xFFFFFF), g_accessed = False,
        g_rw = rw, g_dc = dc, g_exec = exec, g_type = ty, g_privl = ucast privl, g_present = True,
        g_limit_h = ucast (drop_bit 16 (limit AND 0xF0000)), g_zero = 0, g_size = sz,
        g_granularity = gran, g_base_h = ucast (drop_bit 24 (base AND 0xFF000000))\<rparr>)"

text \<open>
  \<open>tss\<close> is the address of \<open>tss_entry\<close>, 108 the size of \<open>tss_t\<close>. The rest of \<open>gdt_init\<close> sets
  \<open>ss0\<close> and \<open>esp0\<close> in the task state segment and loads the table.
\<close>

definition gdt_init :: "u32 \<Rightarrow> gdt \<Rightarrow> gdt" where
  "gdt_init tss g =
     (let g = gdt_add_entry 0 0 0 False False False False 0 False False g;
          g = gdt_add_entry 1 0 0xFFFFF True False True True 0 True True g;
          g = gdt_add_entry 2 0 0xFFFFF True False False True 0 True True g;
          g = gdt_add_entry 3 0 0xFFFFF True False True True 3 True True g;
          g = gdt_add_entry 4 0 0xFFFFF True False False True 3 True True g;
          g = gdt_add_entry 5 0 0xFFFFF True False True True 0 False False g;
          g = gdt_add_entry 6 0 0xFFFFF True False False True 0 False False g;
          g = gdt_add_entry 7 tss 108 False False True False 0 False False g
      in g(7 := (g 7)\<lparr>g_accessed := True\<rparr>))"

section \<open>Interrupt gates\<close>

record idt_t =
  i_offset_l :: u16
  i_selector :: u16
  i_zero :: u8
  i_type :: "4 word"
  i_storage :: bool
  i_dpl :: "2 word"
  i_present :: bool
  i_offset_h :: u16

definition idt_bits :: "idt_t \<Rightarrow> u64" where
  "idt_bits g =
     ucast (i_offset_l g) OR push_bit 16 (ucast (i_selector g)) OR push_bit 32 (ucast (i_zero g)) OR
     push_bit 40 (ucast (i_type g)) OR push_bit 44 (of_bool (i_storage g)) OR push_bit 45 (ucast (i_dpl g)) OR
     push_bit 47 (of_bool (i_present g)) OR push_bit 48 (ucast (i_offset_h g))"

text \<open>The gates, the handlers (of some type \<open>'f\<close> of function pointers), and the interrupt flag.\<close>

record 'f idt =
  idt_gates :: "u8 \<Rightarrow> idt_t"
  idt_handlers :: "u8 \<Rightarrow> 'f option"
  idt_if :: bool

definition idt_add_gate :: "u8 \<Rightarrow> u16 \<Rightarrow> u32 \<Rightarrow> u8 \<Rightarrow> u8 \<Rightarrow> ('f, 'z) idt_scheme \<Rightarrow> ('f, 'z) idt_scheme" where
  "idt_add_gate vector selector offset type dpl st =
     st\<lparr>idt_gates := (idt_gates st)(vector :=
       \<lparr>i_offset_l = ucast (offset AND 0x0000FFFF), i_selector = selector, i_zero = 0, i_type = ucast type,
        i_storage = (type = 5), i_dpl = ucast dpl, i_present = True,
        i_offset_h = ucast (drop_bit 16 (offset AND 0xFFFF0000))\<rparr>)\<rparr>"

definition intr_enable :: "('f, 'z) idt_scheme \<Rightarrow> ('f, 'z) idt_scheme" where
  "intr_enable st = st\<lparr>idt_if := True\<rparr>"

definition intr_disable :: "('f, 'z) idt_scheme \<Rightarrow> ('f, 'z) idt_scheme" where
  "intr_disable st = st\<lparr>idt_if := False\<rparr>"

definition intr_handle :: "u8 \<Rightarrow> 'f option \<Rightarrow> ('f, 'z) idt_scheme \<Rightarrow> ('f, 'z) idt_scheme" where
  "intr_handle vector handler st = st\<lparr>idt_handlers := (idt_handlers st)(vector := handler)\<rparr>"

definition intr_is_handled :: "u8 \<Rightarrow> ('f, 'z) idt_scheme \<Rightarrow> bool" where
  "intr_is_handled vector st \<longleftrightarrow> idt_handlers st vector \<noteq> None"

text \<open>\<open>call\<close> runs a handler.\<close>

definition idt_stub :: "('f \<Rightarrow> u8 \<Rightarrow> ('f, 'z) idt_scheme \<Rightarrow> ('f, 'z) idt_scheme option) \<Rightarrow> u8 \<Rightarrow> ('f, 'z) idt_scheme \<Rightarrow>
    ('f, 'z) idt_scheme option" where
  "idt_stub call vector st = (case idt_handlers st vector of None \<Rightarrow> Some st | Some f \<Rightarrow> call f vector st)"

text \<open>
  \<open>exc_addr\<close> and \<open>idt_addr\<close> give the addresses of the entry points \<open>exc_handler_n\<close> and \<open>idt_handler_n\<close> of
  desctabs.asm, \<open>exc\<close> is \<open>exc_stub\<close>.
\<close>

definition idt_init_exceptions :: "(u8 \<Rightarrow> u32) \<Rightarrow> ('f, 'z) idt_scheme \<Rightarrow> ('f, 'z) idt_scheme" where
  "idt_init_exceptions exc_addr st = fold (\<lambda>n. idt_add_gate n 0x08 (exc_addr n) 0xE 0) (map of_nat [0..<32]) st"

definition idt_init_others :: "(u8 \<Rightarrow> u32) \<Rightarrow> ('f, 'z) idt_scheme \<Rightarrow> ('f, 'z) idt_scheme" where
  "idt_init_others idt_addr st = fold (\<lambda>n. idt_add_gate n 0x08 (idt_addr n) 0xE 3) (map of_nat [32..<256]) st"

definition idt_init :: "(u8 \<Rightarrow> u32) \<Rightarrow> (u8 \<Rightarrow> u32) \<Rightarrow> 'f \<Rightarrow> ('f, 'z) idt_scheme \<Rightarrow> ('f, 'z) idt_scheme" where
  "idt_init exc_addr idt_addr exc st =
     (let st = idt_init_exceptions exc_addr st;
          st = fold (\<lambda>i st. st\<lparr>idt_handlers := (idt_handlers st)(i := Some exc)\<rparr>) (map of_nat [0..<32]) st;
          st = idt_init_others idt_addr st
      in intr_enable st)"

section \<open>Exceptions\<close>

text \<open>
  A page fault may be resolved by copying a page that was shared for writing; any other exception
  aborts the current process, after what is on the screen has been made visible. \<open>cr2\<close> is the address
  that faulted, \<open>on_fbuf\<close> tells whether the terminal is the one on the frame buffer.
\<close>

definition exc_stub :: "u8 \<Rightarrow> u32 \<Rightarrow> u32 \<Rightarrow> bool \<Rightarrow> ('h, 'z) timer \<Rightarrow> ('h, 'z) timer option" where
  "exc_stub vector cr2 exc_code on_fbuf st =
     do { (handled, st) \<leftarrow>
            (if vector = 0x0E then
               do { (r, vm) \<leftarrow> vmm_handle_fault cr2 (exc_code AND 7) (k_vm st);
                    Some (r, st\<lparr>k_vm := vm\<rparr>) }
             else Some (False, st));
          if handled then Some st
          else do { st \<leftarrow> (if on_fbuf then timer_commit st else Some st);
                    proc_abort st } }"

section \<open>What the processor reads\<close>

text \<open>The fields of a segment descriptor and of a gate, as the processor finds them in the eight bytes.\<close>

definition desc_base :: "u64 \<Rightarrow> u32" where
  "desc_base d = ucast (drop_bit 16 d AND 0xFFFFFF) OR ucast (drop_bit 32 d AND 0xFF000000)"

definition desc_limit :: "u64 \<Rightarrow> u32" where
  "desc_limit d = ucast (d AND 0xFFFF) OR ucast (drop_bit 32 d AND 0xF0000)"

definition desc_access :: "u64 \<Rightarrow> u8" where "desc_access d = ucast (drop_bit 40 d)"

definition desc_flags :: "u64 \<Rightarrow> u8" where "desc_flags d = ucast (drop_bit 52 d AND 0xF)"

definition gate_offset :: "u64 \<Rightarrow> u32" where
  "gate_offset d = ucast (d AND 0xFFFF) OR ucast (drop_bit 32 d AND 0xFFFF0000)"

definition gate_selector :: "u64 \<Rightarrow> u16" where "gate_selector d = ucast (drop_bit 16 d)"

text \<open>The masks of the code as shifted masks, whose bits are known.\<close>

lemma mask_shapes:
  "3 = (mask 2 :: 'a::len word)" "0xFFFF = (mask 16 :: 'a word)" "0xFFFFFF = (mask 24 :: 'a word)" "0xF = (mask 4 :: 'a word)"
  "0xF0000 = (push_bit 16 (mask 4) :: 'a word)" "0xFF000000 = (push_bit 24 (mask 8) :: 'a word)"
  "0xFFFF0000 = (push_bit 16 (mask 16) :: 'a word)" "0xFFFFF = (mask 20 :: 'a word)"
  by (simp_all add: mask_eq_exp_minus_1 push_bit_eq_mult)

lemma bit_high:
  "2 \<le> n \<Longrightarrow> \<not> bit (a :: 2 word) n" "4 \<le> n \<Longrightarrow> \<not> bit (b :: 4 word) n" "8 \<le> n \<Longrightarrow> \<not> bit (c :: u8) n"
  "16 \<le> n \<Longrightarrow> \<not> bit (d :: u16) n" "24 \<le> n \<Longrightarrow> \<not> bit (e :: 24 word) n"
  by (auto dest!: bit_imp_le_length)

lemma desc_base_bits: "desc_base (gdt_bits g) = ucast (g_base_l g) OR push_bit 24 (ucast (g_base_h g))"
proof (rule bit_eqI)
  fix n assume "possible_bit TYPE(u32) n"
  then consider "n < 24" | "24 \<le> n" "n < 32" by fastforce
  then show "bit (desc_base (gdt_bits g)) n = bit (ucast (g_base_l g) OR push_bit 24 (ucast (g_base_h g)) :: u32) n"
    by cases (auto simp: bit_high desc_base_def gdt_bits_def mask_shapes bit_simps)
qed

lemma desc_limit_bits: "desc_limit (gdt_bits g) = ucast (g_limit_l g) OR push_bit 16 (ucast (g_limit_h g))"
proof (rule bit_eqI)
  fix n assume "possible_bit TYPE(u32) n"
  then consider "n < 16" | "16 \<le> n" "n < 20" | "20 \<le> n" "n < 32" by fastforce
  then show "bit (desc_limit (gdt_bits g)) n = bit (ucast (g_limit_l g) OR push_bit 16 (ucast (g_limit_h g)) :: u32) n"
    by cases (auto simp: bit_high desc_limit_def gdt_bits_def mask_shapes bit_simps)
qed

lemma lt8_cases: "n < 8 \<Longrightarrow> n = 0 \<or> n = 1 \<or> n = 2 \<or> n = 3 \<or> n = 4 \<or> n = 5 \<or> n = 6 \<or> n = (7 :: nat)"
  by auto

lemma desc_access_bits:
  "desc_access (gdt_bits g) = of_bool (g_accessed g) OR push_bit 1 (of_bool (g_rw g)) OR push_bit 2 (of_bool (g_dc g)) OR
     push_bit 3 (of_bool (g_exec g)) OR push_bit 4 (of_bool (g_type g)) OR push_bit 5 (ucast (g_privl g)) OR
     push_bit 7 (of_bool (g_present g))" (is "_ = ?r")
proof (rule bit_eqI)
  fix n assume "possible_bit TYPE(u8) n"
  then have "n < 8" by simp
  from lt8_cases [OF this] show "bit (desc_access (gdt_bits g)) n = bit ?r n"
    by (elim disjE) (auto simp: bit_high desc_access_def gdt_bits_def bit_simps)
qed

lemma desc_flags_bits:
  "desc_flags (gdt_bits g) = ucast (g_zero g) OR push_bit 2 (of_bool (g_size g)) OR push_bit 3 (of_bool (g_granularity g))"
  (is "_ = ?r")
proof (rule bit_eqI)
  fix n assume "possible_bit TYPE(u8) n"
  then have "n < 8" by simp
  from lt8_cases [OF this] show "bit (desc_flags (gdt_bits g)) n = bit ?r n"
    by (elim disjE) (auto simp: bit_high desc_flags_def gdt_bits_def mask_shapes bit_simps)
qed

lemma gate_offset_bits: "gate_offset (idt_bits g) = ucast (i_offset_l g) OR push_bit 16 (ucast (i_offset_h g))"
proof (rule bit_eqI)
  fix n assume "possible_bit TYPE(u32) n"
  then consider "n < 16" | "16 \<le> n" "n < 32" by fastforce
  then show "bit (gate_offset (idt_bits g)) n = bit (ucast (i_offset_l g) OR push_bit 16 (ucast (i_offset_h g)) :: u32) n"
    by cases (auto simp: bit_high gate_offset_def idt_bits_def mask_shapes bit_simps)
qed

lemma gate_selector_bits: "gate_selector (idt_bits g) = i_selector g"
proof (rule bit_eqI)
  fix n assume "possible_bit TYPE(u16) n"
  then have "n < 16" by simp
  then show "bit (gate_selector (idt_bits g)) n = bit (i_selector g) n"
    by (simp add: gate_selector_def idt_bits_def bit_simps bit_high)
qed

lemma gate_access_bits:
  "desc_access (idt_bits g) = ucast (i_type g) OR push_bit 4 (of_bool (i_storage g)) OR push_bit 5 (ucast (i_dpl g)) OR
     push_bit 7 (of_bool (i_present g))" (is "_ = ?r")
proof (rule bit_eqI)
  fix n assume "possible_bit TYPE(u8) n"
  then have "n < 8" by simp
  from lt8_cases [OF this] show "bit (desc_access (idt_bits g)) n = bit ?r n"
    by (elim disjE) (auto simp: bit_high desc_access_def idt_bits_def bit_simps)
qed

lemma base_parts:
  "ucast (ucast (w AND 0xFFFFFF) :: 24 word) OR push_bit 24 (ucast (ucast (drop_bit 24 (w AND 0xFF000000)) :: u8)) = (w :: u32)"
proof (rule bit_eqI)
  fix n assume "possible_bit TYPE(u32) n"
  then consider "n < 24" | "24 \<le> n" "n < 32" by fastforce
  then show "bit (ucast (ucast (w AND 0xFFFFFF) :: 24 word) OR push_bit 24 (ucast (ucast (drop_bit 24 (w AND 0xFF000000)) :: u8)) :: u32) n = bit w n"
    by cases (auto simp: mask_shapes bit_simps)
qed

lemma limit_parts:
  "ucast (ucast (w AND 0xFFFF) :: u16) OR push_bit 16 (ucast (ucast (drop_bit 16 (w AND 0xF0000)) :: 4 word)) = (w :: u32) AND 0xFFFFF"
  (is "?l = _")
proof (rule bit_eqI)
  fix n assume "possible_bit TYPE(u32) n"
  then consider "n < 16" | "16 \<le> n" "n < 20" | "20 \<le> n" "n < 32" by fastforce
  then show "bit ?l n = bit (w AND 0xFFFFF) n" by cases (auto simp: mask_shapes bit_simps)
qed

lemma offset_parts:
  "ucast (ucast (w AND 0xFFFF) :: u16) OR push_bit 16 (ucast (ucast (drop_bit 16 (w AND 0xFFFF0000)) :: u16)) = (w :: u32)"
  (is "?l = _")
proof (rule bit_eqI)
  fix n assume "possible_bit TYPE(u32) n"
  then consider "n < 16" | "16 \<le> n" "n < 32" by fastforce
  then show "bit ?l n = bit w n" by cases (auto simp: mask_shapes bit_simps)
qed

section \<open>Properties\<close>

text \<open>
  an entry of the table of segments, as the processor reads it, has the base, the limit and the
  rights it was added with.
\<close>

lemma gdt_add_entry_read_back:
  "desc_base (gdt_bits (gdt_add_entry entry base limit rw dc exec ty privl sz gran t entry)) = base \<and>
   desc_limit (gdt_bits (gdt_add_entry entry base limit rw dc exec ty privl sz gran t entry)) = limit AND 0xFFFFF \<and>
   desc_access (gdt_bits (gdt_add_entry entry base limit rw dc exec ty privl sz gran t entry)) =
     push_bit 1 (of_bool rw) OR push_bit 2 (of_bool dc) OR push_bit 3 (of_bool exec) OR push_bit 4 (of_bool ty) OR
     push_bit 5 (privl AND 3) OR 0x80 \<and>
   desc_flags (gdt_bits (gdt_add_entry entry base limit rw dc exec ty privl sz gran t entry)) =
     push_bit 2 (of_bool sz) OR push_bit 3 (of_bool gran)"
proof -
  have "ucast (ucast privl :: 2 word) = privl AND 3" for privl :: u8
    by (rule bit_eqI) (auto simp: bit_simps bit_high mask_shapes)
  then show ?thesis
    unfolding desc_base_bits desc_limit_bits desc_access_bits desc_flags_bits gdt_add_entry_def fun_upd_same
      gdt_t.select_convs base_parts limit_parts
    by simp
qed

lemma idt_add_gates:
  "idt_gates (fold (\<lambda>n. idt_add_gate n sel (addr n) ty dpl) vs st) v =
     (if v \<in> set vs then idt_gates (idt_add_gate v sel (addr v) ty dpl st) v else idt_gates st v)"
  by (induction vs arbitrary: st) (auto simp: idt_add_gate_def)

lemma gate_added:
  "idt_gates (idt_add_gate vector selector offset ty dpl st) vector =
     \<lparr>i_offset_l = ucast (offset AND 0x0000FFFF), i_selector = selector, i_zero = 0, i_type = ucast ty,
      i_storage = (ty = 5), i_dpl = ucast dpl, i_present = True,
      i_offset_h = ucast (drop_bit 16 (offset AND 0xFFFF0000))\<rparr>"
  by (simp add: idt_add_gate_def)

lemma intr_enable_keeps: "idt_gates (intr_enable st) = idt_gates st" "idt_handlers (intr_enable st) = idt_handlers st"
  by (simp_all add: intr_enable_def)

lemma gate_indep: "idt_gates (idt_add_gate v sel addr ty dpl st) v = idt_gates (idt_add_gate v sel addr ty dpl st') v"
  by (simp add: idt_add_gate_def)

lemma idt_handlers_add_gates:
  "idt_handlers (fold (\<lambda>n. idt_add_gate n sel (addr n) ty dpl) vs st) = idt_handlers st"
  by (induction vs arbitrary: st) (auto simp: idt_add_gate_def)

lemma idt_set_handlers:
  "idt_handlers (fold (\<lambda>i st. st\<lparr>idt_handlers := (idt_handlers st)(i := Some exc)\<rparr>) vs st) v =
     (if v \<in> set vs then Some exc else idt_handlers st v)"
  "idt_gates (fold (\<lambda>i st. st\<lparr>idt_handlers := (idt_handlers st)(i := Some exc)\<rparr>) vs st) = idt_gates st"
  by (induction vs arbitrary: st) auto

lemma vectors_from: "b \<le> 256 \<Longrightarrow> (v :: u8) \<in> set (map of_nat [a..<b]) \<longleftrightarrow> a \<le> unat v \<and> unat v < b"
proof
  assume "b \<le> 256" and "v \<in> set (map of_nat [a..<b])"
  then show "a \<le> unat v \<and> unat v < b" by (auto simp: unat_of_nat take_bit_nat_eq_self)
next
  assume "a \<le> unat v \<and> unat v < b"
  then have "v = of_nat (unat v)" "unat v \<in> set [a..<b]" by simp_all
  then show "v \<in> set (map of_nat [a..<b])" unfolding set_map by blast
qed

lemma gate_read_back:
  assumes "g = idt_bits (idt_gates (idt_add_gate v sel addr ty dpl st) v)"
  shows "gate_offset g = addr" and "gate_selector g = sel"
    and "ty \<noteq> 5 \<Longrightarrow> desc_access g = (ty AND 0xF) OR push_bit 5 (dpl AND 3) OR 0x80"
proof -
  show "gate_offset g = addr"
    unfolding assms gate_offset_bits gate_added idt_t.select_convs by (rule offset_parts)
  show "gate_selector g = sel" by (simp add: assms gate_selector_bits idt_add_gate_def)
  have "ucast (ucast ty :: 4 word) = ty AND 0xF" "ucast (ucast dpl :: 2 word) = dpl AND 3"
    by (rule bit_eqI, auto simp: bit_simps bit_high mask_shapes)+
  then show "desc_access g = (ty AND 0xF) OR push_bit 5 (dpl AND 3) OR 0x80" if "ty \<noteq> 5"
    using that by (simp add: assms gate_access_bits idt_add_gate_def)
qed

text \<open>
  C34: after the table of interrupts is set up, each of the 256 vectors leads to its own entry point in
  the kernel's code segment with interrupts off; the exceptions are handled by \<open>exc_stub\<close> and can
  not be raised by programs, all other vectors can.
\<close>

theorem idt_init_vectors:
  "gate_offset (idt_bits (idt_gates (idt_init exc_addr idt_addr exc st) v)) = (if v < 32 then exc_addr v else idt_addr v) \<and>
   gate_selector (idt_bits (idt_gates (idt_init exc_addr idt_addr exc st) v)) = 0x08 \<and>
   desc_access (idt_bits (idt_gates (idt_init exc_addr idt_addr exc st) v)) = (if v < 32 then 0x8E else 0xEE) \<and>
   idt_handlers (idt_init exc_addr idt_addr exc st) v = (if v < 32 then Some exc else idt_handlers st v)"
proof -
  have lt: "v < 32 \<longleftrightarrow> unat v < 32" by (simp add: word_less_nat_alt)
  have low: "v \<in> set (map of_nat [0..<32]) \<longleftrightarrow> v < 32" and high: "v \<in> set (map of_nat [32..<256]) \<longleftrightarrow> \<not> v < 32"
    using vectors_from [of 32 v 0] vectors_from [of 256 v 32] unat_u8_less [of v] unfolding lt by linarith+
  have gates: "idt_gates (idt_init exc_addr idt_addr exc st) v =
      (if v < 32 then idt_gates (idt_add_gate v 0x08 (exc_addr v) 0xE 0 st) v
       else idt_gates (idt_add_gate v 0x08 (idt_addr v) 0xE 3 st) v)"
    unfolding idt_init_def idt_init_exceptions_def idt_init_others_def Let_def intr_enable_keeps
      idt_add_gates idt_set_handlers low high
    by (cases "v < 32") (simp_all only: not_True_eq_False not_False_eq_True if_True if_False, rule gate_indep)
  have "idt_handlers (idt_init exc_addr idt_addr exc st) v = (if v < 32 then Some exc else idt_handlers st v)"
    unfolding idt_init_def idt_init_exceptions_def idt_init_others_def Let_def intr_enable_keeps
      idt_handlers_add_gates idt_set_handlers low by (rule refl)
  then show ?thesis unfolding gates by (auto simp: gate_read_back [OF refl])
qed

end
