(* ===== verification/Intc.thy ===== *)
theory Intc
  imports Desctabs
begin

text \<open>
  The interrupt controllers: the two 8259 of arch/x86/i8259.c and, once \<open>apic_enabled\<close>, the I/O APICs
  and the local APIC of arch/x86cpu/apic.c, to which the interface of the former is then redirected.
\<close>

section \<open>The devices\<close>

text \<open>
  An 8259 as its data sheet describes it: the masks, requests and interrupts in service, which of the
  latter two the command port reads, and the next initialization word it expects (0 when it is set
  up). Requests are not changed by the kernel.
\<close>

record chip =
  c_imr :: u8
  c_irr :: u8
  c_isr :: u8
  c_rd_isr :: bool
  c_icw :: nat
  c_vect :: u8
  c_casc :: u8

text \<open>A non-specific end of interrupt ends the interrupt of the lowest number that is in service.\<close>

definition chip_cmd_write :: "u8 \<Rightarrow> chip \<Rightarrow> chip" where
  "chip_cmd_write v c =
     (if v AND 0x10 \<noteq> 0 then c\<lparr>c_imr := 0, c_rd_isr := False, c_icw := 2\<rparr>
      else if v AND 0x08 \<noteq> 0 then (if v AND 2 \<noteq> 0 then c\<lparr>c_rd_isr := v AND 1 \<noteq> 0\<rparr> else c)
      else if v = 0x20 then c\<lparr>c_isr := c_isr c AND (c_isr c - 1)\<rparr>
      else c)"

definition chip_data_write :: "u8 \<Rightarrow> chip \<Rightarrow> chip" where
  "chip_data_write v c =
     (if c_icw c = 2 then c\<lparr>c_vect := v AND 0xF8, c_icw := 3\<rparr>
      else if c_icw c = 3 then c\<lparr>c_casc := v, c_icw := 4\<rparr>
      else if c_icw c = 4 then c\<lparr>c_icw := 0\<rparr>
      else c\<lparr>c_imr := v\<rparr>)"

definition chip_cmd_read :: "chip \<Rightarrow> u8" where
  "chip_cmd_read c = (if c_rd_isr c then c_isr c else c_irr c)"

record ioapic_info =
  io_id :: u8
  io_base :: u32
  io_gsi_base :: u8
  io_inputs :: u8

text \<open>An entry of a list of handlers, \<open>intr_handler_t\<close>; \<open>'f\<close> are the functions that may be registered.\<close>

record 'f intr_handler =
  ih_irq :: u32
  ih_handler :: "'f option"

text \<open>
  What may be registered with an I/O APIC: \<open>ioapic_legacy_handler\<close> or another function. The handlers
  of vectors: those of this part of the kernel and others.
\<close>

datatype 'f ioh = Ioh_legacy | Ioh 'f

datatype isr = Exc_stub | Pic_handler_stub | Ioapic_handler | Apic_spurious_handler | Apic_timer_handler | Isr_other nat

text \<open>An answer of \<open>krealloc\<close>: failure, or the block grown where it is or moved.\<close>

datatype grow = Grow_fail | Grow_in_place | Grow_moved

text \<open>
  The state: the chips, the lists of handlers, the mapping of legacy interrupts to lines of the I/O
  APICs (GSIs), the table of the I/O APICs and their registers by base address, the registers of the
  local APIC and the vectors it has in service, highest first. \<open>ic_calls\<close> records the handlers that
  have been run and their arguments; \<open>ic_grow\<close> holds the answers of \<open>krealloc\<close> to come.
\<close>

record 'f intc = "isr idt" +
  ic_master :: chip
  ic_slave :: chip
  pic_handlers :: "'f intr_handler list"
  apic_enabled :: bool
  ioapic_irq_gsi :: "u8 list"
  ioapic_infos :: "ioapic_info list"
  io_regs :: "u32 \<Rightarrow> u8 \<Rightarrow> u32"
  ioapic_handlers :: "'f ioh intr_handler list"
  lapic_base :: u32
  lapic_regs :: "u16 \<Rightarrow> u32"
  lapic_isr :: "u8 list"
  ic_calls :: "('f \<times> u32) list"
  ic_grow :: "grow list"

section \<open>Registers\<close>

text \<open>
  Each access selects a register (IOREGSEL) and then reads or writes it (IOWIN); the selection is not
  used otherwise.
\<close>

definition ioapic_reg_read :: "nat \<Rightarrow> u8 \<Rightarrow> ('f, 'z) intc_scheme \<Rightarrow> u32" where
  "ioapic_reg_read idx reg st = io_regs st (io_base (ioapic_infos st ! idx)) reg"

definition ioapic_reg_write :: "nat \<Rightarrow> u8 \<Rightarrow> u32 \<Rightarrow> ('f, 'z) intc_scheme \<Rightarrow> ('f, 'z) intc_scheme" where
  "ioapic_reg_write idx reg val st =
     (let base = io_base (ioapic_infos st ! idx)
      in st\<lparr>io_regs := (io_regs st)(base := (io_regs st base)(reg := val))\<rparr>)"

definition IOREDTBL_L :: "u8 \<Rightarrow> u8" where "IOREDTBL_L x = 0x10 + push_bit 1 x"

definition IOREDTBL_H :: "u8 \<Rightarrow> u8" where "IOREDTBL_H x = 0x10 + push_bit 1 x + 1"

definition lapic_reg_read :: "u16 \<Rightarrow> ('f, 'z) intc_scheme \<Rightarrow> u32" where
  "lapic_reg_read reg st = lapic_regs st reg"

definition lapic_reg_write :: "u16 \<Rightarrow> u32 \<Rightarrow> ('f, 'z) intc_scheme \<Rightarrow> ('f, 'z) intc_scheme" where
  "lapic_reg_write reg val st = st\<lparr>lapic_regs := (lapic_regs st)(reg := val)\<rparr>"

text \<open>A write to the register 0xB0 ends the interrupt in service with the highest priority.\<close>

definition apic_eoi :: "('f, 'z) intc_scheme \<Rightarrow> ('f, 'z) intc_scheme" where
  "apic_eoi st = st\<lparr>lapic_isr := tl (lapic_isr st)\<rparr>"

section \<open>Lines of the I/O APICs\<close>

text \<open>The I/O APIC that is used for a GSI, or the number of them.\<close>

definition ioapic_of_gsi :: "u8 \<Rightarrow> ('f, 'z) intc_scheme \<Rightarrow> nat" where
  "ioapic_of_gsi gsi st =
     find_idx (\<lambda>i. io_gsi_base i \<le> gsi \<and> unat gsi \<le> unat (io_gsi_base i) + unat (io_inputs i)) (ioapic_infos st)"

definition gsi_reg :: "nat \<Rightarrow> u8 \<Rightarrow> ('f, 'z) intc_scheme \<Rightarrow> u8" where
  "gsi_reg i gsi st = IOREDTBL_L (gsi - io_gsi_base (ioapic_infos st ! i))"

definition ioapic_mask :: "u8 \<Rightarrow> ('f, 'z) intc_scheme \<Rightarrow> ('f, 'z) intc_scheme" where
  "ioapic_mask gsi st =
     (let i = ioapic_of_gsi gsi st
      in if i < length (ioapic_infos st)
         then ioapic_reg_write i (gsi_reg i gsi st) (ioapic_reg_read i (gsi_reg i gsi st) st OR 0x10000) st else st)"

definition ioapic_unmask :: "u8 \<Rightarrow> ('f, 'z) intc_scheme \<Rightarrow> ('f, 'z) intc_scheme" where
  "ioapic_unmask gsi st =
     (let i = ioapic_of_gsi gsi st
      in if i < length (ioapic_infos st)
         then ioapic_reg_write i (gsi_reg i gsi st) (ioapic_reg_read i (gsi_reg i gsi st) st AND NOT 0x10000) st else st)"

definition ioapic_get_mask :: "u8 \<Rightarrow> ('f, 'z) intc_scheme \<Rightarrow> bool" where
  "ioapic_get_mask gsi st =
     (let i = ioapic_of_gsi gsi st
      in if i < length (ioapic_infos st) then ioapic_reg_read i (gsi_reg i gsi st) st AND 0x10000 \<noteq> 0 else True)"

text \<open>As opposed to the above, the test of the range is right here.\<close>

definition ioapic_set_trigger :: "u8 \<Rightarrow> bool \<Rightarrow> bool \<Rightarrow> ('f, 'z) intc_scheme \<Rightarrow> ('f, 'z) intc_scheme" where
  "ioapic_set_trigger gsi edge active_low st =
     (let i = find_idx (\<lambda>i. io_gsi_base i \<le> gsi \<and> unat gsi < unat (io_gsi_base i) + unat (io_inputs i)) (ioapic_infos st)
      in if i < length (ioapic_infos st)
         then ioapic_reg_write i (gsi_reg i gsi st)
                ((ioapic_reg_read i (gsi_reg i gsi st) st AND NOT 0xA000) OR (if edge then 0 else 0x8000) OR
                 (if active_low then 0x2000 else 0)) st
         else st)"

section \<open>Masking and acknowledging legacy interrupts\<close>

definition outb_master :: "u8 \<Rightarrow> ('f, 'z) intc_scheme \<Rightarrow> ('f, 'z) intc_scheme" where
  "outb_master v st = st\<lparr>ic_master := chip_cmd_write v (ic_master st)\<rparr>"

definition outb_slave :: "u8 \<Rightarrow> ('f, 'z) intc_scheme \<Rightarrow> ('f, 'z) intc_scheme" where
  "outb_slave v st = st\<lparr>ic_slave := chip_cmd_write v (ic_slave st)\<rparr>"

definition outb_master_data :: "u8 \<Rightarrow> ('f, 'z) intc_scheme \<Rightarrow> ('f, 'z) intc_scheme" where
  "outb_master_data v st = st\<lparr>ic_master := chip_data_write v (ic_master st)\<rparr>"

definition outb_slave_data :: "u8 \<Rightarrow> ('f, 'z) intc_scheme \<Rightarrow> ('f, 'z) intc_scheme" where
  "outb_slave_data v st = st\<lparr>ic_slave := chip_data_write v (ic_slave st)\<rparr>"

definition pic_eoi_inline :: "u8 \<Rightarrow> ('f, 'z) intc_scheme \<Rightarrow> ('f, 'z) intc_scheme" where
  "pic_eoi_inline irq st = outb_master 0x20 (if 8 \<le> irq then outb_slave 0x20 st else st)"

definition pic_eoi :: "u8 \<Rightarrow> ('f, 'z) intc_scheme \<Rightarrow> ('f, 'z) intc_scheme" where
  "pic_eoi irq st =
     (if apic_enabled st then apic_eoi st
      else outb_master 0x20 (if 8 \<le> irq then outb_slave 0x20 st else st))"

definition pic_mask_step :: "u16 \<Rightarrow> nat \<Rightarrow> ('f, 'z) intc_scheme \<Rightarrow> ('f, 'z) intc_scheme" where
  "pic_mask_step bitmask i st =
     (let gsi = ioapic_irq_gsi st ! i
      in if bit bitmask i \<and> \<not> ioapic_get_mask gsi st then ioapic_mask gsi st else st)"

definition pic_mask_bm :: "u16 \<Rightarrow> ('f, 'z) intc_scheme \<Rightarrow> ('f, 'z) intc_scheme" where
  "pic_mask_bm bitmask st =
     (if apic_enabled st then
        fold (pic_mask_step bitmask) [0..<16] st
      else
        let bitmask = bitmask AND NOT 4; lo = ucast bitmask; hi = ucast (drop_bit 8 bitmask);
            st = (if lo \<noteq> 0 then outb_master_data (c_imr (ic_master st) OR lo) st else st)
        in if hi \<noteq> 0 then outb_slave_data (c_imr (ic_slave st) OR hi) st else st)"

definition pic_unmask_step :: "u16 \<Rightarrow> nat \<Rightarrow> ('f, 'z) intc_scheme \<Rightarrow> ('f, 'z) intc_scheme" where
  "pic_unmask_step bitmask i st =
     (let gsi = ioapic_irq_gsi st ! i
      in if bit bitmask i \<and> ioapic_get_mask gsi st then ioapic_unmask gsi st else st)"

definition pic_unmask_bm :: "u16 \<Rightarrow> ('f, 'z) intc_scheme \<Rightarrow> ('f, 'z) intc_scheme" where
  "pic_unmask_bm bitmask st =
     (if apic_enabled st then
        fold (pic_unmask_step bitmask) [0..<16] st
      else
        let bitmask = NOT bitmask; lo = ucast bitmask; hi = ucast (drop_bit 8 bitmask);
            st = (if lo \<noteq> 0xFF then outb_master_data (c_imr (ic_master st) AND lo) st else st)
        in if hi \<noteq> 0xFF then outb_slave_data (c_imr (ic_slave st) AND hi) st else st)"

definition pic_get_mask :: "('f, 'z) intc_scheme \<Rightarrow> u16" where
  "pic_get_mask st =
     (if apic_enabled st then
        fold (\<lambda>i ret. if ioapic_get_mask (ioapic_irq_gsi st ! i) st then ret OR push_bit i 1 else ret) [0..<16] 0
      else push_bit 8 (ucast (c_imr (ic_slave st))) OR ucast (c_imr (ic_master st)))"

text \<open>\<open>irq\<close> is the index of an array in one case and the width of a shift of an \<open>int\<close> in the other.\<close>

definition pic_mask :: "u8 \<Rightarrow> ('f, 'z) intc_scheme \<Rightarrow> ('f, 'z) intc_scheme option" where
  "pic_mask irq st =
     (if apic_enabled st then (if irq < 16 then Some (ioapic_mask (ioapic_irq_gsi st ! unat irq) st) else None)
      else if irq < 32 then Some (pic_mask_bm (push_bit (unat irq) 1) st) else None)"

definition pic_unmask :: "u8 \<Rightarrow> ('f, 'z) intc_scheme \<Rightarrow> ('f, 'z) intc_scheme option" where
  "pic_unmask irq st =
     (if apic_enabled st then (if irq < 16 then Some (ioapic_unmask (ioapic_irq_gsi st ! unat irq) st) else None)
      else if irq < 32 then Some (pic_unmask_bm (push_bit (unat irq) 1) st) else None)"

definition pic_read_irr :: "('f, 'z) intc_scheme \<Rightarrow> u16 \<times> ('f, 'z) intc_scheme" where
  "pic_read_irr st =
     (let st = outb_slave 0x0A (outb_master 0x0A st)
      in (push_bit 8 (ucast (chip_cmd_read (ic_slave st))) OR ucast (chip_cmd_read (ic_master st)), st))"

definition pic_read_isr :: "('f, 'z) intc_scheme \<Rightarrow> u16 \<times> ('f, 'z) intc_scheme" where
  "pic_read_isr st =
     (let st = outb_slave 0x0B (outb_master 0x0B st)
      in (push_bit 8 (ucast (chip_cmd_read (ic_slave st))) OR ucast (chip_cmd_read (ic_master st)), st))"

section \<open>Handlers of legacy interrupts\<close>

text \<open>The loop that runs the handlers of an interrupt; it counts them.\<close>

fun pic_run :: "'f intr_handler list \<Rightarrow> u32 \<Rightarrow> nat \<Rightarrow> ('f, 'z) intc_scheme \<Rightarrow> nat \<times> ('f, 'z) intc_scheme" where
  "pic_run [] irq n st = (n, st)"
| "pic_run (h # hs) irq n st =
     (case ih_handler h of
        Some f \<Rightarrow> if ih_irq h = irq then pic_run hs irq (n + 1) (st\<lparr>ic_calls := ic_calls st @ [(f, irq)]\<rparr>)
                  else pic_run hs irq n st
      | None \<Rightarrow> pic_run hs irq n st)"

definition pic_handler_stub :: "u8 \<Rightarrow> ('f, 'z) intc_scheme \<Rightarrow> ('f, 'z) intc_scheme" where
  "pic_handler_stub vector st =
     (let vector = vector - 0x20;
          (spurious, st) = (if vector = 7 \<or> vector = 15 then
                              let (isr, st) = pic_read_isr st in (isr AND push_bit (unat vector) 1 = 0, st)
                            else (False, st))
      in if spurious then (if vector = 15 then pic_eoi_inline 2 st else st)
         else let (n, st) = pic_run (pic_handlers st) (ucast vector) 0 st in pic_eoi_inline vector st)"

definition ic_krealloc :: "('f, 'z) intc_scheme \<Rightarrow> grow \<times> ('f, 'z) intc_scheme" where
  "ic_krealloc st = (case ic_grow st of [] \<Rightarrow> (Grow_fail, st) | g # gs \<Rightarrow> (g, st\<lparr>ic_grow := gs\<rparr>))"

text \<open>
  The slot for a new handler. The new address of a list that has grown is not stored, so that a list
  that had to move is used after it has been freed (\<open>None\<close>); the number of entries grows by one.
\<close>

definition handlers_slot :: "'x intr_handler list \<Rightarrow> ('f, 'z) intc_scheme \<Rightarrow> ((nat option \<times> 'x intr_handler list) \<times> ('f, 'z) intc_scheme) option" where
  "handlers_slot hs st =
     (let i = find_idx (\<lambda>h. ih_handler h = None) hs
      in if i < length hs then Some ((Some i, hs), st)
         else let (g, st) = ic_krealloc st
              in case g of Grow_fail \<Rightarrow> Some ((None, hs), st)
                 | Grow_in_place \<Rightarrow> Some ((Some (length hs), hs @ [\<lparr>ih_irq = 0, ih_handler = None\<rparr>]), st)
                 | Grow_moved \<Rightarrow> None)"

definition ioapic_handle :: "u8 \<Rightarrow> 'f ioh option \<Rightarrow> ('f, 'z) intc_scheme \<Rightarrow> (u32 \<times> ('f, 'z) intc_scheme) option" where
  "ioapic_handle gsi handler st =
     do { ((slot, hs), st) \<leftarrow> handlers_slot (ioapic_handlers st) st;
          case slot of None \<Rightarrow> Some (size_max, st)
          | Some i \<Rightarrow> Some (of_nat i, st\<lparr>ioapic_handlers := hs[i := \<lparr>ih_irq = ucast gsi, ih_handler = handler\<rparr>]\<rparr>) }"

definition ioapic_is_handled :: "u8 \<Rightarrow> ('f, 'z) intc_scheme \<Rightarrow> bool" where
  "ioapic_is_handled gsi st \<longleftrightarrow> (\<exists>h\<in>set (ioapic_handlers st). ih_handler h \<noteq> None \<and> ih_irq h = ucast gsi)"

definition pic_handle :: "u8 \<Rightarrow> 'f option \<Rightarrow> ('f, 'z) intc_scheme \<Rightarrow> (u32 \<times> ('f, 'z) intc_scheme) option" where
  "pic_handle irq handler st =
     do { ((slot, hs), st) \<leftarrow> handlers_slot (pic_handlers st) st;
          case slot of None \<Rightarrow> Some (size_max, st)
          | Some i \<Rightarrow>
              let st = st\<lparr>pic_handlers := hs[i := \<lparr>ih_irq = ucast irq, ih_handler = handler\<rparr>]\<rparr>
              in if \<not> apic_enabled st then Some (of_nat i, st)
                 else if \<not> irq < 16 then None
                 else do { (r, st) \<leftarrow> ioapic_handle (ioapic_irq_gsi st ! unat irq) (Some Ioh_legacy) st;
                           Some (of_nat i, st) } }"

definition pic_unhandle :: "u32 \<Rightarrow> ('f, 'z) intc_scheme \<Rightarrow> ('f, 'z) intc_scheme" where
  "pic_unhandle hid st =
     (if unat hid < length (pic_handlers st)
      then st\<lparr>pic_handlers := (pic_handlers st)[unat hid := (pic_handlers st ! unat hid)\<lparr>ih_handler := None\<rparr>]\<rparr> else st)"

definition pic_is_handled :: "u8 \<Rightarrow> ('f, 'z) intc_scheme \<Rightarrow> bool" where
  "pic_is_handled irq st \<longleftrightarrow> (\<exists>h\<in>set (pic_handlers st). ih_handler h \<noteq> None \<and> ih_irq h = ucast irq)"

text \<open>\<open>alloc\<close>: whether the list can be allocated.\<close>

definition pic_init :: "bool \<Rightarrow> ('f, 'z) intc_scheme \<Rightarrow> ('f, 'z) intc_scheme" where
  "pic_init alloc st =
     (let st = intr_disable st;
          st = outb_slave 0x11 (outb_master 0x11 st);
          st = outb_slave_data 0x28 (outb_master_data 0x20 st);
          st = outb_slave_data 2 (outb_master_data 4 st);
          st = outb_slave_data 1 (outb_master_data 1 st);
          st = outb_slave_data 0xFF (outb_master_data 0xFB st);
          st = (if alloc then
                  fold (\<lambda>i. intr_handle (0x20 + of_nat i) (Some Pic_handler_stub)) [0..<16]
                    (st\<lparr>pic_handlers := replicate 16 \<lparr>ih_irq = 0, ih_handler = None\<rparr>\<rparr>)
                else st\<lparr>pic_handlers := []\<rparr>)
      in intr_enable (pic_eoi_inline 15 st))"

section \<open>Handlers of the I/O APICs\<close>

definition ioapic_legacy_handler :: "u32 \<Rightarrow> ('f, 'z) intc_scheme \<Rightarrow> ('f, 'z) intc_scheme" where
  "ioapic_legacy_handler gsi st =
     (let irq = find_idx (\<lambda>g. ucast g = gsi) (ioapic_irq_gsi st)
      in if irq < length (ioapic_irq_gsi st)
         then let (n, st) = pic_run (pic_handlers st) (of_nat irq) 0 st in st
         else st)"

fun ioapic_run :: "'f ioh intr_handler list \<Rightarrow> u32 \<Rightarrow> nat \<Rightarrow> ('f, 'z) intc_scheme \<Rightarrow> nat \<times> ('f, 'z) intc_scheme" where
  "ioapic_run [] gsi n st = (n, st)"
| "ioapic_run (h # hs) gsi n st =
     (case ih_handler h of
        Some f \<Rightarrow>
          if ih_irq h = gsi then
            ioapic_run hs gsi (n + 1)
              (case f of Ioh_legacy \<Rightarrow> ioapic_legacy_handler gsi st
               | Ioh f \<Rightarrow> st\<lparr>ic_calls := ic_calls st @ [(f, gsi)]\<rparr>)
          else ioapic_run hs gsi n st
      | None \<Rightarrow> ioapic_run hs gsi n st)"

definition ioapic_handler :: "u8 \<Rightarrow> ('f, 'z) intc_scheme \<Rightarrow> ('f, 'z) intc_scheme" where
  "ioapic_handler vector st =
     (let gsi = vector - 0x30; (n, st) = ioapic_run (ioapic_handlers st) (ucast gsi) 0 st in apic_eoi st)"

text \<open>The loop at the end of \<open>apic_init\<close> that takes over the legacy interrupts; bits of \<open>pic_irq_mask\<close> are masked ones.\<close>

fun apic_adapt :: "u16 \<Rightarrow> 'f intr_handler list \<Rightarrow> u16 \<Rightarrow> ('f, 'z) intc_scheme \<Rightarrow> ('f, 'z) intc_scheme option" where
  "apic_adapt pic_irq_mask [] handled st = Some st"
| "apic_adapt pic_irq_mask (h # hs) handled st =
     (if ih_handler h \<noteq> None then
        if \<not> ih_irq h < 16 then None
        else if bit handled (unat (ih_irq h)) then apic_adapt pic_irq_mask hs handled st
        else
          let gsi = ioapic_irq_gsi st ! unat (ih_irq h)
          in do { (r, st) \<leftarrow> ioapic_handle gsi (Some Ioh_legacy) st;
                  apic_adapt pic_irq_mask hs (handled OR push_bit (unat (ih_irq h)) 1)
                    (if bit pic_irq_mask (unat (ih_irq h)) then ioapic_mask gsi st else ioapic_unmask gsi st) }
      else apic_adapt pic_irq_mask hs handled st)"

section \<open>The handlers that run\<close>

text \<open>The functions registered for an interrupt, in the order of the list.\<close>

definition handlers_of :: "u32 \<Rightarrow> 'x intr_handler list \<Rightarrow> 'x list" where
  "handlers_of irq hs = concat (map (\<lambda>h. if ih_irq h = irq then (case ih_handler h of None \<Rightarrow> [] | Some f \<Rightarrow> [f]) else []) hs)"

lemma pic_run_calls:
  "pic_run hs irq n st = (n + length (handlers_of irq hs), st\<lparr>ic_calls := ic_calls st @ map (\<lambda>f. (f, irq)) (handlers_of irq hs)\<rparr>)"
  by (induction hs arbitrary: n st) (auto simp: handlers_of_def split: option.splits)

text \<open>The legacy interrupt a GSI is taken for.\<close>

definition legacy_irq :: "u8 \<Rightarrow> ('f, 'z) intc_scheme \<Rightarrow> nat" where
  "legacy_irq gsi st = find_idx (\<lambda>g. g = gsi) (ioapic_irq_gsi st)"

definition ioh_calls :: "('f, 'z) intc_scheme \<Rightarrow> u8 \<Rightarrow> 'f ioh \<Rightarrow> ('f \<times> u32) list" where
  "ioh_calls st gsi f =
     (case f of Ioh f \<Rightarrow> [(f, ucast gsi)]
      | Ioh_legacy \<Rightarrow> if legacy_irq gsi st < length (ioapic_irq_gsi st)
                      then map (\<lambda>f. (f, of_nat (legacy_irq gsi st))) (handlers_of (of_nat (legacy_irq gsi st)) (pic_handlers st))
                      else [])"

lemma ucast_u8_u32_eq: "(ucast (a :: u8) :: u32) = ucast b \<longleftrightarrow> a = b"
proof
  assume eq: "(ucast a :: u32) = ucast b"
  show "a = b"
  proof (rule bit_eqI)
    fix n assume "possible_bit TYPE(u8) n"
    then show "bit a n = bit b n" using arg_cong [OF eq, of "\<lambda>w. bit w n"] by (simp add: bit_simps)
  qed
qed simp

lemma ioapic_legacy_calls:
  "ioapic_legacy_handler (ucast gsi) st = st\<lparr>ic_calls := ic_calls st @ ioh_calls st gsi Ioh_legacy\<rparr>"
  by (simp add: ioapic_legacy_handler_def ioh_calls_def legacy_irq_def ucast_u8_u32_eq pic_run_calls Let_def)

lemma ioh_calls_cong [simp]: "ioh_calls (st\<lparr>ic_calls := c\<rparr>) gsi = ioh_calls st gsi"
  by (rule ext) (simp add: ioh_calls_def legacy_irq_def cong: ioh.case_cong)

lemma ioh_calls_Ioh [simp]: "ioh_calls st gsi (Ioh f) = [(f, ucast gsi)]"
  by (simp add: ioh_calls_def)

lemma ioapic_run_calls:
  "ioapic_run hs (ucast gsi) n st =
     (n + length (handlers_of (ucast gsi) hs),
      st\<lparr>ic_calls := ic_calls st @ concat (map (ioh_calls st gsi) (handlers_of (ucast gsi) hs))\<rparr>)"
proof (induction hs arbitrary: n st)
  case (Cons h hs)
  then show ?case
    by (auto simp: handlers_of_def ioapic_legacy_calls split: option.splits ioh.splits)
qed (simp add: handlers_of_def)

section \<open>Legacy interrupts in service\<close>

text \<open>The chips when they are set up, and the interrupts they have in service.\<close>

definition chips_ready :: "('f, 'z) intc_scheme \<Rightarrow> bool" where
  "chips_ready st \<longleftrightarrow> c_icw (ic_master st) = 0 \<and> c_icw (ic_slave st) = 0"

definition chips_isr :: "('f, 'z) intc_scheme \<Rightarrow> u16" where
  "chips_isr st = push_bit 8 (ucast (c_isr (ic_slave st))) OR ucast (c_isr (ic_master st))"

lemma chip_cmd_write_0B [simp]: "chip_cmd_write 0x0B c = c\<lparr>c_rd_isr := True\<rparr>"
  by (simp add: chip_cmd_write_def)

lemma chip_cmd_write_20 [simp]: "chip_cmd_write 0x20 c = c\<lparr>c_isr := c_isr c AND (c_isr c - 1)\<rparr>"
  by (simp add: chip_cmd_write_def)

lemma pic_read_isr_value: "fst (pic_read_isr st) = chips_isr st"
  by (simp add: pic_read_isr_def outb_master_def outb_slave_def chip_cmd_read_def chips_isr_def Let_def)

lemma pic_read_isr_keeps:
  "c_isr (ic_master (snd (pic_read_isr st))) = c_isr (ic_master st)" "c_isr (ic_slave (snd (pic_read_isr st))) = c_isr (ic_slave st)"
  "pic_handlers (snd (pic_read_isr st)) = pic_handlers st" "ic_calls (snd (pic_read_isr st)) = ic_calls st"
  by (simp_all add: pic_read_isr_def outb_master_def outb_slave_def Let_def)

text \<open>The chips after an end of interrupt for \<open>irq\<close>.\<close>

definition isr_ended :: "u8 \<Rightarrow> u8" where "isr_ended isr = isr AND (isr - 1)"

lemma pic_eoi_inline_isr:
  "c_isr (ic_master (pic_eoi_inline irq st)) = isr_ended (c_isr (ic_master st))"
  "c_isr (ic_slave (pic_eoi_inline irq st)) = (if 8 \<le> irq then isr_ended (c_isr (ic_slave st)) else c_isr (ic_slave st))"
  "ic_calls (pic_eoi_inline irq st) = ic_calls st"
  by (simp_all add: pic_eoi_inline_def outb_master_def outb_slave_def isr_ended_def)

text \<open>An end of interrupt clears the lowest bit that is set, here that of \<open>irq\<close>.\<close>

lemma isr_ended_lowest:
  fixes isr :: u8
  assumes "\<forall>i\<le>k. \<not> bit isr i" and "k < 8"
  shows "isr_ended (isr OR push_bit k 1) = isr"
proof -
  have "isr AND push_bit k 1 = 0" "isr AND mask k = 0"
    using assms(1) by (auto intro!: bit_eqI simp: bit_simps)
  then have "isr OR push_bit k 1 = isr + push_bit k 1" "isr + mask k = isr OR mask k"
    by (simp_all add: disjunctive_add_eq_or)
  moreover have "push_bit k 1 - 1 = (mask k :: u8)" by (simp add: mask_eq_exp_minus_1)
  ultimately have "(isr OR push_bit k 1) - 1 = isr OR mask k" by (simp add: algebra_simps)
  moreover have "(isr OR push_bit k 1) AND (isr OR mask k) = isr"
    by (rule bit_eqI) (auto simp: bit_simps)
  ultimately show ?thesis by (simp add: isr_ended_def)
qed

text \<open>
  The chips when they signal interrupt \<open>irq\<close>, which they do when nothing of its or a higher priority is
  in service: it is put into service, at the slave together with the cascade line 2 of the master. A
  spurious one, which has gone by the time it is acknowledged, is signalled as 7 or 15 without
  being put into service.
\<close>

definition chips_accept :: "u8 \<Rightarrow> ('f, 'z) intc_scheme \<Rightarrow> bool" where
  "chips_accept irq st \<longleftrightarrow>
     (if irq < 8 then \<forall>i\<le>unat irq. \<not> bit (c_isr (ic_master st)) i
      else (\<forall>i\<le>2. \<not> bit (c_isr (ic_master st)) i) \<and> (\<forall>i\<le>unat irq - 8. \<not> bit (c_isr (ic_slave st)) i))"

definition chips_signal :: "bool \<Rightarrow> u8 \<Rightarrow> ('f, 'z) intc_scheme \<Rightarrow> ('f, 'z) intc_scheme" where
  "chips_signal spurious irq st =
     (if irq < 8
      then if spurious then st
           else st\<lparr>ic_master := (ic_master st)\<lparr>c_isr := c_isr (ic_master st) OR push_bit (unat irq) 1\<rparr>\<rparr>
      else let st = st\<lparr>ic_master := (ic_master st)\<lparr>c_isr := c_isr (ic_master st) OR push_bit 2 1\<rparr>\<rparr>
           in if spurious then st
              else st\<lparr>ic_slave := (ic_slave st)\<lparr>c_isr := c_isr (ic_slave st) OR push_bit (unat irq - 8) 1\<rparr>\<rparr>)"

lemma chips_isr_bit: "bit (chips_isr st) n = (if n < 8 then bit (c_isr (ic_master st)) n else bit (c_isr (ic_slave st)) (n - 8))"
  by (auto simp: chips_isr_def bit_simps dest: bit_imp_le_length)

lemma and_bit_zero: "w AND push_bit n 1 = 0 \<longleftrightarrow> \<not> bit w n" if "n < 16" for w :: u16
proof
  assume "w AND push_bit n 1 = 0"
  then have "bit (w AND push_bit n 1) n = bit (0 :: u16) n" by simp
  then show "\<not> bit w n" using that by (simp add: bit_simps)
next
  assume "\<not> bit w n"
  then show "w AND push_bit n 1 = 0" by (auto intro!: bit_eqI simp: bit_simps)
qed

lemma pic_handler_stub_effect:
  fixes st :: "('f, 'z) intc_scheme"
  assumes "irq < 16"
  defines "spurious \<equiv> (irq = 7 \<or> irq = 15) \<and> \<not> bit (chips_isr st) (unat irq)"
  shows "ic_calls (pic_handler_stub (0x20 + irq) st) =
      ic_calls st @ (if spurious then [] else map (\<lambda>f. (f, ucast irq)) (handlers_of (ucast irq) (pic_handlers st)))"
    and "c_isr (ic_master (pic_handler_stub (0x20 + irq) st)) =
      (if spurious \<and> irq = 7 then c_isr (ic_master st) else isr_ended (c_isr (ic_master st)))"
    and "c_isr (ic_slave (pic_handler_stub (0x20 + irq) st)) =
      (if irq < 8 \<or> spurious then c_isr (ic_slave st) else isr_ended (c_isr (ic_slave st)))"
proof -
  have lt: "unat irq < 16" using assms(1) by (simp add: word_less_nat_alt)
  have "fst (pic_read_isr st) AND push_bit (unat irq) 1 = 0 \<longleftrightarrow> \<not> bit (chips_isr st) (unat irq)"
    by (simp add: pic_read_isr_value and_bit_zero [OF lt] del: push_bit_of_1)
  then have "(fst (pic_read_isr st) AND push_bit (unat irq) 1 = 0) = spurious" if "irq = 7 \<or> irq = 15"
    using that by (simp add: spurious_def del: push_bit_of_1)
  then have stub: "pic_handler_stub (0x20 + irq) st =
      (let st = (if irq = 7 \<or> irq = 15 then snd (pic_read_isr st) else st)
       in if spurious then (if irq = 15 then pic_eoi_inline 2 st else st)
          else pic_eoi_inline irq (snd (pic_run (pic_handlers st) (ucast irq) 0 st)))"
    by (cases "irq = 7 \<or> irq = 15")
       (simp_all add: pic_handler_stub_def Let_def case_prod_beta spurious_def pic_read_isr_keeps, blast)
  have cases: "spurious \<Longrightarrow> irq = 7 \<or> irq = 15" by (simp add: spurious_def)
  consider (seven) "spurious" "irq = 7" | (fifteen) "spurious" "irq = 15" | (served) "\<not> spurious"
    using cases by blast
  then have "ic_calls (pic_handler_stub (0x20 + irq) st) =
      ic_calls st @ (if spurious then [] else map (\<lambda>f. (f, ucast irq)) (handlers_of (ucast irq) (pic_handlers st))) \<and>
    c_isr (ic_master (pic_handler_stub (0x20 + irq) st)) =
      (if spurious \<and> irq = 7 then c_isr (ic_master st) else isr_ended (c_isr (ic_master st))) \<and>
    c_isr (ic_slave (pic_handler_stub (0x20 + irq) st)) =
      (if irq < 8 \<or> spurious then c_isr (ic_slave st) else isr_ended (c_isr (ic_slave st)))"
  proof cases
    case seven
    then show ?thesis unfolding stub Let_def by (simp add: pic_read_isr_keeps)
  next
    case fifteen
    then show ?thesis unfolding stub Let_def by (simp add: pic_read_isr_keeps pic_eoi_inline_isr)
  next
    case served
    then show ?thesis unfolding stub Let_def by (simp add: pic_run_calls pic_read_isr_keeps pic_eoi_inline_isr linorder_not_le [symmetric])
  qed
  then show "ic_calls (pic_handler_stub (0x20 + irq) st) =
      ic_calls st @ (if spurious then [] else map (\<lambda>f. (f, ucast irq)) (handlers_of (ucast irq) (pic_handlers st)))"
    "c_isr (ic_master (pic_handler_stub (0x20 + irq) st)) =
      (if spurious \<and> irq = 7 then c_isr (ic_master st) else isr_ended (c_isr (ic_master st)))"
    "c_isr (ic_slave (pic_handler_stub (0x20 + irq) st)) =
      (if irq < 8 \<or> spurious then c_isr (ic_slave st) else isr_ended (c_isr (ic_slave st)))"
    by blast+
qed

section \<open>Lines and their masks\<close>

text \<open>
  The I/O APICs are at different addresses, and the registers of their lines fit below 0x100, as
  those of the 24 lines of the usual ones do.
\<close>

definition ioapics_ok :: "('f, 'z) intc_scheme \<Rightarrow> bool" where
  "ioapics_ok st \<longleftrightarrow> distinct (map io_base (ioapic_infos st)) \<and> (\<forall>i\<in>set (ioapic_infos st). io_inputs i < 120)"

definition gsi_covered :: "u8 \<Rightarrow> ('f, 'z) intc_scheme \<Rightarrow> bool" where
  "gsi_covered gsi st \<longleftrightarrow> ioapic_of_gsi gsi st < length (ioapic_infos st)"

lemma IOREDTBL_L_inj: "unat a < 120 \<Longrightarrow> unat b < 120 \<Longrightarrow> IOREDTBL_L a = IOREDTBL_L b \<longleftrightarrow> a = b"
proof -
  have reg: "unat (IOREDTBL_L x) = 16 + 2 * unat x" if "unat x < 120" for x
    using that by (simp add: IOREDTBL_L_def push_bit_eq_mult unat_word_ariths)
  show ?thesis if "unat a < 120" "unat b < 120"
    using reg [OF that(1)] reg [OF that(2)] by (auto simp: word_unat_eq_iff)
qed

lemma gsi_reg_eq_iff:
  assumes "ioapics_ok st" and "gsi_covered a st" and "gsi_covered b st" and "ioapic_of_gsi a st = ioapic_of_gsi b st"
  shows "gsi_reg (ioapic_of_gsi a st) a st = gsi_reg (ioapic_of_gsi b st) b st \<longleftrightarrow> a = b"
proof -
  let ?i = "ioapic_infos st ! ioapic_of_gsi a st"
  have sat: "io_gsi_base (ioapic_infos st ! ioapic_of_gsi g st) \<le> g \<and>
      unat g \<le> unat (io_gsi_base (ioapic_infos st ! ioapic_of_gsi g st)) + unat (io_inputs (ioapic_infos st ! ioapic_of_gsi g st))"
    if "gsi_covered g st" for g
    using that unfolding gsi_covered_def ioapic_of_gsi_def by (rule find_idx_sat)
  have range: "io_gsi_base ?i \<le> a \<and> unat a \<le> unat (io_gsi_base ?i) + unat (io_inputs ?i)"
      "io_gsi_base ?i \<le> b \<and> unat b \<le> unat (io_gsi_base ?i) + unat (io_inputs ?i)"
    using sat [OF assms(2)] sat [OF assms(3)] by (simp_all add: assms(4))
  have "?i \<in> set (ioapic_infos st)" using assms(2) by (simp add: gsi_covered_def)
  then have "unat (io_inputs ?i) < 120" using assms(1) by (auto simp: ioapics_ok_def word_less_nat_alt)
  then have "unat (a - io_gsi_base ?i) < 120" "unat (b - io_gsi_base ?i) < 120"
    using range by (simp_all add: unat_diff_offset) linarith+
  then show ?thesis using assms(4) by (auto simp: gsi_reg_def IOREDTBL_L_inj)
qed

lemma ioapic_write_get_mask:
  assumes "ioapics_ok st" and "gsi_covered h st"
  shows "ioapic_get_mask g (ioapic_reg_write (ioapic_of_gsi h st) (gsi_reg (ioapic_of_gsi h st) h st) v st) =
    (if g = h then v AND 0x10000 \<noteq> 0 else ioapic_get_mask g st)"
proof -
  let ?st = "ioapic_reg_write (ioapic_of_gsi h st) (gsi_reg (ioapic_of_gsi h st) h st) v st"
  have same: "ioapic_infos ?st = ioapic_infos st" "ioapic_of_gsi g ?st = ioapic_of_gsi g st" "gsi_reg i g ?st = gsi_reg i g st" for i
    by (simp_all add: ioapic_reg_write_def ioapic_of_gsi_def gsi_reg_def Let_def)
  show ?thesis
  proof (cases "gsi_covered g st")
    case True
    have base: "io_base (ioapic_infos st ! ioapic_of_gsi g st) = io_base (ioapic_infos st ! ioapic_of_gsi h st) \<longleftrightarrow>
        ioapic_of_gsi g st = ioapic_of_gsi h st"
      using assms True by (auto simp: ioapics_ok_def gsi_covered_def distinct_map nth_eq_iff_index_eq inj_on_eq_iff)
    have reg: "ioapic_of_gsi g st = ioapic_of_gsi h st \<Longrightarrow>
        gsi_reg (ioapic_of_gsi g st) g st = gsi_reg (ioapic_of_gsi h st) h st \<longleftrightarrow> g = h"
      by (rule gsi_reg_eq_iff [OF assms(1) True assms(2)])
    have "ioapic_reg_read (ioapic_of_gsi g st) (gsi_reg (ioapic_of_gsi g st) g st) ?st =
        (if g = h then v else ioapic_reg_read (ioapic_of_gsi g st) (gsi_reg (ioapic_of_gsi g st) g st) st)"
      using base reg by (auto simp: ioapic_reg_read_def ioapic_reg_write_def Let_def)
    then show ?thesis using True by (simp add: ioapic_get_mask_def same gsi_covered_def Let_def)
  next
    case False
    then show ?thesis using assms(2) by (auto simp: ioapic_get_mask_def same gsi_covered_def Let_def)
  qed
qed

lemma or_mask_bit: "(w OR 0x10000) AND 0x10000 \<noteq> 0" "(w AND NOT 0x10000) AND 0x10000 = 0" for w :: u32
proof -
  have "bit ((w OR 0x10000) AND 0x10000) 16" by (simp add: bit_simps)
  then show "(w OR 0x10000) AND 0x10000 \<noteq> 0" by (metis bit_0_eq bot_apply bot_bool_def)
  show "(w AND NOT 0x10000) AND 0x10000 = 0" by (rule bit_eqI) (simp add: bit_simps)
qed

lemma and_mask_bit: "(w AND - 65537) AND 0x10000 = 0" for w :: u32
  using or_mask_bit(2) [of w] by simp

lemma ioapic_mask_get_mask:
  assumes "ioapics_ok st"
  shows "ioapic_get_mask g (ioapic_mask h st) = (ioapic_get_mask g st \<or> g = h)"
proof (cases "gsi_covered h st")
  case True
  then have "ioapic_of_gsi h st < length (ioapic_infos st)" by (simp add: gsi_covered_def)
  then show ?thesis by (simp add: ioapic_mask_def Let_def ioapic_write_get_mask [OF assms True] or_mask_bit)
next
  case False
  then show ?thesis by (auto simp: ioapic_mask_def ioapic_get_mask_def gsi_covered_def Let_def)
qed

lemma ioapic_unmask_get_mask:
  assumes "ioapics_ok st"
  shows "ioapic_get_mask g (ioapic_unmask h st) = (ioapic_get_mask g st \<and> \<not> (g = h \<and> gsi_covered h st))"
proof (cases "gsi_covered h st")
  case True
  then have "ioapic_of_gsi h st < length (ioapic_infos st)" by (simp add: gsi_covered_def)
  then show ?thesis by (simp add: ioapic_unmask_def Let_def ioapic_write_get_mask [OF assms True] and_mask_bit True)
next
  case False
  then show ?thesis by (auto simp: ioapic_unmask_def ioapic_get_mask_def gsi_covered_def Let_def)
qed

text \<open>What masking and unmasking keep.\<close>

lemma ioapic_mask_keeps:
  "ioapic_infos (ioapic_mask g st) = ioapic_infos st" "ioapic_irq_gsi (ioapic_mask g st) = ioapic_irq_gsi st"
  "pic_handlers (ioapic_mask g st) = pic_handlers st" "ioapic_handlers (ioapic_mask g st) = ioapic_handlers st"
  "ic_calls (ioapic_mask g st) = ic_calls st" "apic_enabled (ioapic_mask g st) = apic_enabled st"
  "ioapics_ok (ioapic_mask g st) = ioapics_ok st" "gsi_covered h (ioapic_mask g st) = gsi_covered h st"
  by (simp_all add: ioapic_mask_def ioapic_reg_write_def ioapics_ok_def gsi_covered_def ioapic_of_gsi_def Let_def)

lemma ioapic_unmask_keeps:
  "ioapic_infos (ioapic_unmask g st) = ioapic_infos st" "ioapic_irq_gsi (ioapic_unmask g st) = ioapic_irq_gsi st"
  "pic_handlers (ioapic_unmask g st) = pic_handlers st" "ioapic_handlers (ioapic_unmask g st) = ioapic_handlers st"
  "ic_calls (ioapic_unmask g st) = ic_calls st" "apic_enabled (ioapic_unmask g st) = apic_enabled st"
  "ioapics_ok (ioapic_unmask g st) = ioapics_ok st" "gsi_covered h (ioapic_unmask g st) = gsi_covered h st"
  by (simp_all add: ioapic_unmask_def ioapic_reg_write_def ioapics_ok_def gsi_covered_def ioapic_of_gsi_def Let_def)

text \<open>The loops over the sixteen legacy interrupts.\<close>

lemma pic_mask_loop:
  assumes "ioapics_ok st"
  shows "ioapic_get_mask g (fold (pic_mask_step bm) js st) =
      (ioapic_get_mask g st \<or> (\<exists>j\<in>set js. bit bm j \<and> ioapic_irq_gsi st ! j = g)) \<and>
    ioapic_irq_gsi (fold (pic_mask_step bm) js st) = ioapic_irq_gsi st \<and> apic_enabled (fold (pic_mask_step bm) js st) = apic_enabled st"
  using assms
proof (induction js arbitrary: st)
  case (Cons j js)
  have "ioapics_ok (pic_mask_step bm j st)" "ioapic_irq_gsi (pic_mask_step bm j st) = ioapic_irq_gsi st" "apic_enabled (pic_mask_step bm j st) = apic_enabled st"
    using Cons.prems by (auto simp: pic_mask_step_def Let_def ioapic_mask_keeps)
  moreover have "ioapic_get_mask g (pic_mask_step bm j st) = (ioapic_get_mask g st \<or> bit bm j \<and> ioapic_irq_gsi st ! j = g)"
    using Cons.prems by (auto simp: pic_mask_step_def Let_def ioapic_mask_get_mask)
  ultimately show ?case using Cons.IH [of "pic_mask_step bm j st"] by auto
qed simp

lemma pic_unmask_loop:
  assumes "ioapics_ok st"
  shows "ioapic_get_mask g (fold (pic_unmask_step bm) js st) =
      (ioapic_get_mask g st \<and> \<not> (gsi_covered g st \<and> (\<exists>j\<in>set js. bit bm j \<and> ioapic_irq_gsi st ! j = g))) \<and>
    ioapic_irq_gsi (fold (pic_unmask_step bm) js st) = ioapic_irq_gsi st \<and> apic_enabled (fold (pic_unmask_step bm) js st) = apic_enabled st"
  using assms
proof (induction js arbitrary: st)
  case (Cons j js)
  have "ioapics_ok (pic_unmask_step bm j st)" "ioapic_irq_gsi (pic_unmask_step bm j st) = ioapic_irq_gsi st" "apic_enabled (pic_unmask_step bm j st) = apic_enabled st"
      "gsi_covered g (pic_unmask_step bm j st) = gsi_covered g st"
    using Cons.prems by (auto simp: pic_unmask_step_def Let_def ioapic_unmask_keeps)
  moreover have "ioapic_get_mask g (pic_unmask_step bm j st) =
      (ioapic_get_mask g st \<and> \<not> (gsi_covered g st \<and> bit bm j \<and> ioapic_irq_gsi st ! j = g))"
    using Cons.prems by (auto simp: pic_unmask_step_def Let_def ioapic_unmask_get_mask)
  ultimately show ?case using Cons.IH [of "pic_unmask_step bm j st"] by auto
qed simp

lemma or_bits_loop:
  "bit (fold (\<lambda>i ret. if P i then ret OR push_bit i 1 else ret) js (w :: u16)) n \<longleftrightarrow> bit w n \<or> n < 16 \<and> n \<in> set js \<and> P n"
  by (induction js arbitrary: w) (auto simp: bit_simps)

lemma pic_get_mask_bit:
  assumes "i < 16"
  shows "bit (pic_get_mask st) i \<longleftrightarrow>
    (if apic_enabled st then ioapic_get_mask (ioapic_irq_gsi st ! i) st
     else if i < 8 then bit (c_imr (ic_master st)) i else bit (c_imr (ic_slave st)) (i - 8))"
proof (cases "apic_enabled st")
  case True
  then show ?thesis
    using or_bits_loop [of "\<lambda>i. ioapic_get_mask (ioapic_irq_gsi st ! i) st" "[0..<16]" 0 i] assms
    by (simp only: pic_get_mask_def if_True) simp
next
  case False
  then show ?thesis using assms by (auto simp: pic_get_mask_def bit_simps dest: bit_imp_le_length)
qed

text \<open>Whether two legacy interrupts share their line.\<close>

definition same_line :: "nat \<Rightarrow> nat \<Rightarrow> ('f, 'z) intc_scheme \<Rightarrow> bool" where
  "same_line i j st \<longleftrightarrow> (if apic_enabled st then ioapic_irq_gsi st ! i = ioapic_irq_gsi st ! j else i = j)"

text \<open>Registering with the I/O APICs while there are free slots.\<close>

abbreviation no_handler :: "'x intr_handler" where
  "no_handler \<equiv> \<lparr>ih_irq = 0, ih_handler = None\<rparr>"

definition legacy_handlers :: "u8 list \<Rightarrow> nat list \<Rightarrow> nat \<Rightarrow> 'f ioh intr_handler list" where
  "legacy_handlers gsi irqs n =
     map (\<lambda>irq. \<lparr>ih_irq = ucast (gsi ! irq), ih_handler = Some Ioh_legacy\<rparr>) irqs @ replicate n no_handler"

lemma find_idx_legacy: "find_idx (\<lambda>h. ih_handler h = None) (legacy_handlers gsi irqs n) = length irqs"
proof -
  have "find_idx (\<lambda>h. ih_handler h = None) (replicate n no_handler) = 0" by (cases n) simp_all
  then show ?thesis by (induction irqs) (simp_all add: legacy_handlers_def)
qed

lemma legacy_length: "length (legacy_handlers gsi irqs n) = length irqs + n"
  by (simp add: legacy_handlers_def)

lemma legacy_store:
  "(legacy_handlers gsi irqs (Suc n))[length irqs := \<lparr>ih_irq = ucast (gsi ! irq), ih_handler = Some Ioh_legacy\<rparr>] =
     legacy_handlers gsi (irqs @ [irq]) n"
  by (simp add: legacy_handlers_def list_update_append)

lemma ioapic_handle_legacy:
  assumes "ioapic_handlers st = legacy_handlers (ioapic_irq_gsi st) irqs (Suc n)"
  shows "ioapic_handle (ioapic_irq_gsi st ! irq) (Some Ioh_legacy) st =
    Some (of_nat (length irqs), st\<lparr>ioapic_handlers := legacy_handlers (ioapic_irq_gsi st) (irqs @ [irq]) n\<rparr>)"
  unfolding ioapic_handle_def handlers_slot_def assms Let_def find_idx_legacy
  by (simp add: legacy_length legacy_store)

text \<open>The legacy interrupts that have a handler, each once.\<close>

fun live_irqs :: "'x intr_handler list \<Rightarrow> nat list \<Rightarrow> nat list" where
  "live_irqs [] irqs = irqs"
| "live_irqs (h # hs) irqs =
     live_irqs hs (if ih_handler h = None \<or> unat (ih_irq h) \<in> set irqs then irqs else irqs @ [unat (ih_irq h)])"

lemma live_irqs_set: "set (live_irqs hs irqs) = set irqs \<union> {unat (ih_irq h) |h. h \<in> set hs \<and> ih_handler h \<noteq> None}"
  by (induction hs irqs rule: live_irqs.induct) auto

lemma live_irqs_distinct: "distinct irqs \<Longrightarrow> distinct (live_irqs hs irqs)"
  by (induction hs irqs rule: live_irqs.induct) auto

lemma live_irqs_prefix: "\<exists>new. live_irqs hs irqs = irqs @ new"
  by (induction hs irqs rule: live_irqs.induct) (auto split: if_splits)

lemma distinct_lt16_length: "distinct irqs \<Longrightarrow> set irqs \<subseteq> {..<16 :: nat} \<Longrightarrow> length irqs \<le> 16"
  using card_mono [of "{..<16}" "set irqs"] by (simp add: distinct_card)

definition adapt_step :: "u16 \<Rightarrow> nat \<Rightarrow> ('f, 'z) intc_scheme \<Rightarrow> ('f, 'z) intc_scheme" where
  "adapt_step pic_irq_mask irq st =
     (if bit pic_irq_mask irq then ioapic_mask (ioapic_irq_gsi st ! irq) st else ioapic_unmask (ioapic_irq_gsi st ! irq) st)"

lemma adapt_step_keeps:
  "ioapic_infos (adapt_step m g st) = ioapic_infos st" "ioapic_irq_gsi (adapt_step m g st) = ioapic_irq_gsi st"
  "pic_handlers (adapt_step m g st) = pic_handlers st" "ioapic_handlers (adapt_step m g st) = ioapic_handlers st"
  "ic_calls (adapt_step m g st) = ic_calls st" "ioapics_ok (adapt_step m g st) = ioapics_ok st"
  "gsi_covered h (adapt_step m g st) = gsi_covered h st"
  by (simp_all add: adapt_step_def ioapic_mask_keeps ioapic_unmask_keeps)

lemma adapt_step_get_mask:
  assumes "ioapics_ok st"
  shows "ioapic_get_mask g (adapt_step bm irq st) =
    (if g = ioapic_irq_gsi st ! irq \<and> gsi_covered g st then bit bm irq else ioapic_get_mask g st)"
proof -
  have step: "ioapic_get_mask g (adapt_step bm irq st) =
      (if bit bm irq then ioapic_get_mask g st \<or> g = ioapic_irq_gsi st ! irq
       else ioapic_get_mask g st \<and> \<not> (g = ioapic_irq_gsi st ! irq \<and> gsi_covered g st))"
    using assms by (auto simp: adapt_step_def ioapic_mask_get_mask ioapic_unmask_get_mask)
  have "\<not> gsi_covered g st \<Longrightarrow> ioapic_get_mask g st" by (simp add: ioapic_get_mask_def gsi_covered_def Let_def)
  then show ?thesis unfolding step by auto
qed

lemma ioapic_handlers_update_keeps:
  "ioapics_ok (st\<lparr>ioapic_handlers := hs\<rparr>) = ioapics_ok st" "gsi_covered g (st\<lparr>ioapic_handlers := hs\<rparr>) = gsi_covered g st"
  "ioapic_get_mask g (st\<lparr>ioapic_handlers := hs\<rparr>) = ioapic_get_mask g st"
  by (simp_all add: ioapics_ok_def gsi_covered_def ioapic_get_mask_def ioapic_of_gsi_def ioapic_reg_read_def gsi_reg_def)

definition adapted :: "u16 \<Rightarrow> nat list \<Rightarrow> nat list \<Rightarrow> ('f, 'z) intc_scheme \<Rightarrow> ('f, 'z) intc_scheme \<Rightarrow> bool" where
  "adapted bm irqs new st st' \<longleftrightarrow>
     (\<exists>m. ioapic_handlers st' = legacy_handlers (ioapic_irq_gsi st) (irqs @ new) m) \<and>
     pic_handlers st' = pic_handlers st \<and> ioapic_irq_gsi st' = ioapic_irq_gsi st \<and> ic_calls st' = ic_calls st \<and>
     (\<forall>g. (\<forall>k\<in>set new. ioapic_irq_gsi st ! k \<noteq> g) \<longrightarrow> ioapic_get_mask g st' = ioapic_get_mask g st) \<and>
     (\<forall>k\<in>set new. (\<forall>j\<in>set new. ioapic_irq_gsi st ! j = ioapic_irq_gsi st ! k \<longrightarrow> j = k) \<and>
        gsi_covered (ioapic_irq_gsi st ! k) st \<longrightarrow> ioapic_get_mask (ioapic_irq_gsi st ! k) st' = bit bm k)"

lemma adapted_Cons:
  assumes "ioapics_ok st" and "st1 = adapt_step bm irq (st\<lparr>ioapic_handlers := hs\<rparr>)"
    and "adapted bm (irqs @ [irq]) new st1 st'" and "irq \<notin> set new"
  shows "adapted bm irqs (irq # new) st st'"
proof -
  have keeps: "ioapic_irq_gsi st1 = ioapic_irq_gsi st" "pic_handlers st1 = pic_handlers st" "ic_calls st1 = ic_calls st"
      "gsi_covered g st1 = gsi_covered g st" for g
    by (simp_all add: assms(2) adapt_step_keeps ioapic_handlers_update_keeps)
  have mask: "ioapic_get_mask g st1 = (if g = ioapic_irq_gsi st ! irq \<and> gsi_covered g st then bit bm irq else ioapic_get_mask g st)" for g
  proof -
    have "ioapics_ok (st\<lparr>ioapic_handlers := hs\<rparr>)" using assms(1) by (simp add: ioapic_handlers_update_keeps)
    then show ?thesis unfolding assms(2)
      by (cases "g = ioapic_irq_gsi st ! irq") (simp_all add: adapt_step_get_mask ioapic_handlers_update_keeps)
  qed
  from assms(3) obtain m where hs: "ioapic_handlers st' = legacy_handlers (ioapic_irq_gsi st) (irqs @ irq # new) m"
    and same: "pic_handlers st' = pic_handlers st" "ioapic_irq_gsi st' = ioapic_irq_gsi st" "ic_calls st' = ic_calls st"
    and frame: "\<And>g. (\<forall>k\<in>set new. ioapic_irq_gsi st ! k \<noteq> g) \<Longrightarrow> ioapic_get_mask g st' = ioapic_get_mask g st1"
    and new: "\<And>k. k \<in> set new \<Longrightarrow> \<forall>j\<in>set new. ioapic_irq_gsi st ! j = ioapic_irq_gsi st ! k \<longrightarrow> j = k \<Longrightarrow>
        gsi_covered (ioapic_irq_gsi st ! k) st \<Longrightarrow> ioapic_get_mask (ioapic_irq_gsi st ! k) st' = bit bm k"
    unfolding adapted_def keeps by auto
  have "ioapic_get_mask g st' = ioapic_get_mask g st" if "\<forall>k\<in>set (irq # new). ioapic_irq_gsi st ! k \<noteq> g" for g
    using frame [of g] mask [of g] that by auto
  moreover have "ioapic_get_mask (ioapic_irq_gsi st ! k) st' = bit bm k"
    if k: "k \<in> set (irq # new)" and only: "\<forall>j\<in>set (irq # new). ioapic_irq_gsi st ! j = ioapic_irq_gsi st ! k \<longrightarrow> j = k"
      and cov: "gsi_covered (ioapic_irq_gsi st ! k) st" for k
  proof (cases "k = irq")
    case True
    then have "\<forall>j\<in>set new. ioapic_irq_gsi st ! j \<noteq> ioapic_irq_gsi st ! irq" using only assms(4) by auto
    then show ?thesis using frame [of "ioapic_irq_gsi st ! irq"] mask [of "ioapic_irq_gsi st ! irq"] True cov by simp
  next
    case False
    then show ?thesis using new [of k] k only cov by simp
  qed
  ultimately show ?thesis unfolding adapted_def using hs same by blast
qed

lemma apic_adapt_effect:
  assumes "\<forall>h\<in>set hs. ih_handler h \<noteq> None \<longrightarrow> ih_irq h < 16" and "distinct irqs" and "set irqs \<subseteq> {..<16}"
    and "\<And>n. bit handled n \<longleftrightarrow> n \<in> set irqs" and "ioapics_ok st"
    and "ioapic_handlers st = legacy_handlers (ioapic_irq_gsi st) irqs n" and "16 \<le> length irqs + n"
  shows "\<exists>st' new. live_irqs hs irqs = irqs @ new \<and> apic_adapt bm hs handled st = Some st' \<and> adapted bm irqs new st st'"
  using assms
proof (induction hs arbitrary: irqs handled st n)
  case Nil
  then have "adapted bm irqs [] st st" by (auto simp: adapted_def)
  then show ?case by simp
next
  case (Cons h hs)
  let ?irq = "unat (ih_irq h)"
  show ?case
  proof (cases "ih_handler h = None \<or> ?irq \<in> set irqs")
    case True
    moreover have "ih_handler h \<noteq> None \<Longrightarrow> ih_irq h < 16" using Cons.prems(1) by simp
    ultimately show ?thesis
      using Cons.IH [of irqs handled st n] Cons.prems by (auto simp: Cons.prems(4))
  next
    case False
    then have irq: "ih_handler h \<noteq> None" "ih_irq h < 16" "?irq < 16" "?irq \<notin> set irqs"
      using Cons.prems(1) by (auto simp: word_less_nat_alt)
    have "length (irqs @ [?irq]) \<le> 16"
      by (rule distinct_lt16_length) (use Cons.prems(2,3) irq in auto)
    then obtain n' where n': "n = Suc n'" using Cons.prems(7) by (cases n) auto
    define st1 where "st1 = adapt_step bm ?irq (st\<lparr>ioapic_handlers := legacy_handlers (ioapic_irq_gsi st) (irqs @ [?irq]) n'\<rparr>)"
    have run: "apic_adapt bm (h # hs) handled st = apic_adapt bm hs (handled OR push_bit ?irq 1) st1"
      using irq ioapic_handle_legacy [of st irqs n' ?irq] Cons.prems(6)
      by (simp add: Cons.prems(4) n' st1_def adapt_step_def del: push_bit_of_1)
    have bits: "bit (handled OR push_bit ?irq 1) k \<longleftrightarrow> k \<in> set (irqs @ [?irq])" for k
      using irq by (auto simp: bit_simps Cons.prems(4) simp del: push_bit_of_1)
    have st1: "ioapics_ok st1" "ioapic_handlers st1 = legacy_handlers (ioapic_irq_gsi st1) (irqs @ [?irq]) n'"
      using Cons.prems(5) by (simp_all add: st1_def adapt_step_keeps ioapic_handlers_update_keeps)
    obtain st' new where IH: "live_irqs hs (irqs @ [?irq]) = (irqs @ [?irq]) @ new"
        "apic_adapt bm hs (handled OR push_bit ?irq 1) st1 = Some st'" "adapted bm (irqs @ [?irq]) new st1 st'"
      using Cons.IH [of "irqs @ [?irq]" "handled OR push_bit ?irq 1" st1 n'] Cons.prems bits st1 irq n' by auto
    have "distinct (live_irqs hs (irqs @ [?irq]))" by (rule live_irqs_distinct) (use Cons.prems(2) irq in simp)
    then have "?irq \<notin> set new" unfolding IH(1) by simp
    then have "adapted bm irqs (?irq # new) st st'"
      by (rule adapted_Cons [OF Cons.prems(5) st1_def IH(3)])
    then show ?thesis using irq IH(1,2) run by auto
  qed
qed

lemma handlers_of_legacy:
  "handlers_of (ucast g) (legacy_handlers gsi irqs m) = map (\<lambda>k. Ioh_legacy) (filter (\<lambda>k. gsi ! k = g) irqs)"
proof -
  have blank: "handlers_of (ucast g) (replicate m no_handler) = []" by (induction m) (auto simp: handlers_of_def)
  show ?thesis
    by (induction irqs) (use blank in \<open>simp_all add: legacy_handlers_def handlers_of_def ucast_u8_u32_eq\<close>)
qed

lemma handlers_of_live: "handlers_of i hs \<noteq> [] \<longleftrightarrow> (\<exists>h\<in>set hs. ih_irq h = i \<and> ih_handler h \<noteq> None)"
  by (induction hs) (auto simp: handlers_of_def split: option.splits)

lemma filter_one: "distinct xs \<Longrightarrow> x \<in> set xs \<Longrightarrow> \<forall>y\<in>set xs. P y \<longleftrightarrow> y = x \<Longrightarrow> filter P xs = [x]"
proof (induction xs)
  case (Cons a xs)
  then show ?case by (cases "a = x") (auto simp: filter_empty_conv)
qed simp

section \<open>Properties\<close>

text \<open>
  C35: when the chips signal an interrupt, exactly the handlers registered for it run, once each and in
  the order of their registration, and it is acknowledged so that the chips have the same interrupts
  in service as before; for a spurious interrupt no handler runs, and what it has put into service,
  the cascade line for number 15, is acknowledged. The interrupt is one that the chips can signal
  (\<open>chips_accept\<close>): none of its or a higher priority is in service, which leaves out a spurious 7
  while a real one is served.
\<close>

theorem pic_handler_stub_serves:
  assumes "irq < 16" and "chips_accept irq st" and "spurious \<Longrightarrow> irq = 7 \<or> irq = 15"
  shows "let st' = pic_handler_stub (0x20 + irq) (chips_signal spurious irq st) in
    ic_calls st' = ic_calls st @
      (if spurious then [] else map (\<lambda>f. (f, ucast irq)) (handlers_of (ucast irq) (pic_handlers st))) \<and>
    c_isr (ic_master st') = c_isr (ic_master st) \<and> c_isr (ic_slave st') = c_isr (ic_slave st)"
proof (cases "irq < 8")
  case True
  then have "unat irq < 8" by (simp add: word_less_nat_alt)
  moreover have acc: "\<forall>i\<le>unat irq. \<not> bit (c_isr (ic_master st)) i" using assms(2) True by (simp add: chips_accept_def)
  ultimately show ?thesis
    using True assms(3) isr_ended_lowest [OF acc]
    by (auto simp: pic_handler_stub_effect [OF assms(1)] chips_signal_def chips_isr_bit bit_simps Let_def
        simp del: push_bit_of_1)
next
  case False
  then have "unat irq - 8 < 8" "\<not> unat irq < 8" using assms(1) by (simp_all add: word_less_nat_alt)
  moreover have acc: "\<forall>i\<le>2. \<not> bit (c_isr (ic_master st)) i" "\<forall>i\<le>unat irq - 8. \<not> bit (c_isr (ic_slave st)) i"
    using assms(2) False by (simp_all add: chips_accept_def)
  ultimately show ?thesis
    using False assms(3) isr_ended_lowest [OF acc(1)] isr_ended_lowest [OF acc(2)]
    by (auto simp: pic_handler_stub_effect [OF assms(1)] chips_signal_def chips_isr_bit bit_simps Let_def
        simp del: push_bit_of_1)
qed

text \<open>
  C37: masking and unmasking a set of legacy interrupts masks and unmasks exactly the lines of its
  interrupts, as far as \<open>pic_get_mask\<close> tells, with either controller; interrupt 2 of the 8259, the
  cascade, is never masked.
\<close>

theorem pic_mask_bm_lines:
  assumes "if apic_enabled st then ioapics_ok st else chips_ready st" and "i < 16"
  shows "(bit (pic_get_mask (pic_mask_bm bm st)) i \<longleftrightarrow>
      bit (pic_get_mask st) i \<or> (\<exists>j<16. bit bm j \<and> same_line j i st \<and> (apic_enabled st \<or> j \<noteq> 2))) \<and>
    (bit (pic_get_mask (pic_unmask_bm bm st)) i \<longleftrightarrow>
      bit (pic_get_mask st) i \<and>
      \<not> (\<exists>j<16. bit bm j \<and> same_line j i st \<and> (apic_enabled st \<longrightarrow> gsi_covered (ioapic_irq_gsi st ! i) st)))"
proof (cases "apic_enabled st")
  case True
  then have "ioapics_ok st" using assms(1) by simp
  note loops = pic_mask_loop [OF this, where bm = bm and js = "[0..<16]"] pic_unmask_loop [OF this, where bm = bm and js = "[0..<16]"]
  show ?thesis
    using assms(2) loops True
    by (auto simp: pic_get_mask_bit pic_mask_bm_def pic_unmask_bm_def same_line_def simp del: upt_conv_Cons upt_rec_numeral)
next
  case False
  then have ready: "c_icw (ic_master st) = 0" "c_icw (ic_slave st) = 0" using assms(1) by (simp_all add: chips_ready_def)
  define maskable where "maskable = bm AND NOT 4"
  have four: "bit (4 :: u16) n \<longleftrightarrow> n = 2" for n using bit_exp_iff [where ?'a = u16, of 2 n] by auto
  have maskable: "bit maskable n \<longleftrightarrow> bit bm n \<and> n \<noteq> 2" for n
    unfolding maskable_def bit_and_iff bit_not_iff four by (auto dest: bit_imp_le_length)
  have mask: "c_imr (ic_master (pic_mask_bm bm st)) = c_imr (ic_master st) OR ucast maskable"
      "c_imr (ic_slave (pic_mask_bm bm st)) = c_imr (ic_slave st) OR ucast (drop_bit 8 maskable)"
      "apic_enabled (pic_mask_bm bm st) = apic_enabled st"
    using False ready unfolding maskable_def
    by (auto simp: pic_mask_bm_def Let_def outb_master_data_def outb_slave_data_def chip_data_write_def)
  have all: "w AND 0xFF = w" for w :: u8
    using take_bit_word_eq_self [of 8 w] by (simp add: take_bit_eq_mask mask_eq_exp_minus_1)
  have unmask: "c_imr (ic_master (pic_unmask_bm bm st)) = c_imr (ic_master st) AND ucast (NOT bm)"
      "c_imr (ic_slave (pic_unmask_bm bm st)) = c_imr (ic_slave st) AND ucast (drop_bit 8 (NOT bm))"
      "apic_enabled (pic_unmask_bm bm st) = apic_enabled st"
    using False ready
    by (auto simp: pic_unmask_bm_def Let_def outb_master_data_def outb_slave_data_def chip_data_write_def all)
  show ?thesis
  proof (cases "i < 8")
    case True
    then show ?thesis
      using False by (auto simp: pic_get_mask_bit mask unmask bit_simps same_line_def maskable dest: bit_imp_le_length)
  next
    case outer: False
    then have "8 + (i - 8) = i" "i - 8 < 8" "i \<noteq> 2" using assms(2) by simp_all
    then show ?thesis
      using False outer assms(2) by (auto simp: pic_get_mask_bit mask unmask bit_simps same_line_def maskable dest: bit_imp_le_length)
  qed
qed

text \<open>
  C36: when the APICs take over, the handlers of the legacy interrupts keep running: the line that a
  legacy interrupt is mapped to runs exactly the handlers that the 8259 would, once each and in the
  same order, and is masked as the interrupt was, if no other legacy interrupt with a handler and
  none before it is mapped to the same line.
\<close>

theorem apic_adapt_same_handlers:
  assumes "length (ioapic_irq_gsi st) = 16" and "ioapics_ok st"
    and "\<forall>h\<in>set (pic_handlers st). ih_handler h \<noteq> None \<longrightarrow> ih_irq h < 16"
    and "ioapic_handlers st = replicate n \<lparr>ih_irq = 0, ih_handler = None\<rparr>" and "16 \<le> n"
    and "irq < 16" and "handlers_of (of_nat irq) (pic_handlers st) \<noteq> []"
    and "\<forall>j<16. ioapic_irq_gsi st ! j = ioapic_irq_gsi st ! irq \<longrightarrow>
      j = irq \<or> irq < j \<and> handlers_of (of_nat j) (pic_handlers st) = []"
  shows "\<exists>st'. apic_adapt bm (pic_handlers st) 0 st = Some st' \<and>
    ic_calls (ioapic_handler (0x30 + ioapic_irq_gsi st ! irq) st') =
      ic_calls st @ map (\<lambda>f. (f, of_nat irq)) (handlers_of (of_nat irq) (pic_handlers st)) \<and>
    (gsi_covered (ioapic_irq_gsi st ! irq) st \<longrightarrow> ioapic_get_mask (ioapic_irq_gsi st ! irq) st' = bit bm irq)"
proof -
  let ?G = "ioapic_irq_gsi st" and ?hs = "pic_handlers st"
  have start: "ioapic_handlers st = legacy_handlers ?G [] n" by (simp add: legacy_handlers_def assms(4))
  obtain st' new where "live_irqs ?hs [] = new" and run: "apic_adapt bm ?hs 0 st = Some st'" and "adapted bm [] new st st'"
    using apic_adapt_effect [OF assms(3) _ _ _ assms(2) start, where handled = 0 and bm = bm] assms(5) by auto
  then obtain m where new: "distinct new" "set new = {unat (ih_irq h) |h. h \<in> set ?hs \<and> ih_handler h \<noteq> None}"
      and st': "ioapic_handlers st' = legacy_handlers ?G new m" "pic_handlers st' = ?hs" "ioapic_irq_gsi st' = ?G" "ic_calls st' = ic_calls st"
      and mask: "\<And>k. k \<in> set new \<Longrightarrow> (\<forall>j\<in>set new. ?G ! j = ?G ! k \<longrightarrow> j = k) \<Longrightarrow> gsi_covered (?G ! k) st \<Longrightarrow>
        ioapic_get_mask (?G ! k) st' = bit bm k"
    using live_irqs_set [of ?hs "[]"] live_irqs_distinct [of "[]" ?hs] unfolding adapted_def by auto
  have live: "j \<in> set new \<longleftrightarrow> j < 16 \<and> handlers_of (of_nat j) ?hs \<noteq> []" for j
  proof
    assume "j \<in> set new"
    then show "j < 16 \<and> handlers_of (of_nat j) ?hs \<noteq> []"
      using assms(3) unfolding new(2) handlers_of_live by (auto simp: word_less_nat_alt)
  next
    assume "j < 16 \<and> handlers_of (of_nat j) ?hs \<noteq> []"
    then obtain h where "h \<in> set ?hs" "ih_irq h = of_nat j" "ih_handler h \<noteq> None" "j < 16" unfolding handlers_of_live by blast
    moreover from this have "j = unat (ih_irq h)" by (simp add: unat_of_nat_u32)
    ultimately show "j \<in> set new" unfolding new(2) by blast
  qed
  have "irq \<in> set new" using assms(6,7) by (simp add: live)
  moreover have only: "\<forall>j\<in>set new. ?G ! j = ?G ! irq \<longleftrightarrow> j = irq" using assms(8) live by auto
  ultimately have one: "handlers_of (ucast (?G ! irq)) (ioapic_handlers st') = [Ioh_legacy]"
    unfolding st'(1) handlers_of_legacy using filter_one [OF new(1)] by simp
  have "legacy_irq (?G ! irq) st' = irq"
    unfolding legacy_irq_def st'(3)
  proof (rule find_idx_eqI)
    show "?G ! j \<noteq> ?G ! irq" if "j < irq" for j using that assms(6) assms(8) [rule_format, of j] by auto
  qed (use assms(1,6) in simp_all)
  then have "ioh_calls st' (?G ! irq) Ioh_legacy = map (\<lambda>f. (f, of_nat irq)) (handlers_of (of_nat irq) ?hs)"
    using assms(1,6) by (simp add: ioh_calls_def st')
  then have "ic_calls (ioapic_handler (0x30 + ?G ! irq) st') =
      ic_calls st @ map (\<lambda>f. (f, of_nat irq)) (handlers_of (of_nat irq) ?hs)"
    by (simp add: ioapic_handler_def ioapic_run_calls one apic_eoi_def st'(4))
  moreover have "gsi_covered (?G ! irq) st \<Longrightarrow> ioapic_get_mask (?G ! irq) st' = bit bm irq"
    using mask [OF \<open>irq \<in> set new\<close>] only by blast
  ultimately show ?thesis using run by blast
qed

text \<open>Bit 16 of the low register of a line masks it.\<close>

definition ioapic_line_masked :: "nat \<Rightarrow> u8 \<Rightarrow> ('f, 'z) intc_scheme \<Rightarrow> bool" where
  "ioapic_line_masked i pin st \<longleftrightarrow> ioapic_reg_read i (IOREDTBL_L pin) st AND 0x10000 \<noteq> 0"

text \<open>The I/O APICs are numbered without gaps.\<close>

definition ioapics_contiguous :: "('f, 'z) intc_scheme \<Rightarrow> bool" where
  "ioapics_contiguous st \<longleftrightarrow>
     (\<forall>i<length (ioapic_infos st). 0 < io_inputs (ioapic_infos st ! i) \<and>
        (0 < i \<longrightarrow> unat (io_gsi_base (ioapic_infos st ! i)) =
           unat (io_gsi_base (ioapic_infos st ! (i - 1))) + unat (io_inputs (ioapic_infos st ! (i - 1)))))"

lemma ioapics_ascending:
  assumes "ioapics_contiguous st" and "i < j" and "j < length (ioapic_infos st)"
  shows "unat (io_gsi_base (ioapic_infos st ! i)) + unat (io_inputs (ioapic_infos st ! i)) \<le> unat (io_gsi_base (ioapic_infos st ! j))"
  using assms(2,3)
proof (induction j)
  case (Suc j)
  have step: "unat (io_gsi_base (ioapic_infos st ! Suc j)) =
      unat (io_gsi_base (ioapic_infos st ! j)) + unat (io_inputs (ioapic_infos st ! j))"
    using assms(1) Suc.prems unfolding ioapics_contiguous_def by (metis diff_Suc_1 zero_less_Suc)
  show ?case using Suc step by (cases "i = j") auto
qed simp

text \<open>
  C38: an interrupt line of an I/O APIC is unmasked, and no other, by unmasking its GSI, except for the
  first line of every I/O APIC behind the first one: its GSI is taken for a line behind the last one
  of the previous I/O APIC, and it stays as it is.
\<close>

theorem ioapic_unmask_line:
  assumes "ioapics_ok st" and "ioapics_contiguous st" and "k < length (ioapic_infos st)"
    and "pin < io_inputs (ioapic_infos st ! k)" and "unat gsi = unat (io_gsi_base (ioapic_infos st ! k)) + unat pin"
    and "i < length (ioapic_infos st)" and "p < io_inputs (ioapic_infos st ! i)"
  shows "ioapic_line_masked i p (ioapic_unmask gsi st) \<longleftrightarrow>
    ioapic_line_masked i p st \<and> \<not> (i = k \<and> p = pin \<and> (k = 0 \<or> pin \<noteq> 0))"
proof -
  let ?infos = "ioapic_infos st"
  have range: "unat (io_gsi_base (?infos ! j)) + unat (io_inputs (?infos ! j)) \<le> unat (io_gsi_base (?infos ! k))" if "j < k" for j
    using ioapics_ascending [OF assms(2) that assms(3)] .
  have pin: "unat pin < unat (io_inputs (?infos ! k))" using assms(4) by (simp add: word_less_nat_alt)
  let ?hit = "\<lambda>i. io_gsi_base i \<le> gsi \<and> unat gsi \<le> unat (io_gsi_base i) + unat (io_inputs i)"
  have pos: "0 < unat (io_inputs (?infos ! j))" if "j < length ?infos" for j
    using assms(2) that by (simp add: ioapics_contiguous_def unat_gt_0 word_gt_0)
  have before: "\<not> ?hit (?infos ! j)" if "j < k" and "pin \<noteq> 0 \<or> j < k - 1" for j
  proof (cases "pin = 0")
    case True
    then have "unat (io_gsi_base (?infos ! j)) + unat (io_inputs (?infos ! j)) \<le> unat (io_gsi_base (?infos ! (k - 1)))"
        "unat (io_gsi_base (?infos ! (k - 1))) + unat (io_inputs (?infos ! (k - 1))) \<le> unat (io_gsi_base (?infos ! k))"
      using ioapics_ascending [OF assms(2), of j "k - 1"] range [of "k - 1"] that assms(3) by auto
    moreover have "0 < unat (io_inputs (?infos ! (k - 1)))" using pos assms(3) by simp
    ultimately show ?thesis using assms(5) True by auto
  next
    case False
    then have "0 < unat pin" by (simp add: unat_gt_0)
    then show ?thesis using range [OF that(1)] assms(5) by auto
  qed
  define idx where "idx = ioapic_of_gsi gsi st"
  have idx: "idx = (if k = 0 \<or> pin \<noteq> 0 then k else k - 1)"
  proof (cases "k = 0 \<or> pin \<noteq> 0")
    case True
    have "find_idx ?hit ?infos = k"
      by (rule find_idx_eqI) (use assms(3,5) pin before True in \<open>auto simp: word_le_nat_alt\<close>)
    then show ?thesis using True by (simp add: idx_def ioapic_of_gsi_def)
  next
    case False
    then have "unat gsi = unat (io_gsi_base (?infos ! (k - 1))) + unat (io_inputs (?infos ! (k - 1)))"
      using assms(2,3,5) by (auto simp: ioapics_contiguous_def)
    then have "find_idx ?hit ?infos = k - 1"
      by (intro find_idx_eqI) (use assms(3) before in \<open>auto simp: word_le_nat_alt\<close>)
    then show ?thesis using False by (simp add: idx_def ioapic_of_gsi_def)
  qed
  have lt: "idx < length ?infos" using assms(3) by (auto simp: idx)
  have small: "unat (io_inputs (?infos ! j)) < 120" if "j < length ?infos" for j
    using assms(1) that by (auto simp: ioapics_ok_def word_less_nat_alt)
  define q where "q = gsi - io_gsi_base (?infos ! idx)"
  have q: "q = (if k = 0 \<or> pin \<noteq> 0 then pin else io_inputs (?infos ! (k - 1)))"
  proof -
    have "unat gsi = unat (io_gsi_base (?infos ! idx)) + unat (if k = 0 \<or> pin \<noteq> 0 then pin else io_inputs (?infos ! (k - 1)))"
      using assms(2,3,5) idx by (auto simp: ioapics_contiguous_def)
    moreover from this have "unat q = unat gsi - unat (io_gsi_base (?infos ! idx))"
      unfolding q_def by (intro unat_diff_offset) (simp add: word_le_nat_alt)
    ultimately show ?thesis by (simp only: word_unat_eq_iff)
  qed
  have q_le: "unat q \<le> unat (io_inputs (?infos ! idx))" using pin by (simp add: q idx)
  have base: "io_base (?infos ! i) = io_base (?infos ! idx) \<longleftrightarrow> i = idx"
    using assms(1,6) lt by (auto simp: ioapics_ok_def distinct_conv_nth)
  have reg: "IOREDTBL_L p = IOREDTBL_L q \<longleftrightarrow> p = q" if "i = idx"
    by (rule IOREDTBL_L_inj) (use small [OF lt] q_le assms(7) that in \<open>auto simp: word_less_nat_alt\<close>)
  have "ioapic_reg_read i (IOREDTBL_L p) (ioapic_unmask gsi st) =
      (if i = idx \<and> p = q then ioapic_reg_read i (IOREDTBL_L p) st AND NOT 0x10000 else ioapic_reg_read i (IOREDTBL_L p) st)"
    using base reg lt
    by (auto simp: ioapic_unmask_def idx_def [symmetric] gsi_reg_def q_def [symmetric] ioapic_reg_read_def ioapic_reg_write_def Let_def)
  then have "ioapic_line_masked i p (ioapic_unmask gsi st) \<longleftrightarrow> ioapic_line_masked i p st \<and> \<not> (i = idx \<and> p = q)"
    by (simp add: ioapic_line_masked_def and_mask_bit)
  moreover have "i = idx \<and> p = q \<longleftrightarrow> i = k \<and> p = pin \<and> (k = 0 \<or> pin \<noteq> 0)"
    using assms(7) by (auto simp: idx q)
  ultimately show ?thesis by blast
qed

section \<open>Examples\<close>

text \<open>
  A machine whose timer, legacy interrupt 0, is wired to line 2 and its keyboard, interrupt 1, to line
  1; a third handler shares the keyboard's interrupt. The second I/O APIC is there for \<open>ioapic_unmask_line\<close>.
\<close>

definition chip_example :: chip where
  "chip_example = \<lparr>c_imr = 0xF8, c_irr = 0, c_isr = 0, c_rd_isr = False, c_icw = 0, c_vect = 0x20, c_casc = 4\<rparr>"

definition intc_example :: "bool \<Rightarrow> nat intc" where
  "intc_example apic =
     \<lparr>idt_gates = (\<lambda>v. \<lparr>i_offset_l = 0, i_selector = 8, i_zero = 0, i_type = 0xE, i_storage = False, i_dpl = 3, i_present = True, i_offset_h = 0\<rparr>),
      idt_handlers = (\<lambda>v. None), idt_if = True, ic_master = chip_example, ic_slave = chip_example,
      pic_handlers = [\<lparr>ih_irq = 0, ih_handler = Some 10\<rparr>, \<lparr>ih_irq = 1, ih_handler = Some 11\<rparr>, \<lparr>ih_irq = 1, ih_handler = Some 12\<rparr>],
      apic_enabled = apic, ioapic_irq_gsi = [2, 1, 23, 3, 4, 5, 6, 7, 8, 9, 10, 11, 12, 13, 14, 15],
      ioapic_infos = [\<lparr>io_id = 0, io_base = 0x1000, io_gsi_base = 0, io_inputs = 24\<rparr>,
                      \<lparr>io_id = 1, io_base = 0x2000, io_gsi_base = 24, io_inputs = 24\<rparr>],
      io_regs = (\<lambda>base reg. 0x10000), ioapic_handlers = replicate 48 \<lparr>ih_irq = 0, ih_handler = None\<rparr>,
      lapic_base = 0x3000, lapic_regs = (\<lambda>r. 0), lapic_isr = [], ic_calls = [], ic_grow = []\<rparr>"

lemma example_ok: "ioapics_ok (intc_example apic)"
  by (simp add: ioapics_ok_def intc_example_def)

text \<open>What runs for an interrupt of an I/O APIC.\<close>

lemma ioapic_handler_calls:
  "ic_calls (ioapic_handler (0x30 + gsi) st) =
     ic_calls st @ concat (map (ioh_calls st gsi) (handlers_of (ucast gsi) (ioapic_handlers st)))"
  by (simp add: ioapic_handler_def ioapic_run_calls apic_eoi_def)

text \<open>
  Once the APICs are in use, every call of \<open>pic_handle\<close> registers \<open>ioapic_legacy_handler\<close> again: with two
  handlers for an interrupt, each of them runs twice.
\<close>

lemma pic_handle_runs_twice:
  assumes "st = intc_example True\<lparr>pic_handlers := [no_handler, no_handler], ioapic_handlers := [no_handler, no_handler]\<rparr>"
    and "pic_handle 3 (Some 20) st = Some (r1, st1)" and "pic_handle 3 (Some 21) st1 = Some (r2, st2)"
  shows "ic_calls (ioapic_handler 0x33 st2) = [(20, 3), (21, 3), (20, 3), (21, 3)]"
proof -
  have st1: "st1 = st\<lparr>pic_handlers := [\<lparr>ih_irq = 3, ih_handler = Some 20\<rparr>, no_handler],
      ioapic_handlers := [\<lparr>ih_irq = 3, ih_handler = Some Ioh_legacy\<rparr>, no_handler]\<rparr>"
    using assms(2) by (simp add: assms(1) pic_handle_def ioapic_handle_def handlers_slot_def intc_example_def Let_def)
  have st2: "st2 = st\<lparr>pic_handlers := [\<lparr>ih_irq = 3, ih_handler = Some 20\<rparr>, \<lparr>ih_irq = 3, ih_handler = Some 21\<rparr>],
      ioapic_handlers := [\<lparr>ih_irq = 3, ih_handler = Some Ioh_legacy\<rparr>, \<lparr>ih_irq = 3, ih_handler = Some Ioh_legacy\<rparr>]\<rparr>"
    using assms(3) by (simp add: st1 assms(1) pic_handle_def ioapic_handle_def handlers_slot_def intc_example_def Let_def)
  have "legacy_irq 3 st2 = 3" by (simp add: st2 assms(1) legacy_irq_def intc_example_def)
  then show ?thesis
    using ioapic_handler_calls [of 3 st2]
    by (simp add: st2 assms(1) handlers_of_def ioh_calls_def intc_example_def)
qed

theorem pic_handler_stub_serves_witness:
  "ic_calls (pic_handler_stub 0x21 (chips_signal False 1 (intc_example False))) = [(11, 1), (12, 1)]"
  using pic_handler_stub_serves [of 1 "intc_example False" False]
  by (simp add: chips_accept_def intc_example_def chip_example_def handlers_of_def Let_def)

lemma example_apic [simp]: "apic_enabled (intc_example apic) = apic"
  by (simp add: intc_example_def)

theorem pic_mask_bm_lines_witness:
  "bit (pic_get_mask (pic_mask_bm 2 (intc_example False))) 1 \<and> \<not> bit (pic_get_mask (pic_unmask_bm 2 (intc_example True))) 1"
proof
  have ready: "if apic_enabled (intc_example False) then ioapics_ok (intc_example False) else chips_ready (intc_example False)"
    by (simp add: chips_ready_def) (simp add: intc_example_def chip_example_def)
  have one: "bit (2 :: u16) 1" "(1 :: nat) < 16" by simp_all
  have "\<exists>j<16. bit (2 :: u16) j \<and> same_line j 1 (intc_example False) \<and> (apic_enabled (intc_example False) \<or> j \<noteq> 2)"
    by (rule exI [of _ 1]) (use one in \<open>simp add: same_line_def\<close>)
  then show "bit (pic_get_mask (pic_mask_bm 2 (intc_example False))) 1"
    using pic_mask_bm_lines [OF ready one(2), of 2] by blast
  have ok: "if apic_enabled (intc_example True) then ioapics_ok (intc_example True) else chips_ready (intc_example True)"
    by (simp add: example_ok)
  have "gsi_covered (ioapic_irq_gsi (intc_example True) ! 1) (intc_example True)"
    by (simp add: gsi_covered_def ioapic_of_gsi_def intc_example_def)
  then have "\<exists>j<16. bit (2 :: u16) j \<and> same_line j 1 (intc_example True) \<and>
      (apic_enabled (intc_example True) \<longrightarrow> gsi_covered (ioapic_irq_gsi (intc_example True) ! 1) (intc_example True))"
    by (intro exI [of _ 1]) (use one in \<open>simp add: same_line_def\<close>)
  then show "\<not> bit (pic_get_mask (pic_unmask_bm 2 (intc_example True))) 1"
    using pic_mask_bm_lines [OF ok one(2), of 2] by blast
qed

theorem apic_adapt_same_handlers_witness:
  "\<exists>st'. apic_adapt 0xFFF8 (pic_handlers (intc_example False)) 0 (intc_example False) = Some st' \<and>
     ic_calls (ioapic_handler 0x31 st') = [(11, 1), (12, 1)] \<and> \<not> ioapic_get_mask 1 st'"
proof -
  have "j = 1" if "j < 16" "ioapic_irq_gsi (intc_example False) ! j = ioapic_irq_gsi (intc_example False) ! 1" for j
  proof -
    have "j = 0 \<or> j = 1 \<or> j = 2 \<or> j = 3 \<or> j = 4 \<or> j = 5 \<or> j = 6 \<or> j = 7 \<or> j = 8 \<or> j = 9 \<or> j = 10 \<or> j = 11 \<or>
        j = 12 \<or> j = 13 \<or> j = 14 \<or> j = 15" using that(1) by arith
    then show ?thesis using that(2) by (elim disjE) (simp_all add: intc_example_def)
  qed
  then have only: "\<forall>j<16. ioapic_irq_gsi (intc_example False) ! j = ioapic_irq_gsi (intc_example False) ! 1 \<longrightarrow>
      j = 1 \<or> 1 < j \<and> handlers_of (of_nat j) (pic_handlers (intc_example False)) = []" by blast
  have "gsi_covered (ioapic_irq_gsi (intc_example False) ! 1) (intc_example False)"
    by (simp add: gsi_covered_def ioapic_of_gsi_def intc_example_def)
  moreover have "\<not> bit (0xFFF8 :: u16) 1" by simp
  ultimately show ?thesis
    using apic_adapt_same_handlers [OF _ example_ok _ _ _ _ _ only, of 48 "0xFFF8"]
    by (auto simp: intc_example_def handlers_of_def)
qed

theorem ioapic_unmask_line_witness:
  "ioapic_line_masked 1 0 (ioapic_unmask 24 (intc_example True)) \<and> \<not> ioapic_line_masked 0 0 (ioapic_unmask 0 (intc_example True))"
proof
  have "ioapics_contiguous (intc_example True)"
    by (auto simp: ioapics_contiguous_def intc_example_def less_Suc_eq)
  note lines = ioapic_unmask_line [OF example_ok this]
  show "ioapic_line_masked 1 0 (ioapic_unmask 24 (intc_example True))"
    using lines [of 1 0 24 1 0] by (simp add: intc_example_def ioapic_line_masked_def ioapic_reg_read_def)
  show "\<not> ioapic_line_masked 0 0 (ioapic_unmask 0 (intc_example True))"
    using lines [of 0 0 0 0 0] by (simp add: intc_example_def)
qed

end
