(* ===== verification/Spec2Isabelle.thy ===== *)
theory Spec2Isabelle
  imports KString Helpers KStdlib Cmdline Syms Devfs Tarfs Task VgaText FbTerm Serial Mptab Pci Intc
begin

text \<open>
  SysX: a verification development of the kernel in \<^verbatim>\<open>src/\<close>, as it is compiled for the i386.

  \<^bold>\<open>The program and its model.\<close> A frame allocator and the page tables carry the virtual memory
  manager; on it rest processes, their tasks and the scheduler, which the timer interrupt drives. Files
  are nodes of a virtual file system with three implementations, opened through a table of files and
  the descriptors of the processes; system calls and the ELF loader use them. Keyboards, terminals and
  the frame buffer are the console. Below are the block routines, the interrupt controllers, the
  descriptor tables and the PCI bus.

  \<^item> \<open>Prelude\<close>: machine words, linear scans, folds that may not return, and the contract of the growing
    slot tables (locale \<open>slot_table\<close>), interpreted where the kernel has such a table.
  \<^item> \<open>KString\<close> (\<^verbatim>\<open>lib/string.c\<close>), \<open>StringAsm\<close> (\<^verbatim>\<open>arch/x86cpu/string.asm\<close>), \<open>KStdlib\<close> (\<^verbatim>\<open>lib/stdlib.c\<close>),
    \<open>Helpers\<close> (\<^verbatim>\<open>helpers/\<close>), \<open>Cmdline\<close> (\<^verbatim>\<open>kernel/cmdline.c\<close>), \<open>Syms\<close> (\<^verbatim>\<open>exec/syms.c\<close>): what each routine
    computes, on every input, and that the assembler routines agree with the portable ones.
  \<^item> \<open>Pmm\<close> (\<^verbatim>\<open>mm/pmm.c\<close>), \<open>Paging\<close> and \<open>Vmm\<close> (\<^verbatim>\<open>mm/vmm.c\<close>, \<^verbatim>\<open>arch/x86cpu/vmm.c\<close>): frames handed out were
    free; mapping and unmapping change the translation of their pages only, where the translation is
    that of the processor; which free addresses are found in either direction, with the alignment that is
    in effect; copy on write and the removal of spaces.
  \<^item> \<open>Vfs\<close> (\<^verbatim>\<open>fs/vfs.c\<close>) with \<open>Memfs\<close>, \<open>Devfs\<close>, \<open>Tarfs\<close>, and \<open>Ftab\<close> (\<^verbatim>\<open>fs/ftab.c\<close>): path walks and
    symbolic links, what is read is what was written, an archive becomes a tree of its entries, and
    open files are counted. The handlers of a node are a record of optional functions, as in the code.
  \<^item> \<open>Process\<close> and \<open>Task\<close> (\<^verbatim>\<open>exec/process.c\<close>, \<^verbatim>\<open>exec/task.c\<close>, \<^verbatim>\<open>arch/x86cpu/task.c\<close>, \<^verbatim>\<open>exec/syscall.c\<close>),
    \<open>Timer\<close> (\<^verbatim>\<open>hal/timer.c\<close>): identifiers and descriptors are the lowest free ones, tasks form a ring, a
    switch saves and restores registers, and the task that has waited longest is scheduled next.
  \<^item> \<open>Elf\<close>, \<open>ElfFormat\<close>, \<open>ElfLoad\<close>, \<open>ElfMem\<close> (\<^verbatim>\<open>exec/elf.c\<close>, \<^verbatim>\<open>exec/elf32_types.h\<close>): the accepted headers, and
    what loading and relocation leave in the memory of the program.
  \<^item> \<open>Keyboard\<close> (\<^verbatim>\<open>hal/keyboard.c\<close>), \<open>Terminal\<close> (\<^verbatim>\<open>hal/terminal.c\<close>), \<open>VgaText\<close>
    (\<^verbatim>\<open>arch/x86/terminal_vgatext.c\<close>), \<open>Pixel\<close> and \<open>Fbuf\<close> (\<^verbatim>\<open>hal/fbuf.c\<close>), \<open>FbTerm\<close> (\<^verbatim>\<open>hal/term_fbuf.c\<close>),
    \<open>Serial\<close> (\<^verbatim>\<open>arch/x86/serial.c\<close>, \<^verbatim>\<open>hal/serial.c\<close>, \<^verbatim>\<open>hal/term_serial.c\<close>): the
    ring of events is a queue, both screens implement a grid of character cells, a pixel is read
    back as it was drawn, and a position on the screen of the serial terminal as it was sent.
  \<^item> \<open>Devtree\<close> (\<^verbatim>\<open>hal/devtree.c\<close>) and \<open>Pci\<close> (\<^verbatim>\<open>drivers/pci.c\<close>, \<^verbatim>\<open>arch/x86/pci.c\<close>): the scan finds exactly the
    functions that can be reached.
  \<^item> \<open>Mptab\<close> (\<^verbatim>\<open>arch/x86/mptab.c\<close>, \<^verbatim>\<open>arch/x86/bios.c\<close>): the table of buses, and when memory behind it is written.
  \<^item> \<open>Desctabs\<close> (\<^verbatim>\<open>arch/x86cpu/gdt.c\<close>, \<^verbatim>\<open>arch/x86cpu/idt.c\<close>) and \<open>Intc\<close> (\<^verbatim>\<open>arch/x86/i8259.c\<close>,
    \<^verbatim>\<open>arch/x86cpu/apic.c\<close>): segments and gates as the processor reads them, and which handlers run for
    an interrupt, with the 8259 as with the APICs.

  \<^bold>\<open>Conventions.\<close> Machine integers are words of their width. A pointer to a structure of the kernel is
  its number, \<open>None\<close> the null pointer; freed structures keep their contents. Records are extended
  along the dependencies of the components, and an operation works on every extension. Results in
  \<open>option\<close> are \<open>None\<close> where the code blocks, does not end or leaves the language (a null pointer or an index
  out of range); failures that the code reports are values. Allocators and \<open>krealloc\<close> answer from a list
  in the state, or by an argument, since they may fail at any time. Devices (page tables, ports, the
  8259, serial ports, configuration space) behave as their data sheets say; function pointers of drivers are
  parameters. Loops that may not end are \<open>partial_function\<close>s, and where they do end is proved. The
  recursion of the bus scan has a depth of 256, which suffices when every bridge leads to a bus of a
  higher number, since there are 256 buses; without that the code does not end.

  \<^bold>\<open>Not modelled.\<close> The heap, \<^verbatim>\<open>mm/malloc.c\<close> (the allocator of Doug Lea) with its glue \<^verbatim>\<open>mm/kheap.c\<close>, and
  the formatter \<^verbatim>\<open>lib/mp-printf.c\<close> are third-party code and enter as answers and as texts. \<^verbatim>\<open>lib/stdio.c\<close>
  passes characters between these and the terminal. ACPI (\<^verbatim>\<open>drivers/acpi*.c\<close>, \<^verbatim>\<open>acpi_lai.c\<close>) is glue for the
  library LAI, a submodule. The tables from which \<^verbatim>\<open>apic_init\<close> sets up the APICs, the APIC timer
  (calibrated in floating point), the clock and timer chips, the device files of
  the serial ports and the boot sequence are left out, as are the assembler entry points and the fonts and key maps, which are data.
\<close>

end
